(* ===== verification/Go_Prelude.thy ===== *)
theory Go_Prelude
  imports Main "HOL-Library.Word"
begin

unbundle bit_operations_syntax

text \<open>
  The shared vocabulary of the development: Go's byte slices, fixed-width integers,
  \<^verbatim>\<open>encoding/binary\<close>, entropy and signed remainder, with the generic lemmas the
  components use.

  A Go slice of bytes is a list of 8-bit words; the slice expression \<^verbatim>\<open>b[i:j]\<close> is
  \<open>bslice b i j\<close>.  A value of a Go integer type of width \<open>w\<close> is a \<open>w word\<close>; a signed
  type is read through \<open>sint\<close>.  A call that may fail returns a sum, \<open>Inl\<close> holding the
  error.  A read of \<open>n\<close> bytes from \<^verbatim>\<open>crypto/rand\<close> takes them from an explicit
  supply of entropy, and fails when the supply is short.
\<close>

named_theorems bytes_simps \<open>lengths and slices of byte strings\<close>
named_theorems codec_simps \<open>round trips of fixed-width integer encodings\<close>

type_synonym byte = "8 word"
type_synonym bytes = "byte list"
type_synonym u16 = "16 word"
type_synonym u32 = "32 word"
type_synonym u64 = "64 word"

section \<open>Slices\<close>

definition bslice :: "'a list \<Rightarrow> nat \<Rightarrow> nat \<Rightarrow> 'a list" where
  "bslice b i j = take (j - i) (drop i b)"

definition xor_bytes :: "bytes \<Rightarrow> bytes \<Rightarrow> bytes" where
  "xor_bytes a b = map2 (XOR) a b"

text \<open>\<^verbatim>\<open>crypto/rand.Read\<close> and \<^verbatim>\<open>io.ReadFull\<close> take a fixed number of bytes off a source.\<close>

definition read_full :: "nat \<Rightarrow> bytes \<Rightarrow> (bytes \<times> bytes) option" where
  "read_full n src = (if n \<le> length src then Some (take n src, drop n src) else None)"

text \<open>A byte string cut into pieces of \<open>n\<close> bytes, the last one possibly shorter.\<close>

function chunks :: "nat \<Rightarrow> 'a list \<Rightarrow> 'a list list" where
  "chunks n xs = (if n = 0 \<or> xs = [] then [] else take n xs # chunks n (drop n xs))"
  by pat_completeness auto
termination
  by (relation "measure (\<lambda>(n, xs). length xs)") (auto simp: length_greater_0_conv [symmetric] simp del: length_greater_0_conv)

declare chunks.simps [simp del]

section \<open>Integers on the wire (encoding/binary)\<close>

fun put_le :: "nat \<Rightarrow> 'a::len word \<Rightarrow> bytes" where
  "put_le 0 w = []"
| "put_le (Suc n) w = ucast w # put_le n (drop_bit 8 w)"

fun get_le :: "bytes \<Rightarrow> 'a::len word" where
  "get_le [] = 0"
| "get_le (b # bs) = ucast b OR push_bit 8 (get_le bs)"

definition put_be :: "nat \<Rightarrow> 'a::len word \<Rightarrow> bytes" where
  "put_be n w = rev (put_le n w)"

definition get_be :: "bytes \<Rightarrow> 'a::len word" where
  "get_be bs = get_le (rev bs)"

section \<open>Signed arithmetic\<close>

text \<open>Go's \<^verbatim>\<open>%\<close> truncates towards zero: the result has the sign of the dividend.\<close>

definition go_rem :: "int \<Rightarrow> int \<Rightarrow> int" where
  "go_rem a b = sgn a * (\<bar>a\<bar> mod \<bar>b\<bar>)"

text \<open>Go's \<^verbatim>\<open>/\<close> on signed integers truncates towards zero as well.\<close>

definition go_quot :: "int \<Rightarrow> int \<Rightarrow> int" where
  "go_quot a b = sgn a * sgn b * (\<bar>a\<bar> div \<bar>b\<bar>)"

section \<open>Decimal rendering (the \<^verbatim>\<open>%d\<close> verb of package fmt)\<close>

definition digit_char :: "nat \<Rightarrow> char" where
  "digit_char d = ''0123456789'' ! d"

fun itoa_nat :: "nat \<Rightarrow> string" where
  "itoa_nat n = (if n < 10 then [digit_char n] else itoa_nat (n div 10) @ [digit_char (n mod 10)])"

declare itoa_nat.simps [simp del]

definition itoa :: "int \<Rightarrow> string" where
  "itoa i = (if i < 0 then CHR ''-'' # itoa_nat (nat (- i)) else itoa_nat (nat i))"

definition atoi_nat :: "string \<Rightarrow> nat" where
  "atoi_nat s = foldl (\<lambda>acc c. 10 * acc + (of_char c - 48)) 0 s"

section \<open>Lemmas on slices\<close>

lemma length_bslice [bytes_simps, simp]: "length (bslice b i j) = min (j - i) (length b - i)"
  by (simp add: bslice_def)

lemma bslice_0 [simp]: "bslice b 0 n = take n b"
  by (simp add: bslice_def)

lemma bslice_append_left: "j \<le> length a \<Longrightarrow> bslice (a @ b) i j = bslice a i j"
  by (simp add: bslice_def)

lemma bslice_append_right: "length a \<le> i \<Longrightarrow> bslice (a @ b) i j = bslice b (i - length a) (j - length a)"
  by (simp add: bslice_def)

lemma bslice_exact: "length a = i \<Longrightarrow> i + length b = j \<Longrightarrow> bslice (a @ b @ c) i j = b"
  by (auto simp: bslice_def)

lemma bslice_all [simp]: "length b \<le> j \<Longrightarrow> bslice b 0 j = b"
  by simp

lemma bslice_join: "i \<le> j \<Longrightarrow> j \<le> k \<Longrightarrow> bslice b i j @ bslice b j k = bslice b i k"
proof -
  assume ij: "i \<le> j" and jk: "j \<le> k"
  have "take (k - i) (drop i b) = take ((j - i) + (k - j)) (drop i b)" using ij jk by simp
  also have "\<dots> = take (j - i) (drop i b) @ take (k - j) (drop j b)"
    unfolding take_add using ij by simp
  finally show ?thesis by (simp add: bslice_def)
qed

lemma bslice_drop: "i \<le> j \<Longrightarrow> bslice b i j @ drop j b = drop i b"
  by (metis bslice_def append_take_drop_id drop_drop le_add_diff_inverse2)

lemma take_bslice: "i \<le> j \<Longrightarrow> take i b @ bslice b i j = take j b"
  by (metis bslice_def le_add_diff_inverse take_add)

lemma length_xor_bytes [bytes_simps, simp]: "length (xor_bytes a b) = min (length a) (length b)"
  by (simp add: xor_bytes_def)

lemma xor_bytes_cancel: "length a = length b \<Longrightarrow> xor_bytes (xor_bytes a b) b = a"
  by (induction a b rule: list_induct2) (simp_all add: xor_bytes_def xor.assoc)

lemma read_full_Some_iff:
  "read_full n src = Some (a, r) \<longleftrightarrow> src = a @ r \<and> length a = n"
  by (auto simp: read_full_def)

lemma read_full_append [simp]: "length a = n \<Longrightarrow> read_full n (a @ r) = Some (a, r)"
  by (simp add: read_full_Some_iff)

lemma read_full_None_iff: "read_full n src = None \<longleftrightarrow> length src < n"
  by (simp add: read_full_def)

lemma chunks_Nil [simp]: "chunks n [] = []"
  by (simp add: chunks.simps)

lemma chunks_append: "length a = n \<Longrightarrow> 0 < n \<Longrightarrow> chunks n (a @ b) = a # chunks n b"
  by (subst chunks.simps) auto

lemma concat_chunks: "0 < n \<Longrightarrow> concat (chunks n xs) = xs"
proof (induction n xs rule: chunks.induct)
  case (1 n xs)
  then show ?case by (cases "xs = []") (simp_all add: chunks.simps [of n xs])
qed

lemma length_in_chunks:
  "n dvd length xs \<Longrightarrow> b \<in> set (chunks n xs) \<Longrightarrow> length b = n"
proof (induction n xs rule: chunks.induct)
  case (1 n xs)
  show ?case
  proof (cases "n = 0 \<or> xs = []")
    case True
    with 1 show ?thesis by (auto simp: chunks.simps [of n xs])
  next
    case False
    with "1.prems"(1) have "n \<le> length xs" by (auto dest: dvd_imp_le)
    moreover from "1.prems"(1) have "n dvd length (drop n xs)" by (simp add: dvd_diff_nat)
    ultimately show ?thesis using 1 False by (auto simp: chunks.simps [of n xs])
  qed
qed

lemma concat_take_chunks_eq:
  "(\<And>b. b \<in> set bs \<Longrightarrow> length b = n) \<Longrightarrow> 0 < n \<Longrightarrow> chunks n (concat bs) = bs"
  by (induction bs) (simp_all add: chunks_append)

lemma Some_eq_map_option_iff: "Some x = map_option f r \<longleftrightarrow> (\<exists>y. r = Some y \<and> x = f y)"
  by (cases r) auto

section \<open>Lemmas on integer encodings\<close>

lemma length_put_le [bytes_simps, simp]: "length (put_le n w) = n"
  by (induction n arbitrary: w) simp_all

lemma length_put_be [bytes_simps, simp]: "length (put_be n w) = n"
  by (simp add: put_be_def)

lemma bit_get_le:
  "bit (get_le bs :: 'a::len word) i \<longleftrightarrow>
     i < LENGTH('a) \<and> i < 8 * length bs \<and> bit (bs ! (i div 8)) (i mod 8)"
proof (induction bs arbitrary: i)
  case Nil
  then show ?case by simp
next
  case (Cons b bs)
  have "bit b i \<Longrightarrow> i < 8"
    using bit_imp_le_length [of b i] by simp
  then show ?case
    using Cons [of "i - 8"]
    by (auto simp: bit_or_iff bit_push_bit_iff bit_ucast_iff nth_Cons' div_if [of i 8] mod_if [of i 8])
qed

lemma nth_put_le: "k < n \<Longrightarrow> put_le n w ! k = ucast (drop_bit (8 * k) w)"
proof (induction n arbitrary: k w)
  case 0
  then show ?case by simp
next
  case (Suc n)
  then show ?case by (cases k) (simp_all add: add.commute)
qed

lemma get_put_le [codec_simps]:
  assumes "LENGTH('a) \<le> 8 * n"
  shows "get_le (put_le n (w :: 'a::len word)) = w"
proof (rule bit_word_eqI)
  fix i assume i: "i < LENGTH('a)"
  with assms have "i div 8 < n" by simp
  then show "bit (get_le (put_le n w) :: 'a word) i = bit w i"
    using i assms by (simp add: bit_get_le nth_put_le bit_ucast_iff bit_drop_bit_eq)
qed

lemma get_put_be [codec_simps]:
  "LENGTH('a) \<le> 8 * n \<Longrightarrow> get_be (put_be n (w :: 'a::len word)) = w"
  by (simp add: get_be_def put_be_def get_put_le)

lemma put_get_le:
  assumes "8 * length bs \<le> LENGTH('a)"
  shows "put_le (length bs) (get_le bs :: 'a::len word) = bs"
proof (rule nth_equalityI)
  show "length (put_le (length bs) (get_le bs :: 'a word)) = length bs" by simp
next
  fix k assume "k < length (put_le (length bs) (get_le bs :: 'a word))"
  then have k: "k < length bs" by simp
  show "put_le (length bs) (get_le bs :: 'a word) ! k = bs ! k"
  proof (rule bit_word_eqI)
    fix i assume "i < LENGTH(8)"
    with k assms show "bit (put_le (length bs) (get_le bs :: 'a word) ! k) i = bit (bs ! k) i"
      by (auto simp: nth_put_le bit_ucast_iff bit_drop_bit_eq bit_get_le)
  qed
qed

lemma put_get_be:
  "8 * length bs \<le> LENGTH('a) \<Longrightarrow> put_be (length bs) (get_be bs :: 'a::len word) = bs"
  using put_get_le [of "rev bs", where 'a = 'a] by (simp add: put_be_def get_be_def)

lemma put_le_inject:
  "LENGTH('a) \<le> 8 * n \<Longrightarrow> put_le n (v :: 'a::len word) = put_le n w \<longleftrightarrow> v = w"
  by (metis get_put_le)

lemma put_be_inject:
  "LENGTH('a) \<le> 8 * n \<Longrightarrow> put_be n (v :: 'a::len word) = put_be n w \<longleftrightarrow> v = w"
  by (metis get_put_be)

lemma unat_of_nat_small: "n < 2 ^ LENGTH('a) \<Longrightarrow> unat (of_nat n :: 'a::len word) = n"
  by (simp add: unat_of_nat take_bit_nat_eq_self)

lemma high_bit_clear:
  assumes "unat (w :: 'a::len word) < 2 ^ n"
  shows "w AND 2 ^ n = 0"
proof -
  have "\<not> bit (unat w) n"
    using assms by (simp add: bit_iff_odd)
  then have "\<not> bit w n" by (simp add: bit_unsigned_iff)
  then show ?thesis by (simp add: and_exp_eq_0_iff_not_bit)
qed

text \<open>Three little-endian bytes hold a number below \<open>2^24\<close>.\<close>

lemma le_bytes_24:
  assumes "n < 2 ^ 24"
  shows "ucast (of_nat n :: byte) OR push_bit 8 (ucast (of_nat (n div 2 ^ 8) :: byte))
           OR push_bit 16 (ucast (of_nat (n div 2 ^ 16) :: byte)) = (of_nat n :: u32)"
proof (rule bit_word_eqI)
  fix i assume i: "i < LENGTH(32)"
  have big: "bit n i \<Longrightarrow> i < 24"
    using assms by (metis bit_nat_iff bit_take_bit_iff take_bit_nat_eq_self_iff)
  have sh: "bit (n div 2 ^ k) j \<longleftrightarrow> bit n (k + j)" for k j
    by (simp add: drop_bit_eq_div [symmetric] bit_drop_bit_eq)
  have "i < 8 \<or> (8 \<le> i \<and> i < 16) \<or> (16 \<le> i \<and> i < 24) \<or> 24 \<le> i" by arith
  then show "bit (ucast (of_nat n :: byte) OR push_bit 8 (ucast (of_nat (n div 2 ^ 8) :: byte))
           OR push_bit 16 (ucast (of_nat (n div 2 ^ 16) :: byte)) :: u32) i = bit (of_nat n :: u32) i"
    using i big sh [of 8 "i - 8"] sh [of 16 "i - 16"]
    by (auto simp: bit_simps simp del: power_numeral)
qed

section \<open>Lemmas on decimal rendering\<close>

lemma of_digit_char: "d < 10 \<Longrightarrow> of_char (digit_char d) = (48 + d :: nat)"
proof -
  assume "d < 10"
  then have "d = 0 \<or> d = 1 \<or> d = 2 \<or> d = 3 \<or> d = 4 \<or> d = 5 \<or> d = 6 \<or> d = 7 \<or> d = 8 \<or> d = 9" by arith
  then show ?thesis by (auto simp: digit_char_def)
qed

lemma atoi_itoa_nat: "atoi_nat (itoa_nat n) = n"
proof (induction n rule: itoa_nat.induct)
  case (1 n)
  then show ?case by (subst itoa_nat.simps) (auto simp: atoi_nat_def of_digit_char)
qed

lemma itoa_nat_digits: "c \<in> set (itoa_nat n) \<Longrightarrow> \<exists>d < 10. c = digit_char d"
proof (induction n rule: itoa_nat.induct)
  case (1 n)
  then show ?case
    by (subst (asm) (2) itoa_nat.simps) (auto split: if_splits intro: exI [of _ n] exI [of _ "n mod 10"])
qed

lemma minus_not_digit: "d < 10 \<Longrightarrow> digit_char d \<noteq> CHR ''-''"
  using of_digit_char [of d] by auto

lemma itoa_inject: "itoa i = itoa j \<longleftrightarrow> i = j"
proof -
  have n: "CHR ''-'' # s \<noteq> itoa_nat k" for s k
    using itoa_nat_digits [of "CHR ''-''" k] minus_not_digit by (metis list.set_intros(1))
  have inj: "itoa_nat a = itoa_nat b \<longleftrightarrow> a = b" for a b
    by (metis atoi_itoa_nat)
  show ?thesis by (auto simp: itoa_def n n [symmetric] inj nat_eq_iff)
qed

lemma itoa_nat_ne_Nil [simp]: "itoa_nat n \<noteq> []"
  by (subst itoa_nat.simps) simp

end
