(* ===== verification/Go_Crypto.thy ===== *)
theory Go_Crypto
  imports Go_Prelude
begin

unbundle bit_operations_syntax

text \<open>
  The primitives of Go's standard library that the protocol rests on, written out from their
  standards so that they compute: AES (FIPS 197, every key size \<^verbatim>\<open>aes.NewCipher\<close> takes), its
  counter mode (\<^verbatim>\<open>cipher.NewCTR\<close>), SHA-1 and SHA-256 (FIPS 180-4) and CRC-32 with the IEEE
  polynomial (\<^verbatim>\<open>hash/crc32\<close>).  None of them is code of the repository; the components below
  call them the way the Go sources call the library.  What is proved here is what those
  components need: decryption undoes encryption, counter mode is its own inverse, and the
  lengths of digests and blocks.
\<close>

section \<open>AES\<close>

definition aes_sbox :: "byte list" where
  "aes_sbox = [
    99, 124, 119, 123, 242, 107, 111, 197, 48, 1, 103, 43, 254, 215, 171, 118,
    202, 130, 201, 125, 250, 89, 71, 240, 173, 212, 162, 175, 156, 164, 114, 192,
    183, 253, 147, 38, 54, 63, 247, 204, 52, 165, 229, 241, 113, 216, 49, 21,
    4, 199, 35, 195, 24, 150, 5, 154, 7, 18, 128, 226, 235, 39, 178, 117,
    9, 131, 44, 26, 27, 110, 90, 160, 82, 59, 214, 179, 41, 227, 47, 132,
    83, 209, 0, 237, 32, 252, 177, 91, 106, 203, 190, 57, 74, 76, 88, 207,
    208, 239, 170, 251, 67, 77, 51, 133, 69, 249, 2, 127, 80, 60, 159, 168,
    81, 163, 64, 143, 146, 157, 56, 245, 188, 182, 218, 33, 16, 255, 243, 210,
    205, 12, 19, 236, 95, 151, 68, 23, 196, 167, 126, 61, 100, 93, 25, 115,
    96, 129, 79, 220, 34, 42, 144, 136, 70, 238, 184, 20, 222, 94, 11, 219,
    224, 50, 58, 10, 73, 6, 36, 92, 194, 211, 172, 98, 145, 149, 228, 121,
    231, 200, 55, 109, 141, 213, 78, 169, 108, 86, 244, 234, 101, 122, 174, 8,
    186, 120, 37, 46, 28, 166, 180, 198, 232, 221, 116, 31, 75, 189, 139, 138,
    112, 62, 181, 102, 72, 3, 246, 14, 97, 53, 87, 185, 134, 193, 29, 158,
    225, 248, 152, 17, 105, 217, 142, 148, 155, 30, 135, 233, 206, 85, 40, 223,
    140, 161, 137, 13, 191, 230, 66, 104, 65, 153, 45, 15, 176, 84, 187, 22]"

definition aes_inv_sbox :: "byte list" where
  "aes_inv_sbox = [
    82, 9, 106, 213, 48, 54, 165, 56, 191, 64, 163, 158, 129, 243, 215, 251,
    124, 227, 57, 130, 155, 47, 255, 135, 52, 142, 67, 68, 196, 222, 233, 203,
    84, 123, 148, 50, 166, 194, 35, 61, 238, 76, 149, 11, 66, 250, 195, 78,
    8, 46, 161, 102, 40, 217, 36, 178, 118, 91, 162, 73, 109, 139, 209, 37,
    114, 248, 246, 100, 134, 104, 152, 22, 212, 164, 92, 204, 93, 101, 182, 146,
    108, 112, 72, 80, 253, 237, 185, 218, 94, 21, 70, 87, 167, 141, 157, 132,
    144, 216, 171, 0, 140, 188, 211, 10, 247, 228, 88, 5, 184, 179, 69, 6,
    208, 44, 30, 143, 202, 63, 15, 2, 193, 175, 189, 3, 1, 19, 138, 107,
    58, 145, 17, 65, 79, 103, 220, 234, 151, 242, 207, 206, 240, 180, 230, 115,
    150, 172, 116, 34, 231, 173, 53, 133, 226, 249, 55, 232, 28, 117, 223, 110,
    71, 241, 26, 113, 29, 41, 197, 137, 111, 183, 98, 14, 170, 24, 190, 27,
    252, 86, 62, 75, 198, 210, 121, 32, 154, 219, 192, 254, 120, 205, 90, 244,
    31, 221, 168, 51, 136, 7, 199, 49, 177, 18, 16, 89, 39, 128, 236, 95,
    96, 81, 127, 169, 25, 181, 74, 13, 45, 229, 122, 159, 147, 201, 156, 239,
    160, 224, 59, 77, 174, 42, 245, 176, 200, 235, 187, 60, 131, 83, 153, 97,
    23, 43, 4, 126, 186, 119, 214, 38, 225, 105, 20, 99, 85, 33, 12, 125]"

definition sub_byte :: "byte \<Rightarrow> byte" where
  "sub_byte b = aes_sbox ! unat b"

definition inv_sub_byte :: "byte \<Rightarrow> byte" where
  "inv_sub_byte b = aes_inv_sbox ! unat b"

text \<open>The state is a block of 16 bytes in column order; rows are rotated by a permutation.\<close>

definition shift_rows :: "bytes \<Rightarrow> bytes" where
  "shift_rows s = map (\<lambda>i. s ! i) [0, 5, 10, 15, 4, 9, 14, 3, 8, 13, 2, 7, 12, 1, 6, 11]"

definition inv_shift_rows :: "bytes \<Rightarrow> bytes" where
  "inv_shift_rows s = map (\<lambda>i. s ! i) [0, 13, 10, 7, 4, 1, 14, 11, 8, 5, 2, 15, 12, 9, 6, 3]"

definition xtime :: "byte \<Rightarrow> byte" where
  "xtime b = push_bit 1 b XOR (if bit b 7 then 0x1b else 0)"

fun mix_columns :: "bytes \<Rightarrow> bytes" where
  "mix_columns (a # b # c # d # s) =
     (xtime a XOR (xtime b XOR b) XOR c XOR d)
     # (a XOR xtime b XOR (xtime c XOR c) XOR d)
     # (a XOR b XOR xtime c XOR (xtime d XOR d))
     # ((xtime a XOR a) XOR b XOR c XOR xtime d)
     # mix_columns s"
| "mix_columns _ = []"

definition mul9 :: "byte \<Rightarrow> byte" where
  "mul9 b = xtime (xtime (xtime b)) XOR b"

definition mul11 :: "byte \<Rightarrow> byte" where
  "mul11 b = xtime (xtime (xtime b)) XOR xtime b XOR b"

definition mul13 :: "byte \<Rightarrow> byte" where
  "mul13 b = xtime (xtime (xtime b)) XOR xtime (xtime b) XOR b"

definition mul14 :: "byte \<Rightarrow> byte" where
  "mul14 b = xtime (xtime (xtime b)) XOR xtime (xtime b) XOR xtime b"

fun inv_mix_columns :: "bytes \<Rightarrow> bytes" where
  "inv_mix_columns (a # b # c # d # s) =
     (mul14 a XOR mul11 b XOR mul13 c XOR mul9 d)
     # (mul9 a XOR mul14 b XOR mul11 c XOR mul13 d)
     # (mul13 a XOR mul9 b XOR mul14 c XOR mul11 d)
     # (mul11 a XOR mul13 b XOR mul9 c XOR mul14 d)
     # inv_mix_columns s"
| "inv_mix_columns _ = []"

text \<open>The key schedule: \<open>length key div 4\<close> words of key, six rounds more than that.\<close>

definition aes_rcon :: "nat \<Rightarrow> byte" where
  "aes_rcon i = (xtime ^^ (i - 1)) 1"

definition aes_next_word :: "nat \<Rightarrow> nat \<Rightarrow> bytes list \<Rightarrow> bytes" where
  "aes_next_word nk i ws =
     (let t = ws ! (i - 1);
          t' = (if i mod nk = 0
                then xor_bytes (map sub_byte (rotate1 t)) [aes_rcon (i div nk), 0, 0, 0]
                else if 6 < nk \<and> i mod nk = 4 then map sub_byte t
                else t)
      in xor_bytes (ws ! (i - nk)) t')"

definition aes_key_words :: "bytes \<Rightarrow> bytes list" where
  "aes_key_words key =
     (let nk = length key div 4
      in fold (\<lambda>i ws. ws @ [aes_next_word nk i ws]) [nk ..< 4 * (nk + 7)] (chunks 4 key))"

definition aes_round_keys :: "bytes \<Rightarrow> bytes list" where
  "aes_round_keys key = chunks 16 (concat (aes_key_words key))"

definition aes_round :: "bytes \<Rightarrow> bytes \<Rightarrow> bytes" where
  "aes_round k s = xor_bytes (mix_columns (shift_rows (map sub_byte s))) k"

definition aes_inv_round :: "bytes \<Rightarrow> bytes \<Rightarrow> bytes" where
  "aes_inv_round k s = map inv_sub_byte (inv_shift_rows (inv_mix_columns (xor_bytes s k)))"

definition aes_encrypt :: "bytes \<Rightarrow> bytes \<Rightarrow> bytes" where
  "aes_encrypt key block =
     (let ks = aes_round_keys key;
          s = fold aes_round (butlast (tl ks)) (xor_bytes block (hd ks))
      in xor_bytes (shift_rows (map sub_byte s)) (last ks))"

definition aes_decrypt :: "bytes \<Rightarrow> bytes \<Rightarrow> bytes" where
  "aes_decrypt key block =
     (let ks = aes_round_keys key;
          s = map inv_sub_byte (inv_shift_rows (xor_bytes block (last ks)))
      in xor_bytes (foldr aes_inv_round (butlast (tl ks)) s) (hd ks))"

text \<open>\<^verbatim>\<open>aes.NewCipher\<close> takes keys of 16, 24 or 32 bytes.\<close>

definition aes_key_ok :: "bytes \<Rightarrow> bool" where
  "aes_key_ok key \<longleftrightarrow> length key = 16 \<or> length key = 24 \<or> length key = 32"

section \<open>Counter mode\<close>

record ctr_stream =
  ctr_key :: bytes
  ctr_iv :: bytes
  ctr_pos :: nat

definition ctr_byte :: "ctr_stream \<Rightarrow> nat \<Rightarrow> byte" where
  "ctr_byte st i =
     aes_encrypt (ctr_key st) (put_be 16 (get_be (ctr_iv st) + of_nat (i div 16) :: 128 word)) ! (i mod 16)"

text \<open>\<^verbatim>\<open>XORKeyStream\<close> advances the stream by the length of its input.\<close>

definition xor_key_stream :: "ctr_stream \<Rightarrow> bytes \<Rightarrow> bytes \<times> ctr_stream" where
  "xor_key_stream st src =
     (xor_bytes src (map (ctr_byte st) [ctr_pos st ..< ctr_pos st + length src]),
      st\<lparr>ctr_pos := ctr_pos st + length src\<rparr>)"

section \<open>SHA-1 and SHA-256\<close>

definition sha_pad :: "bytes \<Rightarrow> bytes" where
  "sha_pad m = m @ [0x80] @ replicate ((119 - length m mod 64) mod 64) 0
                 @ put_be 8 (of_nat (8 * length m) :: u64)"

definition sha_words :: "bytes \<Rightarrow> u32 list" where
  "sha_words block = map get_be (chunks 4 block)"

definition sha1_schedule :: "bytes \<Rightarrow> u32 list" where
  "sha1_schedule block =
     fold (\<lambda>i ws. ws @ [word_rotl 1 (ws ! (i - 3) XOR ws ! (i - 8) XOR ws ! (i - 14) XOR ws ! (i - 16))])
       [16 ..< 80] (sha_words block)"

definition sha1_step :: "nat \<times> u32 \<Rightarrow> u32 \<times> u32 \<times> u32 \<times> u32 \<times> u32 \<Rightarrow> u32 \<times> u32 \<times> u32 \<times> u32 \<times> u32" where
  "sha1_step = (\<lambda>(i, w) (a, b, c, d, e).
     let (f, k) = (if i < 20 then ((b AND c) OR (NOT b AND d), 0x5a827999)
                   else if i < 40 then (b XOR c XOR d, 0x6ed9eba1)
                   else if i < 60 then ((b AND c) OR (b AND d) OR (c AND d), 0x8f1bbcdc)
                   else (b XOR c XOR d, 0xca62c1d6))
     in (word_rotl 5 a + f + e + k + w, a, word_rotl 30 b, c, d))"

definition sha1_compress :: "bytes \<Rightarrow> u32 \<times> u32 \<times> u32 \<times> u32 \<times> u32 \<Rightarrow> u32 \<times> u32 \<times> u32 \<times> u32 \<times> u32" where
  "sha1_compress block = (\<lambda>(a, b, c, d, e).
     let (a', b', c', d', e') = fold sha1_step (enumerate 0 (sha1_schedule block)) (a, b, c, d, e)
     in (a + a', b + b', c + c', d + d', e + e'))"

definition sha1 :: "bytes \<Rightarrow> bytes" where
  "sha1 m =
     (case fold sha1_compress (chunks 64 (sha_pad m))
        (0x67452301, 0xefcdab89, 0x98badcfe, 0x10325476, 0xc3d2e1f0) of
      (a, b, c, d, e) \<Rightarrow> concat (map (put_be 4) [a, b, c, d, e]))"

definition sha256_k :: "u32 list" where
  "sha256_k = [
    1116352408, 1899447441, 3049323471, 3921009573, 961987163, 1508970993,
    2453635748, 2870763221, 3624381080, 310598401, 607225278, 1426881987,
    1925078388, 2162078206, 2614888103, 3248222580, 3835390401, 4022224774,
    264347078, 604807628, 770255983, 1249150122, 1555081692, 1996064986,
    2554220882, 2821834349, 2952996808, 3210313671, 3336571891, 3584528711,
    113926993, 338241895, 666307205, 773529912, 1294757372, 1396182291,
    1695183700, 1986661051, 2177026350, 2456956037, 2730485921, 2820302411,
    3259730800, 3345764771, 3516065817, 3600352804, 4094571909, 275423344,
    430227734, 506948616, 659060556, 883997877, 958139571, 1322822218,
    1537002063, 1747873779, 1955562222, 2024104815, 2227730452, 2361852424,
    2428436474, 2756734187, 3204031479, 3329325298]"

definition sha256_schedule :: "bytes \<Rightarrow> u32 list" where
  "sha256_schedule block =
     fold (\<lambda>i ws.
       let x = ws ! (i - 15); y = ws ! (i - 2);
           s0 = word_rotr 7 x XOR word_rotr 18 x XOR drop_bit 3 x;
           s1 = word_rotr 17 y XOR word_rotr 19 y XOR drop_bit 10 y
       in ws @ [ws ! (i - 16) + s0 + ws ! (i - 7) + s1]) [16 ..< 64] (sha_words block)"

definition sha256_step :: "u32 \<times> u32 \<Rightarrow> u32 list \<Rightarrow> u32 list" where
  "sha256_step = (\<lambda>(k, w) h.
     let a = h ! 0; b = h ! 1; c = h ! 2; d = h ! 3; e = h ! 4; f = h ! 5; g = h ! 6;
         s1 = word_rotr 6 e XOR word_rotr 11 e XOR word_rotr 25 e;
         ch = (e AND f) XOR (NOT e AND g);
         t1 = h ! 7 + s1 + ch + k + w;
         s0 = word_rotr 2 a XOR word_rotr 13 a XOR word_rotr 22 a;
         maj = (a AND b) XOR (a AND c) XOR (b AND c)
     in [t1 + (s0 + maj), a, b, c, d + t1, e, f, g])"

definition sha256_compress :: "bytes \<Rightarrow> u32 list \<Rightarrow> u32 list" where
  "sha256_compress block h = map2 (+) h (fold sha256_step (zip sha256_k (sha256_schedule block)) h)"

definition sha256_init :: "u32 list" where
  "sha256_init = [
    1779033703, 3144134277, 1013904242, 2773480762, 1359893119, 2600822924,
    528734635, 1541459225]"

definition sha256 :: "bytes \<Rightarrow> bytes" where
  "sha256 m = concat (map (put_be 4) (fold sha256_compress (chunks 64 (sha_pad m)) sha256_init))"

section \<open>CRC-32\<close>

definition crc32_bit :: "u32 \<Rightarrow> u32" where
  "crc32_bit c = (if bit c 0 then drop_bit 1 c XOR 0xedb88320 else drop_bit 1 c)"

definition crc32_byte :: "byte \<Rightarrow> u32 \<Rightarrow> u32" where
  "crc32_byte b c = (crc32_bit ^^ 8) (c XOR ucast b)"

definition crc32_ieee :: "bytes \<Rightarrow> u32" where
  "crc32_ieee bs = NOT (fold crc32_byte bs (NOT 0))"

section \<open>The rounds are invertible\<close>

lemma inv_sub_byte_table:
  "list_all (\<lambda>i. inv_sub_byte (sub_byte (of_nat i)) = of_nat i) [0 ..< 256]"
  by code_simp

lemma inv_sub_byte_sub_byte [simp]: "inv_sub_byte (sub_byte b) = b"
proof -
  have "unat b < 2 ^ LENGTH(8)" by (rule unsigned_less)
  then have "unat b \<in> set [0 ..< 256]" by simp
  with inv_sub_byte_table have "inv_sub_byte (sub_byte (of_nat (unat b))) = of_nat (unat b)"
    unfolding list_all_iff by blast
  then show ?thesis by simp
qed

lemma inv_sub_byte_comp [simp]: "inv_sub_byte \<circ> sub_byte = id"
  by (simp add: fun_eq_iff)

lemma inv_shift_rows_shift_rows: "length s = 16 \<Longrightarrow> inv_shift_rows (shift_rows s) = s"
  by (rule nth_equalityI) (auto simp: inv_shift_rows_def shift_rows_def less_Suc_eq numeral_eq_Suc)

lemma xtime_xor: "xtime (a XOR b) = xtime a XOR xtime b"
  by (auto simp: xtime_def push_bit_xor bit_xor_iff ac_simps)

lemma xor_left_cancel: "a XOR (a XOR b) = (b :: byte)"
  by (simp add: xor.assoc [symmetric])

lemmas aes_mul_defs = mul9_def mul11_def mul13_def mul14_def

lemma inv_mix_columns_mix_columns:
  "length s mod 4 = 0 \<Longrightarrow> inv_mix_columns (mix_columns s) = s"
  by (induction s rule: mix_columns.induct)
     (simp_all add: aes_mul_defs xtime_xor ac_simps xor_left_cancel)

section \<open>Lengths\<close>

lemma length_shift_rows [bytes_simps, simp]: "length (shift_rows s) = 16"
  by (simp add: shift_rows_def)

lemma length_inv_shift_rows [bytes_simps, simp]: "length (inv_shift_rows s) = 16"
  by (simp add: inv_shift_rows_def)

lemma length_mix_columns [bytes_simps, simp]: "length (mix_columns s) = 4 * (length s div 4)"
  by (induction s rule: mix_columns.induct) (simp_all add: div_add_self1)

lemma length_inv_mix_columns [bytes_simps, simp]: "length (inv_mix_columns s) = 4 * (length s div 4)"
  by (induction s rule: inv_mix_columns.induct) (simp_all add: div_add_self1)

lemma length_aes_round [bytes_simps, simp]: "length k = 16 \<Longrightarrow> length (aes_round k s) = 16"
  by (simp add: aes_round_def)

lemma length_aes_inv_round [bytes_simps, simp]: "length (aes_inv_round k s) = 16"
  by (simp add: aes_inv_round_def)

section \<open>The key schedule\<close>

lemma aes_next_word_length:
  assumes "\<forall>w \<in> set ws. length w = 4" and "0 < nk" and "nk \<le> i" and "i = length ws"
  shows "length (aes_next_word nk i ws) = 4"
proof -
  from assms have "ws ! (i - 1) \<in> set ws" and "ws ! (i - nk) \<in> set ws"
    by (simp_all add: nth_mem)
  with assms(1) show ?thesis by (simp add: aes_next_word_def Let_def)
qed

lemma aes_expand_lengths:
  assumes "\<forall>w \<in> set ws. length w = 4" and "0 < nk" and "nk \<le> length ws"
  shows "(\<forall>w \<in> set (fold (\<lambda>i ws. ws @ [aes_next_word nk i ws]) [length ws ..< length ws + n] ws). length w = 4)
       \<and> length (fold (\<lambda>i ws. ws @ [aes_next_word nk i ws]) [length ws ..< length ws + n] ws) = length ws + n"
proof (induction n)
  case 0
  with assms show ?case by simp
next
  case (Suc n)
  let ?f = "fold (\<lambda>i ws. ws @ [aes_next_word nk i ws]) [length ws ..< length ws + n] ws"
  from Suc have "length (aes_next_word nk (length ws + n) ?f) = 4"
    using assms by (intro aes_next_word_length) auto
  with Suc show ?case by auto
qed

lemma aes_key_words_lengths:
  assumes "aes_key_ok key"
  shows "(\<forall>w \<in> set (aes_key_words key). length w = 4)
       \<and> length (aes_key_words key) = 4 * (length key div 4 + 7)"
proof -
  have c: "concat (chunks 4 key) = key" by (simp add: concat_chunks)
  from assms have "4 dvd length key" by (auto simp: aes_key_ok_def)
  then have w: "\<forall>w \<in> set (chunks 4 key). length w = 4"
    by (simp add: length_in_chunks)
  then have "sum_list (map length (chunks 4 key)) = 4 * length (chunks 4 key)"
    by (induction "chunks 4 key") (simp_all add: sum_list_triv map_idI cong: map_cong)
  with c have n: "length (chunks 4 key) = length key div 4"
    by (metis length_concat nonzero_mult_div_cancel_left zero_neq_numeral)
  define nk where "nk = length key div 4"
  define m where "m = 28 + 3 * nk"
  from assms have "0 < nk" by (auto simp: aes_key_ok_def nk_def)
  moreover have e: "nk + m = 4 * (nk + 7)" by (simp add: m_def)
  ultimately show ?thesis
    using aes_expand_lengths [OF w, of nk m]
    unfolding aes_key_words_def Let_def n nk_def [symmetric] e by simp
qed

lemma aes_round_keys_lengths:
  assumes "aes_key_ok key"
  shows "\<forall>k \<in> set (aes_round_keys key). length k = 16" and "2 \<le> length (aes_round_keys key)"
proof -
  let ?ws = "aes_key_words key"
  from aes_key_words_lengths [OF assms]
  have "sum_list (map length ?ws) = 4 * length ?ws"
    by (induction ?ws) (simp_all add: sum_list_triv cong: map_cong)
  with aes_key_words_lengths [OF assms] have l: "length (concat ?ws) = 16 * (length key div 4 + 7)"
    by (simp add: length_concat)
  then have "16 dvd length (concat ?ws)" by simp
  then show r: "\<forall>k \<in> set (aes_round_keys key). length k = 16"
    by (auto simp: aes_round_keys_def dest: length_in_chunks)
  have "length (concat (aes_round_keys key)) = 16 * length (aes_round_keys key)"
    using r by (induction "aes_round_keys key") (simp_all add: length_concat sum_list_triv cong: map_cong)
  with l show "2 \<le> length (aes_round_keys key)"
    by (simp add: aes_round_keys_def concat_chunks)
qed

section \<open>Decryption undoes encryption\<close>

lemma aes_inv_round_round:
  "length k = 16 \<Longrightarrow> length s = 16 \<Longrightarrow> aes_inv_round k (aes_round k s) = s"
  by (simp add: aes_inv_round_def aes_round_def xor_bytes_cancel inv_mix_columns_mix_columns
      inv_shift_rows_shift_rows)

lemma aes_rounds_invert:
  assumes "\<forall>k \<in> set ks. length k = 16" and "length s = 16"
  shows "length (fold aes_round ks s) = 16" and "foldr aes_inv_round ks (fold aes_round ks s) = s"
  using assms by (induction ks arbitrary: s) (simp_all add: aes_inv_round_round)

lemma aes_decrypt_encrypt:
  assumes "aes_key_ok key" and "length b = 16"
  shows "aes_decrypt key (aes_encrypt key b) = b"
proof -
  let ?ks = "aes_round_keys key"
  note r = aes_round_keys_lengths [OF assms(1)]
  from r(2) have ne: "?ks \<noteq> []" "tl ?ks \<noteq> []" by (auto simp: neq_Nil_conv Suc_le_length_iff numeral_2_eq_2)
  have mids: "\<forall>k \<in> set (butlast (tl ?ks)). length k = 16"
    using r(1) ne by (auto dest!: in_set_butlastD list.set_sel(2))
  have ends: "length (hd ?ks) = 16" "length (last ?ks) = 16" using r(1) ne by auto
  have "length (xor_bytes b (hd ?ks)) = 16" using assms(2) ends by simp
  note inv = aes_rounds_invert [OF mids this]
  show ?thesis
    using inv ends assms(2)
    by (simp add: aes_encrypt_def aes_decrypt_def Let_def xor_bytes_cancel inv_shift_rows_shift_rows)
qed

lemma length_aes_encrypt [bytes_simps]: "aes_key_ok key \<Longrightarrow> length (aes_encrypt key b) = 16"
  using aes_round_keys_lengths [of key]
  by (cases "aes_round_keys key") (auto simp: aes_encrypt_def Let_def)

lemma length_foldr_aes_inv_round: "length s = 16 \<Longrightarrow> length (foldr aes_inv_round ks s) = 16"
  by (cases ks) simp_all

lemma length_aes_decrypt [bytes_simps]: "aes_key_ok key \<Longrightarrow> length (aes_decrypt key b) = 16"
  using aes_round_keys_lengths [of key]
  by (cases "aes_round_keys key") (auto simp: aes_decrypt_def Let_def length_foldr_aes_inv_round)

section \<open>Counter mode and digests\<close>

lemma length_xor_key_stream [bytes_simps, simp]: "length (fst (xor_key_stream st src)) = length src"
  by (simp add: xor_key_stream_def)

lemma snd_xor_key_stream [simp]:
  "snd (xor_key_stream st src) = st\<lparr>ctr_pos := ctr_pos st + length src\<rparr>"
  by (simp add: xor_key_stream_def)

lemma xor_key_stream_involution: "fst (xor_key_stream st (fst (xor_key_stream st src))) = src"
  by (simp add: xor_key_stream_def xor_bytes_cancel)

lemma length_sha1 [bytes_simps, simp]: "length (sha1 m) = 20"
  by (simp add: sha1_def split: prod.split)

lemma length_fold_sha256_step: "length h = 8 \<Longrightarrow> length (fold sha256_step kws h) = 8"
  by (induction kws arbitrary: h) (simp_all add: sha256_step_def Let_def split: prod.split)

lemma length_fold_sha256_compress: "length h = 8 \<Longrightarrow> length (fold sha256_compress bs h) = 8"
  by (induction bs arbitrary: h) (simp_all add: sha256_compress_def length_fold_sha256_step)

lemma length_sha256 [bytes_simps, simp]: "length (sha256 m) = 32"
proof -
  let ?h = "fold sha256_compress (chunks 64 (sha_pad m)) sha256_init"
  have "length ?h = 8"
    by (rule length_fold_sha256_compress) (simp add: sha256_init_def)
  then show ?thesis
    by (simp add: sha256_def length_concat comp_def sum_list_triv)
qed
end
