(* ===== verification/Framing.thy ===== *)
theory Framing
  imports Go_Crypto
begin

unbundle bit_operations_syntax

text \<open>
  The transport framings of \<^verbatim>\<open>pkg/mtproto/codec/codec.go\<close>: where a message ends in a byte
  stream.  A connection's reader is the list of bytes still to come, so a \<^verbatim>\<open>ReadFrame\<close> returns
  the payload, the codec's new state and the bytes left over; a \<^verbatim>\<open>WriteFrame\<close> returns the bytes
  it puts on the wire.  The locale \<open>framing\<close> states the contract of the \<^verbatim>\<open>Codec\<close> interface, that
  a reader in step with the writer gets back each payload and stops exactly at its end, and
  proves once what a connection needs of it: a sequence of writes is read back in order.
\<close>

datatype codec_error = ErrFrameTooLarge nat | ErrBadCRC | ErrBadSeqNo | ErrUnknownMagic | ErrQuickAck
  | ErrEOF | ErrPadding nat nat

definition MaxFrameSize :: nat where
  "MaxFrameSize = 16777216"

definition magicAbridged :: byte where "magicAbridged = 0xef"
definition magicIntermediate :: u32 where "magicIntermediate = 0xeeeeeeee"
definition magicPaddedIntermediate :: u32 where "magicPaddedIntermediate = 0xdddddddd"
definition maxIntermediatePad :: nat where "maxIntermediatePad = 16"

text \<open>The implementations of the \<^verbatim>\<open>Codec\<close> interface.  \<open>Full\<close> holds \<^verbatim>\<open>recvSeq\<close> and \<^verbatim>\<open>sendSeq\<close>.\<close>

datatype Codec = Abridged | Intermediate | PaddedIntermediate | Full u32 u32

text \<open>\<^verbatim>\<open>io.ReadFull\<close> on the connection.\<close>

definition io_read :: "nat \<Rightarrow> bytes \<Rightarrow> codec_error + (bytes \<times> bytes)" where
  "io_read n r = (case read_full n r of None \<Rightarrow> Inl ErrEOF | Some x \<Rightarrow> Inr x)"

section \<open>Detection\<close>

definition Detect :: "bytes \<Rightarrow> codec_error + (Codec \<times> bytes)" where
  "Detect r =
     (case r of
        [] \<Rightarrow> Inl ErrEOF
      | first # rest \<Rightarrow>
          if first = magicAbridged then Inr (Abridged, rest)
          else if length r < 4 then Inl ErrEOF
          else
            let head = get_le (take 4 r)
            in if head = magicIntermediate then Inr (Intermediate, drop 4 r)
               else if head = magicPaddedIntermediate then Inr (PaddedIntermediate, drop 4 r)
               else Inr (Full 0 0, r))"

definition ByName :: "string \<Rightarrow> codec_error + Codec" where
  "ByName name =
     (if name = ''abridged'' then Inr Abridged
      else if name = ''intermediate'' then Inr Intermediate
      else if name = ''padded'' \<or> name = ''padded_intermediate'' then Inr PaddedIntermediate
      else if name = ''full'' then Inr (Full 0 0)
      else Inl ErrUnknownMagic)"

definition Name :: "Codec \<Rightarrow> string" where
  "Name c = (case c of Abridged \<Rightarrow> ''abridged'' | Intermediate \<Rightarrow> ''intermediate''
     | PaddedIntermediate \<Rightarrow> ''padded_intermediate'' | Full _ _ \<Rightarrow> ''full'')"

definition WriteMagic :: "Codec \<Rightarrow> bytes" where
  "WriteMagic c =
     (case c of
        Abridged \<Rightarrow> [magicAbridged]
      | Intermediate \<Rightarrow> put_le 4 magicIntermediate
      | PaddedIntermediate \<Rightarrow> put_le 4 magicPaddedIntermediate
      | Full _ _ \<Rightarrow> [])"

definition PadTo4 :: "bytes \<Rightarrow> bytes" where
  "PadTo4 b = (let r = length b mod 4 in if r \<noteq> 0 then b @ replicate (4 - r) 0 else b)"

section \<open>Abridged\<close>

definition Abridged_ReadFrame :: "bytes \<Rightarrow> codec_error + (bytes \<times> bytes)" where
  "Abridged_ReadFrame r =
     (case r of
        [] \<Rightarrow> Inl ErrEOF
      | b # r1 \<Rightarrow>
          if b AND 0x80 \<noteq> 0 then Inl ErrQuickAck
          else
            case (if b < 0x7f then Inr (ucast b, r1)
                  else case io_read 3 r1 of
                         Inl e \<Rightarrow> Inl e
                       | Inr (ext, r2) \<Rightarrow>
                           Inr (ucast (ext ! 0) OR push_bit 8 (ucast (ext ! 1)) OR push_bit 16 (ucast (ext ! 2)), r2)) of
              Inl e \<Rightarrow> Inl e
            | Inr (words :: u32, r2) \<Rightarrow>
                let n = unat words * 4
                in if n = 0 \<or> MaxFrameSize < n then Inl (ErrFrameTooLarge n) else io_read n r2)"

definition Abridged_WriteFrame :: "bytes \<Rightarrow> codec_error + bytes" where
  "Abridged_WriteFrame payload =
     (if MaxFrameSize < length payload then Inl (ErrFrameTooLarge (length payload))
      else
        let padded = PadTo4 payload;
            words = length padded div 4;
            header = (if words < 0x7f then [of_nat words]
                      else [0x7f, of_nat words, of_nat (words div 2 ^ 8), of_nat (words div 2 ^ 16)])
        in Inr (header @ padded))"

section \<open>Intermediate\<close>

definition Intermediate_ReadFrame :: "bytes \<Rightarrow> codec_error + (bytes \<times> bytes)" where
  "Intermediate_ReadFrame r =
     (case io_read 4 r of
        Inl e \<Rightarrow> Inl e
      | Inr (head, r1) \<Rightarrow>
          let n = (get_le head :: u32)
          in if n AND 0x80000000 \<noteq> 0 then Inl ErrQuickAck
             else if n = 0 \<or> MaxFrameSize < unat n then Inl (ErrFrameTooLarge (unat n))
             else io_read (unat n) r1)"

definition Intermediate_WriteFrame :: "bytes \<Rightarrow> codec_error + bytes" where
  "Intermediate_WriteFrame payload =
     (if MaxFrameSize < length payload then Inl (ErrFrameTooLarge (length payload))
      else Inr (put_le 4 (of_nat (length payload) :: u32) @ payload))"

section \<open>Padded intermediate\<close>

definition PaddedIntermediate_ReadFrame :: "bytes \<Rightarrow> codec_error + (bytes \<times> bytes)" where
  "PaddedIntermediate_ReadFrame r =
     (case io_read 4 r of
        Inl e \<Rightarrow> Inl e
      | Inr (head, r1) \<Rightarrow>
          let n = unat (get_le head :: u32)
          in if n = 0 \<or> MaxFrameSize < n then Inl (ErrFrameTooLarge n)
             else case io_read n r1 of
                    Inl e \<Rightarrow> Inl e
                  | Inr (buf, r2) \<Rightarrow>
                      let pad = unat (last buf)
                      in if pad < 1 \<or> maxIntermediatePad < pad \<or> length buf < pad
                         then Inl (ErrPadding pad (length buf))
                         else Inr (take (length buf - pad) buf, r2))"

text \<open>The draws of \<^verbatim>\<open>math/rand\<close>: the padding's length, below 16, and its bytes.\<close>

record pad_draw =
  pad_len :: nat
  pad_noise :: "nat \<Rightarrow> byte"

definition PaddedIntermediate_WriteFrame :: "pad_draw \<Rightarrow> bytes \<Rightarrow> codec_error + bytes" where
  "PaddedIntermediate_WriteFrame rnd payload =
     (let pad = 1 + pad_len rnd mod maxIntermediatePad;
          total = length payload + pad
      in if MaxFrameSize < total then Inl (ErrFrameTooLarge total)
         else Inr (put_le 4 (of_nat total :: u32) @ payload
                   @ (map (pad_noise rnd) [0..<pad])[pad - 1 := of_nat pad]))"

section \<open>Full\<close>

definition Full_ReadFrame :: "u32 \<Rightarrow> bytes \<Rightarrow> codec_error + (bytes \<times> u32 \<times> bytes)" where
  "Full_ReadFrame recvSeq r =
     (case io_read 8 r of
        Inl e \<Rightarrow> Inl e
      | Inr (head, r1) \<Rightarrow>
          let total = unat (get_le (bslice head 0 4) :: u32);
              sq = get_le (bslice head 4 8)
          in if total < 12 \<or> MaxFrameSize < total then Inl (ErrFrameTooLarge total)
             else if sq \<noteq> recvSeq then Inl ErrBadSeqNo
             else case io_read (total - 12) r1 of
                    Inl e \<Rightarrow> Inl e
                  | Inr (body, r2) \<Rightarrow>
                      (case io_read 4 r2 of
                         Inl e \<Rightarrow> Inl e
                       | Inr (checksum, r3) \<Rightarrow>
                           if crc32_ieee (head @ body) \<noteq> get_le checksum then Inl ErrBadCRC
                           else Inr (body, recvSeq + 1, r3)))"

definition Full_WriteFrame :: "u32 \<Rightarrow> bytes \<Rightarrow> codec_error + (bytes \<times> u32)" where
  "Full_WriteFrame sendSeq payload =
     (let total = length payload + 12
      in if MaxFrameSize < total then Inl (ErrFrameTooLarge total)
         else
           let frame = put_le 4 (of_nat total :: u32) @ put_le 4 sendSeq @ payload
           in Inr (frame @ put_le 4 (crc32_ieee frame), sendSeq + 1))"

section \<open>The interface\<close>

definition ReadFrame :: "Codec \<Rightarrow> bytes \<Rightarrow> codec_error + (bytes \<times> Codec \<times> bytes)" where
  "ReadFrame c r =
     (case c of
        Abridged \<Rightarrow> (case Abridged_ReadFrame r of Inl e \<Rightarrow> Inl e | Inr (p, r') \<Rightarrow> Inr (p, c, r'))
      | Intermediate \<Rightarrow> (case Intermediate_ReadFrame r of Inl e \<Rightarrow> Inl e | Inr (p, r') \<Rightarrow> Inr (p, c, r'))
      | PaddedIntermediate \<Rightarrow> (case PaddedIntermediate_ReadFrame r of Inl e \<Rightarrow> Inl e | Inr (p, r') \<Rightarrow> Inr (p, c, r'))
      | Full recvSeq sendSeq \<Rightarrow>
          (case Full_ReadFrame recvSeq r of Inl e \<Rightarrow> Inl e | Inr (p, q, r') \<Rightarrow> Inr (p, Full q sendSeq, r')))"

definition WriteFrame :: "pad_draw \<Rightarrow> Codec \<Rightarrow> bytes \<Rightarrow> codec_error + (bytes \<times> Codec)" where
  "WriteFrame rnd c payload =
     (case c of
        Abridged \<Rightarrow> (case Abridged_WriteFrame payload of Inl e \<Rightarrow> Inl e | Inr w \<Rightarrow> Inr (w, c))
      | Intermediate \<Rightarrow> (case Intermediate_WriteFrame payload of Inl e \<Rightarrow> Inl e | Inr w \<Rightarrow> Inr (w, c))
      | PaddedIntermediate \<Rightarrow> (case PaddedIntermediate_WriteFrame rnd payload of Inl e \<Rightarrow> Inl e | Inr w \<Rightarrow> Inr (w, c))
      | Full recvSeq sendSeq \<Rightarrow>
          (case Full_WriteFrame sendSeq payload of Inl e \<Rightarrow> Inl e | Inr (w, q) \<Rightarrow> Inr (w, Full recvSeq q)))"

text \<open>A connection's traffic: payloads written one after another, and \<open>n\<close> frames read.\<close>

fun write_all :: "('r \<Rightarrow> 's \<Rightarrow> bytes \<Rightarrow> 'e + (bytes \<times> 's)) \<Rightarrow> 's \<Rightarrow> ('r \<times> bytes) list \<Rightarrow> 'e + (bytes \<times> 's)" where
  "write_all wr s [] = Inr ([], s)"
| "write_all wr s ((rnd, p) # ps) =
     (case wr rnd s p of
        Inl e \<Rightarrow> Inl e
      | Inr (w, s') \<Rightarrow> (case write_all wr s' ps of Inl e \<Rightarrow> Inl e | Inr (ws, s'') \<Rightarrow> Inr (w @ ws, s'')))"

fun read_all :: "('s \<Rightarrow> bytes \<Rightarrow> 'e + (bytes \<times> 's \<times> bytes)) \<Rightarrow> nat \<Rightarrow> 's \<Rightarrow> bytes \<Rightarrow> 'e + (bytes list \<times> bytes)" where
  "read_all rd 0 s r = Inr ([], r)"
| "read_all rd (Suc n) s r =
     (case rd s r of
        Inl e \<Rightarrow> Inl e
      | Inr (p, s', r') \<Rightarrow> (case read_all rd n s' r' of Inl e \<Rightarrow> Inl e | Inr (ps, r'') \<Rightarrow> Inr (p # ps, r'')))"

locale framing =
  fixes rd :: "'s \<Rightarrow> bytes \<Rightarrow> 'e + (bytes \<times> 's \<times> bytes)"
    and wr :: "'r \<Rightarrow> 's \<Rightarrow> bytes \<Rightarrow> 'e + (bytes \<times> 's)"
    and sendable :: "'s \<Rightarrow> bytes \<Rightarrow> bool"
    and delivered :: "'s \<Rightarrow> bytes \<Rightarrow> bytes"
    and in_step :: "'s \<Rightarrow> 's \<Rightarrow> bool"
  assumes round_trip: "in_step s t \<Longrightarrow> sendable s p \<Longrightarrow>
      \<exists>w s' t'. wr rnd s p = Inr (w, s') \<and> (\<forall>rest. rd t (w @ rest) = Inr (delivered s p, t', rest))
        \<and> in_step s' t' \<and> sendable s' = sendable s \<and> delivered s' = delivered s"
begin

text \<open>The reader of a connection sees the writer's payloads, in order, and nothing of what follows.\<close>

lemma stream_round_trip:
  assumes "in_step s t" and "\<forall>(_, p) \<in> set ps. sendable s p"
  shows "\<exists>ws s'. write_all wr s ps = Inr (ws, s')
      \<and> (\<forall>rest. read_all rd (length ps) t (ws @ rest) = Inr (map (\<lambda>(_, p). delivered s p) ps, rest))"
  using assms
proof (induction ps arbitrary: s t)
  case Nil
  then show ?case by simp
next
  case (Cons q ps)
  obtain rnd p where q: "q = (rnd, p)" by fastforce
  with Cons.prems obtain w s' t' where w: "wr rnd s p = Inr (w, s')"
    and r: "\<And>rest. rd t (w @ rest) = Inr (delivered s p, t', rest)"
    and i: "in_step s' t'" and eq: "sendable s' = sendable s" "delivered s' = delivered s"
    using round_trip [of s t p rnd] by auto
  from Cons.IH [OF i] Cons.prems eq obtain ws s'' where
    "write_all wr s' ps = Inr (ws, s'')"
    "\<And>rest. read_all rd (length ps) t' (ws @ rest) = Inr (map (\<lambda>(_, p). delivered s p) ps, rest)"
    by auto
  with w r q show ?case by auto
qed

end

section \<open>Each codec honours the interface\<close>

lemma io_read_append [simp]: "length a = n \<Longrightarrow> io_read n (a @ r) = Inr (a, r)"
  by (simp add: io_read_def)

lemma io_read_Inr_iff: "io_read n r = Inr (a, rest) \<longleftrightarrow> r = a @ rest \<and> length a = n"
  by (auto simp: io_read_def read_full_Some_iff split: option.splits)

lemma length_PadTo4: "4 dvd length (PadTo4 p)" "length p \<le> length (PadTo4 p)"
  "length p \<le> MaxFrameSize \<Longrightarrow> length (PadTo4 p) \<le> MaxFrameSize"
  by (auto simp: PadTo4_def Let_def MaxFrameSize_def) presburger+

lemma Abridged_round_trip:
  assumes "0 < length p" and "length p \<le> MaxFrameSize"
  shows "\<exists>w. Abridged_WriteFrame p = Inr w \<and> (\<forall>rest. Abridged_ReadFrame (w @ rest) = Inr (PadTo4 p, rest))"
proof -
  obtain n where q: "length (PadTo4 p) = n * 4"
    using length_PadTo4(1) [of p] by (metis dvd_def mult.commute)
  then have n: "0 < n" "n * 4 \<le> MaxFrameSize"
    using length_PadTo4 [of p] assms unfolding MaxFrameSize_def by linarith+
  then have n24: "n < 2 ^ 24" by (simp add: MaxFrameSize_def)
  show ?thesis
  proof (cases "n < 0x7f")
    case True
    then have u: "unat (of_nat n :: byte) = n" by (intro unat_of_nat_small) simp
    moreover from this True have "(of_nat n :: byte) AND 2 ^ 7 = 0" by (intro high_bit_clear) simp
    moreover from u True have "(of_nat n :: byte) < 0x7f" by (simp add: word_less_nat_alt)
    moreover from u n24 have "unat (ucast (of_nat n :: byte) :: u32) = n"
      by (simp add: unsigned_ucast_eq take_bit_nat_eq_self)
    ultimately show ?thesis
      using True n q assms by (simp add: Abridged_WriteFrame_def Abridged_ReadFrame_def Let_def)
  next
    case False
    have "unat (of_nat n :: u32) = n" using n24 by (intro unat_of_nat_small) simp
    then show ?thesis
      using False n q assms le_bytes_24 [OF n24]
      by (simp add: Abridged_WriteFrame_def Abridged_ReadFrame_def Let_def io_read_def read_full_def)
  qed
qed

lemma Intermediate_round_trip:
  assumes "0 < length p" and "length p \<le> MaxFrameSize"
  shows "\<exists>w. Intermediate_WriteFrame p = Inr w \<and> (\<forall>rest. Intermediate_ReadFrame (w @ rest) = Inr (p, rest))"
proof -
  have u: "unat (of_nat (length p) :: u32) = length p"
    using assms by (intro unat_of_nat_small) (simp add: MaxFrameSize_def)
  moreover from this assms have "(of_nat (length p) :: u32) AND 2 ^ 31 = 0"
    by (intro high_bit_clear) (simp add: MaxFrameSize_def)
  moreover from u assms have "(of_nat (length p) :: u32) \<noteq> 0" by auto
  ultimately show ?thesis
    using assms by (simp add: Intermediate_WriteFrame_def Intermediate_ReadFrame_def Let_def get_put_le)
qed

lemma PaddedIntermediate_round_trip:
  assumes "length p + 16 \<le> MaxFrameSize"
  shows "\<exists>w. PaddedIntermediate_WriteFrame rnd p = Inr w
      \<and> (\<forall>rest. PaddedIntermediate_ReadFrame (w @ rest) = Inr (p, rest))"
proof -
  define pad where "pad = 1 + pad_len rnd mod maxIntermediatePad"
  define tail where "tail = (map (pad_noise rnd) [0..<pad])[pad - 1 := of_nat pad]"
  have pad: "1 \<le> pad" "pad \<le> 16" by (simp_all add: pad_def maxIntermediatePad_def)
  have t: "length tail = pad" "last tail = of_nat pad" "tail \<noteq> []"
    using pad by (auto simp: tail_def last_conv_nth simp del: length_0_conv simp flip: length_0_conv)
  have "unat (of_nat pad :: byte) = pad" using pad by (intro unat_of_nat_small) simp
  moreover have "unat (of_nat (length p + pad) :: u32) = length p + pad"
    using assms pad by (intro unat_of_nat_small) (simp add: MaxFrameSize_def)
  ultimately have "PaddedIntermediate_ReadFrame ((put_le 4 (of_nat (length p + pad) :: u32) @ p @ tail) @ rest) = Inr (p, rest)" for rest
    using pad t assms io_read_append [of "p @ tail" "length p + pad" rest]
    by (simp add: PaddedIntermediate_ReadFrame_def Let_def get_put_le maxIntermediatePad_def del: of_nat_add)
  moreover have "PaddedIntermediate_WriteFrame rnd p = Inr (put_le 4 (of_nat (length p + pad) :: u32) @ p @ tail)"
    using assms pad unfolding PaddedIntermediate_WriteFrame_def Let_def pad_def [symmetric] tail_def by simp
  ultimately show ?thesis by blast
qed

lemma Full_frame_read:
  assumes "length p + 12 \<le> MaxFrameSize" and "Full_WriteFrame s p = Inr (w, s')"
  shows "Full_ReadFrame s (w @ rest) = Inr (p, s + 1, rest)"
proof -
  let ?h = "put_le 4 (of_nat (length p + 12) :: u32) @ put_le 4 s"
  have w: "w = ?h @ p @ put_le 4 (crc32_ieee (?h @ p))"
    using assms by (simp add: Full_WriteFrame_def Let_def)
  have u: "unat (of_nat (length p + 12) :: u32) = length p + 12"
    using assms by (intro unat_of_nat_small) (simp add: MaxFrameSize_def)
  have h: "length ?h = 8" "bslice ?h 0 4 = put_le 4 (of_nat (length p + 12) :: u32)" "bslice ?h 4 8 = put_le 4 s"
    by (simp_all add: bslice_def)
  have "io_read 8 (w @ rest) = Inr (?h, p @ put_le 4 (crc32_ieee (?h @ p)) @ rest)"
    using io_read_append [OF h(1)] by (simp add: w)
  then show ?thesis
    using assms(1) u
    unfolding Full_ReadFrame_def by (simp add: Let_def h(2,3) get_put_le del: of_nat_add bslice_0 append_assoc)
qed


text \<open>What each framing can carry, and what the other end receives: abridged rounds the payload up
  to a multiple of four bytes.  Only \<open>Full\<close> has a state to keep in step.\<close>

definition sendable :: "Codec \<Rightarrow> bytes \<Rightarrow> bool" where
  "sendable c p =
     (case c of
        Abridged \<Rightarrow> 0 < length p \<and> length p \<le> MaxFrameSize
      | Intermediate \<Rightarrow> 0 < length p \<and> length p \<le> MaxFrameSize
      | PaddedIntermediate \<Rightarrow> length p + 16 \<le> MaxFrameSize
      | Full _ _ \<Rightarrow> length p + 12 \<le> MaxFrameSize)"

definition delivered :: "Codec \<Rightarrow> bytes \<Rightarrow> bytes" where
  "delivered c p = (case c of Abridged \<Rightarrow> PadTo4 p | _ \<Rightarrow> p)"

definition in_step :: "Codec \<Rightarrow> Codec \<Rightarrow> bool" where
  "in_step s t =
     (case s of Full _ sendSeq \<Rightarrow> (case t of Full recvSeq _ \<Rightarrow> sendSeq = recvSeq | _ \<Rightarrow> False) | _ \<Rightarrow> s = t)"

interpretation abridged: framing
  "\<lambda>_ r. (case Abridged_ReadFrame r of Inl e \<Rightarrow> Inl e | Inr (p, r') \<Rightarrow> Inr (p, (), r'))"
  "\<lambda>_ _ p. (case Abridged_WriteFrame p of Inl e \<Rightarrow> Inl e | Inr w \<Rightarrow> Inr (w, ()))"
  "\<lambda>_ p. 0 < length p \<and> length p \<le> MaxFrameSize" "\<lambda>_. PadTo4" "\<lambda>_ _. True"
  by unfold_locales (use Abridged_round_trip in fastforce)

interpretation full: framing Full_ReadFrame "\<lambda>_. Full_WriteFrame"
  "\<lambda>_ p. length p + 12 \<le> MaxFrameSize" "\<lambda>_ p. p" "(=)"
proof unfold_locales
  fix s t :: u32 and p :: bytes and rnd :: 'a
  assume "s = t" and ok: "length p + 12 \<le> MaxFrameSize"
  then obtain w where "Full_WriteFrame s p = Inr (w, s + 1)"
    by (simp add: Full_WriteFrame_def Let_def)
  with \<open>s = t\<close> Full_frame_read [OF ok this]
  show "\<exists>w s' t'. Full_WriteFrame s p = Inr (w, s') \<and> (\<forall>rest. Full_ReadFrame t (w @ rest) = Inr (p, t', rest))
      \<and> s' = t' \<and> (\<lambda>p. length p + 12 \<le> MaxFrameSize) = (\<lambda>p. length p + 12 \<le> MaxFrameSize) \<and> (\<lambda>p. p) = (\<lambda>p. p)"
    by auto
qed

interpretation codec: framing ReadFrame WriteFrame sendable delivered in_step
proof unfold_locales
  fix s t :: Codec and p :: bytes and rnd :: pad_draw
  assume st: "in_step s t" and ok: "sendable s p"
  show "\<exists>w s' t'. WriteFrame rnd s p = Inr (w, s') \<and> (\<forall>rest. ReadFrame t (w @ rest) = Inr (delivered s p, t', rest))
      \<and> in_step s' t' \<and> sendable s' = sendable s \<and> delivered s' = delivered s"
  proof (cases s)
    case Abridged
    with ok Abridged_round_trip [of p] obtain w where
      "Abridged_WriteFrame p = Inr w" "\<forall>rest. Abridged_ReadFrame (w @ rest) = Inr (PadTo4 p, rest)"
      by (auto simp: sendable_def)
    with st Abridged show ?thesis by (simp add: in_step_def WriteFrame_def ReadFrame_def delivered_def)
  next
    case Intermediate
    with ok Intermediate_round_trip [of p] obtain w where
      "Intermediate_WriteFrame p = Inr w" "\<forall>rest. Intermediate_ReadFrame (w @ rest) = Inr (p, rest)"
      by (auto simp: sendable_def)
    with st Intermediate show ?thesis by (simp add: in_step_def WriteFrame_def ReadFrame_def delivered_def)
  next
    case PaddedIntermediate
    with ok PaddedIntermediate_round_trip [of p rnd] obtain w where
      "PaddedIntermediate_WriteFrame rnd p = Inr w" "\<forall>rest. PaddedIntermediate_ReadFrame (w @ rest) = Inr (p, rest)"
      by (auto simp: sendable_def)
    with st PaddedIntermediate show ?thesis by (simp add: in_step_def WriteFrame_def ReadFrame_def delivered_def)
  next
    case (Full a b)
    with st obtain c where t: "t = Full b c" by (auto simp: in_step_def split: Codec.splits)
    from Full ok full.round_trip [of b b p] obtain w b' t' where
      "Full_WriteFrame b p = Inr (w, b')" "\<forall>rest. Full_ReadFrame b (w @ rest) = Inr (p, t', rest)" "b' = t'"
      by (auto simp: sendable_def)
    with Full t show ?thesis
      by (auto simp: in_step_def WriteFrame_def ReadFrame_def delivered_def sendable_def fun_eq_iff)
  qed
qed

section \<open>Properties\<close>



text \<open>The full framing accepts a frame precisely when it is what a writer at the expected
  sequence number would have put on the wire: a wrong length, sequence number or checksum, and
  any frame out of order, is rejected.\<close>

theorem Full_ReadFrame_accepts_exactly_written:
  "Full_ReadFrame q r = Inr (p, q', rest) \<longleftrightarrow>
     (\<exists>w. Full_WriteFrame q p = Inr (w, q') \<and> r = w @ rest)" (is "?l \<longleftrightarrow> ?r")
proof
  assume ?r
  then obtain w where w: "Full_WriteFrame q p = Inr (w, q')" "r = w @ rest" by blast
  then have "length p + 12 \<le> MaxFrameSize" "q' = q + 1"
    by (auto simp: Full_WriteFrame_def Let_def split: if_splits)
  with Full_frame_read [OF this(1) w(1)] w(2) show ?l by simp
next
  assume l: ?l
  then obtain head r1 where h: "r = head @ r1" "length head = 8"
    by (auto simp: Full_ReadFrame_def io_read_Inr_iff split: sum.splits)
  let ?t = "get_le (bslice head 0 4) :: u32"
  from l h obtain checksum where t: "12 \<le> unat ?t" "unat ?t \<le> MaxFrameSize"
    and sq: "get_le (bslice head 4 8) = q" and q': "q' = q + 1" and r1: "r1 = p @ checksum @ rest"
    and p: "length p = unat ?t - 12" and ck: "length checksum = 4" "crc32_ieee (head @ p) = get_le checksum"
    by (auto simp: Full_ReadFrame_def Let_def io_read_Inr_iff split: sum.splits if_splits)
  have "put_le 4 ?t = bslice head 0 4" "put_le 4 (get_le (bslice head 4 8) :: u32) = bslice head 4 8"
    using put_get_le [of "bslice head 0 4", where 'a = 32] put_get_le [of "bslice head 4 8", where 'a = 32] h
    by simp_all
  moreover have "of_nat (length p + 12) = ?t" using p t by (simp add: le_add_diff_inverse2)
  ultimately have head: "put_le 4 (of_nat (length p + 12) :: u32) @ put_le 4 q = head"
    using sq h bslice_join [of 0 4 8 head] by simp
  have "put_le 4 (get_le checksum :: u32) = checksum" using put_get_le [of checksum, where 'a = 32] ck by simp
  then have "Full_WriteFrame q p = Inr (head @ p @ checksum, q')"
    using t p ck q' head by (simp add: Full_WriteFrame_def Let_def flip: append_assoc)
  with h r1 show ?r by auto
qed

text \<open>Detection on a stream that starts with a given 32-bit word.\<close>

lemma Detect_word:
  fixes m :: u32
  shows "Detect (put_le 4 m @ rest) =
     (if ucast m = magicAbridged then Inr (Abridged, tl (put_le 4 m) @ rest)
      else if m = magicIntermediate then Inr (Intermediate, rest)
      else if m = magicPaddedIntermediate then Inr (PaddedIntermediate, rest)
      else Inr (Full 0 0, put_le 4 m @ rest))"
proof -
  define r where "r = put_le 4 m @ rest"
  have r: "get_le (take 4 r) = m" "drop 4 r = rest" "\<not> length r < 4"
    by (simp_all add: r_def get_put_le)
  have "r = ucast m # tl (put_le 4 m) @ rest" by (simp add: r_def numeral_eq_Suc)
  then have "Detect r = (if ucast m = magicAbridged then Inr (Abridged, tl (put_le 4 m) @ rest)
      else let head = get_le (take 4 r)
           in if head = magicIntermediate then Inr (Intermediate, drop 4 r)
              else if head = magicPaddedIntermediate then Inr (PaddedIntermediate, drop 4 r)
              else Inr (Full 0 0, r))"
    unfolding Detect_def using r(3) by (auto simp only: list.case if_False)
  then show ?thesis unfolding r Let_def by (simp only: r_def)
qed

lemma Detect_of_magic: "(\<forall>a b. c \<noteq> Full a b) \<Longrightarrow> Detect (WriteMagic c @ rest) = Inr (c, rest)"
  by (cases c)
    (simp_all add: WriteMagic_def Detect_word magicIntermediate_def magicPaddedIntermediate_def
      magicAbridged_def Detect_def [of "_ # _"])

text \<open>A connection that opens with the prefix a client writes for abridged, intermediate or
  padded framing is detected as that framing.  Full framing has no prefix, and its detection
  depends on the first frame's length: a first payload of \<open>n\<close> bytes is taken for full framing
  exactly when the low byte of \<open>n + 12\<close> is not \<open>0xef\<close>; otherwise it is read as abridged.\<close>

theorem Detect_framing:
  assumes "length p + 12 \<le> MaxFrameSize" and "Full_WriteFrame 0 p = Inr (w, q)"
  shows "(\<forall>c rest. (\<forall>a b. c \<noteq> Full a b) \<longrightarrow> Detect (WriteMagic c @ rest) = Inr (c, rest))
    \<and> (Detect (w @ rest) = Inr (Full 0 0, w @ rest) \<longleftrightarrow> (length p + 12) mod 256 \<noteq> 0xef)
    \<and> ((length p + 12) mod 256 = 0xef \<longrightarrow> Detect (w @ rest) = Inr (Abridged, tl w @ rest))"
proof -
  let ?t = "of_nat (length p + 12) :: u32"
  obtain w' where w: "w = put_le 4 ?t @ w'" using assms by (auto simp: Full_WriteFrame_def Let_def)
  have u: "unat ?t = length p + 12"
    using assms(1) by (intro unat_of_nat_small) (simp add: MaxFrameSize_def)
  have "unat (ucast ?t :: byte) = (length p + 12) mod 256"
    unfolding unsigned_ucast_eq u by (simp add: take_bit_eq_mod)
  then have ef: "ucast ?t = magicAbridged \<longleftrightarrow> (length p + 12) mod 256 = 0xef"
    by (simp add: magicAbridged_def word_unat_eq_iff del: of_nat_add)
  have ne: "put_le 4 ?t \<noteq> []" by (metis length_put_le list.size(3) zero_neq_numeral)
  have "?t \<noteq> magicIntermediate" "?t \<noteq> magicPaddedIntermediate"
    using u assms(1) by (auto simp: magicIntermediate_def magicPaddedIntermediate_def MaxFrameSize_def
        simp del: of_nat_add)
  then have d: "Detect (w @ rest) =
      (if (length p + 12) mod 256 = 0xef then Inr (Abridged, tl w @ rest) else Inr (Full 0 0, w @ rest))"
    unfolding w append_assoc Detect_word ef using ne by (simp add: tl_append2 del: of_nat_add)
  show ?thesis using Detect_of_magic d by auto
qed

theorem Detect_framing_witness:
  "\<exists>w q. Full_WriteFrame 0 (replicate 227 0) = Inr (w, q) \<and> Detect w = Inr (Abridged, tl w)"
proof -
  obtain w q where f: "Full_WriteFrame 0 (replicate 227 0) = Inr (w, q)"
    by (simp add: Full_WriteFrame_def Let_def MaxFrameSize_def)
  with Detect_framing [of "replicate 227 0" w q "[]"] show ?thesis by (simp add: MaxFrameSize_def)
qed

end
