(* ===== verification/Obfuscation.thy ===== *)
theory Obfuscation
  imports Framing
begin

unbundle bit_operations_syntax

text \<open>
  The obfuscation layer, \<^verbatim>\<open>pkg/mtproto/codec/obfuscated.go\<close>: a connection opens with 64 bytes from
  which both ends derive two AES-256-CTR streams, and which carry, encrypted, the framing and the
  datacentre the client asks for.  \<open>oc_src\<close> holds the ciphertext still to be read, including what
  the buffered reader already holds past the init packet.
\<close>

datatype obf_error = ErrInitRead | ErrNotObfuscated u32 | ErrInitRandomness | ErrNoInitPacket | ErrCannotObfuscate

definition initPacketSize :: nat where
  "initPacketSize = 64"

record ObfuscatedConn =
  oc_src :: bytes
  oc_enc :: ctr_stream
  oc_dec :: ctr_stream
  oc_codec :: Codec
  oc_dcid :: u16

definition newCTR :: "bytes \<Rightarrow> bytes \<Rightarrow> ctr_stream" where
  "newCTR key iv = \<lparr>ctr_key = key, ctr_iv = iv, ctr_pos = 0\<rparr>"

text \<open>The stream a client sends with, and the one it receives with, from an init packet.\<close>

definition up_stream :: "bytes \<Rightarrow> ctr_stream" where
  "up_stream ini = newCTR (bslice ini 8 40) (bslice ini 40 56)"

definition down_stream :: "bytes \<Rightarrow> ctr_stream" where
  "down_stream ini = (let r = rev (bslice ini 8 56) in newCTR (bslice r 0 32) (bslice r 32 48))"

definition AcceptObfuscated :: "bytes \<Rightarrow> obf_error + ObfuscatedConn" where
  "AcceptObfuscated br =
     (case read_full initPacketSize br of
        None \<Rightarrow> Inl ErrInitRead
      | Some (ini, rest) \<Rightarrow>
          let (decrypted, decStream) = xor_key_stream (up_stream ini) ini;
              tag = get_le (bslice decrypted 56 60);
              conn = (\<lambda>c. Inr \<lparr>oc_src = rest, oc_enc = down_stream ini, oc_dec = decStream,
                               oc_codec = c, oc_dcid = get_le (bslice decrypted 60 62)\<rparr>)
          in if bslice decrypted 56 60 = replicate 4 magicAbridged then conn Abridged
             else if tag = magicIntermediate then conn Intermediate
             else if tag = magicPaddedIntermediate then conn PaddedIntermediate
             else Inl (ErrNotObfuscated tag))"

text \<open>The first 56 bytes a client may use, and the loop that draws them: at most 33 attempts.\<close>

definition init_acceptable :: "bytes \<Rightarrow> bool" where
  "init_acceptable ini \<longleftrightarrow>
     \<not> (ini ! 0 = magicAbridged \<or> ini ! 0 = 0)
     \<and> (get_le (bslice ini 0 4) :: u32) \<notin> {magicIntermediate, magicPaddedIntermediate,
          0x44414548, 0x54534f50, 0x20544547, 0x4954504f, 0x02010316}
     \<and> (get_le (bslice ini 4 8) :: u32) \<noteq> 0"

fun draw_init :: "nat \<Rightarrow> bytes \<Rightarrow> obf_error + (bytes \<times> bytes)" where
  "draw_init 0 entropy = Inl ErrNoInitPacket"
| "draw_init (Suc attempts) entropy =
     (case read_full 56 entropy of
        None \<Rightarrow> Inl ErrInitRandomness
      | Some (ini, entropy') \<Rightarrow>
          if init_acceptable ini then Inr (ini, entropy') else draw_init attempts entropy')"

definition DialObfuscated :: "bytes \<Rightarrow> Codec \<Rightarrow> u16 \<Rightarrow> obf_error + (bytes \<times> ObfuscatedConn)" where
  "DialObfuscated entropy fc dcID =
     (case draw_init 33 entropy of
        Inl e \<Rightarrow> Inl e
      | Inr (head, entropy') \<Rightarrow>
          (case (case fc of
                   Abridged \<Rightarrow> Some (replicate 4 magicAbridged)
                 | Intermediate \<Rightarrow> Some (put_le 4 magicIntermediate)
                 | PaddedIntermediate \<Rightarrow> Some (put_le 4 magicPaddedIntermediate)
                 | Full _ _ \<Rightarrow> None) of
             None \<Rightarrow> Inl ErrCannotObfuscate
           | Some tag \<Rightarrow>
               (case read_full 2 entropy' of
                  None \<Rightarrow> Inl ErrInitRandomness
                | Some (tl2, _) \<Rightarrow>
                    let ini = head @ tag @ put_le 2 dcID @ tl2;
                        (encrypted, encStream) = xor_key_stream (up_stream ini) ini;
                        wire = take 56 ini @ drop 56 encrypted
                    in Inr (wire, \<lparr>oc_src = [], oc_enc = encStream, oc_dec = down_stream ini,
                                   oc_codec = fc, oc_dcid = dcID\<rparr>))))"

text \<open>\<^verbatim>\<open>Write\<close> returns the bytes handed to the socket; \<^verbatim>\<open>Read\<close> of \<open>n\<close> bytes decrypts what it got.\<close>

definition Obf_Write :: "ObfuscatedConn \<Rightarrow> bytes \<Rightarrow> bytes \<times> ObfuscatedConn" where
  "Obf_Write oc p = (let (buf, st) = xor_key_stream (oc_enc oc) p in (buf, oc\<lparr>oc_enc := st\<rparr>))"

definition Obf_Read :: "ObfuscatedConn \<Rightarrow> nat \<Rightarrow> bytes \<times> ObfuscatedConn" where
  "Obf_Read oc n =
     (let got = take n (oc_src oc); (p, st) = xor_key_stream (oc_dec oc) got
      in (p, oc\<lparr>oc_src := drop n (oc_src oc), oc_dec := st\<rparr>))"

fun Obf_writes :: "ObfuscatedConn \<Rightarrow> bytes list \<Rightarrow> bytes" where
  "Obf_writes oc [] = []"
| "Obf_writes oc (p # ps) = (let (w, oc') = Obf_Write oc p in w @ Obf_writes oc' ps)"

fun Obf_reads :: "ObfuscatedConn \<Rightarrow> nat list \<Rightarrow> bytes" where
  "Obf_reads oc [] = []"
| "Obf_reads oc (n # ns) = (let (p, oc') = Obf_Read oc n in p @ Obf_reads oc' ns)"

section \<open>Lemmas\<close>

lemma xor_bytes_append:
  "length a = length c \<Longrightarrow> xor_bytes (a @ b) (c @ d) = xor_bytes a c @ xor_bytes b d"
  by (simp add: xor_bytes_def)

text \<open>The key stream is positional: encrypting in pieces is encrypting the whole.\<close>

lemma ctr_byte_pos [simp]: "ctr_byte (st\<lparr>ctr_pos := n\<rparr>) = ctr_byte st"
  by (simp add: ctr_byte_def fun_eq_iff)

lemma xor_key_stream_append:
  "fst (xor_key_stream st (a @ b)) =
     fst (xor_key_stream st a) @ fst (xor_key_stream (st\<lparr>ctr_pos := ctr_pos st + length a\<rparr>) b)"
proof -
  let ?n = "ctr_pos st" and ?m = "ctr_pos st + length a"
  have "[?n..<?n + length (a @ b)] = [?n..<?m] @ [?m..<?m + length b]"
    using upt_add_eq_append [of ?n ?m "length b"] by (simp add: add.assoc)
  then show ?thesis by (simp add: xor_key_stream_def xor_bytes_append del: upt_Suc)
qed

lemma xor_key_stream_Nil [simp]: "fst (xor_key_stream st []) = []"
  by (simp add: xor_key_stream_def xor_bytes_def)

lemma Obf_writes_eq: "Obf_writes oc ps = fst (xor_key_stream (oc_enc oc) (concat ps))"
  by (induction ps arbitrary: oc)
    (simp_all add: Obf_Write_def Let_def split_beta xor_key_stream_append)

lemma Obf_reads_eq: "Obf_reads oc ns = fst (xor_key_stream (oc_dec oc) (take (sum_list ns) (oc_src oc)))"
proof (induction ns arbitrary: oc)
  case (Cons n ns)
  then show ?case
    by (simp add: Obf_Read_def Let_def split_beta take_add xor_key_stream_append)
qed simp

lemma draw_init_InrD: "draw_init n entropy = Inr (ini, r) \<Longrightarrow> length ini = 56 \<and> init_acceptable ini"
  by (induction n arbitrary: entropy) (auto simp: read_full_Some_iff split: option.splits prod.splits if_splits)

lemma stream_prefix:
  assumes "take 56 a = take 56 b"
  shows "up_stream a = up_stream b" and "down_stream a = down_stream b"
proof -
  have "bslice a i j = bslice b i j" if "j \<le> 56" for i j
    using arg_cong [OF assms, of "\<lambda>x. drop i (take j x)"] that
    by (simp add: bslice_def drop_take min_def)
  then show "up_stream a = up_stream b" and "down_stream a = down_stream b"
    by (simp_all add: up_stream_def down_stream_def)
qed

lemma DialObfuscated_InrD:
  assumes "DialObfuscated entropy fc dcID = Inr (wire, conn)"
  obtains head tag tl2 where "length head = 56" and "init_acceptable head" and "length tl2 = 2"
    and "tag = (if fc = Abridged then replicate 4 magicAbridged else if fc = Intermediate
           then put_le 4 magicIntermediate else put_le 4 magicPaddedIntermediate)"
    and "\<forall>a b. fc \<noteq> Full a b"
    and "wire = head @ drop 56 (fst (xor_key_stream (up_stream head) (head @ tag @ put_le 2 dcID @ tl2)))"
    and "conn = \<lparr>oc_src = [], oc_enc = (up_stream head)\<lparr>ctr_pos := 64\<rparr>, oc_dec = down_stream head,
                  oc_codec = fc, oc_dcid = dcID\<rparr>"
proof -
  from assms obtain head e' where d: "draw_init 33 entropy = Inr (head, e')"
    by (auto simp: DialObfuscated_def split: sum.splits)
  with draw_init_InrD have h: "length head = 56" "init_acceptable head" by blast+
  from assms d obtain tag tl2 where t: "length tl2 = 2"
    "tag = (if fc = Abridged then replicate 4 magicAbridged else if fc = Intermediate
           then put_le 4 magicIntermediate else put_le 4 magicPaddedIntermediate)"
    and fc: "\<forall>a b. fc \<noteq> Full a b"
    and w: "wire = take 56 (head @ tag @ put_le 2 dcID @ tl2)
        @ drop 56 (fst (xor_key_stream (up_stream (head @ tag @ put_le 2 dcID @ tl2)) (head @ tag @ put_le 2 dcID @ tl2)))"
    and c: "conn = \<lparr>oc_src = [], oc_enc = snd (xor_key_stream (up_stream (head @ tag @ put_le 2 dcID @ tl2)) (head @ tag @ put_le 2 dcID @ tl2)),
       oc_dec = down_stream (head @ tag @ put_le 2 dcID @ tl2), oc_codec = fc, oc_dcid = dcID\<rparr>"
    by (cases fc) (auto simp: DialObfuscated_def Let_def read_full_Some_iff split_beta split: option.splits)
  have "take 56 (head @ r) = take 56 head" for r using h by simp
  note s = stream_prefix [OF this]
  have "length tag = 4" using t by simp
  then have "ctr_pos (up_stream head) = 0" "length (head @ tag @ put_le 2 dcID @ tl2) = 64"
    using h t(1) by (simp_all add: up_stream_def newCTR_def)
  then have "snd (xor_key_stream (up_stream head) (head @ tag @ put_le 2 dcID @ tl2)) = (up_stream head)\<lparr>ctr_pos := 64\<rparr>"
    by (simp only: snd_xor_key_stream) simp
  then have "conn = \<lparr>oc_src = [], oc_enc = (up_stream head)\<lparr>ctr_pos := 64\<rparr>, oc_dec = down_stream head,
                  oc_codec = fc, oc_dcid = dcID\<rparr>"
    unfolding c s by (simp only:)
  then show ?thesis using h t fc w by (intro that) (simp_all add: s)
qed

lemma Accept_Dial_core:
  assumes "DialObfuscated entropy fc dcID = Inr (wire, conn)"
  shows "AcceptObfuscated (wire @ buffered) =
     Inr \<lparr>oc_src = buffered, oc_enc = oc_dec conn, oc_dec = oc_enc conn, oc_codec = fc, oc_dcid = dcID\<rparr>"
  using assms
proof (rule DialObfuscated_InrD)
  fix head tag tl2 :: bytes
  assume h: "length head = 56" "length tl2 = 2"
    and t: "tag = (if fc = Abridged then replicate 4 magicAbridged else if fc = Intermediate
           then put_le 4 magicIntermediate else put_le 4 magicPaddedIntermediate)"
    and fc: "\<forall>a b. fc \<noteq> Full a b"
    and w: "wire = head @ drop 56 (fst (xor_key_stream (up_stream head) (head @ tag @ put_le 2 dcID @ tl2)))"
    and c: "conn = \<lparr>oc_src = [], oc_enc = (up_stream head)\<lparr>ctr_pos := 64\<rparr>, oc_dec = down_stream head,
                  oc_codec = fc, oc_dcid = dcID\<rparr>"
  let ?st = "(up_stream head)\<lparr>ctr_pos := ctr_pos (up_stream head) + 56\<rparr>"
  have lt: "length tag = 4" using t by simp
  have w': "wire = head @ fst (xor_key_stream ?st (tag @ put_le 2 dcID @ tl2))"
    using w h by (simp add: xor_key_stream_append [of _ head])
  have lw: "length wire = 64" using w' h lt by simp
  have s: "up_stream wire = up_stream head" "down_stream wire = down_stream head"
    using stream_prefix [of wire head] w' h by simp_all
  let ?d = "fst (xor_key_stream (up_stream head) wire)"
  have d56: "drop 56 ?d = tag @ put_le 2 dcID @ tl2"
    unfolding w' using h by (simp add: xor_key_stream_append [of _ head] xor_key_stream_involution)
  have "drop 60 ?d = drop 4 (drop 56 ?d)" by simp
  also have "\<dots> = put_le 2 dcID @ tl2" unfolding d56 using lt by simp
  finally have "bslice ?d 60 62 = put_le 2 dcID" by (simp add: bslice_def)
  moreover have "bslice ?d 56 60 = tag" using lt by (simp add: bslice_def d56)
  ultimately have d: "bslice ?d 56 60 = tag" "bslice ?d 60 62 = put_le 2 dcID" by blast+
  have pos: "snd (xor_key_stream (up_stream head) wire) = (up_stream head)\<lparr>ctr_pos := 64\<rparr>"
    using lw by (simp add: up_stream_def newCTR_def)
  have first: "put_le 4 x = replicate 4 y \<Longrightarrow> ucast x = y" for x :: u32 and y
    using nth_put_le [of 0 4 x] by simp
  have m: "put_le 4 magicIntermediate \<noteq> replicate 4 magicAbridged"
    "put_le 4 magicPaddedIntermediate \<noteq> replicate 4 magicAbridged"
    by (auto dest!: first simp: magicIntermediate_def magicPaddedIntermediate_def magicAbridged_def)
  have "magicPaddedIntermediate \<noteq> magicIntermediate"
    by (simp add: magicIntermediate_def magicPaddedIntermediate_def)
  with m have "AcceptObfuscated (wire @ buffered) =
     Inr \<lparr>oc_src = buffered, oc_enc = down_stream head, oc_dec = (up_stream head)\<lparr>ctr_pos := 64\<rparr>,
          oc_codec = fc, oc_dcid = dcID\<rparr>"
    using t fc d pos lw
    by (cases fc) (simp_all add: AcceptObfuscated_def initPacketSize_def Let_def split_beta s get_put_le)
  then show ?thesis by (simp add: c)
qed

section \<open>Properties\<close>

text \<open>A server that reads the 64 bytes a client dialled with, followed by anything, selects the
  framing and datacentre the client asked for, holds exactly the bytes that follow the packet, and
  its two cipher streams stand at the same key and position as the client's opposite ones.\<close>

theorem Accept_Dial:
  assumes "DialObfuscated entropy fc dcID = Inr (wire, conn)"
  shows "AcceptObfuscated (wire @ buffered) =
     Inr \<lparr>oc_src = buffered, oc_enc = oc_dec conn, oc_dec = oc_enc conn, oc_codec = fc, oc_dcid = dcID\<rparr>"
  using assms by (rule Accept_Dial_core)

lemma DialObfuscated_first_draw:
  assumes "length head = 56" and "init_acceptable head" and "\<forall>a b. fc \<noteq> Full a b" and "2 \<le> length e"
  shows "\<exists>wire conn. DialObfuscated (head @ e) fc dcID = Inr (wire, conn)"
proof -
  have "draw_init 33 (head @ e) = Inr (head, e)"
    using assms(1,2) by (simp add: numeral_eq_Suc)
  then show ?thesis using assms(3,4)
    by (cases fc) (simp_all add: DialObfuscated_def read_full_def Let_def split_beta)
qed

definition sample_init :: bytes where
  "sample_init = replicate 56 1"

lemma sample_init_acceptable: "length sample_init = 56" "init_acceptable sample_init"
proof -
  have "bslice sample_init 0 4 = [1, 1, 1, 1]" "bslice sample_init 4 8 = [1, 1, 1, 1]"
    by (simp_all add: sample_init_def bslice_def numeral_eq_Suc)
  then show "length sample_init = 56" "init_acceptable sample_init"
    by (simp_all add: init_acceptable_def magicAbridged_def magicIntermediate_def
        magicPaddedIntermediate_def push_bit_eq_mult, simp_all add: sample_init_def)
qed

theorem Accept_Dial_witness:
  "\<exists>wire conn. DialObfuscated (sample_init @ [5, 6]) Intermediate 2 = Inr (wire, conn)
     \<and> AcceptObfuscated (wire @ [9]) =
         Inr \<lparr>oc_src = [9], oc_enc = oc_dec conn, oc_dec = oc_enc conn, oc_codec = Intermediate, oc_dcid = 2\<rparr>"
proof -
  obtain wire conn where d: "DialObfuscated (sample_init @ [5, 6]) Intermediate 2 = Inr (wire, conn)"
    using DialObfuscated_first_draw [OF sample_init_acceptable, of Intermediate "[5, 6]" 2] by auto
  from Accept_Dial [OF d, of "[9]"] d show ?thesis by auto
qed

text \<open>Whatever a client writes in whatever pieces, a server that accepted its init packet reads
  the same bytes back in whatever pieces its reads return, including the bytes that arrived in the
  same segment as the init packet.\<close>

theorem obfuscated_stream_round_trip:
  assumes "DialObfuscated entropy fc dcID = Inr (wire, conn)"
    and "AcceptObfuscated (wire @ Obf_writes conn ps) = Inr server"
    and "length (concat ps) \<le> sum_list ns"
  shows "Obf_reads server ns = concat ps"
proof -
  have "oc_dec server = oc_enc conn" "oc_src server = Obf_writes conn ps"
    using assms(2) Accept_Dial_core [OF assms(1), of "Obf_writes conn ps"] by auto
  then show ?thesis
    using assms(3) by (simp add: Obf_reads_eq Obf_writes_eq xor_key_stream_involution)
qed

theorem obfuscated_stream_round_trip_witness:
  "\<exists>wire conn server. DialObfuscated (sample_init @ [5, 6]) Abridged 0 = Inr (wire, conn)
     \<and> AcceptObfuscated (wire @ Obf_writes conn [[1, 2], [3]]) = Inr server
     \<and> Obf_reads server [1, 7] = [1, 2, 3]"
proof -
  obtain wire conn where d: "DialObfuscated (sample_init @ [5, 6]) Abridged 0 = Inr (wire, conn)"
    using DialObfuscated_first_draw [OF sample_init_acceptable, of Abridged "[5, 6]" 0] by auto
  obtain server where a: "AcceptObfuscated (wire @ Obf_writes conn [[1, 2], [3]]) = Inr server"
    using Accept_Dial_core [OF d] by auto
  from obfuscated_stream_round_trip [OF d a, of "[1, 7]"] d a show ?thesis by auto
qed

text \<open>The init packet a client sends is never taken for one of the framings that announce
  themselves by a prefix: a server that applied detection to it would not read it as abridged,
  intermediate or padded, and it does not start with a zero byte.\<close>

theorem Dial_not_mistaken_for_framing:
  assumes "DialObfuscated entropy fc dcID = Inr (wire, conn)"
  shows "Detect (wire @ rest) = Inr (Full 0 0, wire @ rest) \<and> hd wire \<noteq> 0 \<and> length wire = 64"
  using assms
proof (rule DialObfuscated_InrD)
  fix head tag tl2 :: bytes
  assume h: "length head = 56" "init_acceptable head" "length tl2 = 2"
    and t: "tag = (if fc = Abridged then replicate 4 magicAbridged else if fc = Intermediate
           then put_le 4 magicIntermediate else put_le 4 magicPaddedIntermediate)"
    and w: "wire = head @ drop 56 (fst (xor_key_stream (up_stream head) (head @ tag @ put_le 2 dcID @ tl2)))"
  have lw: "length wire = 64" using w h t by simp
  define m where "m = (get_le (take 4 head) :: u32)"
  have "put_le 4 m = take 4 head" using put_get_le [of "take 4 head", where 'a = 32] h by (simp add: m_def)
  moreover have tk: "take 4 wire = take 4 head" using w h by simp
  ultimately have wr: "wire = put_le 4 m @ drop 4 wire" by (metis append_take_drop_id)
  have "put_le 4 m ! 0 = ucast m" by (simp add: nth_put_le)
  then have h0: "head ! 0 = ucast m" using \<open>put_le 4 m = take 4 head\<close> by simp
  have hd: "hd wire = ucast m" using h0 w h by (cases head) auto
  have "ucast m \<noteq> magicAbridged" "(ucast m :: byte) \<noteq> 0" "m \<noteq> magicIntermediate" "m \<noteq> magicPaddedIntermediate"
    using h(2) h0 by (auto simp: init_acceptable_def m_def)
  then show ?thesis using Detect_word [of m "drop 4 wire @ rest"] wr hd lw by (metis append_assoc)
qed

theorem Dial_not_mistaken_for_framing_witness:
  "\<exists>wire conn. DialObfuscated (sample_init @ [5, 6]) Intermediate 2 = Inr (wire, conn) \<and> Detect wire = Inr (Full 0 0, wire)"
proof -
  obtain wire conn where d: "DialObfuscated (sample_init @ [5, 6]) Intermediate 2 = Inr (wire, conn)"
    using DialObfuscated_first_draw [OF sample_init_acceptable, of Intermediate "[5, 6]" 2] by auto
  from Dial_not_mistaken_for_framing [OF d, of "[]"] d show ?thesis by auto
qed

end
