(* ===== verification/Ige.thy ===== *)
theory Ige
  imports Go_Crypto
begin

unbundle bit_operations_syntax

text \<open>
  The block cipher mode of the protocol, \<^verbatim>\<open>pkg/mtproto/ige.go\<close>: AES in infinite garble
  extension.  Each output block is chained to the previous ciphertext block and to the
  previous plaintext block, both seeded by the two halves of a 32-byte initialisation vector.
  The two loops of the source are \<open>ige_encrypt_loop\<close> and \<open>ige_decrypt_loop\<close>; they are stated
  over a block function, so that the locale \<open>block_cipher\<close> can prove that they undo each other
  from the one law the mode needs, and the interpretation \<open>aes\<close> discharges that law for AES.
\<close>

text \<open>The errors of package \<^verbatim>\<open>mtproto\<close>.  A payload keeps what the message of the error renders.\<close>

datatype mt_error =
    ErrBlockSize nat
  | ErrIVSize nat
  | ErrAesKeySize nat
  | ErrRandRead
  | ErrAuthKeySize nat
  | ErrMsgKeySize nat
  | ErrBadMsgKey
  | ErrBodyTooLarge nat
  | ErrShortFrame
  | ErrUnknownAuthKey u64
  | ErrBadLength nat nat
  | ErrBadPadding nat
  | ErrNotPlain u64
  | ErrShortPayload
  | ErrNotFactors
  | ErrTooSmall u64
  | ErrNoFactor u64
  | ErrNoSemiprime
  | ErrNonceMismatch
  | ErrUnknownRSAKey
  | ErrBadDHValue
  | ErrHandshakeState
  | ErrHandshakeExpired
  | ErrInnerIntegrity
  | ErrInnerSize nat
  | ErrInnerMismatch
  | ErrRSADecrypt
  | ErrRSAEncrypt
  | ErrJSON
  | ErrNewNonceHash

definition blockSize :: nat where
  "blockSize = 16"

definition igeIVSize :: nat where
  "igeIVSize = 2 * blockSize"

text \<open>\<^verbatim>\<open>newBlock\<close>: the checks of \<^verbatim>\<open>IGEEncrypt\<close> and \<^verbatim>\<open>IGEDecrypt\<close>, in the order of the source.\<close>

definition newBlock :: "bytes \<Rightarrow> bytes \<Rightarrow> bytes \<Rightarrow> mt_error + unit" where
  "newBlock key iv src =
     (if length iv \<noteq> igeIVSize then Inl (ErrIVSize (length iv))
      else if length src = 0 \<or> length src mod blockSize \<noteq> 0 then Inl (ErrBlockSize (length src))
      else if \<not> aes_key_ok key then Inl (ErrAesKeySize (length key))
      else Inr ())"

fun ige_encrypt_loop :: "(bytes \<Rightarrow> bytes) \<Rightarrow> bytes \<Rightarrow> bytes \<Rightarrow> bytes list \<Rightarrow> bytes" where
  "ige_encrypt_loop enc prevCipher prevPlain [] = []"
| "ige_encrypt_loop enc prevCipher prevPlain (plain # rest) =
     (let out = xor_bytes (enc (xor_bytes plain prevCipher)) prevPlain
      in out @ ige_encrypt_loop enc out plain rest)"

fun ige_decrypt_loop :: "(bytes \<Rightarrow> bytes) \<Rightarrow> bytes \<Rightarrow> bytes \<Rightarrow> bytes list \<Rightarrow> bytes" where
  "ige_decrypt_loop dec prevCipher prevPlain [] = []"
| "ige_decrypt_loop dec prevCipher prevPlain (ciph # rest) =
     (let out = xor_bytes (dec (xor_bytes ciph prevPlain)) prevCipher
      in out @ ige_decrypt_loop dec ciph out rest)"

definition IGEEncrypt :: "bytes \<Rightarrow> bytes \<Rightarrow> bytes \<Rightarrow> mt_error + bytes" where
  "IGEEncrypt key iv src =
     (case newBlock key iv src of
        Inl e \<Rightarrow> Inl e
      | Inr _ \<Rightarrow> Inr (ige_encrypt_loop (aes_encrypt key) (take blockSize iv) (drop blockSize iv)
                        (chunks blockSize src)))"

definition IGEDecrypt :: "bytes \<Rightarrow> bytes \<Rightarrow> bytes \<Rightarrow> mt_error + bytes" where
  "IGEDecrypt key iv src =
     (case newBlock key iv src of
        Inl e \<Rightarrow> Inl e
      | Inr _ \<Rightarrow> Inr (ige_decrypt_loop (aes_decrypt key) (take blockSize iv) (drop blockSize iv)
                        (chunks blockSize src)))"

text \<open>\<^verbatim>\<open>subtle.ConstantTimeCompare\<close> is equality of lengths and contents.\<close>

definition constantTimeEqual :: "bytes \<Rightarrow> bytes \<Rightarrow> bool" where
  "constantTimeEqual a b \<longleftrightarrow> a = b"

section \<open>The interface of a block cipher, and what the mode makes of it\<close>

locale block_cipher =
  fixes key_ok :: "bytes \<Rightarrow> bool"
    and enc :: "bytes \<Rightarrow> bytes \<Rightarrow> bytes"
    and dec :: "bytes \<Rightarrow> bytes \<Rightarrow> bytes"
  assumes dec_enc: "key_ok k \<Longrightarrow> length b = 16 \<Longrightarrow> dec k (enc k b) = b"
    and enc_length: "key_ok k \<Longrightarrow> length (enc k b) = 16"
    and dec_length: "key_ok k \<Longrightarrow> length (dec k b) = 16"
begin

lemma loop_length_enc:
  assumes "key_ok k" and "length pp = 16" and "\<forall>b \<in> set bs. length b = 16"
  shows "length (ige_encrypt_loop (enc k) pc pp bs) = 16 * length bs"
  using assms by (induction bs arbitrary: pc pp) (simp_all add: Let_def enc_length)

lemma loop_length_dec:
  assumes "key_ok k" and "length pc = 16" and "\<forall>b \<in> set bs. length b = 16"
  shows "length (ige_decrypt_loop (dec k) pc pp bs) = 16 * length bs"
  using assms by (induction bs arbitrary: pc pp) (simp_all add: Let_def dec_length)

text \<open>The chaining values of the two loops agree block by block, so the plaintext comes back.\<close>

lemma loop_round_trip:
  assumes "key_ok k" and "length pc = 16" and "length pp = 16" and "\<forall>b \<in> set bs. length b = 16"
  shows "ige_decrypt_loop (dec k) pc pp (chunks 16 (ige_encrypt_loop (enc k) pc pp bs)) = concat bs"
  using assms(2-)
proof (induction bs arbitrary: pc pp)
  case Nil
  then show ?case by simp
next
  case (Cons b bs)
  define out where "out = xor_bytes (enc k (xor_bytes b pc)) pp"
  from Cons.prems assms(1) have out: "length out = 16" by (simp add: out_def enc_length)
  have "xor_bytes (dec k (xor_bytes out pp)) pc = b"
    using Cons.prems assms(1) by (simp add: out_def xor_bytes_cancel enc_length dec_enc)
  moreover have "ige_decrypt_loop (dec k) out b (chunks 16 (ige_encrypt_loop (enc k) out b bs)) = concat bs"
    using Cons.prems out by (intro Cons.IH) simp_all
  ultimately show ?case
    by (simp add: Let_def out_def [symmetric] chunks_append out)
qed

text \<open>A cipher that decrypts what it encrypts permutes the blocks, so it also encrypts what it
  decrypts: every ciphertext is the encryption of its decryption.\<close>

lemma enc_dec:
  assumes "key_ok k" and "length b = 16"
  shows "enc k (dec k b) = b"
proof -
  let ?B = "{b :: bytes. length b = 16}"
  have "finite ?B"
    using finite_lists_length_eq [of "UNIV :: byte set" 16] by simp
  moreover have "enc k ` ?B \<subseteq> ?B" using assms(1) by (auto simp: enc_length)
  moreover have "inj_on (enc k) ?B"
    by (rule inj_on_inverseI [where g = "dec k"]) (simp add: assms(1) dec_enc)
  ultimately have "enc k ` ?B = ?B" by (rule endo_inj_surj)
  with assms(2) obtain p where "length p = 16" and "b = enc k p" by blast
  with assms(1) show ?thesis by (simp add: dec_enc)
qed

lemma loop_round_trip_dec:
  assumes "key_ok k" and "length pc = 16" and "length pp = 16" and "\<forall>b \<in> set bs. length b = 16"
  shows "ige_encrypt_loop (enc k) pc pp (chunks 16 (ige_decrypt_loop (dec k) pc pp bs)) = concat bs"
  using assms(2-)
proof (induction bs arbitrary: pc pp)
  case Nil
  then show ?case by simp
next
  case (Cons b bs)
  define out where "out = xor_bytes (dec k (xor_bytes b pp)) pc"
  from Cons.prems assms(1) have out: "length out = 16" by (simp add: out_def dec_length)
  have "xor_bytes (enc k (xor_bytes out pc)) pp = b"
    using Cons.prems assms(1) by (simp add: out_def xor_bytes_cancel dec_length enc_dec)
  moreover have "ige_encrypt_loop (enc k) b out (chunks 16 (ige_decrypt_loop (dec k) b out bs)) = concat bs"
    using Cons.prems out by (intro Cons.IH) simp_all
  ultimately show ?case
    by (simp add: Let_def out_def [symmetric] chunks_append out)
qed

end

interpretation aes: block_cipher aes_key_ok aes_encrypt aes_decrypt
  by unfold_locales (simp_all add: aes_decrypt_encrypt length_aes_encrypt length_aes_decrypt)

section \<open>Properties of the exported functions\<close>

lemma newBlock_Inr_iff:
  "newBlock key iv src = Inr u \<longleftrightarrow> length iv = 32 \<and> src \<noteq> [] \<and> 16 dvd length src \<and> aes_key_ok key"
  by (simp add: newBlock_def igeIVSize_def blockSize_def mod_eq_0_iff_dvd)

lemma IGEEncrypt_Inr_iff:
  "IGEEncrypt key iv src = Inr c \<longleftrightarrow>
     length iv = 32 \<and> src \<noteq> [] \<and> 16 dvd length src \<and> aes_key_ok key \<and>
     c = ige_encrypt_loop (aes_encrypt key) (take 16 iv) (drop 16 iv) (chunks 16 src)"
  using newBlock_Inr_iff [of key iv src]
  by (cases "newBlock key iv src") (auto simp: IGEEncrypt_def blockSize_def)

lemma IGEDecrypt_Inr_iff:
  "IGEDecrypt key iv src = Inr p \<longleftrightarrow>
     length iv = 32 \<and> src \<noteq> [] \<and> 16 dvd length src \<and> aes_key_ok key \<and>
     p = ige_decrypt_loop (aes_decrypt key) (take 16 iv) (drop 16 iv) (chunks 16 src)"
  using newBlock_Inr_iff [of key iv src]
  by (cases "newBlock key iv src") (auto simp: IGEDecrypt_def blockSize_def)

lemma chunks_block_lengths: "16 dvd length src \<Longrightarrow> \<forall>b \<in> set (chunks 16 src). length b = 16"
  by (blast dest: length_in_chunks)

lemma length_chunks_16: "16 dvd length src \<Longrightarrow> 16 * length (chunks 16 src) = length src"
proof -
  assume m: "16 dvd length src"
  have "length src = length (concat (chunks 16 src))" by (simp add: concat_chunks)
  also have "\<dots> = 16 * length (chunks 16 src)"
    using chunks_block_lengths [OF m]
    by (induction "chunks 16 src") (simp_all add: length_concat sum_list_triv cong: map_cong)
  finally show ?thesis by simp
qed

lemma IGEEncrypt_length:
  assumes "IGEEncrypt key iv src = Inr c"
  shows "length c = length src"
  using assms chunks_block_lengths [of src] length_chunks_16 [of src]
  by (auto simp: IGEEncrypt_Inr_iff aes.loop_length_enc)

lemma IGEDecrypt_length:
  assumes "IGEDecrypt key iv src = Inr p"
  shows "length p = length src"
  using assms chunks_block_lengths [of src] length_chunks_16 [of src]
  by (auto simp: IGEDecrypt_Inr_iff aes.loop_length_dec)

lemma IGE_round_trip:
  assumes "IGEEncrypt key iv src = Inr c"
  shows "IGEDecrypt key iv c = Inr src"
proof -
  from assms have k: "length iv = 32" "src \<noteq> []" "16 dvd length src" "aes_key_ok key"
    and c: "c = ige_encrypt_loop (aes_encrypt key) (take 16 iv) (drop 16 iv) (chunks 16 src)"
    by (simp_all add: IGEEncrypt_Inr_iff)
  have "ige_decrypt_loop (aes_decrypt key) (take 16 iv) (drop 16 iv) (chunks 16 c) = concat (chunks 16 src)"
    unfolding c using k chunks_block_lengths [OF k(3)] by (intro aes.loop_round_trip) simp_all
  moreover have "c \<noteq> []" and "16 dvd length c"
    using k IGEEncrypt_length [OF assms] by auto
  ultimately show ?thesis using k by (simp add: IGEDecrypt_Inr_iff concat_chunks)
qed

lemma IGE_round_trip_dec:
  assumes "IGEDecrypt key iv c = Inr src"
  shows "IGEEncrypt key iv src = Inr c"
proof -
  from assms have k: "length iv = 32" "c \<noteq> []" "16 dvd length c" "aes_key_ok key"
    and src: "src = ige_decrypt_loop (aes_decrypt key) (take 16 iv) (drop 16 iv) (chunks 16 c)"
    by (simp_all add: IGEDecrypt_Inr_iff)
  have "ige_encrypt_loop (aes_encrypt key) (take 16 iv) (drop 16 iv) (chunks 16 src) = concat (chunks 16 c)"
    unfolding src using k chunks_block_lengths [OF k(3)] by (intro aes.loop_round_trip_dec) simp_all
  moreover have "src \<noteq> []" and "16 dvd length src"
    using k IGEDecrypt_length [OF assms] by auto
  ultimately show ?thesis using k by (simp add: IGEEncrypt_Inr_iff concat_chunks)
qed

lemma IGEEncrypt_total_iff:
  "(\<exists>c. IGEEncrypt key iv src = Inr c) \<longleftrightarrow>
     length iv = 32 \<and> src \<noteq> [] \<and> 16 dvd length src \<and> aes_key_ok key"
  by (simp add: IGEEncrypt_Inr_iff)

text \<open>\<^verbatim>\<open>IGEEncrypt\<close> and \<^verbatim>\<open>IGEDecrypt\<close> are exact inverses, errors included: one maps a
  plaintext to a ciphertext precisely when the other maps that ciphertext back to it.\<close>

theorem IGE_inverse: "IGEEncrypt key iv p = Inr c \<longleftrightarrow> IGEDecrypt key iv c = Inr p"
  by (blast intro: IGE_round_trip IGE_round_trip_dec)

end
