(* ===== verification/Proof_Of_Work.thy ===== *)
theory Proof_Of_Work
  imports Ige
begin

unbundle bit_operations_syntax

text \<open>
  The proof of work of the handshake, \<^verbatim>\<open>pkg/mtproto/pq.go\<close>: the server hands out a semiprime, the
  client factors it by Pollard's rho, the server checks the factors.  Values are \<^verbatim>\<open>uint64\<close>; the
  cycle search runs on unbounded integers, as the source does with \<^verbatim>\<open>big.Int\<close>.  The draws of
  \<^verbatim>\<open>rand.Prime\<close> are an explicit list, \<open>None\<close> standing for a failing reader; a loop that needs more
  draws than the list holds has not returned, which is the result \<open>None\<close>.
\<close>

fun randomPrime31 :: "nat option list \<Rightarrow> ((mt_error + u64) \<times> nat option list) option" where
  "randomPrime31 [] = None"
| "randomPrime31 (None # ds) = Some (Inl ErrRandRead, ds)"
| "randomPrime31 (Some n # ds) =
     (let v = of_nat n :: u64 in if 2 ^ 30 \<le> v then Some (Inr v, ds) else randomPrime31 ds)"

fun generate_attempts :: "nat \<Rightarrow> nat option list \<Rightarrow> (mt_error + (u64 \<times> u64 \<times> u64)) option" where
  "generate_attempts 0 ds = Some (Inl ErrNoSemiprime)"
| "generate_attempts (Suc attempts) ds =
     (case randomPrime31 ds of
        None \<Rightarrow> None
      | Some (Inl e, _) \<Rightarrow> Some (Inl e)
      | Some (Inr p, ds1) \<Rightarrow>
          (case randomPrime31 ds1 of
             None \<Rightarrow> None
           | Some (Inl e, _) \<Rightarrow> Some (Inl e)
           | Some (Inr q, ds2) \<Rightarrow>
               if p = q then generate_attempts attempts ds2
               else if q < p then Some (Inr (q * p, q, p))
               else Some (Inr (p * q, p, q))))"

definition GeneratePQ :: "nat option list \<Rightarrow> (mt_error + (u64 \<times> u64 \<times> u64)) option" where
  "GeneratePQ ds = generate_attempts 64 ds"

definition VerifyPQ :: "u64 \<Rightarrow> u64 \<Rightarrow> u64 \<Rightarrow> mt_error + unit" where
  "VerifyPQ pq p q =
     (if p \<le> 1 \<or> q \<le> 1 \<or> p = pq \<or> q = pq then Inl ErrNotFactors
      else if p * q \<noteq> pq then Inl ErrNotFactors
      else Inr ())"

definition brent_f :: "nat \<Rightarrow> nat \<Rightarrow> nat \<Rightarrow> nat" where
  "brent_f n c x = (x * x + c) mod n"

text \<open>One pass of the source's loop per unit of \<open>steps\<close>; the source starts it at \<^verbatim>\<open>maxSteps\<close>.\<close>

function brent_loop :: "nat \<Rightarrow> nat \<Rightarrow> nat \<Rightarrow> nat \<Rightarrow> nat \<Rightarrow> nat option" where
  "brent_loop n c steps x y =
     (if steps = 0 then None
      else
        let x' = brent_f n c x; y' = brent_f n c (brent_f n c y);
            tmp = (if y' \<le> x' then x' - y' else y' - x')
        in if tmp = 0 then None
           else
             let d = gcd tmp n
             in if 1 < d then (if d = n then None else Some d)
                else brent_loop n c (steps - 1) x' y')"
  by pat_completeness auto
termination
  by (relation "measure (\<lambda>(n, c, steps, x, y). steps)") auto

declare brent_loop.simps [simp del]

definition maxSteps :: nat where
  "maxSteps = 4194304"

definition brent :: "nat \<Rightarrow> nat \<Rightarrow> nat option" where
  "brent n c = brent_loop n c maxSteps 2 2"

fun factor_rounds :: "u64 \<Rightarrow> nat list \<Rightarrow> mt_error + (u64 \<times> u64)" where
  "factor_rounds pq [] = Inl (ErrNoFactor pq)"
| "factor_rounds pq (c # cs) =
     (case brent (unat pq) c of
        Some f \<Rightarrow>
          (let a = of_nat f :: u64
           in if a \<noteq> 1 \<and> a \<noteq> pq
              then (let b = pq div a in if b < a then Inr (b, a) else Inr (a, b))
              else factor_rounds pq cs)
      | None \<Rightarrow> factor_rounds pq cs)"

definition FactorPQ :: "u64 \<Rightarrow> mt_error + (u64 \<times> u64)" where
  "FactorPQ pq =
     (if pq < 4 then Inl (ErrTooSmall pq)
      else if pq mod 2 = 0 then Inr (2, pq div 2)
      else factor_rounds pq [1..<64])"

section \<open>Lemmas\<close>

lemma brent_loop_factor:
  "brent_loop n c steps x y = Some d \<Longrightarrow> 1 < d \<and> d dvd n \<and> d \<noteq> n"
proof (induction n c steps x y rule: brent_loop.induct)
  case (1 n c steps x y)
  from "1.prems" show ?case
    by (subst (asm) brent_loop.simps) (use "1.IH" in \<open>auto simp: Let_def split: if_splits\<close>)
qed

lemma word_product:
  fixes p q :: u64
  assumes "unat p * unat q < 2 ^ 64"
  shows "unat (p * q) = unat p * unat q"
  using assms by (simp add: unat_word_ariths)

lemma VerifyPQ_genuine:
  assumes "1 < unat p" and "1 < unat q" and "unat p * unat q = unat pq"
  shows "VerifyPQ pq p q = Inr ()"
proof -
  have "unat (p * q) = unat pq" using word_product [of p q] assms(3) unsigned_less [of pq] by simp
  then have "p * q = pq" by (simp add: word_unat_eq_iff)
  moreover have "unat p \<noteq> unat pq" "unat q \<noteq> unat pq"
    using assms by (metis mult.right_neutral mult_cancel1 less_irrefl not_one_less_zero,
      metis mult.left_neutral mult_cancel2 less_irrefl not_one_less_zero)
  then have "p \<noteq> pq" "q \<noteq> pq" by blast+
  moreover have "\<not> p \<le> 1" "\<not> q \<le> 1" using assms by (simp_all add: word_le_nat_alt)
  ultimately show ?thesis by (simp add: VerifyPQ_def)
qed

definition proper_factors :: "u64 \<Rightarrow> u64 \<Rightarrow> u64 \<Rightarrow> bool" where
  "proper_factors pq p q \<longleftrightarrow> 1 < unat p \<and> unat p \<le> unat q \<and> unat p * unat q = unat pq"

lemma divisor_split:
  assumes "d dvd unat (pq :: u64)" and "1 < d" and "d \<noteq> unat pq" and "0 < unat pq"
  shows "unat (of_nat d :: u64) = d" and "d * unat (pq div of_nat d) = unat pq" and "1 < unat (pq div of_nat d)"
proof -
  have "unat pq < 2 ^ 64" using unsigned_less [of pq] by simp
  moreover have "d \<le> unat pq" using assms(1,4) by (rule dvd_imp_le)
  ultimately show u: "unat (of_nat d :: u64) = d" by (intro unat_of_nat_small) simp
  show m: "d * unat (pq div of_nat d) = unat pq"
    using assms(1) u by (simp add: unat_div_distrib)
  show "1 < unat (pq div of_nat d)"
  proof (rule ccontr)
    assume "\<not> 1 < unat (pq div of_nat d)"
    then have "unat (pq div of_nat d) = 0 \<or> unat (pq div of_nat d) = 1" by arith
    with m assms(3,4) show False by auto
  qed
qed

lemma factor_rounds_sound:
  "factor_rounds pq cs = Inr (p, q) \<Longrightarrow> 0 < unat pq \<Longrightarrow> proper_factors pq p q"
proof (induction cs)
  case (Cons c cs)
  show ?case
  proof (cases "brent (unat pq) c")
    case None
    with Cons show ?thesis by simp
  next
    case (Some d)
    then have d: "1 < d" "d dvd unat pq" "d \<noteq> unat pq"
      using brent_loop_factor by (auto simp: brent_def)
    note s = divisor_split [OF d(2,1,3) Cons.prems(2)]
    with Cons d Some show ?thesis
      by (auto simp: proper_factors_def Let_def word_less_nat_alt ac_simps split: if_splits)
  qed
qed simp

lemma even_split:
  fixes pq :: u64
  assumes "\<not> pq < 4" and "pq mod 2 = 0"
  shows "proper_factors pq 2 (pq div 2)"
proof -
  have "unat pq mod 2 = 0" using arg_cong [OF assms(2), of unat] by (simp add: unat_mod_distrib)
  moreover have "4 \<le> unat pq" using assms(1) by (simp add: word_less_nat_alt)
  ultimately show ?thesis by (auto simp: proper_factors_def unat_div_distrib)
qed

lemma FactorPQ_proper: "FactorPQ pq = Inr (p, q) \<Longrightarrow> proper_factors pq p q"
  using even_split [of pq] factor_rounds_sound [of pq "[1..<64]" p q]
  by (auto simp: FactorPQ_def word_less_nat_alt split: if_splits)

text \<open>A draw of \<^verbatim>\<open>rand.Prime(31)\<close> has exactly 31 bits.\<close>

definition draw31 :: "nat option \<Rightarrow> bool" where
  "draw31 d = (case d of None \<Rightarrow> False | Some n \<Rightarrow> 2 ^ 30 \<le> n \<and> n < 2 ^ 31)"

lemma randomPrime31_draw:
  assumes "draw31 d"
  shows "\<exists>p. randomPrime31 (d # ds) = Some (Inr p, ds) \<and> d = Some (unat p)"
proof -
  from assms obtain n where d: "d = Some n" "2 ^ 30 \<le> n" "n < 2 ^ 31"
    by (auto simp: draw31_def split: option.splits)
  then have "unat (of_nat n :: u64) = n" by (intro unat_of_nat_small) simp
  with d show ?thesis by (simp add: Let_def word_le_nat_alt)
qed

section \<open>Properties\<close>

text \<open>Whatever \<^verbatim>\<open>FactorPQ\<close> returns is a genuine factorisation, smaller factor first and both
  above one, computed without overflow, and the server's check accepts it.\<close>

theorem FactorPQ_sound:
  assumes "FactorPQ pq = Inr (p, q)"
  shows "1 < unat p \<and> unat p \<le> unat q \<and> unat p * unat q = unat pq \<and> VerifyPQ pq p q = Inr ()"
  using FactorPQ_proper [OF assms] VerifyPQ_genuine [of p q pq] by (auto simp: proper_factors_def)

theorem FactorPQ_sound_witness: "FactorPQ 15 = Inr (3, 5) \<and> VerifyPQ 15 3 5 = Inr ()"
proof -
  have "FactorPQ 15 = Inr (3, 5)"
    by (simp add: FactorPQ_def brent_def maxSteps_def brent_loop.simps brent_f_def gcd_nat.simps Let_def upt_rec)
  with FactorPQ_sound [of 15 3 5] show ?thesis by simp
qed

text \<open>When the random primes have 31 bits, as requested, and the first two differ, \<^verbatim>\<open>GeneratePQ\<close>
  returns their product with the factors in increasing order, below \<open>2^62\<close> and without overflow,
  and the check accepts those factors.\<close>

theorem GeneratePQ_verifies:
  assumes "draw31 a" and "draw31 b" and "a \<noteq> b"
  shows "\<exists>pq p q. GeneratePQ (a # b # ds) = Some (Inr (pq, p, q)) \<and> {a, b} = {Some (unat p), Some (unat q)}
    \<and> unat p < unat q \<and> unat pq = unat p * unat q \<and> unat pq < 2 ^ 62 \<and> VerifyPQ pq p q = Inr ()"
proof -
  obtain p where p: "randomPrime31 (a # b # ds) = Some (Inr p, b # ds)" "a = Some (unat p)"
    using randomPrime31_draw [OF assms(1)] by blast
  obtain q where q: "randomPrime31 (b # ds) = Some (Inr q, ds)" "b = Some (unat q)"
    using randomPrime31_draw [OF assms(2)] by blast
  have r: "2 ^ 30 \<le> unat p" "unat p < 2 ^ 31" "2 ^ 30 \<le> unat q" "unat q < 2 ^ 31"
    using assms p(2) q(2) by (simp_all add: draw31_def)
  then have "unat p * unat q < 2 ^ 31 * 2 ^ 31" by (intro mult_strict_mono) simp_all
  then have m: "unat p * unat q < 2 ^ 62" by simp
  then have pq: "unat (p * q) = unat p * unat q" by (intro word_product) simp
  have ne: "p \<noteq> q" using assms(3) p(2) q(2) by auto
  have "VerifyPQ (p * q) p q = Inr ()" "VerifyPQ (q * p) q p = Inr ()"
    using r pq by (intro VerifyPQ_genuine; simp add: mult.commute)+
  moreover have "GeneratePQ (a # b # ds) = Some (Inr (if q < p then (q * p, q, p) else (p * q, p, q)))"
    using p q ne by (simp add: GeneratePQ_def numeral_eq_Suc del: randomPrime31.simps)
  ultimately show ?thesis using m pq p q ne by (auto simp: mult.commute word_less_nat_alt neq_iff)
qed

theorem GeneratePQ_verifies_witness:
  "\<exists>pq p q. GeneratePQ [Some 2147483647, Some 1073741827] = Some (Inr (pq, p, q)) \<and> unat pq < 2 ^ 62
     \<and> VerifyPQ pq p q = Inr ()"
  using GeneratePQ_verifies [of "Some 2147483647" "Some 1073741827" "[]"] by (auto simp: draw31_def)

text \<open>The check multiplies modulo \<open>2^64\<close>, so it accepts factors that are none: for every
  challenge \<open>pq\<close> between 3 and \<open>2^63\<close> the pair of 3 and \<open>pq\<close> times the inverse of 3 passes, at the
  cost of one multiplication and whether or not 3 divides \<open>pq\<close>.\<close>

theorem VerifyPQ_forgeable:
  assumes "3 < unat pq" and "unat pq < 2 ^ 63"
  shows "VerifyPQ pq 3 (pq * 0xAAAAAAAAAAAAAAAB) = Inr ()"
proof -
  define q where "q = pq * 0xAAAAAAAAAAAAAAAB"
  have "3 * q = pq * (3 * 0xAAAAAAAAAAAAAAAB)" by (simp only: q_def ac_simps)
  also have "3 * 0xAAAAAAAAAAAAAAAB = (1 :: u64)" by simp
  finally have q: "3 * q = pq" by simp
  then have ne: "q \<noteq> 0" "q \<noteq> 1" "pq \<noteq> 3" using assms(1) by auto
  moreover have "q \<noteq> pq"
  proof
    assume "q = pq"
    with q have "2 * pq = 0" using arg_cong [of "3 * pq" pq "\<lambda>x. x - pq"] by simp
    moreover have "unat (2 * pq) = 2 * unat pq" using assms(2) by (simp add: unat_word_ariths)
    ultimately show False using assms(1) by simp
  qed
  moreover have "\<not> (3 :: u64) \<le> 1" by (simp add: word_le_nat_alt)
  moreover have "\<not> q \<le> 1"
  proof
    assume "q \<le> 1"
    then have "unat q = 0 \<or> unat q = 1" by (simp add: word_le_nat_alt) arith
    with ne show False by (auto simp: word_unat_eq_iff)
  qed
  ultimately show ?thesis unfolding q_def [symmetric] using q by (simp add: VerifyPQ_def)
qed

theorem VerifyPQ_forgeable_witness:
  "VerifyPQ 2305843016892186701 3 (2305843016892186701 * 0xAAAAAAAAAAAAAAAB) = Inr ()
   \<and> \<not> 3 dvd (2305843016892186701 :: nat)"
  using VerifyPQ_forgeable [of 2305843016892186701] by simp

end
