(* ===== verification/Udp_Transport.thy ===== *)
theory Udp_Transport
  imports Go_Prelude "HOL-Library.AList"
begin

unbundle bit_operations_syntax

text \<open>
  The UDP transport, \<^verbatim>\<open>pkg/mtproto/transport/udp.go\<close>: datagram headers, fragmentation and bounded
  reassembly, validation of a new path before the server sends to it, and the listener's table of
  connections.  A Go map is an association list with distinct keys.  The inbound channel of a
  connection is its queue of frames; a send on a closed channel panics, which is the result \<open>None\<close>
  of the operations that deliver.  Addresses are pairs of host and port; clock readings are
  nanoseconds; \<open>None\<close> for \<open>uc_challengeAt\<close> is Go's zero time.
\<close>

type_synonym addr = "nat \<times> nat"

definition udpMagic :: u16 where "udpMagic = 0x4D51"
definition udpVersion :: byte where "udpVersion = 1"
definition udpHeaderSize :: nat where "udpHeaderSize = 24"
definition udpMaxPayload :: nat where "udpMaxPayload = 1280 - udpHeaderSize - 48"
definition udpMaxFragments :: nat where "udpMaxFragments = 512"
definition udpReassemblyTTL :: int where "udpReassemblyTTL = 3 * 1000000000"
definition maxFrameSize :: nat where "maxFrameSize = 16777216"
definition defaultIdleTimeout :: int where "defaultIdleTimeout = 150 * 1000000000"

definition udpFlagData :: byte where "udpFlagData = 1"
definition udpFlagPathChallenge :: byte where "udpFlagPathChallenge = 2"
definition udpFlagPathResponse :: byte where "udpFlagPathResponse = 4"
definition udpFlagClose :: byte where "udpFlagClose = 8"
definition udpFlagHello :: byte where "udpFlagHello = 16"

lemmas udp_flags = udpFlagData_def udpFlagPathChallenge_def udpFlagPathResponse_def udpFlagClose_def udpFlagHello_def

definition has_flag :: "byte \<Rightarrow> byte \<Rightarrow> bool" where
  "has_flag flags f \<longleftrightarrow> flags AND f \<noteq> 0"

datatype udp_error = ErrBadDatagram | ErrClosed | ErrTimeout | ErrFrameLimit nat | ErrFragmentLimit nat | ErrRandom

section \<open>Datagrams\<close>

record udpHeader =
  hd_flags :: byte
  hd_connID :: u64
  hd_msgSeq :: u32
  hd_fragIndex :: u16
  hd_fragCount :: u16
  hd_payloadLen :: u16

definition udp_marshal :: "udpHeader \<Rightarrow> bytes \<Rightarrow> bytes" where
  "udp_marshal h payload =
     put_be 2 udpMagic @ [udpVersion, hd_flags h] @ put_be 8 (hd_connID h) @ put_be 4 (hd_msgSeq h)
     @ put_be 2 (hd_fragIndex h) @ put_be 2 (hd_fragCount h) @ put_be 2 (of_nat (length payload) :: u16)
     @ [0, 0] @ payload"

definition parseUDP :: "bytes \<Rightarrow> udp_error + (udpHeader \<times> bytes)" where
  "parseUDP b =
     (if length b < udpHeaderSize then Inl ErrBadDatagram
      else if get_be (bslice b 0 2) \<noteq> udpMagic \<or> b ! 2 \<noteq> udpVersion then Inl ErrBadDatagram
      else
        let h = \<lparr>hd_flags = b ! 3, hd_connID = get_be (bslice b 4 12), hd_msgSeq = get_be (bslice b 12 16),
                 hd_fragIndex = get_be (bslice b 16 18), hd_fragCount = get_be (bslice b 18 20),
                 hd_payloadLen = get_be (bslice b 20 22)\<rparr>
        in if unat (hd_payloadLen h) \<noteq> length b - udpHeaderSize then Inl ErrBadDatagram
           else if hd_fragCount h = 0 \<or> udpMaxFragments < unat (hd_fragCount h) \<or> hd_fragCount h \<le> hd_fragIndex h
           then Inl ErrBadDatagram
           else Inr (h, drop udpHeaderSize b))"

text \<open>The header of a datagram that carries no fragment information.\<close>

definition control_header :: "byte \<Rightarrow> u64 \<Rightarrow> udpHeader" where
  "control_header flags cid =
     \<lparr>hd_flags = flags, hd_connID = cid, hd_msgSeq = 0, hd_fragIndex = 0, hd_fragCount = 1, hd_payloadLen = 0\<rparr>"

section \<open>Connections\<close>

record partial =
  fragments :: "bytes option list"
  received :: nat
  total :: nat
  p_bytes :: nat
  started :: int

record udpConn =
  uc_id :: u64
  uc_remote :: addr
  uc_challenge :: bytes
  uc_challengeAddr :: "addr option"
  uc_challengeAt :: "int option"
  uc_in :: "bytes list"
  uc_partials :: "(u32 \<times> partial) list"
  uc_sendSeq :: u32
  uc_idle :: int
  uc_lastSeen :: int
  uc_closed :: bool

definition deliver :: "bytes \<Rightarrow> udpConn \<Rightarrow> udpConn option" where
  "deliver frame c =
     (if uc_closed c then None
      else Some (if length (uc_in c) < 256 then c\<lparr>uc_in := uc_in c @ [frame]\<rparr> else c))"

definition sameRemote :: "udpConn \<Rightarrow> addr \<Rightarrow> bool" where
  "sameRemote c a \<longleftrightarrow> uc_remote c = a"

text \<open>\<^verbatim>\<open>rand.Read\<close> of the token yields 8 bytes or fails.  The second component is what is sent.\<close>

definition beginMigration :: "int \<Rightarrow> bytes option \<Rightarrow> addr \<Rightarrow> udpConn \<Rightarrow> udpConn \<times> (bytes \<times> addr) list" where
  "beginMigration now token to c =
     (if (case uc_challengeAt c of None \<Rightarrow> False | Some at \<Rightarrow> now - at < 1000000000) then (c, [])
      else case token of
        None \<Rightarrow> (c, [])
      | Some tk \<Rightarrow>
          (c\<lparr>uc_challenge := tk, uc_challengeAddr := Some to, uc_challengeAt := Some now\<rparr>,
           [(udp_marshal (control_header udpFlagPathChallenge (uc_id c)) tk, to)]))"

definition completeMigration :: "int \<Rightarrow> bytes \<Rightarrow> addr \<Rightarrow> udpConn \<Rightarrow> udpConn" where
  "completeMigration now payload from_addr c =
     (case uc_challengeAddr c of
        None \<Rightarrow> c
      | Some ca \<Rightarrow>
          if (case uc_challengeAt c of None \<Rightarrow> True | Some at \<Rightarrow> 5 * 1000000000 < now - at) then c
          else if ca \<noteq> from_addr then c
          else if payload \<noteq> uc_challenge c then c
          else c\<lparr>uc_remote := from_addr, uc_challengeAddr := None\<rparr>)"

definition udp_Close :: "udpConn \<Rightarrow> udpConn \<times> (bytes \<times> addr) list" where
  "udp_Close c =
     (if uc_closed c then (c, [])
      else (c\<lparr>uc_closed := True\<rparr>, [(udp_marshal (control_header udpFlagClose (uc_id c)) [], uc_remote c)]))"

definition new_partial :: "int \<Rightarrow> nat \<Rightarrow> partial" where
  "new_partial now n = \<lparr>fragments = replicate n None, received = 0, total = n, p_bytes = 0, started = now\<rparr>"

definition add_fragment :: "nat \<Rightarrow> bytes \<Rightarrow> partial \<Rightarrow> partial" where
  "add_fragment i payload p =
     (if fragments p ! i = None
      then p\<lparr>fragments := (fragments p)[i := Some payload], received := received p + 1,
             p_bytes := p_bytes p + length payload\<rparr>
      else p)"

definition full_frame :: "partial \<Rightarrow> bytes" where
  "full_frame p = concat (map (\<lambda>f. case f of None \<Rightarrow> [] | Some b \<Rightarrow> b) (fragments p))"

text \<open>The reassembly part of \<^verbatim>\<open>onDatagram\<close>, for a message of more than one fragment.\<close>

definition reassemble :: "int \<Rightarrow> udpHeader \<Rightarrow> bytes \<Rightarrow> udpConn \<Rightarrow> udpConn option" where
  "reassemble now h payload c =
     (let n = unat (hd_fragCount h); i = unat (hd_fragIndex h); sq = hd_msgSeq h in
      case (case map_of (uc_partials c) sq of
              Some p \<Rightarrow> Some p
            | None \<Rightarrow> if 64 \<le> length (uc_partials c) then None else Some (new_partial now n)) of
        None \<Rightarrow> Some c
      | Some p \<Rightarrow>
          if total p \<noteq> n \<or> total p \<le> i then Some (c\<lparr>uc_partials := AList.update sq p (uc_partials c)\<rparr>)
          else
            let p' = add_fragment i payload p;
                complete = (received p' = total p');
                tooBig = (maxFrameSize < p_bytes p');
                c' = c\<lparr>uc_partials := (if complete \<or> tooBig then AList.delete sq (uc_partials c)
                                        else AList.update sq p' (uc_partials c))\<rparr>
            in if tooBig then Some c'
               else if \<not> complete then Some c'
               else deliver (full_frame p') c')"

definition onDatagram ::
  "int \<Rightarrow> bytes option \<Rightarrow> udpHeader \<Rightarrow> bytes \<Rightarrow> addr \<Rightarrow> udpConn \<Rightarrow> (udpConn \<times> (bytes \<times> addr) list) option" where
  "onDatagram now token h payload from_addr c0 =
     (let c = c0\<lparr>uc_lastSeen := now\<rparr> in
      if has_flag (hd_flags h) udpFlagClose then Some (udp_Close c)
      else if has_flag (hd_flags h) udpFlagPathResponse then Some (completeMigration now payload from_addr c, [])
      else
        let (c1, out) = (if \<not> sameRemote c from_addr then beginMigration now token from_addr c else (c, []))
        in if \<not> has_flag (hd_flags h) udpFlagData then Some (c1, out)
           else if hd_fragCount h = 1
           then (if payload = [] then Some (c1, out) else map_option (\<lambda>c2. (c2, out)) (deliver payload c1))
           else map_option (\<lambda>c2. (c2, out)) (reassemble now h payload c1))"

definition sweepPartials :: "int \<Rightarrow> udpConn \<Rightarrow> udpConn" where
  "sweepPartials now c = c\<lparr>uc_partials := filter (\<lambda>(_, p). \<not> udpReassemblyTTL < now - started p) (uc_partials c)\<rparr>"

text \<open>\<^verbatim>\<open>ReadFrame\<close> with a frame queued, or with the channel closed and drained; it waits otherwise,
  which is \<open>None\<close>.\<close>

definition udp_ReadFrame :: "udpConn \<Rightarrow> ((udp_error + bytes) \<times> udpConn) option" where
  "udp_ReadFrame c =
     (if uc_closed c then Some (Inl ErrClosed, c)
      else case uc_in c of [] \<Rightarrow> None | f # fs \<Rightarrow> Some (Inr f, c\<lparr>uc_in := fs\<rparr>))"

definition fragment_count :: "bytes \<Rightarrow> nat" where
  "fragment_count frame = (let n = (length frame + udpMaxPayload - 1) div udpMaxPayload in if n = 0 then 1 else n)"

definition fragment :: "bytes \<Rightarrow> nat \<Rightarrow> bytes" where
  "fragment frame i =
     (let start = i * udpMaxPayload; stop = min (start + udpMaxPayload) (length frame) in bslice frame start stop)"

definition data_header :: "u64 \<Rightarrow> u32 \<Rightarrow> nat \<Rightarrow> nat \<Rightarrow> udpHeader" where
  "data_header cid sq n i =
     \<lparr>hd_flags = udpFlagData, hd_connID = cid, hd_msgSeq = sq, hd_fragIndex = of_nat i, hd_fragCount = of_nat n,
      hd_payloadLen = 0\<rparr>"

definition datagrams :: "u64 \<Rightarrow> u32 \<Rightarrow> bytes \<Rightarrow> bytes list" where
  "datagrams cid sq frame =
     (let n = fragment_count frame in map (\<lambda>i. udp_marshal (data_header cid sq n i) (fragment frame i)) [0..<n])"

definition udp_WriteFrame :: "udpConn \<Rightarrow> bytes \<Rightarrow> (udp_error + (bytes \<times> addr) list) \<times> udpConn" where
  "udp_WriteFrame c frame =
     (if uc_closed c then (Inl ErrClosed, c)
      else if maxFrameSize < length frame then (Inl (ErrFrameLimit (length frame)), c)
      else
        let sq = uc_sendSeq c + 1; c' = c\<lparr>uc_sendSeq := sq\<rparr>; n = fragment_count frame
        in if udpMaxFragments < n then (Inl (ErrFragmentLimit n), c')
           else (Inr (map (\<lambda>d. (d, uc_remote c)) (datagrams (uc_id c) sq frame)), c'))"

definition SetIdleTimeout :: "int \<Rightarrow> udpConn \<Rightarrow> udpConn" where
  "SetIdleTimeout d c = (if 0 < d then c\<lparr>uc_idle := d\<rparr> else c)"

section \<open>The listener\<close>

record UDPListener =
  MaxConnections :: nat
  conns :: "(u64 \<times> udpConn) list"

text \<open>The listener as \<^verbatim>\<open>ListenUDP\<close> returns it once the socket is bound.\<close>

definition ListenUDP :: UDPListener where
  "ListenUDP = \<lparr>MaxConnections = 50000, conns = []\<rparr>"

definition Active :: "UDPListener \<Rightarrow> nat" where
  "Active l = length (conns l)"

definition fresh_conn :: "int \<Rightarrow> u64 \<Rightarrow> addr \<Rightarrow> udpConn" where
  "fresh_conn now cid a =
     \<lparr>uc_id = cid, uc_remote = a, uc_challenge = replicate 8 0, uc_challengeAddr = None, uc_challengeAt = None,
      uc_in = [], uc_partials = [], uc_sendSeq = 0, uc_idle = defaultIdleTimeout, uc_lastSeen = now, uc_closed = False\<rparr>"

definition newConn :: "int \<Rightarrow> u64 \<Rightarrow> addr \<Rightarrow> UDPListener \<Rightarrow> udpConn option \<times> UDPListener" where
  "newConn now cid a l =
     (if MaxConnections l \<le> length (conns l) then (None, l)
      else case map_of (conns l) cid of
        Some existing \<Rightarrow> (Some existing, l)
      | None \<Rightarrow> (let c = fresh_conn now cid a in (Some c, l\<lparr>conns := AList.update cid c (conns l)\<rparr>)))"

definition remove_conn :: "u64 \<Rightarrow> UDPListener \<Rightarrow> UDPListener" where
  "remove_conn cid l = l\<lparr>conns := AList.delete cid (conns l)\<rparr>"

text \<open>Storing a connection back after an operation on it; a close also takes it out of the table.\<close>

definition put_conn :: "udpConn \<Rightarrow> UDPListener \<Rightarrow> UDPListener" where
  "put_conn c l =
     (if uc_closed c then remove_conn (uc_id c) l else l\<lparr>conns := AList.update (uc_id c) c (conns l)\<rparr>)"

text \<open>\<^verbatim>\<open>dispatch\<close>; the flag says whether a handler was started for a new connection.\<close>

definition dispatch ::
  "int \<Rightarrow> bytes option \<Rightarrow> bytes \<Rightarrow> addr \<Rightarrow> UDPListener \<Rightarrow> (UDPListener \<times> (bytes \<times> addr) list \<times> bool) option" where
  "dispatch now token dgram a l =
     (case parseUDP dgram of
        Inl _ \<Rightarrow> Some (l, [], False)
      | Inr (h, payload) \<Rightarrow>
          (case map_of (conns l) (hd_connID h) of
             Some c \<Rightarrow>
               (case onDatagram now token h payload a c of
                  None \<Rightarrow> None
                | Some (c', out) \<Rightarrow> Some (put_conn c' l, out, False))
           | None \<Rightarrow>
               if \<not> has_flag (hd_flags h) udpFlagHello then Some (l, [], False)
               else case newConn now (hd_connID h) a l of
                 (None, l') \<Rightarrow> Some (l', [], False)
               | (Some c, l') \<Rightarrow>
                   (case onDatagram now token h payload a c of
                      None \<Rightarrow> None
                    | Some (c', out) \<Rightarrow> Some (put_conn c' l', out, True))))"

definition reap_conn :: "int \<Rightarrow> udpConn \<Rightarrow> udpConn \<times> (bytes \<times> addr) list" where
  "reap_conn now c0 =
     (let c = sweepPartials now c0 in if uc_idle c < now - uc_lastSeen c then udp_Close c else (c, []))"

fun reaper :: "int \<Rightarrow> udpConn list \<Rightarrow> UDPListener \<Rightarrow> UDPListener" where
  "reaper now [] l = l"
| "reaper now (c # cs) l = reaper now cs (put_conn (fst (reap_conn now c)) l)"

definition reaper_tick :: "int \<Rightarrow> UDPListener \<Rightarrow> UDPListener" where
  "reaper_tick now l = reaper now (map snd (conns l)) l"

section \<open>The client\<close>

record UDPClient =
  cl_id :: u64
  cl_sendSeq :: u32
  cl_in :: "bytes list"
  cl_partials :: "(u32 \<times> partial) list"
  cl_closed :: bool

text \<open>\<^verbatim>\<open>DialUDP\<close> once the socket is open: the connection identifier comes from the first eight random
  bytes, and the result carries the hello datagram.\<close>

definition DialUDP :: "bytes \<Rightarrow> udp_error + (UDPClient \<times> bytes)" where
  "DialUDP entropy =
     (case read_full 8 entropy of
        None \<Rightarrow> Inl ErrRandom
      | Some (b, _) \<Rightarrow>
          Inr (\<lparr>cl_id = get_be b, cl_sendSeq = 0, cl_in = [], cl_partials = [], cl_closed = False\<rparr>,
               udp_marshal (control_header udpFlagHello (get_be b)) []))"

definition client_deliver :: "bytes \<Rightarrow> UDPClient \<Rightarrow> UDPClient" where
  "client_deliver f c = (if length (cl_in c) < 64 then c\<lparr>cl_in := cl_in c @ [f]\<rparr> else c)"

text \<open>One pass of \<^verbatim>\<open>readLoop\<close>, with the datagrams it answers.\<close>

definition readLoop_step :: "int \<Rightarrow> bytes \<Rightarrow> UDPClient \<Rightarrow> UDPClient \<times> bytes list" where
  "readLoop_step now dgram c =
     (case parseUDP dgram of
        Inl _ \<Rightarrow> (c, [])
      | Inr (h, payload) \<Rightarrow>
          if has_flag (hd_flags h) udpFlagPathChallenge
          then (c, [udp_marshal (control_header udpFlagPathResponse (cl_id c)) payload])
          else if has_flag (hd_flags h) udpFlagClose then (c\<lparr>cl_closed := True\<rparr>, [])
          else if \<not> has_flag (hd_flags h) udpFlagData then (c, [])
          else if hd_fragCount h = 1 then (client_deliver payload c, [])
          else
            let n = unat (hd_fragCount h); i = unat (hd_fragIndex h); sq = hd_msgSeq h;
                p = (case map_of (cl_partials c) sq of Some p \<Rightarrow> p | None \<Rightarrow> new_partial now n);
                p' = (if i < total p then add_fragment i payload p else p)
            in if received p' = total p'
               then (client_deliver (full_frame p') (c\<lparr>cl_partials := AList.delete sq (cl_partials c)\<rparr>), [])
               else (c\<lparr>cl_partials := AList.update sq p' (cl_partials c)\<rparr>, []))"

definition UDPClient_WriteFrame :: "UDPClient \<Rightarrow> bytes \<Rightarrow> (udp_error + bytes list) \<times> UDPClient" where
  "UDPClient_WriteFrame c frame =
     (if cl_closed c then (Inl ErrClosed, c)
      else let sq = cl_sendSeq c + 1 in (Inr (datagrams (cl_id c) sq frame), c\<lparr>cl_sendSeq := sq\<rparr>))"

text \<open>\<^verbatim>\<open>ReadFrame\<close> drains the channel before it reports the close; with neither it waits, \<open>None\<close>.\<close>

definition UDPClient_ReadFrame :: "UDPClient \<Rightarrow> ((udp_error + bytes) \<times> UDPClient) option" where
  "UDPClient_ReadFrame c =
     (case cl_in c of
        f # fs \<Rightarrow> Some (Inr f, c\<lparr>cl_in := fs\<rparr>)
      | [] \<Rightarrow> if cl_closed c then Some (Inl ErrClosed, c) else None)"

text \<open>\<^verbatim>\<open>Close\<close> sends the close datagram and closes the socket; the read loop sees the socket's error and
  marks the client closed.\<close>

definition UDPClient_Close :: "UDPClient \<Rightarrow> UDPClient \<times> bytes" where
  "UDPClient_Close c = (c\<lparr>cl_closed := True\<rparr>, udp_marshal (control_header udpFlagClose (cl_id c)) [])"

section \<open>Lemmas: datagrams\<close>

lemma bslice_datagram:
  assumes "length a = 2" "length b = 8" "length c = 4" "length d = 2" "length e = 2" "length f = 2"
    and "dg = a @ [v, w] @ b @ c @ d @ e @ f @ [x, y] @ p"
  shows "bslice dg 0 2 = a" "dg ! 2 = v" "dg ! 3 = w" "bslice dg 4 12 = b" "bslice dg 12 16 = c"
    "bslice dg 16 18 = d" "bslice dg 18 20 = e" "bslice dg 20 22 = f" "drop 24 dg = p" "length dg = 24 + length p"
  using assms(1-6) unfolding assms(7)
  by (auto simp: bslice_def nth_append take_append drop_append numeral_eq_Suc)

lemma parse_marshal:
  assumes "length p < 2 ^ 16" and "0 < unat (hd_fragCount h)" and "unat (hd_fragCount h) \<le> 512"
    and "hd_fragIndex h < hd_fragCount h"
  shows "parseUDP (udp_marshal h p) = Inr (h\<lparr>hd_payloadLen := of_nat (length p)\<rparr>, p)"
proof -
  note b = bslice_datagram [of "put_be 2 udpMagic" "put_be 8 (hd_connID h)" "put_be 4 (hd_msgSeq h)"
      "put_be 2 (hd_fragIndex h)" "put_be 2 (hd_fragCount h)" "put_be 2 (of_nat (length p) :: u16)"
      "udp_marshal h p" udpVersion "hd_flags h" 0 0 p, OF _ _ _ _ _ _ udp_marshal_def, simplified]
  have u: "unat (of_nat (length p) :: u16) = length p" using assms(1) by (intro unat_of_nat_small) simp
  have "hd_fragCount h \<noteq> 0" using assms(2) by auto
  then show ?thesis
    using assms(2-) b u
    by (simp add: parseUDP_def udpHeaderSize_def udpMaxFragments_def get_put_be Let_def not_le)
qed

lemma fragment_count_bounds:
  "0 < fragment_count f" "length f \<le> fragment_count f * 1208"
  "fragment_count f \<le> 512 \<longleftrightarrow> length f \<le> 618496" "f \<noteq> [] \<Longrightarrow> (fragment_count f - 1) * 1208 < length f"
proof -
  have m: "udpMaxPayload = 1208" by (simp add: udpMaxPayload_def udpHeaderSize_def)
  have c: "fragment_count f = (if f = [] then 1 else (length f + 1207) div 1208)"
    by (cases f) (auto simp: fragment_count_def m Let_def)
  define q where "q = (length f + 1207) div 1208"
  have q: "q * 1208 \<le> length f + 1207" "length f + 1207 < q * 1208 + 1208"
    using div_times_less_eq_dividend [of "length f + 1207" 1208] dividend_less_div_times [of 1208 "length f + 1207"]
    by (simp_all only: q_def)
  have c': "fragment_count f = (if f = [] then 1 else q)" using c by (simp add: q_def)
  have "0 < fragment_count f \<and> length f \<le> fragment_count f * 1208 \<and> (fragment_count f \<le> 512 \<longleftrightarrow> length f \<le> 618496)
    \<and> (f \<noteq> [] \<longrightarrow> (fragment_count f - 1) * 1208 < length f)"
  proof (cases "f = []")
    case False
    then have "0 < length f" by simp
    with q obtain r where r: "q = Suc r" by (cases q) auto
    with q have "r * 1208 < length f" "length f \<le> r * 1208 + 1208" by linarith+
    then show ?thesis using False r by (auto simp: c')
  next
    case True
    with c' show ?thesis by simp
  qed
  then show "0 < fragment_count f" "length f \<le> fragment_count f * 1208"
    "fragment_count f \<le> 512 \<longleftrightarrow> length f \<le> 618496" "f \<noteq> [] \<Longrightarrow> (fragment_count f - 1) * 1208 < length f"
    by blast+
qed

lemma fragment_eq: "fragment f i = take 1208 (drop (i * 1208) f)"
  by (auto simp: fragment_def udpMaxPayload_def udpHeaderSize_def bslice_def Let_def min_def)

lemma concat_fragments: "concat (map (fragment f) [0..<n]) = take (n * 1208) f"
proof (induction n)
  case (Suc n)
  have "take (Suc n * 1208) f = take (n * 1208) f @ fragment f n"
    by (simp only: mult_Suc add.commute [of 1208] take_add fragment_eq)
  with Suc show ?case by simp
qed simp

lemma concat_fragments_all: "concat (map (fragment f) [0..<fragment_count f]) = f"
  by (simp add: concat_fragments fragment_count_bounds)

lemma length_fragment: "length (fragment f i) \<le> 1208"
  by (simp add: fragment_eq)

lemma parse_data_datagram:
  assumes "fragment_count f \<le> 512" and "i < fragment_count f"
  shows "parseUDP (datagrams cid sq f ! i) =
    Inr ((data_header cid sq (fragment_count f) i)\<lparr>hd_payloadLen := of_nat (length (fragment f i))\<rparr>, fragment f i)"
proof -
  have u: "unat (of_nat k :: u16) = k" if "k \<le> 512" for k
    using that by (intro unat_of_nat_small) simp
  have "parseUDP (udp_marshal (data_header cid sq (fragment_count f) i) (fragment f i)) =
    Inr ((data_header cid sq (fragment_count f) i)\<lparr>hd_payloadLen := of_nat (length (fragment f i))\<rparr>, fragment f i)"
    using assms length_fragment [of f i] u [of i] u [of "fragment_count f"]
    by (intro parse_marshal) (simp_all add: data_header_def word_less_nat_alt)
  then show ?thesis using assms(2) by (simp add: datagrams_def Let_def)
qed

section \<open>Lemmas: reassembly\<close>

text \<open>The buffer of a message of which the fragments in \<open>S\<close> have arrived.\<close>

definition assembled :: "bytes \<Rightarrow> int \<Rightarrow> nat set \<Rightarrow> partial" where
  "assembled f t S =
     \<lparr>fragments = map (\<lambda>i. if i \<in> S then Some (fragment f i) else None) [0..<fragment_count f],
      received = card S, total = fragment_count f, p_bytes = (\<Sum>i \<in> S. length (fragment f i)), started = t\<rparr>"

lemma assembled_empty: "assembled f t {} = new_partial t (fragment_count f)"
  by (simp add: assembled_def new_partial_def map_replicate_const)

lemma add_fragment_assembled:
  assumes "i < fragment_count f" and "finite S"
  shows "add_fragment i (fragment f i) (assembled f t S) = assembled f t (insert i S)"
proof (cases "i \<in> S")
  case True
  with assms show ?thesis by (simp add: add_fragment_def assembled_def insert_absorb)
next
  case False
  have "(map (\<lambda>j. if j \<in> S then Some (fragment f j) else None) [0..<fragment_count f])[i := Some (fragment f i)]
      = map (\<lambda>j. if j \<in> insert i S then Some (fragment f j) else None) [0..<fragment_count f]"
    using assms(1) by (auto intro!: nth_equalityI simp: nth_list_update)
  with False assms show ?thesis by (simp add: add_fragment_def assembled_def add.commute)
qed

lemma full_frame_assembled: "full_frame (assembled f t {..<fragment_count f}) = f"
proof -
  have "map (\<lambda>x. case x of None \<Rightarrow> [] | Some b \<Rightarrow> b) (fragments (assembled f t {..<fragment_count f}))
      = map (fragment f) [0..<fragment_count f]"
    by (simp add: assembled_def)
  then show ?thesis by (simp add: full_frame_def concat_fragments_all)
qed

lemma assembled_bytes:
  assumes "S \<subseteq> {..<fragment_count f}" and "fragment_count f \<le> 512"
  shows "p_bytes (assembled f t S) \<le> maxFrameSize"
proof -
  have "(\<Sum>i \<in> S. length (fragment f i)) \<le> card S * 1208"
    using sum_bounded_above [of S "\<lambda>i. length (fragment f i)" 1208] length_fragment by auto
  also have "card S \<le> 512" using card_mono [OF _ assms(1)] assms(2) by simp
  finally show ?thesis by (simp add: assembled_def maxFrameSize_def)
qed

lemma assembled_complete_iff:
  assumes "S \<subseteq> {..<fragment_count f}"
  shows "received (assembled f t S) = total (assembled f t S) \<longleftrightarrow> S = {..<fragment_count f}"
  using card_subset_eq [OF _ assms] by (auto simp: assembled_def)

text \<open>A connection that is collecting the message numbered \<open>sq\<close>.\<close>

definition collecting :: "bytes \<Rightarrow> u32 \<Rightarrow> nat set \<Rightarrow> udpConn \<Rightarrow> bool" where
  "collecting f sq S c \<longleftrightarrow> S \<subseteq> {..<fragment_count f} \<and> distinct (map fst (uc_partials c))
     \<and> (if S = {} then map_of (uc_partials c) sq = None \<and> length (uc_partials c) < 64
        else \<exists>t. map_of (uc_partials c) sq = Some (assembled f t S))"

lemma reassemble_fragment:
  assumes "collecting f sq S c" and "i < fragment_count f" and "2 \<le> fragment_count f" and "fragment_count f \<le> 512"
    and "hd_msgSeq h = sq" and "hd_fragIndex h = of_nat i" and "hd_fragCount h = of_nat (fragment_count f)"
    and "S \<noteq> {..<fragment_count f}"
  shows "\<exists>t. reassemble now h (fragment f i) c =
     (if insert i S = {..<fragment_count f} then deliver f (c\<lparr>uc_partials := AList.delete sq (uc_partials c)\<rparr>)
      else Some (c\<lparr>uc_partials := AList.update sq (assembled f t (insert i S)) (uc_partials c)\<rparr>))"
proof -
  have u: "unat (hd_fragCount h) = fragment_count f" "unat (hd_fragIndex h) = i"
    using assms(2,4,6,7) by (simp_all add: unat_of_nat_small)
  have S: "S \<subseteq> {..<fragment_count f}" "finite S"
    using assms(1) finite_subset [of S "{..<fragment_count f}"] by (auto simp: collecting_def)
  have S': "insert i S \<subseteq> {..<fragment_count f}" using S assms(2) by auto
  obtain t where p: "(case map_of (uc_partials c) sq of Some p \<Rightarrow> Some p
      | None \<Rightarrow> if 64 \<le> length (uc_partials c) then None else Some (new_partial now (fragment_count f))) = Some (assembled f t S)"
  proof (cases "S = {}")
    case True
    with assms(1) have "map_of (uc_partials c) sq = None" "length (uc_partials c) < 64" by (auto simp: collecting_def)
    with True that [of now] show ?thesis by (simp add: assembled_empty)
  next
    case False
    with assms(1) obtain t where "map_of (uc_partials c) sq = Some (assembled f t S)"
      by (auto simp: collecting_def simp del: map_of_eq_Some_iff)
    with that [of t] show ?thesis by (simp del: map_of_eq_Some_iff)
  qed
  have add: "add_fragment i (fragment f i) (assembled f t S) = assembled f t (insert i S)"
    using assms(2) S(2) by (rule add_fragment_assembled)
  have nb: "\<not> maxFrameSize < p_bytes (assembled f t (insert i S))"
    using assembled_bytes [OF S' assms(4)] by (simp add: not_less)
  have tot: "total (assembled f t X) = fragment_count f" for X by (simp add: assembled_def)
  have cmp: "received (assembled f t (insert i S)) = total (assembled f t (insert i S)) \<longleftrightarrow> insert i S = {..<fragment_count f}"
    using S' by (rule assembled_complete_iff)
  have "reassemble now h (fragment f i) c =
     (if insert i S = {..<fragment_count f} then deliver (full_frame (assembled f t (insert i S))) (c\<lparr>uc_partials := AList.delete sq (uc_partials c)\<rparr>)
      else Some (c\<lparr>uc_partials := AList.update sq (assembled f t (insert i S)) (uc_partials c)\<rparr>))"
    unfolding reassemble_def u assms(5) Let_def p option.case add cmp using nb assms(2) by (simp add: tot)
  then show ?thesis using full_frame_assembled [of f t] by auto
qed

text \<open>Datagrams as they come off the socket, malformed ones dropped; the answers are not shown.\<close>

fun receive_all :: "(int \<times> bytes \<times> addr) list \<Rightarrow> udpConn \<Rightarrow> udpConn option" where
  "receive_all [] c = Some c"
| "receive_all ((now, dgram, a) # ds) c =
     (case parseUDP dgram of
        Inl _ \<Rightarrow> receive_all ds c
      | Inr (h, payload) \<Rightarrow>
          (case onDatagram now None h payload a c of
             None \<Rightarrow> None
           | Some (c', _) \<Rightarrow> receive_all ds c'))"

lemma data_flags: "has_flag udpFlagData udpFlagData" "\<not> has_flag udpFlagData udpFlagClose"
  "\<not> has_flag udpFlagData udpFlagPathResponse"
  by (simp_all add: has_flag_def udp_flags)

lemma onDatagram_fragment:
  assumes "uc_remote c = a" and "2 \<le> fragment_count f" and "fragment_count f \<le> 512"
  shows "onDatagram now token ((data_header cid sq (fragment_count f) i)\<lparr>hd_payloadLen := l\<rparr>) payload a c =
    map_option (\<lambda>c2. (c2, [])) (reassemble now ((data_header cid sq (fragment_count f) i)\<lparr>hd_payloadLen := l\<rparr>) payload (c\<lparr>uc_lastSeen := now\<rparr>))"
proof -
  have "unat (of_nat (fragment_count f) :: u16) = fragment_count f" using assms(3) by (intro unat_of_nat_small) simp
  then have "(of_nat (fragment_count f) :: u16) \<noteq> 1" using assms(2) by auto
  then show ?thesis using assms(1)
    by (simp add: onDatagram_def data_header_def data_flags sameRemote_def Let_def)
qed

lemma collecting_update:
  assumes "collecting f sq S c" and "insert i S \<subseteq> {..<fragment_count f}"
  shows "collecting f sq (insert i S) (c\<lparr>uc_lastSeen := n, uc_partials := AList.update sq (assembled f t (insert i S)) (uc_partials c)\<rparr>)"
  using assms by (auto simp: collecting_def distinct_update update_conv simp del: map_of_eq_Some_iff)

lemma receive_fragments:
  assumes "collecting f sq S c" and "2 \<le> fragment_count f" and "fragment_count f \<le> 512"
    and "\<not> uc_closed c" and "uc_remote c = a" and "length (uc_in c) < 256"
    and "S \<union> snd ` set is = {..<fragment_count f}" and "is \<noteq> []"
    and "snd (last is) \<notin> S \<union> snd ` set (butlast is)"
  shows "\<exists>c'. receive_all (map (\<lambda>(t, i). (t, datagrams cid sq f ! i, a)) is) c = Some c'
     \<and> uc_in c' = uc_in c @ [f] \<and> uc_remote c' = a \<and> map_of (uc_partials c') = (map_of (uc_partials c))(sq := None)"
  using assms
proof (induction "is" arbitrary: S c)
  case Nil
  then show ?case by simp
next
  case (Cons ti rest)
  obtain now i where ti: "ti = (now, i)" by fastforce
  have i: "i < fragment_count f" using Cons.prems(7) ti by auto
  have S: "S \<noteq> {..<fragment_count f}" using Cons.prems(7,9) by (metis UnI1 Un_iff image_iff last_in_set Cons.prems(8))
  let ?h = "(data_header cid sq (fragment_count f) i)\<lparr>hd_payloadLen := of_nat (length (fragment f i))\<rparr>"
  let ?c = "c\<lparr>uc_lastSeen := now\<rparr>"
  have col: "collecting f sq S ?c" using Cons.prems(1) by (simp add: collecting_def del: map_of_eq_Some_iff)
  obtain t where r: "reassemble now ?h (fragment f i) ?c =
     (if insert i S = {..<fragment_count f} then deliver f (?c\<lparr>uc_partials := AList.delete sq (uc_partials ?c)\<rparr>)
      else Some (?c\<lparr>uc_partials := AList.update sq (assembled f t (insert i S)) (uc_partials ?c)\<rparr>))"
    using reassemble_fragment [OF col i Cons.prems(2,3) _ _ _ S, of ?h now] by (auto simp: data_header_def)
  have step: "receive_all (map (\<lambda>(t, i). (t, datagrams cid sq f ! i, a)) (ti # rest)) c =
     (case reassemble now ?h (fragment f i) ?c of None \<Rightarrow> None
      | Some c' \<Rightarrow> receive_all (map (\<lambda>(t, i). (t, datagrams cid sq f ! i, a)) rest) c')"
    using parse_data_datagram [OF Cons.prems(3) i, of cid sq] onDatagram_fragment [OF Cons.prems(5,2,3)]
    by (simp add: ti split: option.split)
  show ?case
  proof (cases rest)
    case Nil
    with Cons.prems(7) ti have "insert i S = {..<fragment_count f}" by simp
    note e = step [unfolded r if_P [OF this]]
    show ?thesis unfolding e
      using Cons.prems(4,5,6) Nil by (simp add: deliver_def delete_conv' fun_upd_def)
  next
    case (Cons x xs)
    let ?c' = "?c\<lparr>uc_partials := AList.update sq (assembled f t (insert i S)) (uc_partials ?c)\<rparr>"
    have l: "snd (last rest) \<notin> insert i S \<union> snd ` set (butlast rest)" "snd (last rest) < fragment_count f"
      using Cons.prems(7,9) Cons ti by (auto dest!: last_in_set)
    then have "insert i S \<noteq> {..<fragment_count f}" by auto
    then have run: "receive_all (map (\<lambda>(t, i). (t, datagrams cid sq f ! i, a)) (ti # rest)) c
        = receive_all (map (\<lambda>(t, i). (t, datagrams cid sq f ! i, a)) rest) ?c'"
      unfolding step r by simp
    have "insert i S \<subseteq> {..<fragment_count f}" using Cons.prems(1) i by (simp add: collecting_def)
    from collecting_update [OF col this, of t now]
    have "collecting f sq (insert i S) ?c'" by simp
    have "\<exists>c'. receive_all (map (\<lambda>(t, i). (t, datagrams cid sq f ! i, a)) rest) ?c' = Some c'
      \<and> uc_in c' = uc_in ?c' @ [f] \<and> uc_remote c' = a \<and> map_of (uc_partials c') = (map_of (uc_partials ?c'))(sq := None)"
    proof (rule Cons.IH [OF \<open>collecting f sq (insert i S) ?c'\<close> Cons.prems(2,3)])
      show "insert i S \<union> snd ` set rest = {..<fragment_count f}" using Cons.prems(7) ti by simp
    qed (use Cons.prems(4-6) l(1) Cons in simp_all)
    then obtain c' where
      "receive_all (map (\<lambda>(t, i). (t, datagrams cid sq f ! i, a)) rest) ?c' = Some c'"
      "uc_in c' = uc_in c @ [f]" "uc_remote c' = a" "map_of (uc_partials c') = (map_of (uc_partials ?c'))(sq := None)"
      by auto
    then show ?thesis unfolding run by (auto simp: update_conv')
  qed
qed

section \<open>Lemmas: the connection's invariant\<close>

definition partial_wf :: "partial \<Rightarrow> bool" where
  "partial_wf p \<longleftrightarrow> length (fragments p) = total p \<and> received p < total p \<and> total p \<le> 512
     \<and> received p = length (filter (\<lambda>f. f \<noteq> None) (fragments p))
     \<and> p_bytes p \<le> maxFrameSize"

text \<open>Bounded memory: at most 64 messages in reassembly, each incomplete, of at most 512 fragments and
  16 MiB, and at most 256 frames waiting.\<close>

definition conn_wf :: "udpConn \<Rightarrow> bool" where
  "conn_wf c \<longleftrightarrow> distinct (map fst (uc_partials c)) \<and> length (uc_partials c) \<le> 64
     \<and> (\<forall>p \<in> snd ` set (uc_partials c). partial_wf p) \<and> length (uc_in c) \<le> 256"

lemma conn_wf_lastSeen [simp]: "conn_wf (c\<lparr>uc_lastSeen := t\<rparr>) = conn_wf c"
  by (simp add: conn_wf_def)

lemma deliver_wf: "deliver f c = Some c' \<Longrightarrow> conn_wf c \<Longrightarrow> conn_wf c'"
  by (auto simp: deliver_def conn_wf_def split: if_splits)

lemma length_update_le:
  "length (AList.update k v al) \<le> length al + (if map_of al k = None then 1 else 0)"
  by (induction al) auto

lemma length_delete_le: "length (AList.delete k al) \<le> length al"
  by (simp add: AList.delete_eq)

lemma in_set_updateD: "x \<in> set (AList.update k v al) \<Longrightarrow> snd x = v \<or> x \<in> set al"
  by (induction al) (auto split: if_splits)

lemma in_set_deleteD: "x \<in> set (AList.delete k al) \<Longrightarrow> x \<in> set al"
  by (auto simp: AList.delete_eq)

lemma conn_wf_delete: "conn_wf c \<Longrightarrow> conn_wf (c\<lparr>uc_partials := AList.delete sq (uc_partials c)\<rparr>)"
  using le_trans [OF length_delete_le [of sq "uc_partials c"]]
  by (auto simp: conn_wf_def distinct_delete dest!: in_set_deleteD)

lemma conn_wf_update:
  assumes "conn_wf c" and "partial_wf p" and "map_of (uc_partials c) sq = None \<Longrightarrow> length (uc_partials c) < 64"
  shows "conn_wf (c\<lparr>uc_partials := AList.update sq p (uc_partials c)\<rparr>)"
proof -
  have "length (AList.update sq p (uc_partials c)) \<le> 64"
    using length_update_le [of sq p "uc_partials c"] assms(1,3) by (auto simp: conn_wf_def split: if_splits)
  then show ?thesis
    using assms(1,2) by (auto simp: conn_wf_def distinct_update dest!: in_set_updateD)
qed

lemma add_fragment_wf:
  assumes "length (fragments p) = total p" "received p = length (filter (\<lambda>f. f \<noteq> None) (fragments p))" "i < total p"
  shows "length (fragments (add_fragment i b p)) = total p" "total (add_fragment i b p) = total p"
    "received (add_fragment i b p) = length (filter (\<lambda>f. f \<noteq> None) (fragments (add_fragment i b p)))"
proof -
  have "length (filter (\<lambda>f. f \<noteq> None) ((fragments p)[i := Some b])) = Suc (length (filter (\<lambda>f. f \<noteq> None) (fragments p)))"
    if "fragments p ! i = None"
    using assms(1,3) that
    by (subst upd_conv_take_nth_drop, simp, subst (2) id_take_nth_drop [of i "fragments p"]) auto
  then show "length (fragments (add_fragment i b p)) = total p" "total (add_fragment i b p) = total p"
    "received (add_fragment i b p) = length (filter (\<lambda>f. f \<noteq> None) (fragments (add_fragment i b p)))"
    using assms by (simp_all add: add_fragment_def)
qed

lemma received_le_total:
  "length (fragments p) = total p \<Longrightarrow> received p = length (filter (\<lambda>f. f \<noteq> None) (fragments p)) \<Longrightarrow> received p \<le> total p"
  by (metis length_filter_le)

lemma reassemble_wf:
  assumes "conn_wf c" and "reassemble now h b c = Some c'" and "2 \<le> unat (hd_fragCount h)" and "unat (hd_fragCount h) \<le> 512"
  shows "conn_wf c'"
proof -
  let ?n = "unat (hd_fragCount h)" and ?i = "unat (hd_fragIndex h)" and ?sq = "hd_msgSeq h"
  define po where "po = (case map_of (uc_partials c) ?sq of Some p \<Rightarrow> Some p
            | None \<Rightarrow> if 64 \<le> length (uc_partials c) then None else Some (new_partial now ?n))"
  show ?thesis
  proof (cases po)
    case None
    with assms show ?thesis by (simp add: reassemble_def Let_def po_def)
  next
    case (Some p)
    have room: "map_of (uc_partials c) ?sq = None \<Longrightarrow> length (uc_partials c) < 64"
      using Some by (auto simp: po_def split: option.splits if_splits)
    have p: "partial_wf p"
    proof (cases "map_of (uc_partials c) ?sq")
      case None
      with Some assms(3,4) show ?thesis
        by (auto simp: po_def partial_wf_def new_partial_def split: if_splits)
    next
      case (Some q)
      then have "q \<in> snd ` set (uc_partials c)" by (metis map_of_SomeD image_eqI snd_conv)
      with Some \<open>po = Some p\<close> assms(1) show ?thesis by (auto simp: po_def conn_wf_def)
    qed
    show ?thesis
    proof (cases "total p \<noteq> ?n \<or> total p \<le> ?i")
      case True
      with assms(2) Some have "c' = c\<lparr>uc_partials := AList.update ?sq p (uc_partials c)\<rparr>"
        unfolding reassemble_def Let_def po_def [symmetric] by simp
      then show ?thesis using conn_wf_update [OF assms(1) p room] by simp
    next
      case False
      define q where "q = add_fragment ?i b p"
      have q: "length (fragments q) = total q" "total q = total p"
        "received q = length (filter (\<lambda>f. f \<noteq> None) (fragments q))"
        using add_fragment_wf [of p ?i b] p False by (simp_all add: partial_wf_def q_def)
      have r: "Some c' = (if maxFrameSize < p_bytes q then Some (c\<lparr>uc_partials := AList.delete ?sq (uc_partials c)\<rparr>)
          else if received q \<noteq> total q then Some (c\<lparr>uc_partials := AList.update ?sq q (uc_partials c)\<rparr>)
          else deliver (full_frame q) (c\<lparr>uc_partials := AList.delete ?sq (uc_partials c)\<rparr>))"
        using assms(2) Some False unfolding reassemble_def Let_def po_def [symmetric]
        by (simp add: q_def split: if_splits)
      show ?thesis
      proof (cases "maxFrameSize < p_bytes q")
        case True
        with r conn_wf_delete [OF assms(1)] show ?thesis by simp
      next
        case big: False
        show ?thesis
        proof (cases "received q = total q")
          case True
          with r big deliver_wf conn_wf_delete [OF assms(1)] show ?thesis by force
        next
          case False
          with q received_le_total [of q] p big have "partial_wf q" by (auto simp: partial_wf_def)
          with r big False conn_wf_update [OF assms(1) _ room] show ?thesis by simp
        qed
      qed
    qed
  qed
qed

lemma udp_Close_wf: "conn_wf c \<Longrightarrow> conn_wf (fst (udp_Close c))"
  by (simp add: udp_Close_def conn_wf_def)

lemma completeMigration_wf: "conn_wf c \<Longrightarrow> conn_wf (completeMigration now b a c)"
  by (simp add: completeMigration_def conn_wf_def split: option.split)

lemma beginMigration_wf: "conn_wf c \<Longrightarrow> conn_wf (fst (beginMigration now tk a c))"
  by (simp add: beginMigration_def conn_wf_def split: option.split)

lemma sweepPartials_wf: "conn_wf c \<Longrightarrow> conn_wf (sweepPartials now c)"
  using le_trans [OF length_filter_le]
  by (auto simp: conn_wf_def sweepPartials_def distinct_map_filter)

lemma parseUDP_InrD:
  "parseUDP b = Inr (h, p) \<Longrightarrow> 0 < unat (hd_fragCount h) \<and> unat (hd_fragCount h) \<le> 512 \<and> hd_fragIndex h < hd_fragCount h"
  by (auto simp: parseUDP_def Let_def udpMaxFragments_def not_le not_less unat_eq_0 word_neq_0_conv
      intro: gr0I split: if_splits)

lemma deliver_frame:
  "deliver f c = Some c' \<Longrightarrow> uc_id c' = uc_id c \<and> uc_closed c' = uc_closed c \<and> uc_remote c' = uc_remote c"
  by (auto simp: deliver_def split: if_splits)

lemma deliver_open: "\<not> uc_closed c \<Longrightarrow> deliver f c \<noteq> None"
  by (simp add: deliver_def)

lemma reassemble_frame:
  "reassemble now h b c = Some c' \<Longrightarrow> uc_id c' = uc_id c \<and> uc_closed c' = uc_closed c \<and> uc_remote c' = uc_remote c"
  by (auto simp: reassemble_def Let_def dest!: deliver_frame split: if_splits option.splits)

lemma reassemble_open: "\<not> uc_closed c \<Longrightarrow> reassemble now h b c \<noteq> None"
  by (simp add: reassemble_def Let_def deliver_def split: option.split)

lemma migration_frame:
  "uc_id (fst (beginMigration now tk a c)) = uc_id c" "uc_closed (fst (beginMigration now tk a c)) = uc_closed c"
  "uc_remote (fst (beginMigration now tk a c)) = uc_remote c"
  "uc_id (completeMigration now b a c) = uc_id c" "uc_closed (completeMigration now b a c) = uc_closed c"
  by (simp_all add: beginMigration_def completeMigration_def split: option.split)

text \<open>The cases of \<^verbatim>\<open>onDatagram\<close>, with the state before the payload is looked at.\<close>

lemma onDatagram_cases:
  assumes "onDatagram now tk h b a c0 = r"
  defines "c \<equiv> c0\<lparr>uc_lastSeen := now\<rparr>"
  obtains (close) "r = Some (udp_Close c)" "has_flag (hd_flags h) udpFlagClose"
  | (response) "r = Some (completeMigration now b a c, [])" "has_flag (hd_flags h) udpFlagPathResponse"
  | (payload) c1 out where "(c1, out) = (if sameRemote c a then (c, []) else beginMigration now tk a c)"
      "r = Some (c1, out) \<or> r = map_option (\<lambda>c2. (c2, out)) (deliver b c1)
        \<or> (hd_fragCount h \<noteq> 1 \<and> r = map_option (\<lambda>c2. (c2, out)) (reassemble now h b c1))"
  using assms by (auto simp: onDatagram_def Let_def split: if_splits prod.splits)

lemma onDatagram_open:
  assumes "\<not> uc_closed c"
  shows "onDatagram now tk h b a c \<noteq> None"
proof (rule onDatagram_cases [OF refl, of now tk h b a c])
  fix c1 o1
  assume m: "(c1, o1) = (if sameRemote (c\<lparr>uc_lastSeen := now\<rparr>) a then (c\<lparr>uc_lastSeen := now\<rparr>, [])
      else beginMigration now tk a (c\<lparr>uc_lastSeen := now\<rparr>))"
    and r: "onDatagram now tk h b a c = Some (c1, o1)
        \<or> onDatagram now tk h b a c = map_option (\<lambda>c2. (c2, o1)) (deliver b c1)
        \<or> (hd_fragCount h \<noteq> 1 \<and> onDatagram now tk h b a c = map_option (\<lambda>c2. (c2, o1)) (reassemble now h b c1))"
  have "c1 = fst (c1, o1)" by simp
  then have "\<not> uc_closed c1" using m migration_frame(2) [of now tk a "c\<lparr>uc_lastSeen := now\<rparr>"] assms by (auto split: if_splits)
  with r show ?thesis using deliver_open [of c1 b] reassemble_open [of c1 now h b] by auto
qed simp_all

lemma onDatagram_wf:
  assumes "conn_wf c" and "onDatagram now tk h b a c = Some (c', out)" and "0 < unat (hd_fragCount h)" and "unat (hd_fragCount h) \<le> 512"
  shows "conn_wf c' \<and> uc_id c' = uc_id c"
proof (rule onDatagram_cases [OF assms(2)])
  assume "Some (c', out) = Some (udp_Close (c\<lparr>uc_lastSeen := now\<rparr>))"
  then show ?thesis using udp_Close_wf [of "c\<lparr>uc_lastSeen := now\<rparr>"] assms(1)
    by (auto simp: udp_Close_def split: if_splits)
next
  assume "Some (c', out) = Some (completeMigration now b a (c\<lparr>uc_lastSeen := now\<rparr>), [])"
  then show ?thesis using completeMigration_wf [of "c\<lparr>uc_lastSeen := now\<rparr>"] assms(1) by (simp add: migration_frame)
next
  fix c1 o1
  assume m: "(c1, o1) = (if sameRemote (c\<lparr>uc_lastSeen := now\<rparr>) a then (c\<lparr>uc_lastSeen := now\<rparr>, [])
      else beginMigration now tk a (c\<lparr>uc_lastSeen := now\<rparr>))"
    and r: "Some (c', out) = Some (c1, o1) \<or> Some (c', out) = map_option (\<lambda>c2. (c2, o1)) (deliver b c1)
        \<or> (hd_fragCount h \<noteq> 1 \<and> Some (c', out) = map_option (\<lambda>c2. (c2, o1)) (reassemble now h b c1))"
  have "c1 = fst (c1, o1)" by simp
  then have c1: "conn_wf c1" "uc_id c1 = uc_id c"
    unfolding m using beginMigration_wf [of "c\<lparr>uc_lastSeen := now\<rparr>" now tk a]
      migration_frame(1) [of now tk a "c\<lparr>uc_lastSeen := now\<rparr>"] assms(1)
    by (simp_all split: if_splits)
  have two: "2 \<le> unat (hd_fragCount h)" if "hd_fragCount h \<noteq> 1"
    using that assms(3) word_unat_eq_iff [of "hd_fragCount h" 1] by simp
  from r consider "c' = c1" | "deliver b c1 = Some c'" | "hd_fragCount h \<noteq> 1" "reassemble now h b c1 = Some c'"
    by (auto simp: Some_eq_map_option_iff)
  then show ?thesis
  proof cases
    case 1
    then show ?thesis using c1 by simp
  next
    case 2
    then show ?thesis using c1 deliver_wf [of b c1 c'] deliver_frame [of b c1 c'] by simp
  next
    case 3
    then show ?thesis
      using c1 reassemble_wf [OF c1(1) 3(2) two [OF 3(1)] assms(4)] reassemble_frame [OF 3(2)] by simp
  qed
qed

section \<open>The listener's invariant\<close>

definition listener_wf :: "UDPListener \<Rightarrow> bool" where
  "listener_wf l \<longleftrightarrow> distinct (map fst (conns l)) \<and> length (conns l) \<le> MaxConnections l
     \<and> (\<forall>(cid, c) \<in> set (conns l). uc_id c = cid \<and> \<not> uc_closed c \<and> conn_wf c)"

lemma fresh_conn_wf: "conn_wf (fresh_conn now cid a)" "uc_id (fresh_conn now cid a) = cid"
  "\<not> uc_closed (fresh_conn now cid a)" "uc_remote (fresh_conn now cid a) = a"
  by (simp_all add: conn_wf_def fresh_conn_def)

lemma remove_conn_wf: "listener_wf l \<Longrightarrow> listener_wf (remove_conn cid l)"
  using le_trans [OF length_delete_le [of cid "conns l"]]
  by (fastforce simp: listener_wf_def remove_conn_def distinct_delete dest!: in_set_deleteD)

lemma put_conn_wf:
  assumes "listener_wf l" and "conn_wf c" and "uc_id c = cid" and "map_of (conns l) cid \<noteq> None"
  shows "listener_wf (put_conn c l)"
proof (cases "uc_closed c")
  case True
  with assms(1) show ?thesis by (simp add: put_conn_def remove_conn_wf)
next
  case False
  have "length (AList.update cid c (conns l)) \<le> MaxConnections l"
    using length_update_le [of cid c "conns l"] assms(1,4) by (auto simp: listener_wf_def)
  moreover have "uc_id d = k \<and> \<not> uc_closed d \<and> conn_wf d" if "(k, d) \<in> set (AList.update cid c (conns l))" for k d
  proof (cases "k = cid")
    case True
    have "map_of (AList.update cid c (conns l)) cid = Some d"
      using that True assms(1) by (simp add: listener_wf_def distinct_update)
    with True assms(2,3) False show ?thesis by (simp add: update_conv')
  next
    case False
    then have "map_of (conns l) k = Some d"
      using that assms(1) by (metis (no_types) update_conv fun_upd_other map_of_is_SomeI distinct_update listener_wf_def)
    then have "(k, d) \<in> set (conns l)" by (rule map_of_SomeD)
    with assms(1) show ?thesis by (auto simp: listener_wf_def)
  qed
  ultimately show ?thesis
    using False assms(1,3) by (auto simp: put_conn_def listener_wf_def distinct_update)
qed

lemma update_fresh: "k \<notin> fst ` set al \<Longrightarrow> AList.update k v al = al @ [(k, v)]"
  by (induction al) auto

lemma newConn_wf:
  assumes "listener_wf l" and "map_of (conns l) cid = None" and "newConn now cid a l = (r, l')"
  shows "listener_wf l' \<and> MaxConnections l' = MaxConnections l
     \<and> (case r of None \<Rightarrow> l' = l | Some c \<Rightarrow> c = fresh_conn now cid a \<and> map_of (conns l') cid = Some c)"
proof (cases "MaxConnections l \<le> length (conns l)")
  case True
  with assms show ?thesis by (auto simp: newConn_def)
next
  case False
  have k: "cid \<notin> fst ` set (conns l)" using assms(2) by (simp add: map_of_eq_None_iff)
  then have u: "AList.update cid (fresh_conn now cid a) (conns l) = conns l @ [(cid, fresh_conn now cid a)]"
    by (rule update_fresh)
  with False assms k show ?thesis
    by (auto simp: newConn_def Let_def listener_wf_def fresh_conn_wf map_add_def)
qed

lemma dispatch_wf:
  assumes "listener_wf l"
  shows "\<exists>l' out started. dispatch now tk d a l = Some (l', out, started) \<and> listener_wf l'
     \<and> MaxConnections l' = MaxConnections l"
proof (cases "parseUDP d")
  case (Inl e)
  with assms show ?thesis by (auto simp: dispatch_def)
next
  case (Inr hp)
  then obtain h b where p: "parseUDP d = Inr (h, b)" by (cases hp) auto
  note fc = parseUDP_InrD [OF p]
  have maxc: "MaxConnections (put_conn c l) = MaxConnections l" for c l
    by (simp add: put_conn_def remove_conn_def)
  have known: "\<exists>c' out. onDatagram now tk h b a c = Some (c', out) \<and> listener_wf (put_conn c' k)"
    if "listener_wf k" "map_of (conns k) (hd_connID h) = Some c" for k c
  proof -
    have "(hd_connID h, c) \<in> set (conns k)" using that(2) by (rule map_of_SomeD)
    then have c: "uc_id c = hd_connID h" "\<not> uc_closed c" "conn_wf c" using that(1) by (auto simp: listener_wf_def)
    obtain c' out where r: "onDatagram now tk h b a c = Some (c', out)"
      using onDatagram_open [OF c(2), of now tk h b a] by auto
    with onDatagram_wf [OF c(3) r] fc c(1) that have "listener_wf (put_conn c' k)"
      by (intro put_conn_wf [where cid = "hd_connID h"]) auto
    with r show ?thesis by blast
  qed
  show ?thesis
  proof (cases "map_of (conns l) (hd_connID h)")
    case (Some c)
    with known [OF assms Some] p maxc show ?thesis by (auto simp: dispatch_def)
  next
    case None
    obtain r l' where n: "newConn now (hd_connID h) a l = (r, l')" by fastforce
    note w = newConn_wf [OF assms None n]
    show ?thesis
    proof (cases r)
      case None
      with \<open>map_of (conns l) (hd_connID h) = None\<close> w n p assms show ?thesis by (auto simp: dispatch_def)
    next
      case (Some c)
      with w known [of l' c] obtain c' out where "onDatagram now tk h b a c = Some (c', out)" "listener_wf (put_conn c' l')"
        by auto
      with \<open>map_of (conns l) (hd_connID h) = None\<close> w n p assms Some maxc show ?thesis by (auto simp: dispatch_def)
    qed
  qed
qed

lemma remote_moves_only_by_response:
  assumes "onDatagram now tk h b a c = Some (c', out)" and "uc_remote c' \<noteq> uc_remote c"
  shows "has_flag (hd_flags h) udpFlagPathResponse \<and> uc_challengeAddr c = Some a \<and> b = uc_challenge c
     \<and> uc_remote c' = a \<and> (\<exists>at. uc_challengeAt c = Some at \<and> now - at \<le> 5 * 1000000000) \<and> uc_challengeAddr c' = None"
proof (rule onDatagram_cases [OF assms(1)])
  assume "Some (c', out) = Some (udp_Close (c\<lparr>uc_lastSeen := now\<rparr>))"
  with assms(2) show ?thesis by (auto simp: udp_Close_def split: if_splits)
next
  assume "Some (c', out) = Some (completeMigration now b a (c\<lparr>uc_lastSeen := now\<rparr>), [])"
    and "has_flag (hd_flags h) udpFlagPathResponse"
  with assms(2) show ?thesis by (auto simp: completeMigration_def split: option.splits if_splits)
next
  fix c1 o1
  assume m: "(c1, o1) = (if sameRemote (c\<lparr>uc_lastSeen := now\<rparr>) a then (c\<lparr>uc_lastSeen := now\<rparr>, [])
      else beginMigration now tk a (c\<lparr>uc_lastSeen := now\<rparr>))"
    and r: "Some (c', out) = Some (c1, o1) \<or> Some (c', out) = map_option (\<lambda>c2. (c2, o1)) (deliver b c1)
        \<or> (hd_fragCount h \<noteq> 1 \<and> Some (c', out) = map_option (\<lambda>c2. (c2, o1)) (reassemble now h b c1))"
  have "c1 = fst (c1, o1)" by simp
  then have "uc_remote c1 = uc_remote c"
    unfolding m using migration_frame(3) [of now tk a "c\<lparr>uc_lastSeen := now\<rparr>"] by (simp split: if_splits)
  with r have "uc_remote c' = uc_remote c"
    using deliver_frame [of b c1 c'] reassemble_frame [of now h b c1 c'] by (auto simp: Some_eq_map_option_iff)
  with assms(2) show ?thesis by simp
qed

section \<open>Properties\<close>

lemma receive_single:
  assumes "f \<noteq> []" and "fragment_count f = 1" and "\<not> uc_closed c" and "uc_remote c = a" and "length (uc_in c) < 256"
  shows "receive_all [(t, datagrams cid sq f ! 0, a)] c = Some (c\<lparr>uc_lastSeen := t, uc_in := uc_in c @ [f]\<rparr>)"
proof -
  have "fragment f 0 = f" using concat_fragments_all [of f] assms(2) by simp
  then show ?thesis
    using parse_data_datagram [of f 0 cid sq] assms
    by (simp add: onDatagram_def data_header_def data_flags sameRemote_def Let_def deliver_def)
qed

text \<open>C31. A frame of up to 618496 bytes, cut into datagrams by the sender, is delivered to the
  connection exactly once and byte for byte, whatever the order in which its datagrams arrive and
  however often some are repeated before the last missing one arrives; reassembly leaves no buffer
  behind and does not touch the buffers of other messages.\<close>

theorem udp_reassembles_in_any_order:
  assumes "f \<noteq> []" and "length f \<le> 618496" and "conn_wf c" and "\<not> uc_closed c" and "uc_remote c = a"
    and "length (uc_in c) < 256" and "length (uc_partials c) < 64" and "map_of (uc_partials c) sq = None"
    and "snd ` set arrivals = {..<fragment_count f}" and "snd (last arrivals) \<notin> snd ` set (butlast arrivals)"
  shows "\<exists>c'. receive_all (map (\<lambda>(t, i). (t, datagrams cid sq f ! i, a)) arrivals) c = Some c'
     \<and> uc_in c' = uc_in c @ [f] \<and> map_of (uc_partials c') = map_of (uc_partials c)"
proof -
  have n: "fragment_count f \<le> 512" "0 < fragment_count f" using fragment_count_bounds assms(2) by auto
  have ne: "arrivals \<noteq> []" using assms(9) n(2) by auto
  show ?thesis
  proof (cases "fragment_count f = 1")
    case True
    have "butlast arrivals = []"
    proof (rule ccontr)
      assume b: "butlast arrivals \<noteq> []"
      then obtain x where x: "x \<in> set (butlast arrivals)" by (cases "butlast arrivals") auto
      have "snd y = 0" if "y \<in> set arrivals" for y
        using that assms(9) True by (metis image_eqI lessThan_iff less_one)
      from this [OF in_set_butlastD [OF x]] this [OF last_in_set [OF ne]]
      have "snd x = 0" "snd (last arrivals) = 0" .
      then show False using assms(10) x by (metis image_eqI)
    qed
    then obtain t i where ti: "arrivals = [(t, i)]" using ne by (cases arrivals) (auto split: if_splits)
    then have "i = 0" using assms(9) True by auto
    then show ?thesis using ti receive_single [OF assms(1) True assms(4,5,6)] by simp
  next
    case False
    have "collecting f sq {} c" using assms(3,7,8) by (simp add: collecting_def conn_wf_def)
    from receive_fragments [OF this _ n(1) assms(4,5,6) _ ne, of cid] assms(8,9,10) False n(2)
    show ?thesis by (auto simp: fun_upd_idem)
  qed
qed

theorem udp_reassembles_in_any_order_witness:
  "\<exists>c'. receive_all (map (\<lambda>(t, i). (t, datagrams 9 4 (replicate 1300 7) ! i, (1, 2))) [(5, 1), (6, 1), (7, 0)])
       (fresh_conn 0 9 (1, 2)) = Some c' \<and> uc_in c' = [replicate 1300 7]"
proof -
  let ?f = "replicate 1300 (7 :: byte)"
  have n: "fragment_count ?f = 2" by (simp add: fragment_count_def udpMaxPayload_def udpHeaderSize_def)
  have "snd ` set [(5 :: int, 1), (6, 1), (7, 0)] = {..<fragment_count ?f}" unfolding n by auto
  then have "\<exists>c'. receive_all (map (\<lambda>(t, i). (t, datagrams 9 4 ?f ! i, (1, 2))) [(5, 1), (6, 1), (7, 0)])
       (fresh_conn 0 9 (1, 2)) = Some c' \<and> uc_in c' = uc_in (fresh_conn 0 9 (1, 2)) @ [?f]
       \<and> map_of (uc_partials c') = map_of (uc_partials (fresh_conn 0 9 (1, 2)))"
    by (rule udp_reassembles_in_any_order [rotated 8]) (simp_all add: fresh_conn_wf, simp_all add: fresh_conn_def)
  then show ?thesis by (auto simp: fresh_conn_def)
qed

fun dispatch_all :: "(int \<times> bytes option \<times> bytes \<times> addr) list \<Rightarrow> UDPListener \<Rightarrow> UDPListener option" where
  "dispatch_all [] l = Some l"
| "dispatch_all ((now, tk, d, a) # ds) l =
     (case dispatch now tk d a l of None \<Rightarrow> None | Some (l', _, _) \<Rightarrow> dispatch_all ds l')"

lemma dispatch_all_wf:
  "listener_wf l \<Longrightarrow> \<exists>l'. dispatch_all ds l = Some l' \<and> listener_wf l' \<and> MaxConnections l' = MaxConnections l"
proof (induction ds arbitrary: l)
  case (Cons x ds)
  obtain now tk d a where x: "x = (now, tk, d, a)" by (cases x) auto
  obtain l' out st where d: "dispatch now tk d a l = Some (l', out, st)" "listener_wf l'" "MaxConnections l' = MaxConnections l"
    using dispatch_wf [OF Cons.prems, of now tk d a] by blast
  with Cons.IH [OF d(2)] x show ?case by auto
qed simp

text \<open>Whatever bytes arrive from whatever addresses, processing them one at a time never panics,
  and the listener's memory stays bounded: no more connections than its limit, and per connection
  at most 64 unfinished messages, each below 512 fragments and 16 MiB, and 256 queued frames.\<close>

theorem udp_memory_bounded:
  "\<exists>l. dispatch_all ds \<lparr>MaxConnections = m, conns = []\<rparr> = Some l \<and> length (conns l) \<le> m
     \<and> list_all (\<lambda>(cid, c). uc_id c = cid \<and> \<not> uc_closed c \<and> length (uc_partials c) \<le> 64 \<and> length (uc_in c) \<le> 256
          \<and> list_all (\<lambda>(_, p). received p < total p \<and> total p \<le> 512 \<and> p_bytes p \<le> maxFrameSize) (uc_partials c)) (conns l)"
proof -
  have "listener_wf \<lparr>MaxConnections = m, conns = []\<rparr>" by (simp add: listener_wf_def)
  from dispatch_all_wf [OF this, of ds] obtain l where l: "dispatch_all ds \<lparr>MaxConnections = m, conns = []\<rparr> = Some l"
    "listener_wf l" "MaxConnections l = m" by auto
  then show ?thesis
    by (auto simp: listener_wf_def conn_wf_def partial_wf_def list_all_iff intro!: exI [of _ l])
      (fastforce)+
qed

text \<open>C32. The address a connection sends to changes only when that new address echoes, within five
  seconds, the random token the server had sent to it: no other datagram, whatever its source or
  flags, redirects the connection.\<close>

theorem udp_path_validated:
  assumes "onDatagram now tk h b a c = Some (c', out)" and "uc_remote c' \<noteq> uc_remote c"
  shows "uc_remote c' = a \<and> uc_challengeAddr c = Some a \<and> b = uc_challenge c
    \<and> (\<exists>at. uc_challengeAt c = Some at \<and> now - at \<le> 5 * 1000000000) \<and> uc_challengeAddr c' = None"
  using remote_moves_only_by_response [OF assms] by blast

theorem udp_path_validated_witness:
  "\<exists>c' out. onDatagram 7 None (control_header udpFlagPathResponse 9) [8, 7]
      (3, 4) ((fresh_conn 0 9 (1, 2))\<lparr>uc_challenge := [8, 7], uc_challengeAddr := Some (3, 4), uc_challengeAt := Some 5\<rparr>)
    = Some (c', out) \<and> uc_remote c' = (3, 4) \<and> uc_challengeAddr c' = None"
proof -
  let ?c = "(fresh_conn 0 9 (1, 2))\<lparr>uc_challenge := [8, 7], uc_challengeAddr := Some (3, 4), uc_challengeAt := Some 5\<rparr>"
  obtain c' where r: "onDatagram 7 None (control_header udpFlagPathResponse 9) [8, 7] (3, 4) ?c = Some (c', [])"
    "uc_remote c' = (3, 4)"
    by (simp add: onDatagram_def control_header_def has_flag_def udp_flags completeMigration_def Let_def)
  then show ?thesis using udp_path_validated [OF r(1)] by (simp add: fresh_conn_def)
qed

text \<open>The client's \<^verbatim>\<open>WriteFrame\<close> has no fragment limit: for a frame above 618496 bytes, up to the
  65535 fragments the header can count, it reports success while every datagram it sent is one
  the server's parser rejects, so the frame is lost without a trace.\<close>

theorem client_oversized_frame_lost:
  assumes "618496 < length f" and "fragment_count f < 2 ^ 16" and "\<not> cl_closed c"
  shows "\<exists>ds. fst (UDPClient_WriteFrame c f) = Inr ds \<and> ds \<noteq> []
     \<and> list_all (\<lambda>d. parseUDP d = Inl ErrBadDatagram) ds"
proof -
  let ?sq = "cl_sendSeq c + 1" and ?n = "fragment_count f"
  have n: "512 < ?n" using fragment_count_bounds(3) [of f] assms(1) by linarith
  have u: "unat (of_nat ?n :: u16) = ?n" using assms(2) by (intro unat_of_nat_small) simp
  have "parseUDP (udp_marshal (data_header (cl_id c) ?sq ?n i) p) = Inl ErrBadDatagram" for i p
  proof -
    let ?h = "data_header (cl_id c) ?sq ?n i"
    note b = bslice_datagram [of "put_be 2 udpMagic" "put_be 8 (hd_connID ?h)" "put_be 4 (hd_msgSeq ?h)"
      "put_be 2 (hd_fragIndex ?h)" "put_be 2 (hd_fragCount ?h)" "put_be 2 (of_nat (length p) :: u16)"
      "udp_marshal ?h p" udpVersion "hd_flags ?h" 0 0 p, OF _ _ _ _ _ _ udp_marshal_def, simplified]
    have "hd_fragCount ?h = of_nat ?n" by (simp add: data_header_def)
    with b u n show ?thesis by (simp add: parseUDP_def udpMaxFragments_def get_put_be Let_def)
  qed
  then have "list_all (\<lambda>d. parseUDP d = Inl ErrBadDatagram) (datagrams (cl_id c) ?sq f)"
    by (simp add: datagrams_def Let_def list_all_iff)
  moreover have "datagrams (cl_id c) ?sq f \<noteq> []" using n by (simp add: datagrams_def Let_def)
  ultimately show ?thesis using assms(3) by (simp add: UDPClient_WriteFrame_def Let_def)
qed

theorem client_oversized_frame_lost_witness:
  "\<exists>ds. fst (UDPClient_WriteFrame \<lparr>cl_id = 1, cl_sendSeq = 0, cl_in = [], cl_partials = [], cl_closed = False\<rparr>
        (replicate 618497 0)) = Inr ds \<and> ds \<noteq> [] \<and> list_all (\<lambda>d. parseUDP d = Inl ErrBadDatagram) ds"
proof (rule client_oversized_frame_lost)
  show "fragment_count (replicate 618497 (0 :: byte)) < 2 ^ 16"
    by (simp add: fragment_count_def udpMaxPayload_def udpHeaderSize_def Let_def)
qed simp_all

text \<open>A connection identifier reused after a close can lose its new connection: the handler of the
  closed connection, when it returns, removes the identifier from the table, and from then on the
  new connection's data datagrams are dropped.\<close>

theorem stale_handler_removes_new_connection:
  assumes "listener_wf l" and "map_of (conns l) cid = Some c"
    and "parseUDP hello = Inr (h, [])" and "hd_connID h = cid" and "hd_flags h = udpFlagHello"
    and "parseUDP d = Inr (h2, b)" and "hd_connID h2 = cid" and "\<not> has_flag (hd_flags h2) udpFlagHello"
  shows "\<exists>l2. dispatch now tk hello a (put_conn (fst (udp_Close c)) l) = Some (l2, [], True)
     \<and> map_of (conns l2) cid \<noteq> None
     \<and> dispatch now2 tk2 d a (remove_conn cid l2) = Some (remove_conn cid l2, [], False)"
proof -
  have c: "uc_id c = cid" "\<not> uc_closed c" using assms(1) map_of_SomeD [OF assms(2)] by (auto simp: listener_wf_def)
  define l1 where "l1 = put_conn (fst (udp_Close c)) l"
  have l1: "l1 = remove_conn cid l" using c by (simp add: l1_def put_conn_def udp_Close_def)
  have "length (conns l1) < MaxConnections l1"
  proof -
    have "(cid, c) \<in> set (conns l)" using assms(2) by (rule map_of_SomeD)
    then have "length (filter (\<lambda>(k, _). cid \<noteq> k) (conns l)) < length (conns l)"
      by (intro length_filter_less) auto
    then show ?thesis using assms(1) by (simp add: l1 remove_conn_def AList.delete_eq listener_wf_def)
  qed
  moreover have n: "map_of (conns l1) cid = None" by (simp add: l1 remove_conn_def delete_conv')
  ultimately have nc: "newConn now cid a l1 = (Some (fresh_conn now cid a), l1\<lparr>conns := AList.update cid (fresh_conn now cid a) (conns l1)\<rparr>)"
    by (simp add: newConn_def Let_def)
  have hf: "has_flag udpFlagHello udpFlagHello" "\<not> has_flag udpFlagHello udpFlagClose"
    "\<not> has_flag udpFlagHello udpFlagPathResponse" "\<not> has_flag udpFlagHello udpFlagData"
    by (simp_all add: has_flag_def udp_flags)
  have o: "onDatagram now tk h [] a (fresh_conn now cid a) = Some (fresh_conn now cid a, [])"
    using assms(5) hf by (simp add: onDatagram_def sameRemote_def Let_def) (simp add: fresh_conn_def)
  let ?l2 = "put_conn (fresh_conn now cid a) (l1\<lparr>conns := AList.update cid (fresh_conn now cid a) (conns l1)\<rparr>)"
  have "dispatch now tk hello a l1 = Some (?l2, [], True)"
    using assms(3-5) n nc o hf(1) by (simp add: dispatch_def)
  moreover have "map_of (conns ?l2) cid \<noteq> None" by (simp add: put_conn_def fresh_conn_wf update_conv')
  moreover have "dispatch now2 tk2 d a (remove_conn cid ?l2) = Some (remove_conn cid ?l2, [], False)"
    using assms(6-8) by (simp add: dispatch_def remove_conn_def delete_conv')
  ultimately show ?thesis unfolding l1_def by blast
qed

theorem stale_handler_removes_new_connection_witness:
  "\<exists>l2. dispatch 1 None (udp_marshal (control_header udpFlagHello 9) []) (1, 2)
        (put_conn (fst (udp_Close (fresh_conn 0 9 (1, 2)))) \<lparr>MaxConnections = 2, conns = [(9, fresh_conn 0 9 (1, 2))]\<rparr>)
      = Some (l2, [], True)
     \<and> dispatch 2 None (udp_marshal (data_header 9 1 1 0) [5]) (1, 2) (remove_conn 9 l2) = Some (remove_conn 9 l2, [], False)"
proof -
  let ?l = "\<lparr>MaxConnections = 2, conns = [(9, fresh_conn 0 9 (1, 2))]\<rparr>"
  have p: "parseUDP (udp_marshal (control_header udpFlagHello 9) []) = Inr (control_header udpFlagHello 9, [])"
    using parse_marshal [of "[]" "control_header udpFlagHello 9"] by (simp add: control_header_def word_less_nat_alt)
  have q: "parseUDP (udp_marshal (data_header 9 1 1 0) [5]) = Inr ((data_header 9 1 1 0)\<lparr>hd_payloadLen := 1\<rparr>, [5])"
    using parse_marshal [of "[5]" "data_header 9 1 1 0"] by (simp add: data_header_def word_less_nat_alt)
  have "listener_wf ?l" by (simp add: listener_wf_def fresh_conn_wf)
  from stale_handler_removes_new_connection [OF this _ p _ _ q, of 9 "fresh_conn 0 9 (1, 2)" 1 None "(1, 2)" 2 None]
  show ?thesis by (auto simp: control_header_def data_header_def has_flag_def udp_flags)
qed

end
