(* ===== verification/Go_Text.thy ===== *)
theory Go_Text
  imports Go_Prelude
begin

text \<open>
  What the services use of Go's \<^verbatim>\<open>strings\<close>, \<^verbatim>\<open>strconv\<close> and \<^verbatim>\<open>unicode/utf8\<close>: a string is its bytes, split into runes the
  way \<^verbatim>\<open>utf8.DecodeRune\<close> does, an invalid byte counting as a rune of its own.
\<close>

definition char_byte :: "char \<Rightarrow> nat" where "char_byte c = of_char c"

definition byte_in :: "nat \<Rightarrow> nat \<Rightarrow> char \<Rightarrow> bool" where
  "byte_in lo hi c \<longleftrightarrow> lo \<le> char_byte c \<and> char_byte c \<le> hi"

text \<open>The length of the first rune of a non-empty string.\<close>

fun rune_width :: "string \<Rightarrow> nat" where
  "rune_width [] = 0"
| "rune_width [a] = 1"
| "rune_width [a, b] = (if byte_in 194 223 a \<and> byte_in 128 191 b then 2 else 1)"
| "rune_width [a, b, c] =
     (if byte_in 194 223 a \<and> byte_in 128 191 b then 2
      else if byte_in 128 191 c
        \<and> (char_byte a = 224 \<and> byte_in 160 191 b \<or> byte_in 225 236 a \<and> byte_in 128 191 b
           \<or> char_byte a = 237 \<and> byte_in 128 159 b \<or> byte_in 238 239 a \<and> byte_in 128 191 b) then 3 else 1)"
| "rune_width (a # b # c # d # s) =
     (if byte_in 194 223 a \<and> byte_in 128 191 b then 2
      else if byte_in 128 191 c
        \<and> (char_byte a = 224 \<and> byte_in 160 191 b \<or> byte_in 225 236 a \<and> byte_in 128 191 b
           \<or> char_byte a = 237 \<and> byte_in 128 159 b \<or> byte_in 238 239 a \<and> byte_in 128 191 b) then 3
      else if byte_in 128 191 c \<and> byte_in 128 191 d
        \<and> (char_byte a = 240 \<and> byte_in 144 191 b \<or> byte_in 241 243 a \<and> byte_in 128 191 b
           \<or> char_byte a = 244 \<and> byte_in 128 143 b) then 4 else 1)"

lemma rune_width_pos: "s \<noteq> [] \<Longrightarrow> 0 < rune_width s"
  by (cases s rule: rune_width.cases) auto

function runes :: "string \<Rightarrow> string list" where
  "runes s = (if s = [] then [] else take (rune_width s) s # runes (drop (rune_width s) s))"
  by pat_completeness auto
termination by (relation "measure length") (auto simp: rune_width_pos)

declare runes.simps [simp del]

definition rune_count :: "string \<Rightarrow> nat" where
  "rune_count s = length (runes s)"

text \<open>The UTF-8 forms of the code points \<^verbatim>\<open>unicode.IsSpace\<close> accepts.\<close>

definition is_space_rune :: "string \<Rightarrow> bool" where
  "is_space_rune r =
     (case map char_byte r of
        [a] \<Rightarrow> a = 32 \<or> 9 \<le> a \<and> a \<le> 13
      | [a, b] \<Rightarrow> a = 194 \<and> (b = 133 \<or> b = 160)
      | [a, b, c] \<Rightarrow>
          (a = 225 \<and> b = 154 \<and> c = 128)
          \<or> (a = 226 \<and> b = 128 \<and> (128 \<le> c \<and> c \<le> 138 \<or> c = 168 \<or> c = 169 \<or> c = 175))
          \<or> (a = 226 \<and> b = 129 \<and> c = 159) \<or> (a = 227 \<and> b = 128 \<and> c = 128)
      | _ \<Rightarrow> False)"

definition TrimSpace :: "string \<Rightarrow> string" where
  "TrimSpace s = concat (rev (dropWhile is_space_rune (rev (dropWhile is_space_rune (runes s)))))"

text \<open>\<^verbatim>\<open>strings.ToLower\<close> as far as a comparison with ASCII constants can tell: the ASCII letters, and the
  two other code points whose lower case is ASCII (the Kelvin sign and the dotted capital I).\<close>

definition lower_rune :: "string \<Rightarrow> string" where
  "lower_rune r =
     (case map char_byte r of
        [a] \<Rightarrow> if 65 \<le> a \<and> a \<le> 90 then [char_of (a + 32)] else r
      | [a, b] \<Rightarrow> if a = 196 \<and> b = 176 then ''i'' else r
      | [a, b, c] \<Rightarrow> if a = 226 \<and> b = 132 \<and> c = 170 then ''k'' else r
      | _ \<Rightarrow> r)"

definition ToLower :: "string \<Rightarrow> string" where
  "ToLower s = concat (map lower_rune (runes s))"

definition HasPrefix :: "string \<Rightarrow> string \<Rightarrow> bool" where
  "HasPrefix s p \<longleftrightarrow> take (length p) s = p"

fun Contains :: "string \<Rightarrow> string \<Rightarrow> bool" where
  "Contains [] p \<longleftrightarrow> p = []"
| "Contains (c # s) p \<longleftrightarrow> HasPrefix (c # s) p \<or> Contains s p"

definition is_digit :: "char \<Rightarrow> bool" where
  "is_digit c \<longleftrightarrow> 48 \<le> (of_char c :: nat) \<and> (of_char c :: nat) \<le> 57"

text \<open>\<^verbatim>\<open>strconv.ParseInt(raw, 10, 64)\<close>, which \<^verbatim>\<open>strconv.Atoi\<close> equals on a 64-bit platform.\<close>

definition ParseInt :: "string \<Rightarrow> int option" where
  "ParseInt s =
     (let neg = (s \<noteq> [] \<and> hd s = CHR ''-''); ds = (if s \<noteq> [] \<and> (hd s = CHR ''-'' \<or> hd s = CHR ''+'') then tl s else s);
          v = (if neg then - int (atoi_nat ds) else int (atoi_nat ds))
      in if ds = [] \<or> \<not> list_all is_digit ds then None
         else if - (2 ^ 63) \<le> v \<and> v < 2 ^ 63 then Some v else None)"

definition ASCII :: "string \<Rightarrow> bool" where
  "ASCII s \<longleftrightarrow> list_all (\<lambda>c. char_byte c < 128) s"

lemma rune_width_ascii: "char_byte a < 128 \<Longrightarrow> rune_width (a # s) = 1"
  by (cases "a # s" rule: rune_width.cases) (auto simp: byte_in_def)

lemma runes_ascii: "ASCII s \<Longrightarrow> runes s = map (\<lambda>c. [c]) s"
proof (induction s)
  case Nil
  then show ?case by (simp add: runes.simps)
next
  case (Cons a s)
  then show ?case by (subst runes.simps) (simp add: ASCII_def rune_width_ascii)
qed

lemma concat_runes: "concat (runes s) = s"
proof (induction s rule: runes.induct)
  case (1 s)
  then show ?case by (subst runes.simps) auto
qed

lemma rune_count_le: "rune_count s \<le> length s"
proof (induction s rule: runes.induct)
  case (1 s)
  show ?case
  proof (cases "s = []")
    case False
    with 1 have "rune_count (drop (rune_width s) s) \<le> length s - rune_width s" by simp
    with False rune_width_pos [OF False] show ?thesis
      unfolding rune_count_def by (subst runes.simps) (cases "length s"; simp)
  qed (simp add: rune_count_def runes.simps)
qed

end
