(* ===== verification/Snowflake_Ids.thy ===== *)
theory Snowflake_Ids
  imports Go_Text
begin

unbundle bit_operations_syntax

text \<open>
  The platform's identifiers, \<^verbatim>\<open>pkg/ids/ids.go\<close>: time-ordered 64-bit snowflakes, random tokens and
  numeric verification codes.  The successive readings of the wall clock, in milliseconds, are a
  list: a call that has used them all up without returning is still waiting, the result \<open>None\<close>.
\<close>

definition Epoch :: int where "Epoch = 1704067200000"
definition nodeBits :: nat where "nodeBits = 10"
definition stepBits :: nat where "stepBits = 12"
definition maxNode :: int where "maxNode = -1 XOR (push_bit nodeBits (-1))"
definition maxStep :: int where "maxStep = -1 XOR (push_bit stepBits (-1))"
definition timeShift :: nat where "timeShift = nodeBits + stepBits"
definition nodeShift :: nat where "nodeShift = stepBits"

lemma snowflake_consts: "maxNode = 1023" "maxStep = 4095" "timeShift = 22" "nodeShift = 12"
  by (simp_all add: maxNode_def maxStep_def timeShift_def nodeShift_def nodeBits_def stepBits_def push_bit_eq_mult)

record Snowflake =
  sf_node :: int
  sf_last :: int
  sf_step :: int

datatype ids_error = ErrNodeRange int | ErrTokenLength | ErrReadRandom | ErrCodeLength

definition NewSnowflake :: "int \<Rightarrow> ids_error + Snowflake" where
  "NewSnowflake node =
     (if node < 0 \<or> maxNode < node then Inl (ErrNodeRange node)
      else Inr \<lparr>sf_node = node, sf_last = 0, sf_step = 0\<rparr>)"

definition fnv1a :: "string \<Rightarrow> u32" where
  "fnv1a s = foldl (\<lambda>h c. (h XOR of_nat (of_char c)) * 16777619) 2166136261 s"

text \<open>The loop looks for the last dash; what follows it is parsed once.\<close>

definition after_last_dash :: "string \<Rightarrow> string option" where
  "after_last_dash s =
     (if CHR ''-'' \<in> set s then Some (rev (takeWhile (\<lambda>c. c \<noteq> CHR ''-'') (rev s))) else None)"

definition NodeFromHostname :: "string \<Rightarrow> int" where
  "NodeFromHostname hostname =
     (case (case after_last_dash hostname of None \<Rightarrow> None | Some t \<Rightarrow> ParseInt t) of
        Some n \<Rightarrow> n AND maxNode
      | None \<Rightarrow> uint (fnv1a hostname) AND maxNode)"

fun spin :: "(int \<Rightarrow> bool) \<Rightarrow> int \<Rightarrow> int list \<Rightarrow> (int \<times> int list) option" where
  "spin waiting now [] = (if waiting now then None else Some (now, []))"
| "spin waiting now (t # ts) = (if waiting now then spin waiting t ts else Some (now, t # ts))"

definition snowflake_id :: "int \<Rightarrow> int \<Rightarrow> int \<Rightarrow> u64" where
  "snowflake_id now node stp =
     word_of_int (push_bit timeShift (now - Epoch) OR push_bit nodeShift node OR stp)"

definition Snowflake_Next :: "int list \<Rightarrow> Snowflake \<Rightarrow> (u64 \<times> Snowflake \<times> int list) option" where
  "Snowflake_Next clock s =
     (case clock of [] \<Rightarrow> None | t0 # ts0 \<Rightarrow>
       (case spin (\<lambda>n. n < sf_last s) t0 ts0 of None \<Rightarrow> None | Some (now, ts) \<Rightarrow>
          if now = sf_last s then
            let stp = (sf_step s + 1) AND maxStep
            in if stp = 0
               then (case spin (\<lambda>n. n \<le> sf_last s) now ts of None \<Rightarrow> None
                     | Some (now', ts') \<Rightarrow>
                         Some (snowflake_id now' (sf_node s) stp, s\<lparr>sf_last := now', sf_step := stp\<rparr>, ts'))
               else Some (snowflake_id now (sf_node s) stp, s\<lparr>sf_last := now, sf_step := stp\<rparr>, ts)
          else Some (snowflake_id now (sf_node s) 0, s\<lparr>sf_last := now, sf_step := 0\<rparr>, ts)))"

definition TimeOf :: "u64 \<Rightarrow> int" where
  "TimeOf i = drop_bit timeShift (sint i) + Epoch"

definition Token :: "int \<Rightarrow> bytes \<Rightarrow> ids_error + (bytes \<times> bytes)" where
  "Token n entropy =
     (if n \<le> 0 then Inl ErrTokenLength
      else case read_full (nat n) entropy of None \<Rightarrow> Inl ErrReadRandom | Some x \<Rightarrow> Inr x)"

definition RandomInt64 :: "bytes \<Rightarrow> ids_error + (u64 \<times> bytes)" where
  "RandomInt64 entropy =
     (case Token 8 entropy of Inl e \<Rightarrow> Inl e | Inr (b, r) \<Rightarrow> Inr (drop_bit 1 (get_be b :: u64), r))"

text \<open>\<^verbatim>\<open>fmt.Sprintf("%0*d", n, v)\<close> for a non-negative value.\<close>

definition pad_decimal :: "nat \<Rightarrow> nat \<Rightarrow> string" where
  "pad_decimal n v = (let s = itoa_nat v in replicate (n - length s) (CHR ''0'') @ s)"

text \<open>One draw of \<^verbatim>\<open>NumericCode\<close>'s rejection loop: the code, or nothing when the draw is rejected.\<close>

definition code_draw :: "nat \<Rightarrow> nat \<Rightarrow> string option" where
  "code_draw n v = (if v < 2 ^ 62 div 10 ^ n * 10 ^ n then Some (pad_decimal n (v mod 10 ^ n)) else None)"

function numeric_loop :: "nat \<Rightarrow> bytes \<Rightarrow> ids_error + string" where
  "numeric_loop n entropy =
     (case RandomInt64 entropy of
        Inl e \<Rightarrow> Inl e
      | Inr (v, entropy') \<Rightarrow>
          (case code_draw n (unat (v AND (2 ^ 62 - 1))) of
             Some code \<Rightarrow> Inr code
           | None \<Rightarrow> numeric_loop n entropy'))"
  by pat_completeness auto
termination
  by (relation "measure (\<lambda>(n, e). length e)")
    (auto simp: RandomInt64_def Token_def read_full_Some_iff split: sum.splits option.splits if_splits prod.splits)

declare numeric_loop.simps [simp del]

definition NumericCode :: "int \<Rightarrow> bytes \<Rightarrow> ids_error + string" where
  "NumericCode n entropy = (if n \<le> 0 \<or> 18 < n then Inl ErrCodeLength else numeric_loop (nat n) entropy)"

section \<open>Lemmas\<close>

lemma and_mask_nat: "i AND maxNode = i mod 1024" "i AND maxStep = i mod 4096"
  using take_bit_eq_mask [of 10 i] take_bit_eq_mask [of 12 i]
  by (simp_all add: snowflake_consts take_bit_eq_mod mask_eq_exp_minus_1)

lemma or_disjoint:
  assumes "0 \<le> s" and "s < 2 ^ k"
  shows "push_bit k t OR s = t * 2 ^ k + (s :: int)"
proof -
  have "take_bit k s = s" using assms by (simp add: take_bit_int_eq_self)
  then have "push_bit k t OR s = concat_bit k s t" by (simp add: concat_bit_def or.commute)
  also have "\<dots> = t * 2 ^ k + s" using \<open>take_bit k s = s\<close> by (simp add: concat_bit_eq push_bit_eq_mult)
  finally show ?thesis .
qed

lemma or_disjoint_fields:
  fixes t n s :: int
  assumes "0 \<le> n" "n < 1024" "0 \<le> s" "s < 4096"
  shows "push_bit 22 t OR push_bit 12 n OR s = t * 2 ^ 22 + n * 2 ^ 12 + s"
proof -
  have "push_bit 12 n OR s = n * 2 ^ 12 + s" using assms by (intro or_disjoint) simp_all
  moreover have "push_bit 22 t OR (n * 2 ^ 12 + s) = t * 2 ^ 22 + (n * 2 ^ 12 + s)"
    using assms by (intro or_disjoint) simp_all
  ultimately show ?thesis by (simp add: or.assoc)
qed

text \<open>The range of times the identifier has room for: 41 bits of milliseconds.\<close>

definition in_era :: "int \<Rightarrow> bool" where
  "in_era t \<longleftrightarrow> Epoch \<le> t \<and> t < Epoch + 2 ^ 41"

definition snowflake_wf :: "Snowflake \<Rightarrow> bool" where
  "snowflake_wf s \<longleftrightarrow> 0 \<le> sf_node s \<and> sf_node s < 1024 \<and> 0 \<le> sf_step s \<and> sf_step s < 4096"

lemma sint_of_small: "0 \<le> v \<Longrightarrow> v < 2 ^ 63 \<Longrightarrow> sint (word_of_int v :: u64) = v"
  by (simp add: signed_of_int signed_take_bit_int_eq_self)

lemma sint_snowflake_id:
  assumes "in_era now" and "0 \<le> node" and "node < 1024" and "0 \<le> stp" and "stp < 4096"
  shows "sint (snowflake_id now node stp) = (now - Epoch) * 2 ^ 22 + node * 2 ^ 12 + stp"
proof -
  let ?v = "(now - Epoch) * 2 ^ 22 + node * 2 ^ 12 + stp"
  have "0 \<le> now - Epoch" "now - Epoch \<le> 2 ^ 41 - 1" using assms(1) by (simp_all add: in_era_def)
  with assms(2-) have "0 \<le> ?v" "?v < 2 ^ 63" by simp_all
  then have "sint (word_of_int ?v :: u64) = ?v" by (rule sint_of_small)
  with assms(2-) show ?thesis by (simp add: snowflake_id_def snowflake_consts or_disjoint_fields)
qed

lemma spin_SomeD: "spin P now ts = Some (n, r) \<Longrightarrow> \<not> P n \<and> n \<in> set (now # ts) \<and> set r \<subseteq> set ts"
  by (induction ts arbitrary: now) (auto split: if_splits)

lemma spin_returns: "(\<exists>t \<in> set (now # ts). \<not> P t) \<Longrightarrow> spin P now ts \<noteq> None"
  by (induction ts arbitrary: now) auto

lemma Snowflake_Next_cases:
  assumes "Snowflake_Next clock s = Some (i, s', r)" and "snowflake_wf s"
  shows "snowflake_wf s'" "sf_node s' = sf_node s" "sf_last s' \<in> set clock" "set r \<subseteq> set clock"
    "i = snowflake_id (sf_last s') (sf_node s) (sf_step s')"
    "sf_last s < sf_last s' \<or> (sf_last s' = sf_last s \<and> sf_step s < sf_step s')"
proof -
  from assms(1) obtain t0 ts0 now ts where c: "clock = t0 # ts0"
    and sp: "spin (\<lambda>n. n < sf_last s) t0 ts0 = Some (now, ts)"
    by (auto simp: Snowflake_Next_def split: list.splits option.splits)
  have now: "sf_last s \<le> now" "now \<in> set clock" "set ts \<subseteq> set clock"
    using spin_SomeD [OF sp] c by auto
  define stp where "stp = (sf_step s + 1) mod 4096"
  have stp: "0 \<le> stp" "stp < 4096" "stp \<noteq> 0 \<Longrightarrow> sf_step s < stp"
    using assms(2) by (cases "sf_step s = 4095"; simp add: stp_def snowflake_wf_def)+
  consider (same) "now = sf_last s" "stp \<noteq> 0" "i = snowflake_id now (sf_node s) stp" "s' = s\<lparr>sf_last := now, sf_step := stp\<rparr>" "r = ts"
    | (next_ms) now' where "now = sf_last s" "stp = 0" "spin (\<lambda>n. n \<le> sf_last s) now ts = Some (now', r)"
        "i = snowflake_id now' (sf_node s) 0" "s' = s\<lparr>sf_last := now', sf_step := 0\<rparr>"
    | (later) "now \<noteq> sf_last s" "i = snowflake_id now (sf_node s) 0" "s' = s\<lparr>sf_last := now, sf_step := 0\<rparr>" "r = ts"
    using assms(1) sp unfolding c Snowflake_Next_def
    by (auto simp: Let_def and_mask_nat stp_def split: if_splits option.splits)
  then have "snowflake_wf s' \<and> sf_node s' = sf_node s \<and> sf_last s' \<in> set clock \<and> set r \<subseteq> set clock
    \<and> i = snowflake_id (sf_last s') (sf_node s) (sf_step s')
    \<and> (sf_last s < sf_last s' \<or> (sf_last s' = sf_last s \<and> sf_step s < sf_step s'))"
  proof cases
    case same
    then show ?thesis using now stp assms(2) by (simp add: snowflake_wf_def)
  next
    case next_ms
    from spin_SomeD [OF next_ms(3)] now have "sf_last s < now'" "now' \<in> set clock" "set r \<subseteq> set clock" by auto
    with next_ms show ?thesis using assms(2) by (simp add: snowflake_wf_def)
  next
    case later
    then show ?thesis using now assms(2) by (simp add: snowflake_wf_def)
  qed
  then show "snowflake_wf s'" "sf_node s' = sf_node s" "sf_last s' \<in> set clock" "set r \<subseteq> set clock"
    "i = snowflake_id (sf_last s') (sf_node s) (sf_step s')"
    "sf_last s < sf_last s' \<or> (sf_last s' = sf_last s \<and> sf_step s < sf_step s')"
    by blast+
qed

text \<open>The sequence number within a time, as one number: it grows with every call.\<close>

definition sf_rank :: "Snowflake \<Rightarrow> int" where
  "sf_rank s = (sf_last s - Epoch) * 2 ^ 22 + sf_node s * 2 ^ 12 + sf_step s"

lemma Snowflake_Next_rank:
  assumes "Snowflake_Next clock s = Some (i, s', r)" and "snowflake_wf s"
  shows "sf_rank s < sf_rank s'"
proof -
  note c = Snowflake_Next_cases [OF assms]
  have "sf_step s - sf_step s' < 2 ^ 22" using c(1) assms(2) by (simp add: snowflake_wf_def)
  with c(2,6) show ?thesis by (auto simp: sf_rank_def)
qed

text \<open>The identifiers of \<open>n\<close> consecutive calls, and what is left of the clock.\<close>

fun next_n :: "nat \<Rightarrow> int list \<Rightarrow> Snowflake \<Rightarrow> (u64 list \<times> Snowflake) option" where
  "next_n 0 clock s = Some ([], s)"
| "next_n (Suc n) clock s =
     (case Snowflake_Next clock s of None \<Rightarrow> None
      | Some (i, s', r) \<Rightarrow> (case next_n n r s' of None \<Rightarrow> None | Some (is', s'') \<Rightarrow> Some (i # is', s'')))"

lemma next_n_increasing:
  "next_n n clock s = Some (ids, s') \<Longrightarrow> snowflake_wf s \<Longrightarrow> \<forall>t \<in> set clock. in_era t \<Longrightarrow>
     sorted_wrt (\<lambda>a b. sint a < sint b) ids \<and> (\<forall>i \<in> set ids. sf_rank s < sint i)"
proof (induction n arbitrary: clock s ids)
  case (Suc n)
  from Suc.prems(1) obtain i s1 r ids' where step: "Snowflake_Next clock s = Some (i, s1, r)"
    and rest: "next_n n r s1 = Some (ids', s')" and ids: "ids = i # ids'"
    by (auto split: option.splits)
  note c = Snowflake_Next_cases [OF step Suc.prems(2)]
  have "sint i = sf_rank s1"
    using c(1,2,3,5) Suc.prems(3) by (simp add: sint_snowflake_id snowflake_wf_def sf_rank_def)
  moreover have "sf_rank s < sf_rank s1" by (rule Snowflake_Next_rank [OF step Suc.prems(2)])
  moreover have "sorted_wrt (\<lambda>a b. sint a < sint b) ids' \<and> (\<forall>j \<in> set ids'. sf_rank s1 < sint j)"
    using Suc.IH [OF rest c(1)] c(4) Suc.prems(3) by auto
  ultimately show ?case unfolding ids by auto
qed simp

section \<open>Lemmas on codes\<close>

lemma length_itoa_nat: "0 < k \<Longrightarrow> n < 10 ^ k \<Longrightarrow> length (itoa_nat n) \<le> k"
proof (induction n arbitrary: k rule: itoa_nat.induct)
  case (1 n)
  show ?case
  proof (cases "n < 10")
    case True
    with 1 show ?thesis by (simp add: itoa_nat.simps)
  next
    case False
    with "1.prems" obtain j where j: "k = Suc j" by (cases k) auto
    with False "1.prems" have "0 < j" by (cases j) auto
    moreover have "n div 10 < 10 ^ j" using j "1.prems" by (simp add: less_mult_imp_div_less mult.commute)
    ultimately have "length (itoa_nat (n div 10)) \<le> j" using 1 False by blast
    with j False show ?thesis by (subst itoa_nat.simps) simp
  qed
qed

lemma atoi_nat_zeros: "atoi_nat (replicate k (CHR ''0'') @ s) = atoi_nat s"
  by (induction k) (simp_all add: atoi_nat_def)

lemma pad_decimal_props:
  assumes "0 < n" and "v < 10 ^ n"
  shows "length (pad_decimal n v) = n" "atoi_nat (pad_decimal n v) = v"
  using length_itoa_nat [OF assms] by (simp_all add: pad_decimal_def Let_def atoi_nat_zeros atoi_itoa_nat)

lemma pad_decimal_digits: "c \<in> set (pad_decimal n v) \<Longrightarrow> \<exists>d < 10. c = digit_char d"
proof -
  have "CHR ''0'' = digit_char 0" by (simp add: digit_char_def)
  then show "c \<in> set (pad_decimal n v) \<Longrightarrow> \<exists>d < 10. c = digit_char d"
    using itoa_nat_digits [of c v] by (force simp: pad_decimal_def Let_def)
qed

lemma code_draw_eq_iff:
  assumes "0 < n" and "k < 10 ^ n"
  shows "code_draw n v = Some (pad_decimal n k) \<longleftrightarrow> v < 2 ^ 62 div 10 ^ n * 10 ^ n \<and> v mod 10 ^ n = k"
proof -
  have "pad_decimal n (v mod 10 ^ n) = pad_decimal n k \<longleftrightarrow> v mod 10 ^ n = k"
    using pad_decimal_props(2) [OF assms(1), of "v mod 10 ^ n"] pad_decimal_props(2) [OF assms] by (metis mod_less_divisor zero_less_numeral zero_less_power)
  then show ?thesis by (auto simp: code_draw_def simp del: power_numeral)
qed

lemma card_residue:
  assumes "0 < m" and "k < (m :: nat)"
  shows "card {v. v < q * m \<and> v mod m = k} = q"
proof -
  have "{v. v < q * m \<and> v mod m = k} = (\<lambda>j. j * m + k) ` {..<q}"
  proof (intro set_eqI iffI)
    fix v assume "v \<in> {v. v < q * m \<and> v mod m = k}"
    then have "v = v div m * m + k" "v div m < q" using assms(1) by (auto simp: less_mult_imp_div_less)
    then show "v \<in> (\<lambda>j. j * m + k) ` {..<q}" by blast
  next
    fix v assume "v \<in> (\<lambda>j. j * m + k) ` {..<q}"
    then obtain j where j: "j < q" "v = j * m + k" by auto
    have "j * m + k < Suc j * m" using assms(2) by simp
    also have "\<dots> \<le> q * m" using j(1) by (intro mult_le_mono1) simp
    finally show "v \<in> {v. v < q * m \<and> v mod m = k}" using j assms(2) by simp
  qed
  moreover have "inj_on (\<lambda>j. j * m + k) {..<q}" using assms(1) by (auto simp: inj_on_def)
  ultimately show ?thesis by (simp add: card_image)
qed

lemma numeric_loop_InrD: "numeric_loop n e = Inr code \<Longrightarrow> \<exists>v. code_draw n v = Some code"
proof (induction n e rule: numeric_loop.induct)
  case (1 n e)
  from "1.prems" show ?case
    by (subst (asm) numeric_loop.simps) (auto split: sum.splits option.splits dest: "1.IH")
qed

lemma field_split:
  fixes h l k :: int
  assumes "0 \<le> l" and "l < k"
  shows "(h * k + l) div k = h" "(h * k + l) mod k = l"
  using assms by simp_all

section \<open>Properties\<close>

text \<open>The identifiers a generator issues are strictly increasing as \<^verbatim>\<open>int64\<close> values, and so all
  distinct, whatever the wall clock reads between 2024 and 2093, including readings that jump
  backwards and more than 4096 calls in one millisecond.\<close>

theorem snowflakes_increase:
  assumes "NewSnowflake node = Inr s" and "next_n n clock s = Some (ids, s')" and "\<forall>t \<in> set clock. in_era t"
  shows "sorted_wrt (\<lambda>a b. sint a < sint b) ids \<and> distinct ids"
proof -
  have "snowflake_wf s" using assms(1) by (auto simp: NewSnowflake_def snowflake_wf_def snowflake_consts split: if_splits)
  with next_n_increasing [OF assms(2) _ assms(3)] have "sorted_wrt (\<lambda>a b. sint a < sint b) ids" by blast
  moreover have "distinct xs" if "sorted_wrt (\<lambda>a b. sint a < sint b) xs" for xs :: "u64 list"
    using that by (induction xs) auto
  ultimately show ?thesis by blast
qed

theorem snowflakes_increase_witness:
  "\<exists>ids s'. next_n 3 [Epoch + 5, Epoch + 3, Epoch + 5, Epoch + 9] \<lparr>sf_node = 7, sf_last = 0, sf_step = 0\<rparr> = Some (ids, s')
     \<and> distinct ids"
proof -
  have n: "NewSnowflake 7 = Inr \<lparr>sf_node = 7, sf_last = 0, sf_step = 0\<rparr>" by (simp add: NewSnowflake_def snowflake_consts)
  obtain ids s' where r: "next_n 3 [Epoch + 5, Epoch + 3, Epoch + 5, Epoch + 9] \<lparr>sf_node = 7, sf_last = 0, sf_step = 0\<rparr> = Some (ids, s')"
    by (simp add: numeral_3_eq_3 Snowflake_Next_def Epoch_def snowflake_consts and_mask_nat Let_def)
  from snowflakes_increase [OF n r] r show ?thesis by (auto simp: in_era_def)
qed

text \<open>C40. \<^verbatim>\<open>Next\<close> does return: as soon as the clock once reads later than the last identifier's
  millisecond, the call has an answer.\<close>

theorem Snowflake_Next_returns:
  assumes "t \<in> set clock" and "sf_last s < t"
  shows "\<exists>i s' r. Snowflake_Next clock s = Some (i, s', r)"
proof -
  from assms(1) obtain t0 ts0 where c: "clock = t0 # ts0" by (cases clock) auto
  have drop: "spin P n0 ts = Some (now, r) \<Longrightarrow> u \<in> set (n0 # ts) \<Longrightarrow> \<not> P u \<Longrightarrow> u \<in> set (now # r)" for P n0 ts now r u
    by (induction ts arbitrary: n0) (auto split: if_splits)
  have "\<exists>u \<in> set (t0 # ts0). \<not> u < sf_last s" using assms c by (intro bexI [of _ t]) auto
  then obtain now ts where sp: "spin (\<lambda>n. n < sf_last s) t0 ts0 = Some (now, ts)"
    using spin_returns [of t0 ts0 "\<lambda>n. n < sf_last s"] by auto
  have "t \<in> set (now # ts)" using drop [OF sp, of t] assms c by auto
  then have "\<exists>u \<in> set (now # ts). \<not> u \<le> sf_last s" using assms(2) by (intro bexI [of _ t]) auto
  then obtain now' ts' where "spin (\<lambda>n. n \<le> sf_last s) now ts = Some (now', ts')"
    using spin_returns [of now ts "\<lambda>n. n \<le> sf_last s"] by auto
  with sp c show ?thesis by (auto simp: Snowflake_Next_def Let_def)
qed

theorem Snowflake_Next_returns_witness:
  "\<exists>i s' r. Snowflake_Next [3, 9] \<lparr>sf_node = 1, sf_last = 5, sf_step = 4095\<rparr> = Some (i, s', r)"
  by (rule Snowflake_Next_returns [where t = 9]) simp_all

text \<open>An identifier determines the time, node and sequence number it was made from, so generators
  with different node numbers never collide, and \<^verbatim>\<open>TimeOf\<close> recovers the time.\<close>

theorem snowflake_fields:
  assumes "in_era t" and "in_era t'" and "0 \<le> n" and "n \<le> maxNode" and "0 \<le> n'" and "n' \<le> maxNode"
    and "0 \<le> s" and "s \<le> maxStep" and "0 \<le> s'" and "s' \<le> maxStep"
  shows "TimeOf (snowflake_id t n s) = t \<and> (snowflake_id t n s = snowflake_id t' n' s' \<longleftrightarrow> t = t' \<and> n = n' \<and> s = s')"
proof -
  have v: "sint (snowflake_id t n s) = (t - Epoch) * 2 ^ 22 + n * 2 ^ 12 + s"
    "sint (snowflake_id t' n' s') = (t' - Epoch) * 2 ^ 22 + n' * 2 ^ 12 + s'"
    using assms by (simp_all add: sint_snowflake_id snowflake_consts)
  have d: "((t - Epoch) * 2 ^ 22 + n * 2 ^ 12 + s) div 2 ^ 22 = t - Epoch"
    "((t - Epoch) * 2 ^ 22 + n * 2 ^ 12 + s) mod 2 ^ 22 = n * 2 ^ 12 + s"
    "((t' - Epoch) * 2 ^ 22 + n' * 2 ^ 12 + s') div 2 ^ 22 = t' - Epoch"
    "((t' - Epoch) * 2 ^ 22 + n' * 2 ^ 12 + s') mod 2 ^ 22 = n' * 2 ^ 12 + s'"
    using assms(3-) field_split [of "n * 2 ^ 12 + s" "2 ^ 22" "t - Epoch"] field_split [of "n' * 2 ^ 12 + s'" "2 ^ 22" "t' - Epoch"]
    by (simp_all only: snowflake_consts add.assoc) simp_all
  have e: "(n * 2 ^ 12 + s) div 2 ^ 12 = n" "(n * 2 ^ 12 + s) mod 2 ^ 12 = s"
    "(n' * 2 ^ 12 + s') div 2 ^ 12 = n'" "(n' * 2 ^ 12 + s') mod 2 ^ 12 = s'"
    using assms(7-) by (simp_all add: snowflake_consts field_split)
  have "TimeOf (snowflake_id t n s) = t" by (simp only: TimeOf_def snowflake_consts v drop_bit_eq_div d diff_add_cancel)
  moreover have "t = t' \<and> n = n' \<and> s = s'" if "snowflake_id t n s = snowflake_id t' n' s'"
    using v [unfolded that] d e by (metis diff_add_cancel)
  ultimately show ?thesis by blast
qed

theorem snowflake_fields_witness: "TimeOf (snowflake_id (Epoch + 5) 7 3) = Epoch + 5"
  using snowflake_fields [of "Epoch + 5" "Epoch + 5" 7 7 3 3] by (simp add: in_era_def snowflake_consts)

text \<open>A verification code of \<open>n\<close> digits has exactly \<open>n\<close> characters, all decimal digits, and the
  rejection loop is unbiased: each of the \<open>10^n\<close> codes has the same number of accepted draws.\<close>

theorem NumericCode_uniform:
  assumes "NumericCode n entropy = Inr code"
  shows "length code = nat n \<and> (\<forall>c. c \<in> set code \<longrightarrow> is_digit c)
    \<and> (\<exists>k < 10 ^ nat n. code = pad_decimal (nat n) k
        \<and> card {v. code_draw (nat n) v = Some code} = 2 ^ 62 div 10 ^ nat n)"
proof -
  have n: "0 < nat n" and r: "numeric_loop (nat n) entropy = Inr code"
    using assms by (auto simp: NumericCode_def split: if_splits)
  from numeric_loop_InrD [OF r] obtain v where "code_draw (nat n) v = Some code" by blast
  then have c: "code = pad_decimal (nat n) (v mod 10 ^ nat n)" by (simp add: code_draw_def split: if_splits)
  have k: "v mod 10 ^ nat n < 10 ^ nat n" by simp
  have "card {u. code_draw (nat n) u = Some code} = 2 ^ 62 div 10 ^ nat n"
    unfolding c code_draw_eq_iff [OF n k] using k by (intro card_residue) simp_all
  moreover have "is_digit d" if "d \<in> set code" for d
    using pad_decimal_digits [OF that [unfolded c]] of_digit_char by (auto simp: is_digit_def)
  ultimately show ?thesis using pad_decimal_props(1) [OF n k] c k by blast
qed

theorem NumericCode_uniform_witness:
  "NumericCode 4 (replicate 8 0) = Inr ''0000'' \<and> card {v. code_draw 4 v = Some ''0000''} = 2 ^ 62 div 10 ^ 4"
proof -
  have z: "get_be (replicate 8 0 :: bytes) = (0 :: u64)"
  proof -
    have "get_le (replicate n 0 :: bytes) = (0 :: u64)" for n by (induction n) simp_all
    then show ?thesis by (simp add: get_be_def)
  qed
  have r: "RandomInt64 (replicate 8 0) = Inr (0, [])" by (simp add: RandomInt64_def Token_def read_full_def z)
  have i: "itoa_nat 0 = ''0''" by (subst itoa_nat.simps) (simp add: digit_char_def)
  have c: "code_draw 4 0 = Some ''0000''" 
  proof -
    have "0 < (2 :: nat) ^ 62 div 10 ^ 4 * 10 ^ 4" by simp
    then show ?thesis unfolding code_draw_def pad_decimal_def mod_0 i Let_def by (simp add: numeral_3_eq_3 del: power_numeral)
  qed
  have "numeric_loop 4 (replicate 8 0) = Inr ''0000''" by (subst numeric_loop.simps) (simp add: r c)
  then have r: "NumericCode 4 (replicate 8 0) = Inr ''0000''" by (simp add: NumericCode_def)
  from NumericCode_uniform [OF r] r show ?thesis by auto
qed

end
