(* ===== verification/Tables.thy ===== *)
theory Tables
  imports Go_Prelude "HOL-Library.AList"
begin

text \<open>
  Lemmas on keyed tables: association lists with \<^const>\<open>AList.update\<close> as the upsert and
  \<^const>\<open>AList.delete\<close> as the delete by primary key.
\<close>

lemma set_update_subset: "set (AList.update k v al) \<subseteq> insert (k, v) (set al)"
  by (induction al) auto

lemma list_all_update:
  assumes "list_all P al" and "P (k, v)"
  shows "list_all P (AList.update k v al)"
  using assms set_update_subset [of k v al] by (auto simp: list_all_iff)

lemma set_delete_subset: "set (AList.delete k al) \<subseteq> set al"
  by (auto simp: AList.delete_eq)

lemma list_all_delete: "list_all P al \<Longrightarrow> list_all P (AList.delete k al)"
  by (auto simp: list_all_iff AList.delete_eq)

lemma mem_iff_map_of: "distinct (map fst al) \<Longrightarrow> (k, v) \<in> set al \<longleftrightarrow> map_of al k = Some v"
  by (auto intro: map_of_is_SomeI dest: map_of_SomeD)

end
