(* ===== verification/Chat_Tables.thy ===== *)
theory Chat_Tables
  imports Tables Go_Text
begin

text \<open>
  Conversations and membership in Postgres: \<^verbatim>\<open>pkg/pgstore/models.go\<close> and \<^verbatim>\<open>pkg/pgstore/chats.go\<close>.  The
  state is the tables of \<^verbatim>\<open>db/postgres/migrations\<close>, each an association list from its primary key, with
  the primary-key, foreign-key and check constraints the statements can run into; every function is
  one statement or one transaction.  \<open>now\<close> is the database's \<^verbatim>\<open>now()\<close>.
\<close>

section \<open>Rows\<close>

datatype ChatType = ChatPrivate | ChatGroup | ChatChannel | ChatOther string

definition chat_type_of :: "string \<Rightarrow> ChatType" where
  "chat_type_of s =
     (if s = ''private'' then ChatPrivate else if s = ''group'' then ChatGroup
      else if s = ''channel'' then ChatChannel else ChatOther s)"

datatype MemberRole = RoleOwner | RoleAdmin | RoleMember | RoleRestricted | RoleOther string

definition role_of :: "string \<Rightarrow> MemberRole" where
  "role_of s =
     (if s = ''owner'' then RoleOwner else if s = ''admin'' then RoleAdmin
      else if s = ''member'' then RoleMember else if s = ''restricted'' then RoleRestricted else RoleOther s)"

fun string_of_role :: "MemberRole \<Rightarrow> string" where
  "string_of_role RoleOwner = ''owner''"
| "string_of_role RoleAdmin = ''admin''"
| "string_of_role RoleMember = ''member''"
| "string_of_role RoleRestricted = ''restricted''"
| "string_of_role (RoleOther s) = s"

fun string_of_chat_type :: "ChatType \<Rightarrow> string" where
  "string_of_chat_type ChatPrivate = ''private''"
| "string_of_chat_type ChatGroup = ''group''"
| "string_of_chat_type ChatChannel = ''channel''"
| "string_of_chat_type (ChatOther s) = s"

record Chat =
  ch_ID :: int
  ch_Type :: ChatType
  ch_Title :: string
  ch_Username :: "string option"
  ch_PhotoObj :: "string option"
  ch_Description :: string
  ch_CreatedBy :: int
  ch_CreatedAt :: int
  ch_UpdatedAt :: int
  ch_DeletedAt :: "int option"
  ch_MemberCount :: int
  ch_HomeRegion :: string
  ch_PairKey :: "string option"

record Member =
  mb_ChatID :: int
  mb_UserID :: int
  mb_Role :: MemberRole
  mb_JoinedAt :: int
  mb_LastReadSeq :: int
  mb_MutedUntil :: "int option"
  mb_Pinned :: bool
  mb_Archived :: bool
  mb_LeftAt :: "int option"

record Dialog =
  dl_Chat :: Chat
  dl_Role :: MemberRole
  dl_LastReadSeq :: int
  dl_MaxSeq :: int
  dl_UnreadCount :: int
  dl_MutedUntil :: "int option"
  dl_Pinned :: bool
  dl_Archived :: bool

text \<open>\<open>pg_users\<close> lists the accounts, each with whether it is deleted.  \<open>pg_pair_arbiter\<close> says whether the
  schema has a unique index on \<^verbatim>\<open>pair_key\<close> that \<^verbatim>\<open>ON CONFLICT (pair_key)\<close> can infer.\<close>

record pg =
  pg_chats :: "(int \<times> Chat) list"
  pg_members :: "((int \<times> int) \<times> Member) list"
  pg_sequences :: "(int \<times> (int \<times> int)) list"
  pg_users :: "(int \<times> bool) list"
  pg_pair_arbiter :: bool

datatype pg_error =
  PgNotFound | PgConflict | PgForeignKey | PgCheck | PgNoArbiter | PgSelfChat | PgGroupType ChatType | PgUnavailable

definition PairKey :: "int \<Rightarrow> int \<Rightarrow> string" where
  "PairKey a b = (let (x, y) = (if b < a then (b, a) else (a, b)) in itoa x @ '':'' @ itoa y)"

section \<open>Chats\<close>

definition Chats_Get :: "pg \<Rightarrow> int \<Rightarrow> pg_error + Chat" where
  "Chats_Get t chatID =
     (case map_of (pg_chats t) chatID of
        Some c \<Rightarrow> if ch_DeletedAt c = None then Inr c else Inl PgNotFound
      | None \<Rightarrow> Inl PgNotFound)"

definition Chats_GetMany :: "pg \<Rightarrow> int list \<Rightarrow> (int \<times> Chat) list" where
  "Chats_GetMany t ids = filter (\<lambda>(i, c). i \<in> set ids \<and> ch_DeletedAt c = None) (pg_chats t)"

definition put_chat :: "Chat \<Rightarrow> pg \<Rightarrow> pg" where
  "put_chat c t = t\<lparr>pg_chats := AList.update (ch_ID c) c (pg_chats t)\<rparr>"

definition put_member :: "Member \<Rightarrow> pg \<Rightarrow> pg" where
  "put_member m t = t\<lparr>pg_members := AList.update (mb_ChatID m, mb_UserID m) m (pg_members t)\<rparr>"

definition fresh_member :: "int \<Rightarrow> int \<Rightarrow> int \<Rightarrow> MemberRole \<Rightarrow> Member" where
  "fresh_member now chatID userID role =
     \<lparr>mb_ChatID = chatID, mb_UserID = userID, mb_Role = role, mb_JoinedAt = now, mb_LastReadSeq = 0,
      mb_MutedUntil = None, mb_Pinned = False, mb_Archived = False, mb_LeftAt = None\<rparr>"

definition fresh_chat :: "int \<Rightarrow> int \<Rightarrow> ChatType \<Rightarrow> string \<Rightarrow> int \<Rightarrow> int \<Rightarrow> string \<Rightarrow> string option \<Rightarrow> Chat" where
  "fresh_chat now chatID kind title createdBy n region pair =
     \<lparr>ch_ID = chatID, ch_Type = kind, ch_Title = title, ch_Username = None, ch_PhotoObj = None, ch_Description = '''',
      ch_CreatedBy = createdBy, ch_CreatedAt = now, ch_UpdatedAt = now, ch_DeletedAt = None, ch_MemberCount = n,
      ch_HomeRegion = region, ch_PairKey = pair\<rparr>"

text \<open>The upsert of \<^verbatim>\<open>CreatePrivate\<close>: a new membership, or the old one made active again.\<close>

definition join_private :: "int \<Rightarrow> int \<Rightarrow> int \<Rightarrow> pg \<Rightarrow> pg_error + pg" where
  "join_private now chatID userID t =
     (case map_of (pg_members t) (chatID, userID) of
        Some m \<Rightarrow> Inr (put_member (m\<lparr>mb_LeftAt := None\<rparr>) t)
      | None \<Rightarrow>
          if map_of (pg_users t) userID = None then Inl PgForeignKey
          else Inr (put_member (fresh_member now chatID userID RoleMember) t))"

definition CreatePrivate :: "int \<Rightarrow> int \<Rightarrow> int \<Rightarrow> int \<Rightarrow> string \<Rightarrow> pg \<Rightarrow> (pg_error + (Chat \<times> bool)) \<times> pg" where
  "CreatePrivate now chatID a b homeRegion t =
     (if a = b then (Inl PgSelfChat, t)
      else
        let key = PairKey a b
        in case find (\<lambda>(_, c). ch_PairKey c = Some key \<and> ch_DeletedAt c = None) (pg_chats t) of
          Some (_, c) \<Rightarrow> (Inr (c, False), t)
        | None \<Rightarrow>
            if \<not> pg_pair_arbiter t then (Inl PgNoArbiter, t)
            else
              let inserted =
                (case find (\<lambda>(_, c). ch_PairKey c = Some key) (pg_chats t) of
                   Some (_, c) \<Rightarrow> Inr (c\<lparr>ch_UpdatedAt := now\<rparr>)
                 | None \<Rightarrow>
                     if map_of (pg_chats t) chatID \<noteq> None then Inl PgConflict
                     else if map_of (pg_users t) a = None then Inl PgForeignKey
                     else Inr (fresh_chat now chatID ChatPrivate '''' a 2 homeRegion (Some key)))
              in case inserted of
                Inl e \<Rightarrow> (Inl e, t)
              | Inr chat \<Rightarrow>
                  (case join_private now (ch_ID chat) a (put_chat chat t) of
                     Inl e \<Rightarrow> (Inl e, t)
                   | Inr t1 \<Rightarrow>
                       (case join_private now (ch_ID chat) b t1 of
                          Inl e \<Rightarrow> (Inl e, t)
                        | Inr t2 \<Rightarrow> (Inr (chat, ch_ID chat = chatID), t2))))"

text \<open>The roster of \<^verbatim>\<open>CreateGroup\<close>: the owner first, then the others once each, in the order given.\<close>

definition group_roster :: "int \<Rightarrow> int list \<Rightarrow> int list" where
  "group_roster ownerID members =
     fst (foldl (\<lambda>(roster, seen) m. if m \<in> seen then (roster, seen) else (roster @ [m], insert m seen))
       ([ownerID], {ownerID}) members)"

definition CreateGroup ::
  "int \<Rightarrow> int \<Rightarrow> ChatType \<Rightarrow> string \<Rightarrow> int \<Rightarrow> int list \<Rightarrow> string \<Rightarrow> pg \<Rightarrow> (pg_error + Chat) \<times> pg" where
  "CreateGroup now chatID kind title ownerID members homeRegion t =
     (if kind \<noteq> ChatGroup \<and> kind \<noteq> ChatChannel then (Inl (PgGroupType kind), t)
      else
        let roster = group_roster ownerID members;
            chat = fresh_chat now chatID kind title ownerID (int (length roster)) homeRegion None
        in if map_of (pg_chats t) chatID \<noteq> None then (Inl PgConflict, t)
           else if title = '''' \<or> 128 < rune_count title then (Inl PgCheck, t)
           else if list_ex (\<lambda>u. map_of (pg_users t) u = None) roster then (Inl PgForeignKey, t)
           else (Inr chat, fold (\<lambda>u. put_member (fresh_member now chatID u (if u = ownerID then RoleOwner else RoleMember)))
                   roster (put_chat chat t)))"

definition coalesce :: "'a option \<Rightarrow> 'a \<Rightarrow> 'a" where
  "coalesce x y = (case x of Some v \<Rightarrow> v | None \<Rightarrow> y)"

definition UpdateMeta ::
  "int \<Rightarrow> int \<Rightarrow> string option \<Rightarrow> string option \<Rightarrow> string option \<Rightarrow> pg \<Rightarrow> (pg_error + Chat) \<times> pg" where
  "UpdateMeta now chatID title description photo t =
     (case Chats_Get t chatID of
        Inl e \<Rightarrow> (Inl e, t)
      | Inr c \<Rightarrow>
          let c' = c\<lparr>ch_Title := coalesce title (ch_Title c), ch_Description := coalesce description (ch_Description c),
                     ch_PhotoObj := (case photo of Some p \<Rightarrow> Some p | None \<Rightarrow> ch_PhotoObj c), ch_UpdatedAt := now\<rparr>
          in if ch_Type c \<noteq> ChatPrivate \<and> (ch_Title c' = '''' \<or> 128 < rune_count (ch_Title c')) then (Inl PgCheck, t)
             else (Inr c', put_chat c' t))"

definition Chats_SoftDelete :: "int \<Rightarrow> int \<Rightarrow> pg \<Rightarrow> (pg_error + unit) \<times> pg" where
  "Chats_SoftDelete now chatID t =
     (case Chats_Get t chatID of
        Inl e \<Rightarrow> (Inl PgNotFound, t)
      | Inr c \<Rightarrow> (Inr (), put_chat (c\<lparr>ch_DeletedAt := Some now, ch_UpdatedAt := now\<rparr>) t))"

section \<open>Membership\<close>

definition active :: "Member \<Rightarrow> bool" where
  "active m \<longleftrightarrow> mb_LeftAt m = None"

definition Members_IDs :: "pg \<Rightarrow> int \<Rightarrow> int list" where
  "Members_IDs t chatID = sort (map (snd \<circ> fst) (filter (\<lambda>((c, _), m). c = chatID \<and> active m) (pg_members t)))"

definition Members_Get :: "pg \<Rightarrow> int \<Rightarrow> int \<Rightarrow> pg_error + Member" where
  "Members_Get t chatID userID =
     (case map_of (pg_members t) (chatID, userID) of Some m \<Rightarrow> Inr m | None \<Rightarrow> Inl PgNotFound)"

text \<open>\<^verbatim>\<open>CanPost\<close>: membership of a live chat, and the right to post there.\<close>

definition CanPost :: "pg \<Rightarrow> int \<Rightarrow> int \<Rightarrow> bool \<times> bool" where
  "CanPost t chatID userID =
     (case Members_Get t chatID userID of
        Inl _ \<Rightarrow> (False, False)
      | Inr m \<Rightarrow>
          if \<not> active m then (False, False)
          else case Chats_Get t chatID of
            Inl _ \<Rightarrow> (False, False)
          | Inr c \<Rightarrow>
              (True, if mb_Role m = RoleRestricted then False
                     else if ch_Type c = ChatChannel then mb_Role m = RoleOwner \<or> mb_Role m = RoleAdmin
                     else True))"

definition set_count :: "int \<Rightarrow> int \<Rightarrow> (int \<Rightarrow> int) \<Rightarrow> pg \<Rightarrow> pg" where
  "set_count now chatID f t =
     (case map_of (pg_chats t) chatID of
        None \<Rightarrow> t
      | Some c \<Rightarrow> put_chat (c\<lparr>ch_MemberCount := f (ch_MemberCount c), ch_UpdatedAt := now\<rparr>) t)"

definition valid_role :: "MemberRole \<Rightarrow> bool" where
  "valid_role r = (case r of RoleOther _ \<Rightarrow> False | _ \<Rightarrow> True)"

definition Members_Add :: "int \<Rightarrow> int \<Rightarrow> int \<Rightarrow> MemberRole \<Rightarrow> pg \<Rightarrow> (pg_error + unit) \<times> pg" where
  "Members_Add now chatID userID role t =
     (if \<not> valid_role role then (Inl PgCheck, t)
      else case map_of (pg_members t) (chatID, userID) of
        Some m \<Rightarrow>
          if active m then (Inr (), t)
          else (Inr (), set_count now chatID (\<lambda>n. n + 1) (put_member (m\<lparr>mb_LeftAt := None, mb_Role := role\<rparr>) t))
      | None \<Rightarrow>
          if map_of (pg_chats t) chatID = None \<or> map_of (pg_users t) userID = None then (Inl PgForeignKey, t)
          else (Inr (), set_count now chatID (\<lambda>n. n + 1) (put_member (fresh_member now chatID userID role) t)))"

definition Members_Remove :: "int \<Rightarrow> int \<Rightarrow> int \<Rightarrow> pg \<Rightarrow> (pg_error + unit) \<times> pg" where
  "Members_Remove now chatID userID t =
     (case map_of (pg_members t) (chatID, userID) of
        Some m \<Rightarrow>
          if active m then (Inr (), set_count now chatID (\<lambda>n. max 0 (n - 1)) (put_member (m\<lparr>mb_LeftAt := Some now\<rparr>) t))
          else (Inl PgNotFound, t)
      | None \<Rightarrow> (Inl PgNotFound, t))"

definition Members_SetRole :: "int \<Rightarrow> int \<Rightarrow> MemberRole \<Rightarrow> pg \<Rightarrow> (pg_error + unit) \<times> pg" where
  "Members_SetRole chatID userID role t =
     (case map_of (pg_members t) (chatID, userID) of
        Some m \<Rightarrow>
          if \<not> active m then (Inl PgNotFound, t)
          else if \<not> valid_role role then (Inl PgCheck, t)
          else (Inr (), put_member (m\<lparr>mb_Role := role\<rparr>) t)
      | None \<Rightarrow> (Inl PgNotFound, t))"

definition MarkRead :: "int \<Rightarrow> int \<Rightarrow> int \<Rightarrow> pg \<Rightarrow> (pg_error + int) \<times> pg" where
  "MarkRead chatID userID seq t =
     (case map_of (pg_members t) (chatID, userID) of
        Some m \<Rightarrow>
          if \<not> active m then (Inl PgNotFound, t)
          else let n = max (mb_LastReadSeq m) seq in (Inr n, put_member (m\<lparr>mb_LastReadSeq := n\<rparr>) t)
      | None \<Rightarrow> (Inl PgNotFound, t))"

definition SetMuted :: "int \<Rightarrow> int \<Rightarrow> int option \<Rightarrow> pg \<Rightarrow> pg" where
  "SetMuted chatID userID until t =
     (case map_of (pg_members t) (chatID, userID) of
        Some m \<Rightarrow> put_member (m\<lparr>mb_MutedUntil := until\<rparr>) t | None \<Rightarrow> t)"

definition MutedAmong :: "int \<Rightarrow> pg \<Rightarrow> int \<Rightarrow> int list \<Rightarrow> int list" where
  "MutedAmong now t chatID userIDs =
     map (snd \<circ> fst) (filter (\<lambda>((c, u), m). c = chatID \<and> u \<in> set userIDs
       \<and> (case mb_MutedUntil m of Some z \<Rightarrow> now < z | None \<Rightarrow> False)) (pg_members t))"

definition SetFlags :: "int \<Rightarrow> int \<Rightarrow> bool option \<Rightarrow> bool option \<Rightarrow> pg \<Rightarrow> pg" where
  "SetFlags chatID userID pinned archived t =
     (case map_of (pg_members t) (chatID, userID) of
        Some m \<Rightarrow> put_member (m\<lparr>mb_Pinned := coalesce pinned (mb_Pinned m), mb_Archived := coalesce archived (mb_Archived m)\<rparr>) t
      | None \<Rightarrow> t)"

section \<open>Sequences and the chat list\<close>

definition Sequences_Advance :: "int \<Rightarrow> int \<Rightarrow> int \<Rightarrow> pg \<Rightarrow> (pg_error + unit) \<times> pg" where
  "Sequences_Advance now chatID seq t =
     (case map_of (pg_sequences t) chatID of
        Some (m, _) \<Rightarrow> (Inr (), t\<lparr>pg_sequences := AList.update chatID (max m seq, now) (pg_sequences t)\<rparr>)
      | None \<Rightarrow>
          if map_of (pg_chats t) chatID = None then (Inl PgForeignKey, t)
          else if seq < 0 then (Inl PgCheck, t)
          else (Inr (), t\<lparr>pg_sequences := AList.update chatID (seq, now) (pg_sequences t)\<rparr>))"

definition Sequences_Max :: "pg \<Rightarrow> int \<Rightarrow> int" where
  "Sequences_Max t chatID = (case map_of (pg_sequences t) chatID of Some (m, _) \<Rightarrow> m | None \<Rightarrow> 0)"

definition dialog_of :: "pg \<Rightarrow> Chat \<Rightarrow> Member \<Rightarrow> Dialog" where
  "dialog_of t c m =
     (let mx = Sequences_Max t (ch_ID c)
      in \<lparr>dl_Chat = c, dl_Role = mb_Role m, dl_LastReadSeq = mb_LastReadSeq m, dl_MaxSeq = mx,
          dl_UnreadCount = (if mb_LastReadSeq m < mx then mx - mb_LastReadSeq m else 0),
          dl_MutedUntil = mb_MutedUntil m, dl_Pinned = mb_Pinned m, dl_Archived = mb_Archived m\<rparr>)"

definition dialog_time :: "pg \<Rightarrow> Chat \<Rightarrow> int" where
  "dialog_time t c = (case map_of (pg_sequences t) (ch_ID c) of Some (_, at) \<Rightarrow> at | None \<Rightarrow> ch_CreatedAt c)"

definition dialog_limit :: "int \<Rightarrow> nat" where
  "dialog_limit limit = (if limit \<le> 0 \<or> 200 < limit then 50 else nat limit)"

definition dialog_row :: "pg \<Rightarrow> int \<Rightarrow> bool \<Rightarrow> (int \<times> int) \<times> Member \<Rightarrow> Dialog list" where
  "dialog_row t userID includeArchived row =
     (case row of ((c, u), m) \<Rightarrow>
        if u = userID \<and> active m \<and> (includeArchived \<or> \<not> mb_Archived m)
        then (case Chats_Get t c of Inr ch \<Rightarrow> [dialog_of t ch m] | Inl _ \<Rightarrow> []) else [])"

definition my_dialogs :: "pg \<Rightarrow> int \<Rightarrow> bool \<Rightarrow> Dialog list" where
  "my_dialogs t userID includeArchived = concat (map (dialog_row t userID includeArchived) (pg_members t))"

definition Dialogs :: "pg \<Rightarrow> int \<Rightarrow> bool \<Rightarrow> int \<Rightarrow> int \<Rightarrow> Dialog list" where
  "Dialogs t userID includeArchived limit offset =
     take (dialog_limit limit) (drop (nat offset)
       (sort_key (\<lambda>d. if dl_Pinned d then (0 :: int) else 1)
         (sort_key (\<lambda>d. - dialog_time t (dl_Chat d)) (my_dialogs t userID includeArchived))))"

section \<open>Accounts\<close>

definition Users_GetByID :: "pg \<Rightarrow> int \<Rightarrow> pg_error + int" where
  "Users_GetByID t userID = (if map_of (pg_users t) userID = Some False then Inr userID else Inl PgNotFound)"

text \<open>The accounts of a list that exist, in the order of the list.\<close>

definition Users_GetMany :: "pg \<Rightarrow> int list \<Rightarrow> int list" where
  "Users_GetMany t ids = filter (\<lambda>i. map_of (pg_users t) i = Some False) ids"

section \<open>The invariant of the tables\<close>

definition active_users :: "pg \<Rightarrow> int \<Rightarrow> int set" where
  "active_users t c = {u. \<exists>m. map_of (pg_members t) (c, u) = Some m \<and> active m}"

text \<open>A chat row: its count is the number of its active members; a group or channel has its creator as
  its only owner; a private chat is live, has no owner and only the two users of its pair key.\<close>

definition kind_ok :: "pg \<Rightarrow> int \<Rightarrow> Chat \<Rightarrow> bool" where
  "kind_ok t c ch =
     (case ch_Type ch of
        ChatPrivate \<Rightarrow> ch_DeletedAt ch = None
          \<and> (\<exists>a b. a \<noteq> b \<and> ch_PairKey ch = Some (PairKey a b)
               \<and> (\<forall>u. map_of (pg_members t) (c, u) \<noteq> None \<longrightarrow> u \<in> {a, b}))
      | ChatOther _ \<Rightarrow> False
      | _ \<Rightarrow> ch_PairKey ch = None \<and> (\<exists>m. map_of (pg_members t) (c, ch_CreatedBy ch) = Some m \<and> mb_Role m = RoleOwner))"

definition chat_ok :: "pg \<Rightarrow> int \<Rightarrow> Chat \<Rightarrow> bool" where
  "chat_ok t c ch \<longleftrightarrow> ch_ID ch = c \<and> ch_MemberCount ch = int (card (active_users t c)) \<and> kind_ok t c ch"

definition member_ok :: "pg \<Rightarrow> int \<times> int \<Rightarrow> Member \<Rightarrow> bool" where
  "member_ok t k m \<longleftrightarrow>
     (mb_ChatID m, mb_UserID m) = k
     \<and> (\<exists>ch. map_of (pg_chats t) (fst k) = Some ch
          \<and> (mb_Role m = RoleOwner \<longrightarrow> active m \<and> snd k = ch_CreatedBy ch \<and> ch_Type ch \<noteq> ChatPrivate))"

definition pg_ok :: "pg \<Rightarrow> bool" where
  "pg_ok t \<longleftrightarrow>
     distinct (map fst (pg_chats t)) \<and> distinct (map fst (pg_members t))
     \<and> (\<forall>c ch. map_of (pg_chats t) c = Some ch \<longrightarrow> chat_ok t c ch)
     \<and> (\<forall>k m. map_of (pg_members t) k = Some m \<longrightarrow> member_ok t k m)
     \<and> (\<forall>c ch c' ch' key. map_of (pg_chats t) c = Some ch \<longrightarrow> map_of (pg_chats t) c' = Some ch' \<longrightarrow>
          ch_PairKey ch = Some key \<longrightarrow> ch_PairKey ch' = Some key \<longrightarrow> c = c')"

lemma pg_okD:
  assumes "pg_ok t"
  shows "map_of (pg_chats t) c = Some ch \<Longrightarrow> chat_ok t c ch" "map_of (pg_members t) k = Some m \<Longrightarrow> member_ok t k m"
    "distinct (map fst (pg_chats t))" "distinct (map fst (pg_members t))"
    "map_of (pg_chats t) c = Some ch \<Longrightarrow> map_of (pg_chats t) c' = Some ch' \<Longrightarrow>
      ch_PairKey ch = Some key \<Longrightarrow> ch_PairKey ch' = Some key \<Longrightarrow> c = c'"
  using assms unfolding pg_ok_def by blast+

lemma pg_okI:
  assumes "distinct (map fst (pg_chats t))" and "distinct (map fst (pg_members t))"
    and "\<And>c ch. map_of (pg_chats t) c = Some ch \<Longrightarrow> chat_ok t c ch"
    and "\<And>k m. map_of (pg_members t) k = Some m \<Longrightarrow> member_ok t k m"
    and "\<And>a b x y key. map_of (pg_chats t) a = Some x \<Longrightarrow> map_of (pg_chats t) b = Some y \<Longrightarrow>
      ch_PairKey x = Some key \<Longrightarrow> ch_PairKey y = Some key \<Longrightarrow> a = b"
  shows "pg_ok t"
  unfolding pg_ok_def using assms by blast

lemma creator_owns:
  assumes "pg_ok t" and "map_of (pg_chats t) c = Some ch" and "ch_Type ch \<noteq> ChatPrivate"
  shows "\<exists>m. map_of (pg_members t) (c, ch_CreatedBy ch) = Some m \<and> mb_Role m = RoleOwner"
  using pg_okD(1) [OF assms(1,2)] assms(3) by (cases "ch_Type ch") (auto simp: chat_ok_def kind_ok_def)

lemma put_simps [simp]:
  "map_of (pg_members (put_member m t)) = (map_of (pg_members t))((mb_ChatID m, mb_UserID m) \<mapsto> m)"
  "pg_chats (put_member m t) = pg_chats t" "pg_users (put_member m t) = pg_users t"
  "map_of (pg_chats (put_chat c t)) = (map_of (pg_chats t))(ch_ID c \<mapsto> c)"
  "pg_members (put_chat c t) = pg_members t" "pg_users (put_chat c t) = pg_users t"
  "distinct (map fst (pg_members (put_member m t))) = distinct (map fst (pg_members t))"
  "distinct (map fst (pg_chats (put_chat c t))) = distinct (map fst (pg_chats t))"
  by (auto simp: put_member_def put_chat_def AList.update_conv' AList.update_keys)

lemma finite_active: "finite (active_users t c)"
proof (rule finite_subset)
  show "active_users t c \<subseteq> snd ` dom (map_of (pg_members t))" by (force simp: active_users_def)
qed (simp add: finite_dom_map_of)

lemma active_users_put [simp]:
  "active_users (put_chat ch t) c = active_users t c"
  "active_users (put_member m t) c =
    (if c = mb_ChatID m then (if active m then insert (mb_UserID m) (active_users t c) else active_users t c - {mb_UserID m})
     else active_users t c)"
  by (auto simp: active_users_def split: if_splits)

text \<open>The fields of a chat row that the invariant is about, apart from the count.\<close>

definition same_chat :: "Chat \<Rightarrow> Chat \<Rightarrow> bool" where
  "same_chat ch ch' \<longleftrightarrow>
     ch_ID ch' = ch_ID ch \<and> ch_Type ch' = ch_Type ch \<and> ch_CreatedBy ch' = ch_CreatedBy ch
     \<and> ch_PairKey ch' = ch_PairKey ch \<and> (ch_Type ch = ChatPrivate \<longrightarrow> ch_DeletedAt ch' = ch_DeletedAt ch)"

lemma kind_ok_mono:
  assumes "kind_ok t c ch" and "same_chat ch ch'"
    and "ch_Type ch = ChatPrivate \<Longrightarrow> (\<forall>u. map_of (pg_members t') (c, u) \<noteq> None \<longrightarrow> map_of (pg_members t) (c, u) \<noteq> None)"
    and "ch_Type ch \<noteq> ChatPrivate \<Longrightarrow> \<exists>m. map_of (pg_members t') (c, ch_CreatedBy ch) = Some m \<and> mb_Role m = RoleOwner"
  shows "kind_ok t' c ch'"
proof (cases "ch_Type ch = ChatPrivate")
  case True
  with assms(1) obtain a b where ab: "a \<noteq> b" "ch_PairKey ch = Some (PairKey a b)" "ch_DeletedAt ch = None"
    "\<forall>u. map_of (pg_members t) (c, u) \<noteq> None \<longrightarrow> u \<in> {a, b}" by (auto simp: kind_ok_def)
  have "\<forall>u. map_of (pg_members t') (c, u) \<noteq> None \<longrightarrow> u \<in> {a, b}" using ab(4) assms(3) True by blast
  with True ab(1-3) assms(2) show ?thesis unfolding kind_ok_def same_chat_def by auto
next
  case False
  with assms(1,2,4) show ?thesis by (cases "ch_Type ch") (auto simp: kind_ok_def same_chat_def)
qed

lemma pairs_put_chat:
  assumes ok: "pg_ok t" and ch: "map_of (pg_chats t) c = Some ch" and same: "same_chat ch ch'"
    and "((map_of (pg_chats t))(c \<mapsto> ch')) a = Some x" "((map_of (pg_chats t))(c \<mapsto> ch')) b = Some y"
    and "ch_PairKey x = Some key" "ch_PairKey y = Some key"
  shows "a = b"
proof -
  have "\<exists>z. map_of (pg_chats t) i = Some z \<and> ch_PairKey z = Some key"
    if "((map_of (pg_chats t))(c \<mapsto> ch')) i = Some w" "ch_PairKey w = Some key" for i w
    using that ch same by (auto simp: same_chat_def split: if_splits)
  then show ?thesis using assms(4-) pg_okD(5) [OF ok] by metis
qed

text \<open>Writing one membership row and the count of its chat: what an operation has to check.\<close>

lemma put_row_ok:
  assumes ok: "pg_ok t" and ch: "map_of (pg_chats t) c = Some ch" and k: "mb_ChatID m = c"
    and own: "mb_Role m = RoleOwner \<Longrightarrow> active m \<and> mb_UserID m = ch_CreatedBy ch \<and> ch_Type ch \<noteq> ChatPrivate"
    and keep: "ch_Type ch \<noteq> ChatPrivate \<Longrightarrow> mb_UserID m = ch_CreatedBy ch \<Longrightarrow> mb_Role m = RoleOwner"
    and pair: "ch_Type ch = ChatPrivate \<Longrightarrow> map_of (pg_members t) (c, mb_UserID m) \<noteq> None"
    and same: "same_chat ch ch'" and n: "ch_MemberCount ch' = int (card (active_users (put_member m t) c))"
  shows "pg_ok (put_chat ch' (put_member m t))"
proof -
  have c: "chat_ok t c ch" by (rule pg_okD(1) [OF ok ch])
  have id: "ch_ID ch' = c" using c same by (simp add: chat_ok_def same_chat_def)
  let ?t = "put_chat ch' (put_member m t)"
  have "kind_ok ?t c ch'"
  proof (rule kind_ok_mono [OF _ same])
    show "kind_ok t c ch" using c by (simp add: chat_ok_def)
    show "\<forall>u. map_of (pg_members ?t) (c, u) \<noteq> None \<longrightarrow> map_of (pg_members t) (c, u) \<noteq> None"
      if "ch_Type ch = ChatPrivate" using pair [OF that] k by auto
    show "\<exists>x. map_of (pg_members ?t) (c, ch_CreatedBy ch) = Some x \<and> mb_Role x = RoleOwner" if "ch_Type ch \<noteq> ChatPrivate"
      using that keep k c by (cases "ch_Type ch") (auto simp: chat_ok_def kind_ok_def)
  qed
  then have here: "chat_ok ?t c ch'" using id n by (simp add: chat_ok_def)
  have C: "chat_ok ?t c' x" if x: "map_of (pg_chats ?t) c' = Some x" for c' x
  proof (cases "c' = c")
    case False
    then have "chat_ok t c' x" using x id pg_okD(1) [OF ok] by simp
    then show ?thesis using False k unfolding chat_ok_def kind_ok_def by (auto split: ChatType.splits)
  qed (use here x id in simp)
  have M: "member_ok ?t kk x" if "map_of (pg_members ?t) kk = Some x" for kk x
  proof (cases "kk = (c, mb_UserID m)")
    case True
    then show ?thesis using that k own same id by (auto simp: member_ok_def same_chat_def)
  next
    case False
    then have "member_ok t kk x" using that k pg_okD(2) [OF ok] by simp
    then show ?thesis using ch same id by (auto simp: member_ok_def same_chat_def)
  qed
  have P: "a = b"
    if "map_of (pg_chats ?t) a = Some x" "map_of (pg_chats ?t) b = Some y" "ch_PairKey x = Some key" "ch_PairKey y = Some key"
    for a b x y key
    by (rule pairs_put_chat [OF ok ch same _ _ that(3,4)]) (use that(1,2) id in simp_all)
  have "distinct (map fst (pg_chats ?t))" "distinct (map fst (pg_members ?t))" using pg_okD(3,4) [OF ok] by simp_all
  then show ?thesis using C M P by (rule pg_okI)
qed

lemma put_chat_triv: "map_of (pg_chats t) (ch_ID ch) = Some ch \<Longrightarrow> put_chat ch t = t"
  by (simp add: put_chat_def AList.update_triv)

text \<open>An update of a membership that changes neither its activity nor who the owner is.\<close>

lemma put_member_ok:
  assumes ok: "pg_ok t" and m0: "map_of (pg_members t) (c, u) = Some m0"
    and "mb_ChatID m = c" "mb_UserID m = u" and "active m = active m0"
    and "(mb_Role m = RoleOwner) = (mb_Role m0 = RoleOwner)"
  shows "pg_ok (put_member m t)"
proof -
  have mo: "member_ok t (c, u) m0" by (rule pg_okD(2) [OF ok m0])
  then obtain ch where ch: "map_of (pg_chats t) c = Some ch" by (auto simp: member_ok_def)
  have co: "chat_ok t c ch" by (rule pg_okD(1) [OF ok ch])
  have "(if active m then insert u (active_users t c) else active_users t c - {u}) = active_users t c"
    using m0 assms(5) by (auto simp: active_users_def)
  then have "pg_ok (put_chat ch (put_member m t))"
    using assms mo ch co creator_owns [OF ok ch]
    by (intro put_row_ok [OF ok ch]) (auto simp: member_ok_def same_chat_def chat_ok_def)
  then show ?thesis using ch co by (simp add: put_chat_triv chat_ok_def)
qed

lemma put_chat_ok:
  assumes ok: "pg_ok t" and ch: "map_of (pg_chats t) c = Some ch"
    and same: "same_chat ch ch'" and n: "ch_MemberCount ch' = ch_MemberCount ch"
  shows "pg_ok (put_chat ch' t)"
proof -
  have co: "chat_ok t c ch" by (rule pg_okD(1) [OF ok ch])
  have id: "ch_ID ch' = c" using co same by (simp add: chat_ok_def same_chat_def)
  let ?t = "put_chat ch' t"
  have "kind_ok ?t c ch'"
    using co creator_owns [OF ok ch] by (intro kind_ok_mono [OF _ same]) (auto simp: chat_ok_def)
  then have here: "chat_ok ?t c ch'" using co n id by (simp add: chat_ok_def)
  have C: "chat_ok ?t c' x" if x: "map_of (pg_chats ?t) c' = Some x" for c' x
  proof (cases "c' = c")
    case False
    then have "chat_ok t c' x" using x id pg_okD(1) [OF ok] by simp
    then show ?thesis unfolding chat_ok_def kind_ok_def by (auto split: ChatType.splits)
  qed (use here x id in simp)
  have M: "member_ok ?t k x" if "map_of (pg_members ?t) k = Some x" for k x
    using pg_okD(2) [OF ok, of k x] that ch same id by (auto simp: member_ok_def same_chat_def)
  have P: "a = b"
    if "map_of (pg_chats ?t) a = Some x" "map_of (pg_chats ?t) b = Some y" "ch_PairKey x = Some key" "ch_PairKey y = Some key"
    for a b x y key
    by (rule pairs_put_chat [OF ok ch same _ _ that(3,4)]) (use that(1,2) id in simp_all)
  have "distinct (map fst (pg_chats ?t))" "distinct (map fst (pg_members ?t))" using pg_okD(3,4) [OF ok] by simp_all
  then show ?thesis using C M P by (rule pg_okI)
qed

section \<open>Every statement keeps the invariant\<close>

lemma fresh_member_sel [simp]:
  "mb_ChatID (fresh_member now c u r) = c" "mb_UserID (fresh_member now c u r) = u" "mb_Role (fresh_member now c u r) = r"
  "active (fresh_member now c u r)"
  by (simp_all add: fresh_member_def active_def)

lemma fresh_chat_sel [simp]:
  "ch_ID (fresh_chat now c k t u n r p) = c" "ch_Type (fresh_chat now c k t u n r p) = k"
  "ch_CreatedBy (fresh_chat now c k t u n r p) = u" "ch_MemberCount (fresh_chat now c k t u n r p) = n"
  "ch_PairKey (fresh_chat now c k t u n r p) = p" "ch_DeletedAt (fresh_chat now c k t u n r p) = None"
  by (simp_all add: fresh_chat_def)

lemma set_count_put_member:
  "map_of (pg_chats t) c = Some ch \<Longrightarrow>
    set_count now c f (put_member m t) =
      put_chat (ch\<lparr>ch_MemberCount := f (ch_MemberCount ch), ch_UpdatedAt := now\<rparr>) (put_member m t)"
  by (simp add: set_count_def)

lemma member_chat:
  assumes "pg_ok t" and "map_of (pg_members t) (c, u) = Some m"
  obtains ch where "map_of (pg_chats t) c = Some ch" "mb_ChatID m = c" "mb_UserID m = u"
    "mb_Role m = RoleOwner \<Longrightarrow> active m \<and> u = ch_CreatedBy ch \<and> ch_Type ch \<noteq> ChatPrivate"
  using pg_okD(2) [OF assms] by (auto simp: member_ok_def)

lemma count_is_card: "pg_ok t \<Longrightarrow> map_of (pg_chats t) c = Some ch \<Longrightarrow> ch_MemberCount ch = int (card (active_users t c))"
  using pg_okD(1) by (auto simp: chat_ok_def)

lemma Members_Remove_ok:
  assumes ok: "pg_ok t" and role: "\<And>m. map_of (pg_members t) (c, u) = Some m \<Longrightarrow> mb_Role m \<noteq> RoleOwner"
  shows "pg_ok (snd (Members_Remove now c u t))"
proof (cases "map_of (pg_members t) (c, u)")
  case (Some m)
  from member_chat [OF ok Some] obtain ch where ch: "map_of (pg_chats t) c = Some ch" "mb_ChatID m = c" "mb_UserID m = u"
    by blast
  show ?thesis
  proof (cases "active m")
    case True
    then have u: "u \<in> active_users t c" using Some by (auto simp: active_users_def)
    let ?m = "m\<lparr>mb_LeftAt := Some now\<rparr>"
    have "int (card (active_users t c - {u})) = max 0 (ch_MemberCount ch - 1)"
      using u finite_active [of t c] card_gt_0_iff [of "active_users t c"] count_is_card [OF ok ch(1)]
      by (auto simp: card_Diff_singleton of_nat_diff)
    then show ?thesis
      using True Some ch role [OF Some] creator_owns [OF ok ch(1)]
      by (simp add: Members_Remove_def set_count_put_member)
        (rule put_row_ok [OF ok ch(1)], auto simp: active_def same_chat_def)
  qed (simp add: Members_Remove_def Some ok)
qed (simp add: Members_Remove_def ok)

lemma Members_Add_ok:
  assumes ok: "pg_ok t" and role: "role \<noteq> RoleOwner"
    and kind: "\<And>ch. map_of (pg_chats t) c = Some ch \<Longrightarrow> ch_Type ch \<noteq> ChatPrivate"
  shows "pg_ok (snd (Members_Add now c u role t))"
proof -
  have main: "pg_ok (set_count now c (\<lambda>n. n + 1) (put_member m t))"
    if ch: "map_of (pg_chats t) c = Some ch" and m: "mb_ChatID m = c" "mb_UserID m = u" "active m" "mb_Role m = role"
      and out: "u \<notin> active_users t c" for m ch
  proof -
    have "mb_UserID m \<noteq> ch_CreatedBy ch"
    proof
      assume "mb_UserID m = ch_CreatedBy ch"
      with creator_owns [OF ok ch kind [OF ch]] m obtain x where x: "map_of (pg_members t) (c, u) = Some x" "mb_Role x = RoleOwner"
        by auto
      with member_chat [OF ok x(1)] have "active x" by metis
      with x(1) out show False by (auto simp: active_users_def)
    qed
    then show ?thesis
      using ch m out role kind [OF ch] finite_active [of t c] count_is_card [OF ok ch]
      by (simp add: set_count_put_member) (rule put_row_ok [OF ok ch], auto simp: same_chat_def)
  qed
  show ?thesis
  proof (cases "map_of (pg_members t) (c, u)")
    case None
    then have "u \<notin> active_users t c" by (auto simp: active_users_def)
    then show ?thesis
      using None ok main [of _ "fresh_member now c u role"]
      by (auto simp: Members_Add_def fresh_member_def active_def)
  next
    case (Some m)
    from member_chat [OF ok Some] obtain ch where ch: "map_of (pg_chats t) c = Some ch" "mb_ChatID m = c" "mb_UserID m = u"
      by blast
    show ?thesis
    proof (cases "active m")
      case False
      then have "u \<notin> active_users t c" using Some by (auto simp: active_users_def)
      then have "pg_ok (set_count now c (\<lambda>n. n + 1) (put_member (m\<lparr>mb_LeftAt := None, mb_Role := role\<rparr>) t))"
        using ch by (intro main) (simp_all add: active_def)
      then show ?thesis using False Some ok by (simp add: Members_Add_def)
    qed (simp add: Members_Add_def Some ok)
  qed
qed

lemma Members_SetRole_ok:
  assumes ok: "pg_ok t" and "role \<noteq> RoleOwner"
    and "\<And>m. map_of (pg_members t) (c, u) = Some m \<Longrightarrow> mb_Role m \<noteq> RoleOwner"
  shows "pg_ok (snd (Members_SetRole c u role t))"
proof (cases "map_of (pg_members t) (c, u)")
  case (Some m)
  from member_chat [OF ok Some] have "mb_ChatID m = c" "mb_UserID m = u" by blast+
  then have "pg_ok (put_member (m\<lparr>mb_Role := role\<rparr>) t)"
    using assms Some by (intro put_member_ok [OF ok Some]) (simp_all add: active_def)
  then show ?thesis using ok by (simp add: Members_SetRole_def Some)
qed (simp add: Members_SetRole_def ok)

lemma member_field_ok:
  assumes ok: "pg_ok t"
  shows "pg_ok (snd (MarkRead c u seq t))" "pg_ok (SetMuted c u until t)" "pg_ok (SetFlags c u pinned archived t)"
proof -
  have "pg_ok (put_member m' t)"
    if "map_of (pg_members t) (c, u) = Some m" "mb_ChatID m' = mb_ChatID m" "mb_UserID m' = mb_UserID m"
      "mb_Role m' = mb_Role m" "mb_LeftAt m' = mb_LeftAt m" for m m'
  proof -
    from member_chat [OF ok that(1)] have "mb_ChatID m = c" "mb_UserID m = u" by blast+
    then show ?thesis using that by (intro put_member_ok [OF ok that(1)]) (simp_all add: active_def)
  qed
  then show "pg_ok (snd (MarkRead c u seq t))" "pg_ok (SetMuted c u until t)" "pg_ok (SetFlags c u pinned archived t)"
    using ok by (simp_all add: MarkRead_def SetMuted_def SetFlags_def Let_def split: option.split)
qed

lemma Chats_Get_InrD: "Chats_Get t c = Inr ch \<Longrightarrow> map_of (pg_chats t) c = Some ch \<and> ch_DeletedAt ch = None"
  by (auto simp: Chats_Get_def split: option.splits if_splits)

lemma UpdateMeta_ok: "pg_ok t \<Longrightarrow> pg_ok (snd (UpdateMeta now c title desc photo t))"
  by (auto simp: UpdateMeta_def Let_def same_chat_def split: sum.splits dest!: Chats_Get_InrD intro: put_chat_ok)

lemma Chats_SoftDelete_ok:
  assumes "pg_ok t" and "\<And>ch. map_of (pg_chats t) c = Some ch \<Longrightarrow> ch_Type ch \<noteq> ChatPrivate"
  shows "pg_ok (snd (Chats_SoftDelete now c t))"
  using assms by (auto simp: Chats_SoftDelete_def same_chat_def split: sum.splits dest!: Chats_Get_InrD intro: put_chat_ok)

lemma pg_ok_sequences: "pg_ok (t\<lparr>pg_sequences := x\<rparr>) = pg_ok t"
proof -
  have "kind_ok (t\<lparr>pg_sequences := x\<rparr>) c ch = kind_ok t c ch" for c ch by (simp add: kind_ok_def split: ChatType.split)
  then show ?thesis by (simp add: pg_ok_def chat_ok_def member_ok_def active_users_def)
qed

lemma Sequences_Advance_ok: "pg_ok t \<Longrightarrow> pg_ok (snd (Sequences_Advance now c seq t))"
  by (simp add: Sequences_Advance_def pg_ok_sequences split: option.split)

text \<open>Creating a chat: no membership refers to it yet.\<close>

lemma no_rows: "pg_ok t \<Longrightarrow> map_of (pg_chats t) c = None \<Longrightarrow> map_of (pg_members t) (c, u) = None"
  using pg_okD(2) [of t "(c, u)"] by (cases "map_of (pg_members t) (c, u)") (auto simp: member_ok_def)

lemma new_chat_ok:
  assumes ok: "pg_ok t" and new: "map_of (pg_chats t) c = None" and id: "ch_ID ch = c"
    and here: "chat_ok t' c ch"
    and pairs: "\<And>c' x key. map_of (pg_chats t) c' = Some x \<Longrightarrow> ch_PairKey ch = Some key \<Longrightarrow> ch_PairKey x \<noteq> Some key"
    and chats: "map_of (pg_chats t') = (map_of (pg_chats t))(c \<mapsto> ch)"
    and members: "\<And>c' u. c' \<noteq> c \<Longrightarrow> map_of (pg_members t') (c', u) = map_of (pg_members t) (c', u)"
    and rows: "\<And>u m. map_of (pg_members t') (c, u) = Some m \<Longrightarrow> member_ok t' (c, u) m"
    and dist: "distinct (map fst (pg_chats t'))" "distinct (map fst (pg_members t'))"
  shows "pg_ok t'"
proof (rule pg_okI [OF dist])
  show "chat_ok t' a x" if x: "map_of (pg_chats t') a = Some x" for a x
  proof (cases "a = c")
    case False
    then have "chat_ok t a x" using x chats pg_okD(1) [OF ok] by simp
    then show ?thesis using members [OF False] by (simp add: chat_ok_def kind_ok_def active_users_def cong: ChatType.case_cong)
  qed (use here x chats in simp)
  show "member_ok t' k m" if m: "map_of (pg_members t') k = Some m" for k m
  proof (cases "fst k = c")
    case True
    then show ?thesis using rows m by (cases k) simp
  next
    case False
    then have "member_ok t k m" using m members pg_okD(2) [OF ok] by (cases k) simp
    then show ?thesis using False chats by (simp add: member_ok_def)
  qed
  show "a = b"
    if "map_of (pg_chats t') a = Some x" "map_of (pg_chats t') b = Some y" "ch_PairKey x = Some key" "ch_PairKey y = Some key"
    for a b x y key
  proof -
    have old: "map_of (pg_chats t) i = Some w" if "map_of (pg_chats t') i = Some w" "i \<noteq> c" for i w using that chats by simp
    have new: "w = ch" if "map_of (pg_chats t') c = Some w" for w using that chats by simp
    show ?thesis
    proof (cases "a = c \<or> b = c")
      case True
      then show ?thesis using that old new pairs by metis
    next
      case False
      then show ?thesis using pg_okD(5) [OF ok old [OF that(1)] old [OF that(2)] that(3,4)] by blast
    qed
  qed
qed

lemma fold_put_member:
  assumes "\<And>u. mb_ChatID (f u) = c" and "\<And>u. mb_UserID (f u) = u"
  shows "map_of (pg_members (fold (\<lambda>u. put_member (f u)) us t)) (a, u) =
      (if a = c \<and> u \<in> set us then Some (f u) else map_of (pg_members t) (a, u))"
    "pg_chats (fold (\<lambda>u. put_member (f u)) us t) = pg_chats t"
    "distinct (map fst (pg_members (fold (\<lambda>u. put_member (f u)) us t))) = distinct (map fst (pg_members t))"
  by (induction us arbitrary: t) (auto simp: assms)

lemma group_roster:
  "distinct (group_roster u ms)" "set (group_roster u ms) = insert u (set ms)"
proof -
  let ?f = "\<lambda>(roster, seen) m. if m \<in> seen then (roster, seen) else (roster @ [m], insert m seen)"
  have "distinct (fst (foldl ?f (r, s) ms)) \<and> set (fst (foldl ?f (r, s) ms)) = s \<union> set ms"
    if "distinct r" "set r = s" for r and s :: "int set"
    using that by (induction ms arbitrary: r s) auto
  from this [of "[u]" "{u}"] show "distinct (group_roster u ms)" "set (group_roster u ms) = insert u (set ms)"
    by (simp_all add: group_roster_def)
qed

lemma CreateGroup_ok:
  assumes ok: "pg_ok t"
  shows "pg_ok (snd (CreateGroup now c kind title u ms region t))"
proof (cases "(kind = ChatGroup \<or> kind = ChatChannel) \<and> map_of (pg_chats t) c = None")
  case True
  let ?r = "group_roster u ms" and ?f = "\<lambda>v. fresh_member now c v (if v = u then RoleOwner else RoleMember)"
  define ch where "ch = fresh_chat now c kind title u (int (length ?r)) region None"
  define t' where "t' = fold (\<lambda>v. put_member (?f v)) ?r (put_chat ch t)"
  have rows: "map_of (pg_members t') (a, v) = (if a = c \<and> v \<in> set ?r then Some (?f v) else map_of (pg_members t) (a, v))" for a v
    using fold_put_member(1) [of ?f c ?r "put_chat ch t"] by (simp add: t'_def)
  have chats: "pg_chats t' = pg_chats (put_chat ch t)"
    unfolding t'_def by (rule fold_put_member(2) [of _ c]) simp_all
  have dist: "distinct (map fst (pg_members t'))"
    using fold_put_member(3) [of ?f c] pg_okD(4) [OF ok] by (simp add: t'_def)
  have "active_users t' c = set ?r" using no_rows [OF ok] True by (auto simp: active_users_def rows)
  then have "chat_ok t' c ch"
    using True group_roster [of u ms] distinct_card [of ?r]
    by (auto simp: chat_ok_def kind_ok_def rows ch_def)
  then have "pg_ok t'"
    using True dist pg_okD(3) [OF ok] no_rows [OF ok]
    by (intro new_chat_ok [OF ok, of c ch]) (auto simp: chats rows ch_def member_ok_def split: if_splits)
  then show ?thesis using ok by (auto simp: CreateGroup_def Let_def t'_def ch_def)
qed (use ok in \<open>auto simp: CreateGroup_def Let_def\<close>)

lemma pair_private:
  assumes "pg_ok t" and "map_of (pg_chats t) c = Some ch" and "ch_PairKey ch = Some key"
  shows "ch_Type ch = ChatPrivate" "ch_DeletedAt ch = None"
  using pg_okD(1) [OF assms(1,2)] assms(3) by (cases "ch_Type ch"; simp add: chat_ok_def kind_ok_def)+

lemma CreatePrivate_ok:
  assumes ok: "pg_ok t"
  shows "pg_ok (snd (CreatePrivate now c a b region t))"
proof (cases "find (\<lambda>(_, ch). ch_PairKey ch = Some (PairKey a b) \<and> ch_DeletedAt ch = None) (pg_chats t)")
  case None
  have no_key: "ch_PairKey ch \<noteq> Some (PairKey a b)" if "map_of (pg_chats t) c' = Some ch" for c' ch
    using None map_of_SomeD [OF that] pair_private [OF ok that] by (fastforce simp: find_None_iff)
  then have "find (\<lambda>(_, ch). ch_PairKey ch = Some (PairKey a b)) (pg_chats t) = None"
    using mem_iff_map_of [OF pg_okD(3) [OF ok]] by (auto simp: find_None_iff)
  then have conflict: "(case find (\<lambda>(_, ch). ch_PairKey ch = Some (PairKey a b)) (pg_chats t) of
      Some (_, ch) \<Rightarrow> Inr (ch\<lparr>ch_UpdatedAt := now\<rparr>) | None \<Rightarrow> x) = x" for x :: "pg_error + Chat" by simp
  let ?ch = "fresh_chat now c ChatPrivate '''' a 2 region (Some (PairKey a b))"
  let ?t = "put_member (fresh_member now c b RoleMember) (put_member (fresh_member now c a RoleMember) (put_chat ?ch t))"
  have "pg_ok ?t" if ab: "a \<noteq> b" and new: "map_of (pg_chats t) c = None"
  proof -
    note nr = no_rows [OF ok new]
    have "active_users t c = {}" using nr by (auto simp: active_users_def)
    then have "chat_ok ?t c ?ch"
      using ab nr by (auto simp: chat_ok_def kind_ok_def split: if_splits)
    then show ?thesis
      using new nr no_key pg_okD(3,4) [OF ok]
      by (intro new_chat_ok [OF ok new, of ?ch])
        (auto simp: member_ok_def split: if_splits)
  qed
  moreover have "map_of (pg_members t) (c, u) = None" if "map_of (pg_chats t) c = None" for u by (rule no_rows [OF ok that])
  ultimately show ?thesis
    using None ok unfolding CreatePrivate_def Let_def conflict
    by (simp add: join_private_def split: option.split)
next
  case (Some kc)
  then show ?thesis using ok by (cases kc) (simp add: CreatePrivate_def Let_def)
qed

section \<open>Lemmas for the properties\<close>

lemma colon_notin_itoa: "CHR '':'' \<notin> set (itoa n)"
proof
  assume "CHR '':'' \<in> set (itoa n)"
  then obtain k where "CHR '':'' \<in> set (itoa_nat k)" by (auto simp: itoa_def split: if_splits)
  then obtain d where "d < 10" "CHR '':'' = digit_char d" using itoa_nat_digits by blast
  then have "of_char (CHR '':'') = (48 + d :: nat)" using of_digit_char by metis
  with \<open>d < 10\<close> show False by simp
qed

lemma append_separator:
  assumes "x \<notin> set a" and "x \<notin> set b"
  shows "a @ x # c = b @ x # d \<longleftrightarrow> a = b \<and> c = d"
proof
  have tw: "takeWhile (\<lambda>y. y \<noteq> x) (s @ x # r) = s" if "x \<notin> set s" for s r
    using that by (subst takeWhile_append2) auto
  assume "a @ x # c = b @ x # d"
  then have "a = b" using tw [OF assms(1)] tw [OF assms(2)] by metis
  with \<open>a @ x # c = b @ x # d\<close> show "a = b \<and> c = d" by simp
qed simp

lemma my_dialogsD:
  assumes "pg_ok t" and "d \<in> set (my_dialogs t u archived)"
  obtains m where "map_of (pg_members t) (ch_ID (dl_Chat d), u) = Some m" "active m"
    "Chats_Get t (ch_ID (dl_Chat d)) = Inr (dl_Chat d)" "d = dialog_of t (dl_Chat d) m"
proof -
  from assms(2) obtain c u' m where m0: "((c, u'), m) \<in> set (pg_members t)" and d0: "d \<in> set (dialog_row t u archived ((c, u'), m))"
    by (auto simp: my_dialogs_def)
  have m1: "u' = u \<and> active m" 
    using d0 by (cases "u' = u \<and> active m \<and> (archived \<or> \<not> mb_Archived m)") (simp_all add: dialog_row_def)
  then have "\<exists>ch. Chats_Get t c = Inr ch \<and> d = dialog_of t ch m"
    using d0 by (cases "Chats_Get t c"; cases "archived \<or> \<not> mb_Archived m") (simp_all add: dialog_row_def)
  then obtain ch where ch: "Chats_Get t c = Inr ch" and dd: "d = dialog_of t ch m" by blast
  have m: "((c, u), m) \<in> set (pg_members t)" "active m" using m0 m1 by simp_all
  have "dl_Chat d = ch" by (simp add: dd dialog_of_def Let_def)
  with ch dd have d: "Chats_Get t c = Inr (dl_Chat d)" "d = dialog_of t (dl_Chat d) m" by simp_all
  have "ch_ID (dl_Chat d) = c" using Chats_Get_InrD [OF d(1)] pg_okD(1) [OF assms(1)] by (auto simp: chat_ok_def)
  then show ?thesis using that m d mem_iff_map_of [OF pg_okD(4) [OF assms(1)]] by auto
qed

section \<open>Properties\<close>

text \<open>The key that deduplicates private chats identifies the unordered pair of users: it is the same
  in both directions and different for any other pair.\<close>

theorem PairKey_identifies_pair: "PairKey a b = PairKey c d \<longleftrightarrow> {a, b} = {c, d}"
proof -
  have "itoa x @ '':'' @ itoa y = itoa z @ '':'' @ itoa w \<longleftrightarrow> x = z \<and> y = w" for x y z w
    using append_separator [of "CHR '':''" "itoa x" "itoa z" "itoa y" "itoa w"] colon_notin_itoa by (simp add: itoa_inject)
  then show ?thesis by (auto simp: PairKey_def Let_def doubleton_eq_iff split: if_splits)
qed

text \<open>The read pointer of an active member only moves forward, and two reports give the same state
  whatever the order they arrive in.\<close>

theorem MarkRead_monotone:
  assumes "map_of (pg_members t) (c, u) = Some m" and "active m" and "mb_ChatID m = c" "mb_UserID m = u"
  shows "\<exists>n. fst (MarkRead c u s t) = Inr n \<and> mb_LastReadSeq m \<le> n \<and> s \<le> n
    \<and> snd (MarkRead c u s' (snd (MarkRead c u s t))) = snd (MarkRead c u s (snd (MarkRead c u s' t)))"
  using assms by (simp add: MarkRead_def Let_def active_def) (simp add: put_member_def max.commute max.left_commute)

theorem MarkRead_monotone_witness:
  "\<exists>n. fst (MarkRead 1 2 5 (put_member (fresh_member 0 1 2 RoleMember)
      \<lparr>pg_chats = [], pg_members = [], pg_sequences = [], pg_users = [], pg_pair_arbiter = False\<rparr>)) = Inr n \<and> 5 \<le> n"
  using MarkRead_monotone [of "put_member (fresh_member 0 1 2 RoleMember)
      \<lparr>pg_chats = [], pg_members = [], pg_sequences = [], pg_users = [], pg_pair_arbiter = False\<rparr>" 1 2
      "fresh_member 0 1 2 RoleMember" 5 7] by auto

lemma Dialogs_mem:
  assumes "pg_ok t" and "d \<in> set (Dialogs t u archived limit offset)"
  shows "u \<in> active_users t (ch_ID (dl_Chat d))" "Chats_Get t (ch_ID (dl_Chat d)) = Inr (dl_Chat d)"
    "dl_MaxSeq d = Sequences_Max t (ch_ID (dl_Chat d))"
    "dl_UnreadCount d = max 0 (Sequences_Max t (ch_ID (dl_Chat d)) - dl_LastReadSeq d)"
proof -
  have "d \<in> set (my_dialogs t u archived)" using assms(2) by (auto simp: Dialogs_def dest!: in_set_takeD in_set_dropD)
  from my_dialogsD [OF assms(1) this] obtain m where m: "map_of (pg_members t) (ch_ID (dl_Chat d), u) = Some m" "active m"
    "Chats_Get t (ch_ID (dl_Chat d)) = Inr (dl_Chat d)" "d = dialog_of t (dl_Chat d) m" .
  show "u \<in> active_users t (ch_ID (dl_Chat d))" using m by (auto simp: active_users_def)
  show "Chats_Get t (ch_ID (dl_Chat d)) = Inr (dl_Chat d)" by (rule m(3))
  show "dl_MaxSeq d = Sequences_Max t (ch_ID (dl_Chat d))" by (subst (1) m(4)) (simp add: dialog_of_def Let_def)
  show "dl_UnreadCount d = max 0 (Sequences_Max t (ch_ID (dl_Chat d)) - dl_LastReadSeq d)"
    by (subst (1 3) m(4)) (simp add: dialog_of_def Let_def)
qed

text \<open>The chat list shows a user only live chats they are an active member of, with the unread count
  the two pointers give and never a negative one, in pages of at most 200.\<close>

theorem Dialogs_only_own:
  assumes "pg_ok t"
  shows "length (Dialogs t u archived limit offset) \<le> 200
    \<and> (\<forall>d. d \<in> set (Dialogs t u archived limit offset) \<longrightarrow>
        u \<in> active_users t (ch_ID (dl_Chat d)) \<and> ch_DeletedAt (dl_Chat d) = None
        \<and> dl_UnreadCount d = max 0 (Sequences_Max t (ch_ID (dl_Chat d)) - dl_LastReadSeq d))"
proof (intro conjI allI impI)
  show "length (Dialogs t u archived limit offset) \<le> 200" by (auto simp: Dialogs_def dialog_limit_def)
  fix d assume d: "d \<in> set (Dialogs t u archived limit offset)"
  show "ch_DeletedAt (dl_Chat d) = None" using Chats_Get_InrD [OF Dialogs_mem(2) [OF assms d]] by simp
qed (rule Dialogs_mem [OF assms], assumption)+

theorem Dialogs_only_own_witness:
  "length (Dialogs \<lparr>pg_chats = [], pg_members = [], pg_sequences = [], pg_users = [], pg_pair_arbiter = False\<rparr> 5 True 50 0) \<le> 200"
  using Dialogs_only_own [of "\<lparr>pg_chats = [], pg_members = [], pg_sequences = [], pg_users = [], pg_pair_arbiter = False\<rparr>" 5 True 50 0]
  by (simp add: pg_ok_def)

text \<open>With the schema of the migrations, whose unique index on \<^verbatim>\<open>pair_key\<close> is partial and so cannot be
  inferred by \<^verbatim>\<open>ON CONFLICT (pair_key)\<close>, no private chat is ever created: the call fails unless the chat
  already exists.\<close>

theorem CreatePrivate_needs_full_index:
  assumes "\<not> pg_pair_arbiter t"
  shows "snd (CreatePrivate now c a b region t) = t
    \<and> (\<forall>ch created. fst (CreatePrivate now c a b region t) = Inr (ch, created) \<longrightarrow> \<not> created)"
  using assms by (auto simp: CreatePrivate_def Let_def split: option.splits if_splits)

theorem CreatePrivate_needs_full_index_witness:
  "snd (CreatePrivate 0 1 5 6 ''eu''
      \<lparr>pg_chats = [], pg_members = [], pg_sequences = [], pg_users = [(5, False), (6, False)], pg_pair_arbiter = False\<rparr>)
    = \<lparr>pg_chats = [], pg_members = [], pg_sequences = [], pg_users = [(5, False), (6, False)], pg_pair_arbiter = False\<rparr>"
  by (rule conjunct1, rule CreatePrivate_needs_full_index) simp

end
