(* ===== verification/Httpx.thy ===== *)
theory Httpx
  imports Go_Text
begin

text \<open>
  The error envelope and the request helpers of \<^verbatim>\<open>pkg/httpx/httpx.go\<close>.  An error is its code: the wording
  may change freely and clients switch on the code only.  A request's parameters come as the raw strings
  of the URL, empty when the parameter is missing.
\<close>

datatype http_error =
  BadRequest | Unauthorized | Forbidden | NotFound | Conflict | Internal | Unavailable | PayloadTooLarge
| FloodWait int | PeerError int string

definition Status :: "http_error \<Rightarrow> int" where
  "Status e =
     (case e of BadRequest \<Rightarrow> 400 | Unauthorized \<Rightarrow> 401 | Forbidden \<Rightarrow> 403 | NotFound \<Rightarrow> 404 | Conflict \<Rightarrow> 409
      | Internal \<Rightarrow> 500 | Unavailable \<Rightarrow> 503 | PayloadTooLarge \<Rightarrow> 413 | FloodWait _ \<Rightarrow> 429 | PeerError s _ \<Rightarrow> if s \<noteq> 0 then s else 500)"

definition PathInt64 :: "string \<Rightarrow> http_error + int" where
  "PathInt64 raw = (case ParseInt raw of None \<Rightarrow> Inl BadRequest | Some v \<Rightarrow> Inr v)"

definition QueryInt :: "string \<Rightarrow> int \<Rightarrow> int \<Rightarrow> int \<Rightarrow> int" where
  "QueryInt raw def mn mx =
     (if raw = '''' then def
      else case ParseInt raw of None \<Rightarrow> def | Some v \<Rightarrow> if v < mn then mn else if mx < v then mx else v)"

definition QueryInt64 :: "string \<Rightarrow> int \<Rightarrow> int" where
  "QueryInt64 raw def = (if raw = '''' then def else case ParseInt raw of None \<Rightarrow> def | Some v \<Rightarrow> v)"

lemma QueryInt_bounds: "mn \<le> def \<Longrightarrow> def \<le> mx \<Longrightarrow> mn \<le> QueryInt raw def mn mx \<and> QueryInt raw def mn mx \<le> mx"
  by (auto simp: QueryInt_def split: option.split)

lemma code_digit_char: "d < 10 \<Longrightarrow> char_byte (digit_char d) = 48 + d"
  by (simp add: char_byte_def of_digit_char)

lemma hd_itoa_nat: "hd (itoa_nat n) \<noteq> CHR ''-''" "hd (itoa_nat n) \<noteq> CHR ''+''"
proof -
  have "hd (itoa_nat n) \<in> set (itoa_nat n)" by simp
  then obtain d where d: "d < 10" "hd (itoa_nat n) = digit_char d" using itoa_nat_digits by blast
  then have "char_byte (hd (itoa_nat n)) = 48 + d" by (simp add: code_digit_char)
  then show "hd (itoa_nat n) \<noteq> CHR ''-''" "hd (itoa_nat n) \<noteq> CHR ''+''" by (auto simp: char_byte_def)
qed

lemma itoa_nat_all_digits: "list_all is_digit (itoa_nat n)"
  by (auto simp: list_all_iff is_digit_def of_digit_char dest: itoa_nat_digits)

text \<open>Numeric path parameters round-trip: an identifier printed in decimal is read back as itself when it fits in
  64 bits, and is answered with a bad request, never with a wrapped number, when it does not.\<close>

theorem PathInt64_round_trip:
  "PathInt64 (itoa i) = (if - (2 ^ 63) \<le> i \<and> i < 2 ^ 63 then Inr i else Inl BadRequest)"
  using itoa_nat_all_digits by (auto simp: PathInt64_def ParseInt_def itoa_def Let_def hd_itoa_nat atoi_itoa_nat)

end
