(* ===== verification/Chat_Authz.thy ===== *)
theory Chat_Authz
  imports Chat_Tables Httpx
begin

text \<open>
  The privilege rules of the chat service, \<^verbatim>\<open>services/chat-service/internal/authz.go\<close>.
\<close>

definition canRemoveMember :: "Member \<Rightarrow> Member \<Rightarrow> http_error option" where
  "canRemoveMember actor target =
     (if mb_Role actor \<noteq> RoleOwner \<and> mb_Role actor \<noteq> RoleAdmin then Some Forbidden
      else if mb_Role target = RoleOwner then Some Forbidden
      else if mb_Role target = RoleAdmin \<and> mb_Role actor \<noteq> RoleOwner then Some Forbidden
      else None)"

definition canSetRole :: "Member \<Rightarrow> Member \<Rightarrow> MemberRole \<Rightarrow> http_error option" where
  "canSetRole actor target new =
     (if new = RoleOwner then Some BadRequest
      else if new \<noteq> RoleMember \<and> new \<noteq> RoleAdmin \<and> new \<noteq> RoleRestricted then Some BadRequest
      else if mb_UserID actor = mb_UserID target then Some Forbidden
      else if mb_Role actor \<noteq> RoleOwner \<and> mb_Role actor \<noteq> RoleAdmin then Some Forbidden
      else if mb_Role target = RoleOwner then Some Forbidden
      else if mb_Role actor \<noteq> RoleOwner \<and> (new = RoleAdmin \<or> mb_Role target = RoleAdmin) then Some Forbidden
      else None)"

definition canDeleteChat :: "Member \<Rightarrow> Chat \<Rightarrow> http_error option" where
  "canDeleteChat actor chat =
     (if ch_Type chat = ChatPrivate then Some BadRequest
      else if mb_Role actor \<noteq> RoleOwner then Some Forbidden
      else None)"

text \<open>The flag says whether the deletion is an act of moderation.\<close>

definition canDeleteMessage :: "Member \<Rightarrow> int \<Rightarrow> http_error + bool" where
  "canDeleteMessage actor senderID =
     (if senderID = mb_UserID actor then Inr False
      else if mb_Role actor \<noteq> RoleOwner \<and> mb_Role actor \<noteq> RoleAdmin then Inl Forbidden
      else Inr True)"

section \<open>An abstract ranking\<close>

text \<open>The rules in one order: rank owner over admin over everyone else.\<close>

fun rank :: "MemberRole \<Rightarrow> nat" where
  "rank RoleOwner = 2"
| "rank RoleAdmin = 1"
| "rank _ = 0"

lemma rank_cases: "rank r = 2 \<longleftrightarrow> r = RoleOwner" "rank r = 1 \<longleftrightarrow> r = RoleAdmin" "0 < rank r \<longleftrightarrow> r = RoleOwner \<or> r = RoleAdmin"
  by (cases r; simp)+


end
