(* ===== verification/Events.thy ===== *)
theory Events
  imports Go_Prelude
begin

text \<open>
  The record on the topics \<^verbatim>\<open>messages.raw\<close> and \<^verbatim>\<open>messages.persisted\<close>, and the checks a consumer may
  rely on: \<^verbatim>\<open>pkg/events/events.go\<close>.  Times are Unix milliseconds.
\<close>

datatype MessageType =
  MessageText | MessagePhoto | MessageVideo | MessageVoice | MessageFile | MessageSticker | MessageSystem
| MessageOther string

text \<open>\<^verbatim>\<open>MessageType\<close> is a string in the source: the named constants, and whatever else it holds.\<close>

definition type_of_string :: "string \<Rightarrow> MessageType" where
  "type_of_string s =
     (if s = ''text'' then MessageText else if s = ''photo'' then MessagePhoto
      else if s = ''video'' then MessageVideo else if s = ''voice'' then MessageVoice
      else if s = ''file'' then MessageFile else if s = ''sticker'' then MessageSticker
      else if s = ''system'' then MessageSystem else MessageOther s)"

fun string_of_type :: "MessageType \<Rightarrow> string" where
  "string_of_type MessageText = ''text''"
| "string_of_type MessagePhoto = ''photo''"
| "string_of_type MessageVideo = ''video''"
| "string_of_type MessageVoice = ''voice''"
| "string_of_type MessageFile = ''file''"
| "string_of_type MessageSticker = ''sticker''"
| "string_of_type MessageSystem = ''system''"
| "string_of_type (MessageOther s) = s"

record MediaRef =
  mr_Bucket :: string
  mr_Object :: string
  mr_MimeType :: string
  mr_SizeBytes :: int
  mr_Width :: int
  mr_Height :: int
  mr_DurationMS :: int
  mr_ThumbObject :: string

record MessageEvent =
  ev_MessageID :: string
  ev_ChatID :: int
  ev_Seq :: int
  ev_SenderID :: int
  ev_Type :: MessageType
  ev_Body :: string
  ev_Encrypted :: bool
  ev_Media :: "MediaRef option"
  ev_ReplyToSeq :: int
  ev_Recipients :: "int list"
  ev_ClientRandomID :: int
  ev_CreatedAt :: int

datatype event_error =
  EmptyMessageID | ZeroChatID | SeqNotPositive int | ZeroSenderID | EmptyType | EmptyTextBody
| MissingMedia MessageType

definition Validate :: "MessageEvent \<Rightarrow> event_error + unit" where
  "Validate m =
     (if ev_MessageID m = '''' then Inl EmptyMessageID
      else if ev_ChatID m = 0 then Inl ZeroChatID
      else if ev_Seq m \<le> 0 then Inl (SeqNotPositive (ev_Seq m))
      else if ev_SenderID m = 0 then Inl ZeroSenderID
      else if ev_Type m = MessageOther '''' then Inl EmptyType
      else if ev_Type m = MessageText \<and> ev_Body m = '''' \<and> \<not> ev_Encrypted m then Inl EmptyTextBody
      else if ev_Media m = None \<and> ev_Type m \<in> {MessagePhoto, MessageVideo, MessageFile, MessageVoice}
        then Inl (MissingMedia (ev_Type m))
      else Inr ())"

lemma type_string_round_trip: "type_of_string (string_of_type t) = t \<or> (\<exists>s. t = MessageOther s)"
  by (cases t) (simp_all add: type_of_string_def)

lemma Validate_InrD:
  assumes "Validate m = Inr ()"
  shows "ev_ChatID m \<noteq> 0" "0 < ev_Seq m" "ev_SenderID m \<noteq> 0" "ev_MessageID m \<noteq> ''''"
  using assms by (auto simp: Validate_def split: if_splits)

end
