(* ===== verification/Message_Store.thy ===== *)
theory Message_Store
  imports Events Tables
begin

text \<open>
  The message history in Cassandra, \<^verbatim>\<open>pkg/cassandrax/cassandra.go\<close>.  The state is the tables of
  \<^verbatim>\<open>db/cassandra/schema.cql\<close>, each an association list from its primary key; a CQL \<^verbatim>\<open>INSERT\<close> or
  \<^verbatim>\<open>UPDATE\<close> writes the named columns of the row with that key and creates the row when it is missing,
  columns never written reading as zero values.  Whether the ring answers is an argument: \<open>down s\<close>
  says that statement \<open>s\<close> of the call fails.
\<close>

section \<open>Rows and tables\<close>

definition BucketSize :: int where "BucketSize = 10000"

definition BucketOf :: "int \<Rightarrow> int" where
  "BucketOf seq = go_quot seq BucketSize"

record StoredMessage =
  sm_ChatID :: int
  sm_Bucket :: int
  sm_Seq :: int
  sm_MessageID :: string
  sm_SenderID :: int
  sm_Type :: string
  sm_Body :: string
  sm_Encrypted :: bool
  sm_MediaJSON :: string
  sm_ReplyToSeq :: int
  sm_CreatedAt :: int
  sm_EditedAt :: "int option"
  sm_Deleted :: bool

record cass =
  messages_by_chat :: "((int \<times> int \<times> int) \<times> StoredMessage) list"
  message_by_id :: "(string \<times> (int \<times> int \<times> int)) list"
  message_dedupe :: "((int \<times> int \<times> int) \<times> (int \<times> string \<times> int)) list"
  messages_by_chat_buckets :: "(int \<times> int) list"

definition empty_cass :: cass where
  "empty_cass = \<lparr>messages_by_chat = [], message_by_id = [], message_dedupe = [], messages_by_chat_buckets = []\<rparr>"

datatype cass_stmt =
  InsertMessagesByChat | InsertMessageById | InsertDedupe | SelectDedupe | SelectBucket int
| SelectMessageById | SelectMessagesByChat | UpdateDeleted | UpdateBody | SelectMaxBucket | SelectMaxSeq
| InsertBucket

datatype cass_error = ErrNotFound | ErrCassandra cass_stmt

definition zero_row :: "int \<times> int \<times> int \<Rightarrow> StoredMessage" where
  "zero_row k = (case k of (c, b, s) \<Rightarrow>
     \<lparr>sm_ChatID = c, sm_Bucket = b, sm_Seq = s, sm_MessageID = '''', sm_SenderID = 0, sm_Type = '''', sm_Body = '''',
      sm_Encrypted = False, sm_MediaJSON = '''', sm_ReplyToSeq = 0, sm_CreatedAt = 0, sm_EditedAt = None,
      sm_Deleted = False\<rparr>)"

definition upsert_row :: "int \<times> int \<times> int \<Rightarrow> (StoredMessage \<Rightarrow> StoredMessage) \<Rightarrow> cass \<Rightarrow> cass" where
  "upsert_row k f t =
     (let r = (case map_of (messages_by_chat t) k of Some r \<Rightarrow> r | None \<Rightarrow> zero_row k)
      in t\<lparr>messages_by_chat := AList.update k (f r) (messages_by_chat t)\<rparr>)"

section \<open>Writing\<close>

definition event_columns :: "MessageEvent \<Rightarrow> string \<Rightarrow> StoredMessage \<Rightarrow> StoredMessage" where
  "event_columns e mediaJSON r =
     r\<lparr>sm_MessageID := ev_MessageID e, sm_SenderID := ev_SenderID e, sm_Type := string_of_type (ev_Type e),
       sm_Body := ev_Body e, sm_Encrypted := ev_Encrypted e, sm_MediaJSON := mediaJSON,
       sm_ReplyToSeq := ev_ReplyToSeq e, sm_CreatedAt := ev_CreatedAt e, sm_Deleted := False\<rparr>"

definition Insert ::
  "(cass_stmt \<Rightarrow> bool) \<Rightarrow> int \<Rightarrow> MessageEvent \<Rightarrow> string \<Rightarrow> cass \<Rightarrow> (cass_error + unit) \<times> cass" where
  "Insert down now e mediaJSON t =
     (let key = (ev_ChatID e, BucketOf (ev_Seq e), ev_Seq e)
      in if down InsertMessagesByChat then (Inl (ErrCassandra InsertMessagesByChat), t)
         else
           let t1 = upsert_row key (event_columns e mediaJSON) t
           in if down InsertMessageById then (Inl (ErrCassandra InsertMessageById), t1)
              else
                let t2 = t1\<lparr>message_by_id := AList.update (ev_MessageID e) key (message_by_id t1)\<rparr>
                in if ev_ClientRandomID e = 0 then (Inr (), t2)
                   else if down InsertDedupe then (Inl (ErrCassandra InsertDedupe), t2)
                   else (Inr (), t2\<lparr>message_dedupe :=
                     AList.update (ev_ChatID e, ev_SenderID e, ev_ClientRandomID e)
                       (ev_Seq e, ev_MessageID e, now + 86400000) (message_dedupe t2)\<rparr>))"

definition Store_SoftDelete :: "(cass_stmt \<Rightarrow> bool) \<Rightarrow> int \<Rightarrow> int \<Rightarrow> cass \<Rightarrow> (cass_error + unit) \<times> cass" where
  "Store_SoftDelete down chatID seq t =
     (if down UpdateDeleted then (Inl (ErrCassandra UpdateDeleted), t)
      else (Inr (), upsert_row (chatID, BucketOf seq, seq)
        (\<lambda>r. r\<lparr>sm_Deleted := True, sm_Body := '''', sm_MediaJSON := ''''\<rparr>) t))"

definition Edit :: "(cass_stmt \<Rightarrow> bool) \<Rightarrow> int \<Rightarrow> int \<Rightarrow> string \<Rightarrow> int \<Rightarrow> cass \<Rightarrow> (cass_error + unit) \<times> cass" where
  "Edit down chatID seq body now t =
     (if down UpdateBody then (Inl (ErrCassandra UpdateBody), t)
      else (Inr (), upsert_row (chatID, BucketOf seq, seq) (\<lambda>r. r\<lparr>sm_Body := body, sm_EditedAt := Some now\<rparr>) t))"

definition TouchBucket :: "(cass_stmt \<Rightarrow> bool) \<Rightarrow> int \<Rightarrow> int \<Rightarrow> cass \<Rightarrow> (cass_error + unit) \<times> cass" where
  "TouchBucket down chatID seq t =
     (if down InsertBucket then (Inl (ErrCassandra InsertBucket), t)
      else (Inr (), t\<lparr>messages_by_chat_buckets := List.insert (chatID, BucketOf seq) (messages_by_chat_buckets t)\<rparr>))"

section \<open>Reading\<close>

text \<open>The rows of one partition in clustering order, oldest first.\<close>

definition partition_rows :: "cass \<Rightarrow> int \<Rightarrow> int \<Rightarrow> StoredMessage list" where
  "partition_rows t chatID bucket =
     sort_key sm_Seq (map snd (filter (\<lambda>((c, b, _), _). c = chatID \<and> b = bucket) (messages_by_chat t)))"

definition FindByClientRandomID ::
  "(cass_stmt \<Rightarrow> bool) \<Rightarrow> int \<Rightarrow> int \<Rightarrow> int \<Rightarrow> int \<Rightarrow> cass \<Rightarrow> cass_error + (int \<times> string)" where
  "FindByClientRandomID down now chatID senderID randomID t =
     (if down SelectDedupe then Inl (ErrCassandra SelectDedupe)
      else case map_of (message_dedupe t) (chatID, senderID, randomID) of
        None \<Rightarrow> Inl ErrNotFound
      | Some (seq, mid, expires) \<Rightarrow> if now < expires then Inr (seq, mid) else Inl ErrNotFound)"

text \<open>The backwards walk of \<^verbatim>\<open>History\<close>, over the query it issues for one bucket; the first argument is
  how many buckets it may still visit.\<close>

fun history_walk ::
  "nat \<Rightarrow> (int \<Rightarrow> int \<Rightarrow> nat \<Rightarrow> 'e + 'r list) \<Rightarrow> nat \<Rightarrow> int \<Rightarrow> int \<Rightarrow> 'r list \<Rightarrow> 'e + 'r list" where
  "history_walk 0 query limit bucket before out = Inr out"
| "history_walk (Suc k) query limit bucket before out =
     (if length out < limit \<and> 0 \<le> bucket
      then case query bucket before (limit - length out) of
          Inl e \<Rightarrow> Inl e
        | Inr rows \<Rightarrow> history_walk k query limit (bucket - 1) (bucket * BucketSize) (out @ rows)
      else Inr out)"

definition maxBucketWalk :: nat where "maxBucketWalk = 8"

definition select_before :: "(cass_stmt \<Rightarrow> bool) \<Rightarrow> cass \<Rightarrow> int \<Rightarrow> int \<Rightarrow> int \<Rightarrow> nat \<Rightarrow> cass_error + StoredMessage list" where
  "select_before down t chatID bucket before n =
     (if down (SelectBucket bucket) then Inl (ErrCassandra (SelectBucket bucket))
      else Inr (take n (rev (filter (\<lambda>m. sm_Seq m < before) (partition_rows t chatID bucket)))))"

definition history_limit :: "int \<Rightarrow> nat" where
  "history_limit limit = (if limit \<le> 0 \<or> 200 < limit then 50 else nat limit)"

definition history_before :: "int \<Rightarrow> int" where
  "history_before beforeSeq = (if beforeSeq \<le> 0 then 2 ^ 62 else beforeSeq)"

definition History ::
  "(cass_stmt \<Rightarrow> bool) \<Rightarrow> cass \<Rightarrow> int \<Rightarrow> int \<Rightarrow> int \<Rightarrow> cass_error + StoredMessage list" where
  "History down t chatID beforeSeq limit =
     (let before = history_before beforeSeq
      in history_walk maxBucketWalk (select_before down t chatID) (history_limit limit) (BucketOf before) before [])"

text \<open>The forward walk of \<^verbatim>\<open>Range\<close>.\<close>

function range_walk ::
  "(int \<Rightarrow> nat \<Rightarrow> 'e + 'r list) \<Rightarrow> nat \<Rightarrow> int \<Rightarrow> int \<Rightarrow> 'r list \<Rightarrow> 'e + 'r list" where
  "range_walk query limit bucket final out =
     (if bucket \<le> final \<and> length out < limit
      then case query bucket (limit - length out) of
          Inl e \<Rightarrow> Inl e
        | Inr rows \<Rightarrow> range_walk query limit (bucket + 1) final (out @ rows)
      else Inr out)"
  by pat_completeness auto
termination by (relation "measure (\<lambda>(_, _, b, l, _). nat (l + 1 - b))") auto

declare range_walk.simps [simp del]

definition select_between ::
  "(cass_stmt \<Rightarrow> bool) \<Rightarrow> cass \<Rightarrow> int \<Rightarrow> int \<Rightarrow> int \<Rightarrow> int \<Rightarrow> nat \<Rightarrow> cass_error + StoredMessage list" where
  "select_between down t chatID fromSeq toSeq bucket n =
     (if down (SelectBucket bucket) then Inl (ErrCassandra (SelectBucket bucket))
      else Inr (take n (filter (\<lambda>m. fromSeq \<le> sm_Seq m \<and> sm_Seq m \<le> toSeq) (partition_rows t chatID bucket))))"

definition range_limit :: "int \<Rightarrow> nat" where
  "range_limit limit = (if limit \<le> 0 \<or> 500 < limit then 200 else nat limit)"

definition Range ::
  "(cass_stmt \<Rightarrow> bool) \<Rightarrow> cass \<Rightarrow> int \<Rightarrow> int \<Rightarrow> int \<Rightarrow> int \<Rightarrow> cass_error + StoredMessage list" where
  "Range down t chatID fromSeq toSeq limit =
     (let from = (if fromSeq < 1 then 1 else fromSeq)
      in if toSeq < from then Inr []
         else range_walk (select_between down t chatID from toSeq) (range_limit limit) (BucketOf from) (BucketOf toSeq) [])"

definition GetByID :: "(cass_stmt \<Rightarrow> bool) \<Rightarrow> cass \<Rightarrow> string \<Rightarrow> cass_error + StoredMessage" where
  "GetByID down t messageID =
     (if down SelectMessageById then Inl (ErrCassandra SelectMessageById)
      else case map_of (message_by_id t) messageID of
        None \<Rightarrow> Inl ErrNotFound
      | Some key \<Rightarrow>
          if down SelectMessagesByChat then Inl (ErrCassandra SelectMessagesByChat)
          else case map_of (messages_by_chat t) key of None \<Rightarrow> Inl ErrNotFound | Some m \<Rightarrow> Inr m)"

definition MaxSeq :: "(cass_stmt \<Rightarrow> bool) \<Rightarrow> cass \<Rightarrow> int \<Rightarrow> cass_error + int" where
  "MaxSeq down t chatID =
     (if down SelectMaxBucket then Inl (ErrCassandra SelectMaxBucket)
      else case rev (sort (map snd (filter (\<lambda>(c, _). c = chatID) (messages_by_chat_buckets t)))) of
        [] \<Rightarrow> Inr 0
      | maxBucket # _ \<Rightarrow>
          if down SelectMaxSeq then Inl (ErrCassandra SelectMaxSeq)
          else case rev (partition_rows t chatID maxBucket) of [] \<Rightarrow> Inr 0 | m # _ \<Rightarrow> Inr (sm_Seq m))"

section \<open>Buckets\<close>

lemma BucketOf_nonneg: "0 \<le> s \<Longrightarrow> BucketOf s = s div 10000"
  by (cases "s = 0") (simp_all add: BucketOf_def BucketSize_def go_quot_def)

lemma BucketOf_mono: "x \<le> y \<Longrightarrow> BucketOf x \<le> BucketOf y"
proof -
  have *: "0 \<le> z div (10000 :: int)" if "0 \<le> z" for z using that by (simp add: pos_imp_zdiv_nonneg_iff)
  show "x \<le> y \<Longrightarrow> BucketOf x \<le> BucketOf y"
    using * [of y] * [of "- x"]
    by (auto simp: BucketOf_def BucketSize_def go_quot_def sgn_if zdiv_mono1)
qed

lemma less_of_BucketOf_less: "BucketOf x < BucketOf y \<Longrightarrow> x < y"
  using BucketOf_mono [of y x] by linarith

lemma BucketOf_le_iff: "0 \<le> b \<Longrightarrow> BucketOf x \<le> b \<longleftrightarrow> x < (b + 1) * BucketSize"
proof (cases "0 \<le> x")
  case True
  obtain q r where "x div 10000 = q" "x = 10000 * q + r" "0 \<le> r" "r < 10000"
    by (metis mult_div_mod_eq pos_mod_bound pos_mod_sign zero_less_numeral)
  then have "x div 10000 \<le> b \<longleftrightarrow> x < (b + 1) * 10000" by auto
  then show ?thesis using True by (simp add: BucketOf_nonneg BucketSize_def)
next
  case False
  moreover assume "0 \<le> b"
  moreover have "BucketOf x \<le> 0" using False BucketOf_mono [of x 0] by (simp add: BucketOf_nonneg)
  ultimately show ?thesis by (simp add: BucketSize_def)
qed

section \<open>The contract of a clustered table\<close>

text \<open>What the walks rely on: a partition is in strictly increasing clustering order, and the rows of
  bucket \<open>b\<close> are rows of that bucket.\<close>

locale clustered_table =
  fixes wf :: "'t \<Rightarrow> bool" and part :: "'t \<Rightarrow> int \<Rightarrow> int \<Rightarrow> 'r list" and key :: "'r \<Rightarrow> int"
  assumes part_sorted: "wf t \<Longrightarrow> sorted_wrt (\<lambda>x y. key x < key y) (part t c b)"
    and part_bucket: "wf t \<Longrightarrow> r \<in> set (part t c b) \<Longrightarrow> BucketOf (key r) = b"
begin

text \<open>The rows of the buckets from \<open>lo\<close> to \<open>hi\<close>, oldest first.\<close>

lemma window_sorted: "wf t \<Longrightarrow> sorted_wrt (\<lambda>x y. key x < key y) (concat (map (part t c) [lo..hi]))"
proof (induction "nat (hi + 1 - lo)" arbitrary: lo)
  case (Suc n)
  then have lh: "lo \<le> hi" by simp
  have lt: "\<forall>x \<in> set (part t c lo). \<forall>y \<in> set (concat (map (part t c) [lo + 1..hi])). key x < key y"
  proof (intro ballI)
    fix x y assume x: "x \<in> set (part t c lo)" and y: "y \<in> set (concat (map (part t c) [lo + 1..hi]))"
    from y obtain b where b: "lo + 1 \<le> b" "y \<in> set (part t c b)" by auto
    show "key x < key y"
      using part_bucket [OF Suc.prems x] part_bucket [OF Suc.prems b(2)] b(1) by (metis less_of_BucketOf_less zless_add1_eq add1_zle_eq)
  qed
  have "sorted_wrt (\<lambda>x y. key x < key y) (concat (map (part t c) [lo + 1..hi]))" using Suc by simp
  then show ?case
    using part_sorted [OF Suc.prems, of c lo] lt by (simp only: upto_rec1 [OF lh] list.map concat.simps sorted_wrt_append)
qed simp

lemma window_snoc:
  "lo \<le> b \<Longrightarrow> concat (map (part t c) [lo..b]) = concat (map (part t c) [lo..b - 1]) @ part t c b"
  by (simp add: upto_rec2)

lemma part_below:
  assumes "wf t" and "0 \<le> b" and "r \<in> set (part t c b)"
  shows "key r < (b + 1) * BucketSize"
  using part_bucket [OF assms(1,3)] BucketOf_le_iff [OF assms(2), of "key r"] by simp

lemma window_below:
  assumes "wf t" and "0 \<le> b" and "r \<in> set (concat (map (part t c) [lo..b]))"
  shows "key r < (b + 1) * BucketSize"
  using assms part_bucket [OF assms(1)] by (auto simp: BucketOf_le_iff [symmetric])

text \<open>The backwards walk over at most \<open>k\<close> buckets returns the newest rows of those buckets.\<close>

lemma history_walk_correct:
  assumes "wf t" and query: "\<And>b v n. query b v n = Inr (take n (rev (filter (\<lambda>r. key r < v) (part t c b))))"
    and "length out \<le> limit" and "bucket * BucketSize \<le> before"
  shows "history_walk k query limit bucket before out =
    Inr (out @ take (limit - length out) (rev (filter (\<lambda>r. key r < before)
      (concat (map (part t c) [max 0 (bucket + 1 - int k)..bucket])))))"
  using assms(3,4)
proof (induction k arbitrary: bucket before out)
  case 0
  then show ?case by simp
next
  case (Suc k)
  show ?case
  proof (cases "length out < limit \<and> 0 \<le> bucket")
    case True
    let ?P = "\<lambda>r. key r < before" and ?lo = "max 0 (bucket + 1 - int (Suc k))"
    let ?rest = "concat (map (part t c) [?lo..bucket - 1])"
    let ?n = "limit - length out" and ?here = "rev (filter ?P (part t c bucket))"
    have below: "key r < bucket * BucketSize" if "r \<in> set ?rest" for r
    proof (cases "bucket = 0")
      case False
      then show ?thesis using window_below [OF assms(1), of "bucket - 1" r c ?lo] that True by simp
    qed (use that in simp)
    have "key r < before" if "r \<in> set ?rest" for r using below [OF that] Suc.prems(2) by linarith
    then have "filter ?P (concat (map (part t c) [?lo..bucket])) = ?rest @ filter ?P (part t c bucket)"
      using True by (subst window_snoc) (auto simp: filter_True)
    then have target: "take ?n (rev (filter ?P (concat (map (part t c) [?lo..bucket])))) =
        take ?n ?here @ take (?n - length ?here) (rev ?rest)" by simp
    have "max 0 (bucket - 1 + 1 - int k) = ?lo" by simp
    moreover have "filter (\<lambda>r. key r < bucket * BucketSize) ?rest = ?rest" using below by (simp add: filter_id_conv)
    moreover have "(bucket - 1) * BucketSize \<le> bucket * BucketSize" by (simp add: BucketSize_def)
    ultimately have "history_walk k query limit (bucket - 1) (bucket * BucketSize) (out @ take ?n ?here) =
        Inr ((out @ take ?n ?here) @ take (limit - length (out @ take ?n ?here)) (rev ?rest))"
      using Suc.IH [of "out @ take ?n ?here" "bucket - 1" "bucket * BucketSize"] Suc.prems(1) by simp
    moreover have "limit - length (out @ take ?n ?here) = ?n - length ?here" by simp
    moreover have "query bucket before ?n = Inr (take ?n ?here)" by (rule query)
    ultimately show ?thesis using True unfolding target by simp
  next
    case False
    then show ?thesis using Suc.prems by auto
  qed
qed

text \<open>The forward walk returns the oldest rows of the range.\<close>

lemma range_walk_correct:
  assumes "wf t" and query: "\<And>b n. query b n = Inr (take n (filter P (part t c b)))" and "length out \<le> limit"
  shows "range_walk query limit bucket final out =
    Inr (out @ take (limit - length out) (filter P (concat (map (part t c) [bucket..final]))))"
  using assms(3)
proof (induction "nat (final + 1 - bucket)" arbitrary: bucket out)
  case 0
  then show ?case by (subst range_walk.simps) simp
next
  case (Suc k)
  then have le: "bucket \<le> final" by simp
  let ?n = "limit - length out" and ?here = "filter P (part t c bucket)"
  show ?case
  proof (cases "length out < limit")
    case True
    have "range_walk query limit (bucket + 1) final (out @ take ?n ?here) =
        Inr ((out @ take ?n ?here) @ take (limit - length (out @ take ?n ?here))
          (filter P (concat (map (part t c) [bucket + 1..final]))))"
      using Suc by (intro Suc.hyps(1)) simp_all
    moreover have "limit - length (out @ take ?n ?here) = ?n - length ?here" by simp
    moreover have "query bucket ?n = Inr (take ?n ?here)" by (rule query)
    ultimately show ?thesis
      using True le unfolding upto_rec1 [OF le] by (subst range_walk.simps) simp
  next
    case False
    then show ?thesis using Suc.prems by (subst range_walk.simps) simp
  qed
qed

end

section \<open>The tables meet the contract\<close>

definition row_wf :: "(int \<times> int \<times> int) \<times> StoredMessage \<Rightarrow> bool" where
  "row_wf kr = (case kr of ((c, b, s), r) \<Rightarrow> sm_ChatID r = c \<and> sm_Bucket r = b \<and> sm_Seq r = s \<and> b = BucketOf s)"

definition cass_wf :: "cass \<Rightarrow> bool" where
  "cass_wf t \<longleftrightarrow> distinct (map fst (messages_by_chat t)) \<and> list_all row_wf (messages_by_chat t)"

lemma cass_wf_rowD:
  assumes "cass_wf t" and "((c, b, s), r) \<in> set (messages_by_chat t)"
  shows "sm_ChatID r = c" "sm_Bucket r = b" "sm_Seq r = s" "b = BucketOf s"
  using assms by (auto simp: cass_wf_def row_wf_def list_all_iff)

lemma partition_rows_iff:
  assumes "cass_wf t"
  shows "r \<in> set (partition_rows t c b) \<longleftrightarrow> map_of (messages_by_chat t) (c, b, sm_Seq r) = Some r"
proof -
  have "r \<in> set (partition_rows t c b) \<longleftrightarrow> (\<exists>s. ((c, b, s), r) \<in> set (messages_by_chat t))"
    by (force simp: partition_rows_def image_iff)
  also have "\<dots> \<longleftrightarrow> ((c, b, sm_Seq r), r) \<in> set (messages_by_chat t)" using cass_wf_rowD [OF assms] by auto
  also have "\<dots> \<longleftrightarrow> map_of (messages_by_chat t) (c, b, sm_Seq r) = Some r"
    using assms by (auto simp: cass_wf_def intro: map_of_is_SomeI dest: map_of_SomeD)
  finally show ?thesis .
qed

lemma partition_rows_sorted:
  assumes "cass_wf t"
  shows "sorted_wrt (\<lambda>x y. sm_Seq x < sm_Seq y) (partition_rows t c b)"
proof -
  let ?rows = "filter (\<lambda>((c', b', _), _). c' = c \<and> b' = b) (messages_by_chat t)"
  have eq: "map (\<lambda>kr. sm_Seq (snd kr)) ?rows = map (\<lambda>kr. snd (snd (fst kr))) ?rows"
    using cass_wf_rowD(3) [OF assms] by auto
  have inj: "inj_on (\<lambda>kr. snd (snd (fst kr))) (set ?rows)"
  proof (rule inj_onI)
    fix x y assume xy: "x \<in> set ?rows" "y \<in> set ?rows" "snd (snd (fst x)) = snd (snd (fst y))"
    from xy(1,2) have "fst (fst x) = c \<and> fst (snd (fst x)) = b" "fst (fst y) = c \<and> fst (snd (fst y)) = b"
      by (simp_all add: case_prod_beta)
    with xy(3) have "fst x = fst y" by (simp add: prod_eq_iff)
    moreover have "x \<in> set (messages_by_chat t)" "y \<in> set (messages_by_chat t)" using xy by simp_all
    ultimately show "x = y" using assms by (auto simp: cass_wf_def distinct_map dest: inj_onD)
  qed
  have "distinct ?rows" using assms by (simp add: cass_wf_def distinct_map)
  with inj have "distinct (map (\<lambda>kr. sm_Seq (snd kr)) ?rows)" unfolding eq by (simp only: distinct_map)
  then have "distinct (map sm_Seq (map snd ?rows))" by (simp only: map_map comp_def)
  then have "distinct (map sm_Seq (partition_rows t c b))" 
    by (simp only: partition_rows_def distinct_map [of sm_Seq] distinct_sort set_sort)
  moreover have "sorted (map sm_Seq (partition_rows t c b))" by (simp add: partition_rows_def)
  ultimately have "sorted_wrt (<) (map sm_Seq (partition_rows t c b))" by (simp add: strict_sorted_iff)
  then show ?thesis by (simp add: sorted_wrt_map)
qed

interpretation history: clustered_table cass_wf partition_rows sm_Seq
proof
  fix t c b assume wf: "cass_wf t"
  then show "sorted_wrt (\<lambda>x y. sm_Seq x < sm_Seq y) (partition_rows t c b)" by (rule partition_rows_sorted)
  fix r assume "r \<in> set (partition_rows t c b)"
  then have "((c, b, sm_Seq r), r) \<in> set (messages_by_chat t)"
    using partition_rows_iff [OF wf] map_of_SomeD by metis
  then show "BucketOf (sm_Seq r) = b" using cass_wf_rowD [OF wf] by metis
qed

lemma upsert_row_wf:
  assumes "cass_wf t" and "\<And>r. sm_ChatID (f r) = sm_ChatID r" "\<And>r. sm_Bucket (f r) = sm_Bucket r" "\<And>r. sm_Seq (f r) = sm_Seq r"
  shows "cass_wf (upsert_row (c, BucketOf s, s) f t)"
proof -
  let ?k = "(c, BucketOf s, s)"
  let ?r = "case map_of (messages_by_chat t) ?k of Some r \<Rightarrow> r | None \<Rightarrow> zero_row ?k"
  have "row_wf (?k, f ?r)"
  proof (cases "map_of (messages_by_chat t) ?k")
    case (Some r)
    then show ?thesis using assms(2-) cass_wf_rowD [OF assms(1) map_of_SomeD [OF Some]] by (simp add: row_wf_def)
  qed (simp add: row_wf_def zero_row_def assms(2-))
  then show ?thesis
    using assms(1) unfolding cass_wf_def upsert_row_def Let_def by (simp add: list_all_update distinct_update)
qed

lemma cass_wf_update:
  "cass_wf (t\<lparr>message_by_id := x\<rparr>) = cass_wf t" "cass_wf (t\<lparr>message_dedupe := y\<rparr>) = cass_wf t"
  "cass_wf (t\<lparr>messages_by_chat_buckets := z\<rparr>) = cass_wf t"
  by (simp_all add: cass_wf_def)

lemma event_columns_keys:
  "sm_ChatID (event_columns e j r) = sm_ChatID r" "sm_Bucket (event_columns e j r) = sm_Bucket r"
  "sm_Seq (event_columns e j r) = sm_Seq r"
  by (simp_all add: event_columns_def)

lemma store_ops_wf:
  assumes "cass_wf t"
  shows "cass_wf (snd (Insert down now e j t))" "cass_wf (snd (Store_SoftDelete down c s t))"
    "cass_wf (snd (Edit down c s body now t))" "cass_wf (snd (TouchBucket down c s t))"
  using assms by (simp_all add: Insert_def Store_SoftDelete_def Edit_def TouchBucket_def Let_def cass_wf_update
      upsert_row_wf event_columns_keys)

lemma empty_cass_wf: "cass_wf empty_cass"
  by (simp add: cass_wf_def empty_cass_def)

text \<open>The rows of a chat, wherever they are stored.\<close>

definition stored :: "cass \<Rightarrow> int \<Rightarrow> StoredMessage \<Rightarrow> bool" where
  "stored t c m \<longleftrightarrow> map_of (messages_by_chat t) (c, BucketOf (sm_Seq m), sm_Seq m) = Some m"

lemma partition_rows_stored:
  assumes "cass_wf t"
  shows "m \<in> set (partition_rows t c b) \<longleftrightarrow> stored t c m \<and> BucketOf (sm_Seq m) = b"
  using partition_rows_iff [OF assms] history.part_bucket [OF assms, of m c b] by (auto simp: stored_def)

lemma window_stored:
  assumes "cass_wf t"
  shows "m \<in> set (concat (map (partition_rows t c) [lo..hi])) \<longleftrightarrow>
    stored t c m \<and> lo \<le> BucketOf (sm_Seq m) \<and> BucketOf (sm_Seq m) \<le> hi"
  using partition_rows_stored [OF assms] by auto

lemma map_of_upsert_row:
  "map_of (messages_by_chat (upsert_row k f t)) =
    (map_of (messages_by_chat t))(k \<mapsto> f (case map_of (messages_by_chat t) k of Some r \<Rightarrow> r | None \<Rightarrow> zero_row k))"
  by (simp add: upsert_row_def Let_def AList.update_conv')

lemma upsert_row_twice:
  assumes "\<And>r. f (f r) = f r"
  shows "upsert_row k f (upsert_row k f t) = upsert_row k f t"
  by (simp add: upsert_row_def Let_def AList.update_conv' assms)

lemma upsert_row_other:
  "upsert_row k f (t\<lparr>message_by_id := x\<rparr>) = (upsert_row k f t)\<lparr>message_by_id := x\<rparr>"
  "upsert_row k f (t\<lparr>message_dedupe := y\<rparr>) = (upsert_row k f t)\<lparr>message_dedupe := y\<rparr>"
  "message_by_id (upsert_row k f t) = message_by_id t" "message_dedupe (upsert_row k f t) = message_dedupe t"
  "messages_by_chat_buckets (upsert_row k f t) = messages_by_chat_buckets t"
  by (simp_all add: upsert_row_def Let_def)

lemma event_columns_idem: "event_columns e j (event_columns e j r) = event_columns e j r"
  by (simp add: event_columns_def)

lemma History_window:
  assumes "cass_wf t"
  shows "\<exists>rows. sorted_wrt (\<lambda>x y. sm_Seq x < sm_Seq y) rows
    \<and> (\<forall>m. m \<in> set rows \<longleftrightarrow> stored t c m \<and> sm_Seq m < history_before before
         \<and> max 0 (BucketOf (history_before before) - 7) \<le> BucketOf (sm_Seq m))
    \<and> History (\<lambda>_. False) t c before limit = Inr (take (history_limit limit) (rev rows))"
proof -
  let ?v = "history_before before"
  let ?rows = "filter (\<lambda>m. sm_Seq m < ?v) (concat (map (partition_rows t c) [max 0 (BucketOf ?v + 1 - int 8)..BucketOf ?v]))"
  have v: "0 < ?v" by (simp add: history_before_def)
  have "BucketOf ?v * BucketSize \<le> ?v" using v by (simp add: BucketOf_nonneg BucketSize_def minus_mod_eq_div_mult [symmetric])
  then have "History (\<lambda>_. False) t c before limit = Inr (take (history_limit limit) (rev ?rows))"
    unfolding History_def Let_def maxBucketWalk_def
    by (subst history.history_walk_correct [OF assms, of _ c]) (simp_all add: select_before_def)
  moreover have "sorted_wrt (\<lambda>x y. sm_Seq x < sm_Seq y) ?rows"
    by (rule sorted_wrt_filter) (rule history.window_sorted [OF assms])
  moreover have "m \<in> set ?rows \<longleftrightarrow> stored t c m \<and> sm_Seq m < ?v \<and> max 0 (BucketOf ?v - 7) \<le> BucketOf (sm_Seq m)" for m
    using BucketOf_mono [of "sm_Seq m" ?v] window_stored [OF assms, of m c] by auto
  ultimately show ?thesis by blast
qed

text \<open>A store with messages 5 and 10005 of chat 7, in two buckets.\<close>

definition sample_event :: "int \<Rightarrow> string \<Rightarrow> MessageEvent" where
  "sample_event seq mid =
     \<lparr>ev_MessageID = mid, ev_ChatID = 7, ev_Seq = seq, ev_SenderID = 3, ev_Type = MessageText, ev_Body = ''hi'',
      ev_Encrypted = False, ev_Media = None, ev_ReplyToSeq = 0, ev_Recipients = [3, 4], ev_ClientRandomID = 0,
      ev_CreatedAt = 1000\<rparr>"

definition two_messages :: cass where
  "two_messages = snd (Insert (\<lambda>_. False) 0 (sample_event 10005 ''b'') ''{}''
     (snd (Insert (\<lambda>_. False) 0 (sample_event 5 ''a'') ''{}'' empty_cass)))"

lemma two_messages_wf: "cass_wf two_messages"
  unfolding two_messages_def by (intro store_ops_wf empty_cass_wf)

lemma Insert_rows:
  "map_of (messages_by_chat (snd (Insert (\<lambda>_. False) now e j t))) =
    (let k = (ev_ChatID e, BucketOf (ev_Seq e), ev_Seq e)
     in (map_of (messages_by_chat t))(k \<mapsto> event_columns e j
       (case map_of (messages_by_chat t) k of Some r \<Rightarrow> r | None \<Rightarrow> zero_row k)))"
  by (simp add: Insert_def Let_def map_of_upsert_row upsert_row_other)

lemma stored_two_messages: "stored two_messages 7 m \<Longrightarrow> sm_Seq m = 5 \<or> sm_Seq m = 10005"
  by (auto simp: stored_def two_messages_def Insert_rows sample_event_def empty_cass_def Let_def split: if_splits)

section \<open>Properties\<close>

text \<open>C34. A page of \<^verbatim>\<open>History\<close> is the newest messages of the chat below the cursor, newest first, among the
  eight buckets the walk may visit.\<close>

theorem History_correct:
  assumes "cass_wf t"
  shows "\<exists>rows. sorted_wrt (\<lambda>x y. sm_Seq x < sm_Seq y) rows
    \<and> (\<forall>m. m \<in> set rows \<longleftrightarrow> stored t c m \<and> sm_Seq m < history_before before
         \<and> max 0 (BucketOf (history_before before) - 7) \<le> BucketOf (sm_Seq m))
    \<and> History (\<lambda>_. False) t c before limit = Inr (take (history_limit limit) (rev rows))"
  by (rule History_window [OF assms])

theorem History_correct_witness:
  "\<exists>rows. (\<forall>m. m \<in> set rows \<longleftrightarrow> stored two_messages 7 m \<and> sm_Seq m < 20000 \<and> 0 \<le> BucketOf (sm_Seq m))
    \<and> History (\<lambda>_. False) two_messages 7 20000 1 = Inr (take 1 (rev rows))"
  using History_correct [OF two_messages_wf, of 7 20000 1]
  by (auto simp: history_before_def history_limit_def BucketOf_nonneg)

text \<open>A read that succeeds although some queries of the session fail is the read of a healthy session.\<close>

lemma range_walk_agree:
  assumes "\<And>b n rows. q b n = Inr rows \<Longrightarrow> q' b n = Inr rows"
  shows "range_walk q l b f out = Inr r \<Longrightarrow> range_walk q' l b f out = Inr r"
  using assms
proof (induction q l b f out rule: range_walk.induct)
  case (1 q l b f out)
  show ?case
  proof (cases "b \<le> f \<and> length out < l")
    case True
    with 1(2) obtain rows where q: "q b (l - length out) = Inr rows" "range_walk q l (b + 1) f (out @ rows) = Inr r"
      by (subst (asm) range_walk.simps) (auto split: sum.splits)
    from 1(1) [OF True q 1(3)] 1(3) [OF q(1)] True show ?thesis by (subst range_walk.simps) simp
  next
    case False
    then show ?thesis using 1(2) by (subst range_walk.simps) (subst (asm) range_walk.simps, auto)
  qed
qed

lemma history_walk_agree:
  assumes "\<And>b s n rows. q b s n = Inr rows \<Longrightarrow> q' b s n = Inr rows"
  shows "history_walk k q l b s out = Inr r \<Longrightarrow> history_walk k q' l b s out = Inr r"
  using assms by (induction k q l b s out rule: history_walk.induct) (auto split: if_splits sum.splits)

lemma reads_agree:
  "Range down t c from to limit = Inr rows \<Longrightarrow> Range (\<lambda>_. False) t c from to limit = Inr rows"
  "History down t c before limit = Inr rows \<Longrightarrow> History (\<lambda>_. False) t c before limit = Inr rows"
  unfolding Range_def History_def Let_def
  by (auto split: if_splits intro: range_walk_agree [rotated] history_walk_agree [rotated] simp: select_between_def select_before_def)

lemma Range_rows:
  assumes "cass_wf t"
  shows "\<exists>rows. sorted_wrt (\<lambda>x y. sm_Seq x < sm_Seq y) rows
    \<and> (\<forall>m. m \<in> set rows \<longleftrightarrow> stored t c m \<and> max 1 from \<le> sm_Seq m \<and> sm_Seq m \<le> to)
    \<and> Range (\<lambda>_. False) t c from to limit = Inr (take (range_limit limit) rows)"
proof (cases "to < max 1 from")
  case True
  then show ?thesis by (intro exI [of _ "[]"]) (auto simp: Range_def Let_def)
next
  case False
  let ?P = "\<lambda>m. max 1 from \<le> sm_Seq m \<and> sm_Seq m \<le> to"
  let ?rows = "filter ?P (concat (map (partition_rows t c) [BucketOf (max 1 from)..BucketOf to]))"
  have "(if from < 1 then 1 else from) = max 1 from" by simp
  then have "Range (\<lambda>_. False) t c from to limit = Inr (take (range_limit limit) ?rows)"
    using False unfolding Range_def Let_def
    by (subst history.range_walk_correct [OF assms, of _ ?P c]) (simp_all add: select_between_def)
  moreover have "sorted_wrt (\<lambda>x y. sm_Seq x < sm_Seq y) ?rows"
    by (rule sorted_wrt_filter) (rule history.window_sorted [OF assms])
  moreover have "m \<in> set ?rows \<longleftrightarrow> stored t c m \<and> max 1 from \<le> sm_Seq m \<and> sm_Seq m \<le> to" for m
    using BucketOf_mono [of "max 1 from" "sm_Seq m"] BucketOf_mono [of "sm_Seq m" to] window_stored [OF assms, of m c]
    by auto
  ultimately show ?thesis by blast
qed

lemma read_stored:
  assumes "cass_wf t"
  shows "Range down t c from to limit = Inr rows \<Longrightarrow> m \<in> set rows \<Longrightarrow> stored t c m \<and> from \<le> sm_Seq m \<and> sm_Seq m \<le> to"
    and "History down t c before limit = Inr rows \<Longrightarrow> m \<in> set rows \<Longrightarrow> stored t c m"
  using Range_rows [OF assms, of c "from" to limit] History_window [OF assms, of c before limit]
    reads_agree(1) [of down t c "from" to limit rows] reads_agree(2) [of down t c before limit rows]
  by (auto dest!: in_set_takeD)

lemma stored_unique: "stored t c m \<Longrightarrow> stored t c m' \<Longrightarrow> sm_Seq m = sm_Seq m' \<Longrightarrow> m = m'"
  by (simp add: stored_def)

lemma stored_chat: "cass_wf t \<Longrightarrow> stored t c m \<Longrightarrow> sm_ChatID m = c"
  unfolding stored_def by (blast dest: map_of_SomeD cass_wf_rowD)

text \<open>\<^verbatim>\<open>Range\<close> returns exactly the oldest messages of the chat between the two cursors, both included,
  oldest first, with no limit on the buckets it spans.\<close>

theorem Range_correct:
  assumes "cass_wf t"
  shows "\<exists>rows. sorted_wrt (\<lambda>x y. sm_Seq x < sm_Seq y) rows
    \<and> (\<forall>m. m \<in> set rows \<longleftrightarrow> stored t c m \<and> max 1 from \<le> sm_Seq m \<and> sm_Seq m \<le> to)
    \<and> Range (\<lambda>_. False) t c from to limit = Inr (take (range_limit limit) rows)"
  using assms by (rule Range_rows)

theorem Range_correct_witness:
  "\<exists>rows. (\<forall>m. m \<in> set rows \<longleftrightarrow> stored two_messages 7 m \<and> 5 \<le> sm_Seq m \<and> sm_Seq m \<le> 20000)
    \<and> Range (\<lambda>_. False) two_messages 7 5 20000 1 = Inr (take 1 rows)"
  using Range_correct [OF two_messages_wf, of 7 5 20000 1] by (auto simp: range_limit_def)

text \<open>Without a cursor \<^verbatim>\<open>History\<close> starts at bucket \<open>2^62 / 10000\<close> and gives up after eight buckets, so
  the first page of any chat with fewer than four quintillion messages is empty.\<close>

theorem History_newest_page_empty:
  assumes "cass_wf t" and "before \<le> 0" and "\<And>m. stored t c m \<Longrightarrow> sm_Seq m < 4 * 10 ^ 18"
  shows "History (\<lambda>_. False) t c before limit = Inr []"
proof -
  obtain rows where rows: "\<And>m. m \<in> set rows \<longleftrightarrow> stored t c m \<and> sm_Seq m < history_before before
      \<and> max 0 (BucketOf (history_before before) - 7) \<le> BucketOf (sm_Seq m)"
    and h: "History (\<lambda>_. False) t c before limit = Inr (take (history_limit limit) (rev rows))"
    using History_window [OF assms(1)] by blast
  have "m \<notin> set rows" for m
  proof
    assume "m \<in> set rows"
    then have "stored t c m" and "BucketOf (2 ^ 62) - 7 \<le> BucketOf (sm_Seq m)"
      using rows assms(2) by (auto simp: history_before_def)
    moreover have "BucketOf (sm_Seq m) \<le> BucketOf (4 * 10 ^ 18)"
      using assms(3) [OF \<open>stored t c m\<close>] by (intro BucketOf_mono) simp
    ultimately show False by (simp add: BucketOf_nonneg)
  qed
  then have "rows = []" by (cases rows) auto
  with h show ?thesis by simp
qed

theorem History_newest_page_empty_witness:
  "stored two_messages 7 (the (map_of (messages_by_chat two_messages) (7, 0, 5)))
    \<and> History (\<lambda>_. False) two_messages 7 0 50 = Inr []"
proof -
  have "sm_Seq m < 4 * 10 ^ 18" if "stored two_messages 7 m" for m using stored_two_messages [OF that] by auto
  then have "History (\<lambda>_. False) two_messages 7 0 50 = Inr []"
    by (intro History_newest_page_empty two_messages_wf) simp_all
  moreover have "stored two_messages 7 (the (map_of (messages_by_chat two_messages) (7, 0, 5)))"
    by (simp add: stored_def two_messages_def Insert_rows sample_event_def empty_cass_def event_columns_def zero_row_def
        BucketOf_nonneg)
  ultimately show ?thesis by simp
qed

text \<open>Persisting is safe to retry: when an insert fails after any of its statements, running it again
  gives exactly the store a single successful run would have given.\<close>

theorem Insert_retry:
  "Insert (\<lambda>_. False) now e j (snd (Insert down earlier e j t)) = Insert (\<lambda>_. False) now e j t"
  by (simp add: Insert_def Let_def upsert_row_other upsert_row_twice event_columns_idem AList.update_last)

text \<open>But a redelivered insert is not a no-op: it writes \<^verbatim>\<open>deleted = false\<close> and the body again, so a
  message deleted between the first delivery and the second is visible again with its text.\<close>

theorem Insert_replay_undeletes:
  "\<exists>m. GetByID (\<lambda>_. False)
      (snd (Insert (\<lambda>_. False) later e j
        (snd (Store_SoftDelete (\<lambda>_. False) (ev_ChatID e) (ev_Seq e) (snd (Insert (\<lambda>_. False) now e j t))))))
      (ev_MessageID e) = Inr m \<and> \<not> sm_Deleted m \<and> sm_Body m = ev_Body e"
  by (simp add: GetByID_def Insert_def Store_SoftDelete_def Let_def upsert_row_other map_of_upsert_row AList.update_conv'
      event_columns_def)

section \<open>The bucket index\<close>

definition indexed :: "cass \<Rightarrow> int \<Rightarrow> bool" where
  "indexed t c \<longleftrightarrow> (\<forall>b. (c, b) \<in> set (messages_by_chat_buckets t) \<longleftrightarrow> partition_rows t c b \<noteq> [])"

lemma partition_nonempty: "partition_rows t c b \<noteq> [] \<longleftrightarrow> (\<exists>s. map_of (messages_by_chat t) (c, b, s) \<noteq> None)"
proof -
  have "partition_rows t c b \<noteq> [] \<longleftrightarrow> (\<exists>s. (c, b, s) \<in> fst ` set (messages_by_chat t))"
    unfolding partition_rows_def set_empty [symmetric] set_sort set_map by force
  then show ?thesis by (simp add: dom_map_of_conv_image_fst [symmetric] dom_def)
qed

lemma indexed_persist:
  assumes "indexed t c"
  shows "indexed (snd (TouchBucket (\<lambda>_. False) (ev_ChatID e) (ev_Seq e) (snd (Insert (\<lambda>_. False) now e j t)))) c"
proof -
  have "messages_by_chat_buckets (snd (Insert (\<lambda>_. False) now e j t)) = messages_by_chat_buckets t"
    by (simp add: Insert_def Let_def upsert_row_other)
  moreover have "partition_rows (t\<lparr>messages_by_chat_buckets := x\<rparr>) = partition_rows t" for t x
    by (simp add: partition_rows_def fun_eq_iff)
  ultimately show ?thesis
    using assms unfolding indexed_def TouchBucket_def partition_nonempty Insert_rows
    by (auto simp: partition_nonempty Insert_rows Let_def)
qed

lemma rev_sorted_head:
  assumes "rev xs = y # ys" and "sorted_wrt R xs" and "\<And>x. R x x"
  shows "y \<in> set xs" "\<And>x. x \<in> set xs \<Longrightarrow> R x y"
proof -
  have xs: "xs = rev ys @ [y]" using assms(1) by (simp add: rev_swap)
  show "y \<in> set xs" by (simp add: xs)
  fix x assume "x \<in> set xs"
  then show "R x y" using assms(2,3) by (auto simp: xs sorted_wrt_append)
qed

text \<open>\<^verbatim>\<open>MaxSeq\<close> is the highest sequence stored for the chat, or 0 for an empty one, as long as the bucket
  index lists exactly the chat's non-empty buckets.\<close>

theorem MaxSeq_correct:
  assumes "cass_wf t" and "indexed t c"
  shows "\<exists>n. MaxSeq (\<lambda>_. False) t c = Inr n \<and> (\<forall>m. stored t c m \<longrightarrow> sm_Seq m \<le> n)
    \<and> (n = 0 \<or> (\<exists>m. stored t c m \<and> sm_Seq m = n))"
proof -
  let ?bs = "map snd (filter (\<lambda>(c', _). c' = c) (messages_by_chat_buckets t))"
  have bs: "b \<in> set ?bs \<longleftrightarrow> partition_rows t c b \<noteq> []" for b
  proof -
    have "b \<in> set ?bs \<longleftrightarrow> (c, b) \<in> set (messages_by_chat_buckets t)" by force
    then show ?thesis using assms(2) by (simp add: indexed_def)
  qed
  show ?thesis
  proof (cases "rev (sort ?bs)")
    case Nil
    then have "set ?bs = {}" by (metis rev_is_Nil_conv set_empty set_sort)
    then have "partition_rows t c b = []" for b using bs [of b] by (metis empty_iff)
    then have "\<not> stored t c m" for m using partition_rows_stored [OF assms(1), of m c] by force
    then show ?thesis using Nil by (simp add: MaxSeq_def)
  next
    case (Cons b xs)
    have top: "b \<in> set ?bs" "\<And>b'. b' \<in> set ?bs \<Longrightarrow> b' \<le> b"
      using rev_sorted_head [OF Cons sorted_sort] by simp_all
    from top(1) obtain m ms where r: "rev (partition_rows t c b) = m # ms"
      using bs by (metis list.exhaust rev_is_Nil_conv)
    have srt: "sorted_wrt (\<lambda>x y. sm_Seq x \<le> sm_Seq y) (partition_rows t c b)"
      using partition_rows_sorted [OF assms(1)] by (rule sorted_wrt_mono_rel [rotated]) simp
    have m: "stored t c m" "BucketOf (sm_Seq m) = b"
      using rev_sorted_head(1) [OF r srt] partition_rows_stored [OF assms(1)] by auto
    have "sm_Seq m' \<le> sm_Seq m" if "stored t c m'" for m'
    proof (cases "BucketOf (sm_Seq m') = b")
      case True
      then show ?thesis using rev_sorted_head(2) [OF r srt] that partition_rows_stored [OF assms(1)] by auto
    next
      case False
      have "partition_rows t c (BucketOf (sm_Seq m')) \<noteq> []"
        using that partition_rows_stored [OF assms(1), of m' c "BucketOf (sm_Seq m')"] by auto
      then have "BucketOf (sm_Seq m') < BucketOf (sm_Seq m)" using top(2) bs False m(2) by force
      then show ?thesis using less_of_BucketOf_less by fastforce
    qed
    then show ?thesis using Cons r m(1) by (intro exI [of _ "sm_Seq m"]) (auto simp: MaxSeq_def)
  qed
qed

theorem MaxSeq_correct_witness: "\<exists>n. MaxSeq (\<lambda>_. False) empty_cass 7 = Inr n \<and> (\<forall>m. stored empty_cass 7 m \<longrightarrow> sm_Seq m \<le> n)"
  using MaxSeq_correct [OF empty_cass_wf, of 7] by (auto simp: indexed_def empty_cass_def partition_rows_def)

end
