(* ===== verification/Redis_Store.thy ===== *)
theory Redis_Store
  imports Tables
begin

text \<open>
  The Redis-backed state of \<^verbatim>\<open>pkg/redisx\<close>: the per-chat sequence allocator and the membership cache of
  \<^verbatim>\<open>redis.go\<close>, and the ban flags of \<^verbatim>\<open>bans.go\<close>.  A key with a time to live is stored with the time it
  expires at; \<open>down\<close> says whether a command of the call fails.
\<close>

section \<open>Sequence allocation\<close>

text \<open>The keys of one chat: the counter and the reseed lock.\<close>

record seq_keys =
  sk_counter :: "int option"
  sk_lock :: bool

datatype seq_cmd = CmdIncr | CmdSetNX | CmdIncrAfterWait | CmdSet | CmdIncrAfterReseed | CmdGet

datatype redis_error = ErrSeqCommand seq_cmd | ErrReseedLookup | ErrCancelled | ErrRedis

definition incr :: "seq_keys \<Rightarrow> int \<times> seq_keys" where
  "incr s = (let n = (case sk_counter s of None \<Rightarrow> 1 | Some k \<Rightarrow> k + 1) in (n, s\<lparr>sk_counter := Some n\<rparr>))"

definition reseedHeadroom :: int where "reseedHeadroom = 100"

text \<open>\<^verbatim>\<open>SeqAllocator.Next\<close> run alone.  \<open>fallback\<close> is the allocator's hook (\<open>None\<close> when it is nil), with its
  answer; \<open>cancelled\<close> says that the caller's context ends during the wait for another reseeder, and
  \<open>between\<close> is what other clients do to the keys during it.\<close>

definition SeqAllocator_Next ::
  "(seq_cmd \<Rightarrow> bool) \<Rightarrow> ('e + int) option \<Rightarrow> bool \<Rightarrow> (seq_keys \<Rightarrow> seq_keys) \<Rightarrow> seq_keys \<Rightarrow> (redis_error + int) \<times> seq_keys" where
  "SeqAllocator_Next down fallback cancelled between s0 =
     (if down CmdIncr then (Inl (ErrSeqCommand CmdIncr), s0)
      else
        let (n, s1) = incr s0
        in if 1 < n then (Inr n, s1)
           else case fallback of
             None \<Rightarrow> (Inr n, s1)
           | Some answer \<Rightarrow>
               if down CmdSetNX then (Inl (ErrSeqCommand CmdSetNX), s1)
               else if sk_lock s1 then
                 (if cancelled then (Inl ErrCancelled, s1)
                  else
                    let s2 = between s1
                    in if down CmdIncrAfterWait then (Inl (ErrSeqCommand CmdIncrAfterWait), s2)
                       else let (m, s3) = incr s2 in (Inr m, s3))
               else
                 let s2 = s1\<lparr>sk_lock := True\<rparr>; unlock = (\<lambda>s. s\<lparr>sk_lock := False\<rparr>)
                 in case answer of
                   Inl _ \<Rightarrow> (Inl ErrReseedLookup, unlock s2)
                 | Inr maxSeq \<Rightarrow>
                     if maxSeq < 1 then (Inr 1, unlock s2)
                     else if down CmdSet then (Inl (ErrSeqCommand CmdSet), unlock s2)
                     else
                       let s3 = s2\<lparr>sk_counter := Some (maxSeq + reseedHeadroom)\<rparr>
                       in if down CmdIncrAfterReseed then (Inl (ErrSeqCommand CmdIncrAfterReseed), unlock s3)
                          else let (m, s4) = incr s3 in (Inr m, unlock s4))"

definition SeqAllocator_Current :: "(seq_cmd \<Rightarrow> bool) \<Rightarrow> seq_keys \<Rightarrow> redis_error + int" where
  "SeqAllocator_Current down s =
     (if down CmdGet then Inl (ErrSeqCommand CmdGet)
      else Inr (case sk_counter s of None \<Rightarrow> 0 | Some n \<Rightarrow> n))"

text \<open>The same code as steps of concurrent callers: each Redis command is one atomic step, and between
  two commands any other caller may run.  \<open>durable\<close> is what \<^verbatim>\<open>Fallback\<close> answers.\<close>

datatype pc = Idle | GotOne | Waiting | Reseeding | Seeding int | Seeded | Returned int | Failed

record seq_state =
  ss_keys :: seq_keys
  ss_pc :: "nat \<Rightarrow> pc"

inductive seq_step :: "int option \<Rightarrow> seq_state \<Rightarrow> int option \<Rightarrow> seq_state \<Rightarrow> bool" for durable where
  first_incr: "ss_pc s p = Idle \<Longrightarrow> incr (ss_keys s) = (n, k) \<Longrightarrow> 1 < n \<Longrightarrow>
    seq_step durable s (Some n) (s\<lparr>ss_keys := k, ss_pc := (ss_pc s)(p := Returned n)\<rparr>)"
| cold_incr: "ss_pc s p = Idle \<Longrightarrow> incr (ss_keys s) = (n, k) \<Longrightarrow> \<not> 1 < n \<Longrightarrow>
    seq_step durable s None (s\<lparr>ss_keys := k, ss_pc := (ss_pc s)(p := GotOne)\<rparr>)"
| lock_busy: "ss_pc s p = GotOne \<Longrightarrow> sk_lock (ss_keys s) \<Longrightarrow>
    seq_step durable s None (s\<lparr>ss_pc := (ss_pc s)(p := Waiting)\<rparr>)"
| lock_taken: "ss_pc s p = GotOne \<Longrightarrow> \<not> sk_lock (ss_keys s) \<Longrightarrow>
    seq_step durable s None (s\<lparr>ss_keys := (ss_keys s)\<lparr>sk_lock := True\<rparr>, ss_pc := (ss_pc s)(p := Reseeding)\<rparr>)"
| wait_incr: "ss_pc s p = Waiting \<Longrightarrow> incr (ss_keys s) = (n, k) \<Longrightarrow>
    seq_step durable s (Some n) (s\<lparr>ss_keys := k, ss_pc := (ss_pc s)(p := Returned n)\<rparr>)"
| lookup_failed: "ss_pc s p = Reseeding \<Longrightarrow> durable = None \<Longrightarrow>
    seq_step durable s None (s\<lparr>ss_keys := (ss_keys s)\<lparr>sk_lock := False\<rparr>, ss_pc := (ss_pc s)(p := Failed)\<rparr>)"
| lookup_empty: "ss_pc s p = Reseeding \<Longrightarrow> durable = Some m \<Longrightarrow> m < 1 \<Longrightarrow>
    seq_step durable s (Some 1) (s\<lparr>ss_keys := (ss_keys s)\<lparr>sk_lock := False\<rparr>, ss_pc := (ss_pc s)(p := Returned 1)\<rparr>)"
| lookup_max: "ss_pc s p = Reseeding \<Longrightarrow> durable = Some m \<Longrightarrow> \<not> m < 1 \<Longrightarrow>
    seq_step durable s None (s\<lparr>ss_pc := (ss_pc s)(p := Seeding m)\<rparr>)"
| reseed_set: "ss_pc s p = Seeding m \<Longrightarrow>
    seq_step durable s None
      (s\<lparr>ss_keys := (ss_keys s)\<lparr>sk_counter := Some (m + reseedHeadroom)\<rparr>, ss_pc := (ss_pc s)(p := Seeded)\<rparr>)"
| reseed_incr: "ss_pc s p = Seeded \<Longrightarrow> incr (ss_keys s) = (n, k) \<Longrightarrow>
    seq_step durable s (Some n) (s\<lparr>ss_keys := k\<lparr>sk_lock := False\<rparr>, ss_pc := (ss_pc s)(p := Returned n)\<rparr>)"
| lock_expires: "seq_step durable s None (s\<lparr>ss_keys := (ss_keys s)\<lparr>sk_lock := False\<rparr>\<rparr>)"

inductive_cases seq_stepE: "seq_step durable s l s'"

text \<open>Runs, with the sequence numbers returned so far, oldest first.\<close>

inductive seq_run :: "int option \<Rightarrow> seq_state \<Rightarrow> int list \<Rightarrow> seq_state \<Rightarrow> bool" for durable s where
  run_start: "seq_run durable s [] s"
| run_quiet: "seq_run durable s log s' \<Longrightarrow> seq_step durable s' None s'' \<Longrightarrow> seq_run durable s log s''"
| run_return: "seq_run durable s log s' \<Longrightarrow> seq_step durable s' (Some n) s'' \<Longrightarrow> seq_run durable s (log @ [n]) s''"

definition all_idle :: "int option \<Rightarrow> seq_state" where
  "all_idle counter = \<lparr>ss_keys = \<lparr>sk_counter = counter, sk_lock = False\<rparr>, ss_pc = (\<lambda>_. Idle)\<rparr>"

section \<open>The membership cache\<close>

type_synonym members_cache = "(int \<times> (int list \<times> int)) list"

definition live_members :: "int \<Rightarrow> int \<Rightarrow> members_cache \<Rightarrow> int list option" where
  "live_members now chatID c =
     (case map_of c chatID of None \<Rightarrow> None | Some (ms, expires) \<Rightarrow> if now < expires then Some ms else None)"

definition Members_ttl :: "int \<Rightarrow> int" where
  "Members_ttl ttl = (if ttl = 0 then 300000 else ttl)"

definition MembersCache_Get :: "bool \<Rightarrow> int \<Rightarrow> int \<Rightarrow> members_cache \<Rightarrow> redis_error + int list" where
  "MembersCache_Get down now chatID c =
     (if down then Inl ErrRedis else Inr (case live_members now chatID c of None \<Rightarrow> [] | Some ms \<Rightarrow> ms))"

definition MembersCache_Set ::
  "bool \<Rightarrow> int \<Rightarrow> int \<Rightarrow> int \<Rightarrow> int list \<Rightarrow> members_cache \<Rightarrow> (redis_error + unit) \<times> members_cache" where
  "MembersCache_Set down ttl now chatID members c =
     (if down then (Inl ErrRedis, c)
      else
        let c' = AList.delete chatID c
        in (Inr (), if members = [] then c' else AList.update chatID (remdups members, now + ttl) c'))"

definition Invalidate :: "bool \<Rightarrow> int \<Rightarrow> members_cache \<Rightarrow> (redis_error + unit) \<times> members_cache" where
  "Invalidate down chatID c = (if down then (Inl ErrRedis, c) else (Inr (), AList.delete chatID c))"

text \<open>\<^verbatim>\<open>IsMember\<close> answers membership and whether the roster was cached at all.\<close>

definition IsMember :: "bool \<Rightarrow> bool \<Rightarrow> int \<Rightarrow> int \<Rightarrow> int \<Rightarrow> members_cache \<Rightarrow> redis_error + (bool \<times> bool)" where
  "IsMember down1 down2 now chatID userID c =
     (if down1 then Inl ErrRedis
      else case live_members now chatID c of
        None \<Rightarrow> Inr (False, False)
      | Some ms \<Rightarrow> if down2 then Inl ErrRedis else Inr (userID \<in> set ms, True))"

section \<open>Ban flags\<close>

type_synonym bans = "(int \<times> (string \<times> int)) list"

definition Bans_ttl :: "int \<Rightarrow> int" where
  "Bans_ttl ttl = (if ttl = 0 then 86400000 else ttl)"

definition IsBanned :: "bool \<Rightarrow> int \<Rightarrow> int \<Rightarrow> bans \<Rightarrow> redis_error + bool" where
  "IsBanned down now userID b =
     (if down then Inl ErrRedis
      else Inr (case map_of b userID of None \<Rightarrow> False | Some (_, expires) \<Rightarrow> now < expires))"

definition Bans_Set :: "bool \<Rightarrow> int \<Rightarrow> int \<Rightarrow> int \<Rightarrow> string \<Rightarrow> bans \<Rightarrow> (redis_error + unit) \<times> bans" where
  "Bans_Set down ttl now userID reason b =
     (if down then (Inl ErrRedis, b) else (Inr (), AList.update userID (reason, now + ttl) b))"

definition Bans_Clear :: "bool \<Rightarrow> int \<Rightarrow> bans \<Rightarrow> (redis_error + unit) \<times> bans" where
  "Bans_Clear down userID b = (if down then (Inl ErrRedis, b) else (Inr (), AList.delete userID b))"

definition Bans_Reload :: "bool \<Rightarrow> int \<Rightarrow> int \<Rightarrow> (int \<times> string) list \<Rightarrow> bans \<Rightarrow> (redis_error + unit) \<times> bans" where
  "Bans_Reload down ttl now banned b =
     (if banned = [] then (Inr (), b)
      else if down then (Inl ErrRedis, b)
      else (Inr (), fold (\<lambda>(uid, reason). AList.update uid (reason, now + ttl)) banned b))"

section \<open>Lemmas\<close>

lemma incr_cases:
  "incr s = (n, k) \<longleftrightarrow> n = (case sk_counter s of None \<Rightarrow> 1 | Some c \<Rightarrow> c + 1) \<and> k = s\<lparr>sk_counter := Some n\<rparr>"
  by (auto simp: incr_def Let_def)

lemma live_after_Set:
  "0 < ttl \<Longrightarrow> members \<noteq> [] \<Longrightarrow>
    live_members now chatID (snd (MembersCache_Set False ttl now chatID members c)) = Some (remdups members)"
  by (simp add: live_members_def MembersCache_Set_def Let_def AList.update_conv')

lemma live_after_Invalidate:
  "live_members now chatID' (snd (Invalidate False chatID c)) =
    (if chatID' = chatID then None else live_members now chatID' c)"
  by (simp add: live_members_def Invalidate_def AList.delete_conv')

fun settled :: "pc \<Rightarrow> bool" where
  "settled Idle = True"
| "settled (Returned n) = True"
| "settled _ = False"

lemma settled_not:
  "\<forall>p. settled (f p) \<Longrightarrow> f p \<noteq> GotOne \<and> f p \<noteq> Waiting \<and> f p \<noteq> Reseeding \<and> f p \<noteq> Seeding m \<and> f p \<noteq> Seeded"
  by (metis settled.simps(3-7))

lemma warm_step:
  assumes "seq_step durable s l s'" and "sk_counter (ss_keys s) = Some c" and "1 \<le> c" and "\<forall>p. settled (ss_pc s p)"
  shows "(\<forall>p. settled (ss_pc s' p)) \<and>
    (case l of None \<Rightarrow> sk_counter (ss_keys s') = Some c | Some n \<Rightarrow> n = c + 1 \<and> sk_counter (ss_keys s') = Some n)"
  using assms(1)
proof (cases rule: seq_step.cases)
  case (first_incr p n k)
  then show ?thesis using assms(2-4) by (simp add: incr_cases)
next
  case (cold_incr p n k)
  then show ?thesis using assms(2,3) by (simp add: incr_cases)
next
  case lock_expires
  then show ?thesis using assms(2,4) by simp
qed (use settled_not [OF assms(4)] in blast)+

lemma warm_run:
  assumes "seq_run durable (all_idle (Some k)) log s" and "1 \<le> k"
  shows "sk_counter (ss_keys s) = Some (k + int (length log)) \<and> (\<forall>p. settled (ss_pc s p))"
    "log = [k + 1..k + int (length log)]"
  using assms(1)
proof (induction rule: seq_run.induct)
  case run_start
  { case 1 show ?case by (simp add: all_idle_def) }
  { case 2 show ?case by simp }
next
  case (run_quiet log s' s'')
  { case 1 show ?case using warm_step [OF run_quiet.hyps(2)] run_quiet.IH(1) assms(2) by auto }
  { case 2 show ?case by (rule run_quiet.IH(2)) }
next
  case (run_return log s' n s'')
  have n: "n = k + int (length log) + 1" "sk_counter (ss_keys s'') = Some n" "\<forall>p. settled (ss_pc s'' p)"
    using warm_step [OF run_return.hyps(2)] run_return.IH(1) assms(2) by auto
  { case 1 show ?case using n by simp }
  { case 2
    have "[k + 1..k + int (length log) + 1] = [k + 1..k + int (length log)] @ [k + int (length log) + 1]"
      by (simp add: upto_rec2)
    then show ?case using n(1) run_return.IH(2) by (simp add: add.commute add.left_commute) }
qed

section \<open>Properties\<close>

text \<open>While the counter is in Redis the sequence is dense under any interleaving of callers: the
  numbers returned, in order, are exactly the consecutive numbers after the counter's first value.\<close>

theorem warm_sequence_dense:
  assumes "seq_run durable (all_idle (Some k)) log s" and "1 \<le> k"
  shows "log = [k + 1..k + int (length log)]"
  by (rule warm_run(2) [OF assms])

theorem warm_sequence_dense_witness:
  "\<exists>log s. seq_run (Some 0) (all_idle (Some 6)) log s \<and> log = [7..8]"
proof -
  let ?i = "all_idle (Some 6)"
  let ?s1 = "?i\<lparr>ss_keys := \<lparr>sk_counter = Some 7, sk_lock = False\<rparr>, ss_pc := (ss_pc ?i)(0 := Returned 7)\<rparr>"
  let ?s2 = "?s1\<lparr>ss_keys := \<lparr>sk_counter = Some 8, sk_lock = False\<rparr>, ss_pc := (ss_pc ?s1)(1 := Returned 8)\<rparr>"
  have "seq_step (Some 0) ?i (Some 7) ?s1" by (rule first_incr [of _ 0]) (simp_all add: all_idle_def incr_def)
  moreover have "seq_step (Some 0) ?s1 (Some 8) ?s2" by (rule first_incr [of _ 1]) (simp_all add: all_idle_def incr_def)
  ultimately have r: "seq_run (Some 0) ?i ([] @ [7] @ [8]) ?s2"
    using run_return [OF run_return [OF run_start]] by (metis append.assoc)
  show ?thesis using warm_sequence_dense [OF r] r by fastforce
qed

text \<open>On a cold key a caller running alone reseeds: the number it returns is past everything durable,
  and so is the counter it leaves.\<close>

theorem cold_Next_past_durable:
  assumes "sk_counter s = None" and "\<not> sk_lock s" and "\<forall>c. \<not> down c"
  shows "SeqAllocator_Next down (Some (Inr m :: 'e + int)) cancelled between s =
    (if m < 1 then (Inr 1, s\<lparr>sk_counter := Some 1, sk_lock := False\<rparr>)
     else (Inr (m + 101), s\<lparr>sk_counter := Some (m + 101), sk_lock := False\<rparr>))"
  using assms by (simp add: SeqAllocator_Next_def incr_def Let_def reseedHeadroom_def)

theorem cold_Next_past_durable_witness:
  "SeqAllocator_Next (\<lambda>_. False) (Some (Inr 500 :: unit + int)) False id \<lparr>sk_counter = None, sk_lock = False\<rparr>
    = (Inr 601, \<lparr>sk_counter = Some 601, sk_lock = False\<rparr>)"
  by (subst cold_Next_past_durable) simp_all

text \<open>C35. The guard does not hold under concurrency: after the key is lost, a second caller whose
  \<^verbatim>\<open>INCR\<close> comes before the first caller's reseed is given 2, whatever is stored durably.\<close>

theorem cold_key_race_reuses_two:
  "\<exists>s. seq_run (Some durable) (all_idle None) [2] s"
proof -
  let ?i = "all_idle None"
  let ?s1 = "?i\<lparr>ss_keys := \<lparr>sk_counter = Some 1, sk_lock = False\<rparr>, ss_pc := (ss_pc ?i)(0 := GotOne)\<rparr>"
  let ?s2 = "?s1\<lparr>ss_keys := \<lparr>sk_counter = Some 2, sk_lock = False\<rparr>, ss_pc := (ss_pc ?s1)(1 := Returned 2)\<rparr>"
  have "seq_step (Some durable) ?i None ?s1" by (rule cold_incr [where p = 0 and n = 1]) (simp_all add: all_idle_def incr_def)
  moreover have "seq_step (Some durable) ?s1 (Some 2) ?s2" by (rule first_incr [of _ 1]) (simp_all add: all_idle_def incr_def)
  ultimately have "seq_run (Some durable) ?i ([] @ [2]) ?s2" by (meson run_start run_quiet run_return)
  then show ?thesis by auto
qed

text \<open>The membership cache answers with the roster last stored until it expires or is invalidated,
  and a miss is never reported as a denial.\<close>

theorem members_cache_round_trip:
  assumes "0 < ttl" and "ms \<noteq> []"
  shows "IsMember False False now c u (snd (MembersCache_Set False ttl now c ms cache)) = Inr (u \<in> set ms, True)
    \<and> IsMember False False later c u (snd (Invalidate False c (snd (MembersCache_Set False ttl now c ms cache))))
        = Inr (False, False)
    \<and> (now + ttl \<le> later \<longrightarrow>
        IsMember False False later c u (snd (MembersCache_Set False ttl now c ms cache)) = Inr (False, False))"
  using assms
  by (simp add: IsMember_def live_after_Set live_after_Invalidate)
    (simp add: live_members_def MembersCache_Set_def Let_def AList.update_conv')

theorem members_cache_round_trip_witness:
  "IsMember False False 0 9 4 (snd (MembersCache_Set False 300000 0 9 [3, 4] [])) = Inr (True, True)"
  using members_cache_round_trip [of 300000 "[3, 4]" 0 9 4 "[]" 0] by simp

text \<open>A ban flag holds from the moment it is set until its backstop expiry, clearing it lifts it at
  once, and reloading from the authoritative list never lifts one.\<close>

theorem ban_flag:
  assumes "0 < ttl"
  shows "IsBanned False now u (snd (Bans_Set False ttl now u reason b)) = Inr True
    \<and> IsBanned False later u (snd (Bans_Clear False u b)) = Inr False
    \<and> (IsBanned False now u b = Inr True \<longrightarrow> IsBanned False now u (snd (Bans_Reload False ttl now banned b)) = Inr True)"
proof -
  have "IsBanned False now u (fold (\<lambda>(uid, r). AList.update uid (r, now + ttl)) banned b) = Inr True"
    if "IsBanned False now u b = Inr True"
    using that
    by (induction banned arbitrary: b) (use assms in \<open>auto simp: IsBanned_def AList.update_conv' split: if_splits\<close>)
  then show ?thesis
    using assms by (simp add: Bans_Set_def Bans_Clear_def Bans_Reload_def IsBanned_def AList.update_conv' AList.delete_conv')
qed

theorem ban_flag_witness: "IsBanned False 10 5 (snd (Bans_Set False 86400000 10 5 ''spam'' [])) = Inr True"
  using ban_flag [of 86400000 10 5 "''spam''" "[]"] by simp

end
