(* ===== verification/Rate_Limit.thy ===== *)
theory Rate_Limit
  imports Tables Complex_Main
begin

text \<open>
  The token-bucket limiter, \<^verbatim>\<open>pkg/ratelimit/ratelimit.go\<close>: the Lua script, the Go code around it and the
  platform's limits.  The script computes in IEEE doubles and Redis stores the token count as decimal
  text; here the token count is an exact rational.
\<close>

section \<open>The script\<close>

record bucket =
  bk_tokens :: rat
  bk_ts :: int

definition refill :: "rat \<Rightarrow> rat \<Rightarrow> int \<Rightarrow> bucket \<Rightarrow> rat" where
  "refill capacity rate now b = min capacity (bk_tokens b + of_int (max 0 (now - bk_ts b)) / 1000 * rate)"

text \<open>\<^verbatim>\<open>tokenBucket\<close>: the bucket is missing the first time.  The result is whether the request is allowed,
  the tokens left and the time to wait in milliseconds.\<close>

definition token_bucket :: "rat \<Rightarrow> rat \<Rightarrow> int \<Rightarrow> rat \<Rightarrow> bucket option \<Rightarrow> (bool \<times> int \<times> int) \<times> bucket" where
  "token_bucket capacity rate now requested state =
     (let b = (case state of None \<Rightarrow> \<lparr>bk_tokens = capacity, bk_ts = now\<rparr> | Some b \<Rightarrow> b);
          tokens = refill capacity rate now b
      in if requested \<le> tokens
         then ((True, \<lfloor>tokens - requested\<rfloor>, 0), \<lparr>bk_tokens = tokens - requested, bk_ts = now\<rparr>)
         else ((False, \<lfloor>tokens\<rfloor>, \<lceil>(requested - tokens) / rate * 1000\<rceil>), \<lparr>bk_tokens = tokens, bk_ts = now\<rparr>))"

section \<open>The limiter\<close>

record Limit =
  lim_Burst :: int
  lim_Rate :: rat

record Decision =
  Allowed :: bool
  Remaining :: int
  RetryAfterMS :: int

datatype limit_error = ErrEvaluate string

type_synonym buckets = "(string \<times> (bucket \<times> int)) list"

definition live_bucket :: "int \<Rightarrow> string \<Rightarrow> buckets \<Rightarrow> bucket option" where
  "live_bucket now key s = (case map_of s key of Some (b, expires) \<Rightarrow> if now < expires then Some b else None | None \<Rightarrow> None)"

definition bucket_ttl :: "Limit \<Rightarrow> int" where
  "bucket_ttl lm = \<lfloor>of_int (lim_Burst lm) / lim_Rate lm\<rfloor> + 60"

definition redis_key :: "string \<Rightarrow> string" where
  "redis_key key = ''rl:{'' @ key @ ''}''"

definition AllowN ::
  "bool \<Rightarrow> bool \<Rightarrow> int \<Rightarrow> string \<Rightarrow> Limit \<Rightarrow> int \<Rightarrow> buckets \<Rightarrow> Decision \<times> limit_error option \<times> buckets" where
  "AllowN failOpen down now key lm n s =
     (if lim_Burst lm \<le> 0 \<or> lim_Rate lm \<le> 0 then (\<lparr>Allowed = True, Remaining = 0, RetryAfterMS = 0\<rparr>, None, s)
      else if down then
        (if failOpen then (\<lparr>Allowed = True, Remaining = 0, RetryAfterMS = 0\<rparr>, None, s)
         else (\<lparr>Allowed = False, Remaining = 0, RetryAfterMS = 1000\<rparr>, Some (ErrEvaluate key), s))
      else
        let ((ok, left, wait), b) =
          token_bucket (of_int (lim_Burst lm)) (lim_Rate lm) now (of_int n) (live_bucket now (redis_key key) s)
        in (\<lparr>Allowed = ok, Remaining = left, RetryAfterMS = wait\<rparr>, None,
            AList.update (redis_key key) (b, now + bucket_ttl lm * 1000) s))"

definition Allow :: "bool \<Rightarrow> bool \<Rightarrow> int \<Rightarrow> string \<Rightarrow> Limit \<Rightarrow> buckets \<Rightarrow> Decision \<times> limit_error option \<times> buckets" where
  "Allow failOpen down now key lm s = AllowN failOpen down now key lm 1 s"

definition Limiter_Reset :: "bool \<Rightarrow> string \<Rightarrow> buckets \<Rightarrow> limit_error option \<times> buckets" where
  "Limiter_Reset down key s =
     (if down then (Some (ErrEvaluate key), s) else (None, AList.delete (redis_key key) s))"

definition SendMessage :: Limit where "SendMessage = \<lparr>lim_Burst = 30, lim_Rate = 5\<rparr>"
definition SendMessagePerChat :: Limit where "SendMessagePerChat = \<lparr>lim_Burst = 20, lim_Rate = 3\<rparr>"
definition OTPRequestPerPhone :: Limit where "OTPRequestPerPhone = \<lparr>lim_Burst = 3, lim_Rate = 1 / 300\<rparr>"
definition OTPRequestPerIP :: Limit where "OTPRequestPerIP = \<lparr>lim_Burst = 10, lim_Rate = 1 / 60\<rparr>"
definition OTPVerifyPerPhone :: Limit where "OTPVerifyPerPhone = \<lparr>lim_Burst = 5, lim_Rate = 1 / 60\<rparr>"
definition LoginPerIP :: Limit where "LoginPerIP = \<lparr>lim_Burst = 20, lim_Rate = 1 / 10\<rparr>"
definition UploadInit :: Limit where "UploadInit = \<lparr>lim_Burst = 10, lim_Rate = 1\<rparr>"
definition ConnectionPerIP :: Limit where "ConnectionPerIP = \<lparr>lim_Burst = 60, lim_Rate = 2\<rparr>"
definition HandshakePerIP :: Limit where "HandshakePerIP = \<lparr>lim_Burst = 20, lim_Rate = 1 / 2\<rparr>"
definition APIReadPerUser :: Limit where "APIReadPerUser = \<lparr>lim_Burst = 120, lim_Rate = 20\<rparr>"
definition FileReport :: Limit where "FileReport = \<lparr>lim_Burst = 10, lim_Rate = 1 / 300\<rparr>"
definition DataExport :: Limit where "DataExport = \<lparr>lim_Burst = 2, lim_Rate = 1 / 43200\<rparr>"

definition KeyUser :: "string \<Rightarrow> int \<Rightarrow> string" where
  "KeyUser op' userID = op' @ '':u:'' @ itoa userID"

definition KeyUserChat :: "string \<Rightarrow> int \<Rightarrow> int \<Rightarrow> string" where
  "KeyUserChat op' userID chatID = op' @ '':u:'' @ itoa userID @ '':c:'' @ itoa chatID"

definition KeyIP :: "string \<Rightarrow> string \<Rightarrow> string" where
  "KeyIP op' ip = op' @ '':ip:'' @ ip"

definition KeyPhone :: "string \<Rightarrow> string \<Rightarrow> string" where
  "KeyPhone op' phone = op' @ '':p:'' @ phone"

section \<open>Sequences of requests\<close>

text \<open>Requests \<open>(time, tokens)\<close> against one bucket, with the tokens granted in all.\<close>

fun granted :: "rat \<Rightarrow> rat \<Rightarrow> (int \<times> rat) list \<Rightarrow> bucket option \<Rightarrow> rat" where
  "granted capacity rate [] b = 0"
| "granted capacity rate ((now, n) # rs) b =
     (case token_bucket capacity rate now n b of
        ((ok, _, _), b') \<Rightarrow> (if ok then n else 0) + granted capacity rate rs (Some b'))"

lemma refill_bounds:
  assumes "bk_tokens b \<le> capacity" and "0 \<le> rate"
  shows "refill capacity rate now b \<le> capacity" "bk_tokens b \<le> refill capacity rate now b"
    "refill capacity rate now b \<le> bk_tokens b + of_int (max 0 (now - bk_ts b)) / 1000 * rate"
  using assms by (simp_all add: refill_def)

lemma granted_bound:
  assumes "0 \<le> rate" and "bk_tokens b \<le> capacity" and "sorted (bk_ts b # map fst rs)" and "\<forall>(t, n) \<in> set rs. t \<le> t1 \<and> 0 \<le> n"
    and "bk_ts b \<le> t1" and "0 \<le> bk_tokens b"
  shows "granted capacity rate rs (Some b) \<le> bk_tokens b + of_int (t1 - bk_ts b) / 1000 * rate"
  using assms(2-)
proof (induction rs arbitrary: b)
  case Nil
  then show ?case using assms(1) by simp
next
  case (Cons r rs)
  obtain now n where r: "r = (now, n)" by force
  let ?k = "refill capacity rate now b"
  have now: "bk_ts b \<le> now" "now \<le> t1" "sorted (now # map fst rs)" "0 \<le> n" using Cons.prems r by auto
  define b' where "b' = \<lparr>bk_tokens = (if n \<le> ?k then ?k - n else ?k), bk_ts = now\<rparr>"
  have g: "granted capacity rate (r # rs) (Some b) = (if n \<le> ?k then n else 0) + granted capacity rate rs (Some b')"
    by (simp add: r token_bucket_def Let_def b'_def)
  have k: "0 \<le> ?k" "?k \<le> capacity" "?k \<le> bk_tokens b + of_int (now - bk_ts b) / 1000 * rate"
    using refill_bounds [OF Cons.prems(1) assms(1), of now] Cons.prems(5) now(1) by (simp_all add: max_def)
  have "granted capacity rate rs (Some b') \<le> bk_tokens b' + of_int (t1 - bk_ts b') / 1000 * rate"
    using Cons.prems k now by (intro Cons.IH) (auto simp: b'_def)
  then have "granted capacity rate (r # rs) (Some b) \<le> ?k + of_int (t1 - now) / 1000 * rate"
    unfolding g by (simp add: b'_def split: if_splits)
  also have "\<dots> \<le> bk_tokens b + of_int (now - bk_ts b) / 1000 * rate + of_int (t1 - now) / 1000 * rate" using k(3) by simp
  also have "\<dots> = bk_tokens b + of_int (t1 - bk_ts b) / 1000 * rate" by (simp add: field_simps)
  finally show ?case .
qed

section \<open>Properties\<close>



text \<open>A refused request that fits the bucket succeeds when it is repeated after the advertised wait,
  if nothing else was asked of the bucket in between.\<close>

theorem retry_after_suffices:
  assumes "0 < rate" and "n \<le> capacity" and "token_bucket capacity rate now n b = ((False, left, wait), b')"
    and "now + wait \<le> later"
  shows "\<exists>left' b''. token_bucket capacity rate later n (Some b') = ((True, left', 0), b'')"
proof -
  define k where "k = refill capacity rate now (case b of None \<Rightarrow> \<lparr>bk_tokens = capacity, bk_ts = now\<rparr> | Some b \<Rightarrow> b)"
  have k: "\<not> n \<le> k" "wait = \<lceil>(n - k) / rate * 1000\<rceil>" "b' = \<lparr>bk_tokens = k, bk_ts = now\<rparr>"
    using assms(3) by (auto simp: token_bucket_def Let_def k_def split: if_splits)
  have "(n - k) / rate * 1000 \<le> of_int wait" unfolding k(2) by (rule le_of_int_ceiling)
  also have "\<dots> \<le> of_int (max 0 (later - now))" using assms(4) by (simp only: of_int_le_iff)
  finally have "(n - k) * 1000 \<le> of_int (max 0 (later - now)) * rate" using assms(1) by (simp add: field_simps)
  then have "n \<le> k + of_int (max 0 (later - now)) / 1000 * rate" by (simp add: field_simps)
  then have "n \<le> refill capacity rate later b'" using assms(2) by (simp add: refill_def k(3))
  then show ?thesis by (simp add: token_bucket_def Let_def)
qed

theorem retry_after_suffices_witness:
  "\<exists>left' b''. token_bucket 3 (1 / 300) 300000 1 (Some \<lparr>bk_tokens = 0, bk_ts = 0\<rparr>) = ((True, left', 0), b'')"
proof -
  have "token_bucket 3 (1 / 300) 0 1 (Some \<lparr>bk_tokens = 0, bk_ts = 0\<rparr>) = ((False, 0, 300000), \<lparr>bk_tokens = 0, bk_ts = 0\<rparr>)"
    by (simp add: token_bucket_def refill_def Let_def)
  from retry_after_suffices [OF _ _ this] show ?thesis by simp
qed

text \<open>The key's expiry is invisible: by the time Redis drops an idle bucket it would have refilled
  completely, so the next decision is the one the full bucket gives.\<close>

theorem expiry_invisible:
  assumes "0 < lim_Rate lm" and "0 < lim_Burst lm" and "0 \<le> bk_tokens b" and "bk_ts b + bucket_ttl lm * 1000 \<le> now"
  shows "token_bucket (of_int (lim_Burst lm)) (lim_Rate lm) now n (Some b)
    = token_bucket (of_int (lim_Burst lm)) (lim_Rate lm) now n None"
proof -
  let ?q = "of_int (lim_Burst lm) / lim_Rate lm"
  have "?q \<le> of_int (bucket_ttl lm)" unfolding bucket_ttl_def by linarith
  then have "?q * 1000 \<le> of_int (bucket_ttl lm) * 1000" by (rule mult_right_mono) simp
  also have "\<dots> = of_int (bucket_ttl lm * 1000)" by simp
  also have "\<dots> \<le> of_int (max 0 (now - bk_ts b))" using assms(4) by (simp only: of_int_le_iff)
  finally have "of_int (lim_Burst lm) \<le> of_int (max 0 (now - bk_ts b)) / 1000 * lim_Rate lm"
    using assms(1) by (simp add: field_simps)
  then have "refill (of_int (lim_Burst lm)) (lim_Rate lm) now b = of_int (lim_Burst lm)"
    using assms(3) by (simp add: refill_def)
  moreover have "refill c r now \<lparr>bk_tokens = c, bk_ts = now\<rparr> = c" for c r by (simp add: refill_def)
  ultimately show ?thesis by (simp add: token_bucket_def)
qed

theorem expiry_invisible_witness:
  "token_bucket 3 (1 / 300) 960000 1 (Some \<lparr>bk_tokens = 0, bk_ts = 0\<rparr>) = token_bucket 3 (1 / 300) 960000 1 None"
  using expiry_invisible [of OTPRequestPerPhone "\<lparr>bk_tokens = 0, bk_ts = 0\<rparr>" 960000 1]
  by (simp add: OTPRequestPerPhone_def bucket_ttl_def)

end
