(* ===== verification/Audit_Chain.thy ===== *)
theory Audit_Chain
  imports Go_Crypto
begin

text \<open>
  The tamper-evident audit log of \<^verbatim>\<open>pkg/auditlog/auditlog.go\<close>: entries that carry the hash of the entry
  before them, the logger that chains them, and the three verifiers.  \<^verbatim>\<open>json.Marshal\<close> is the argument
  \<open>marshal\<close>, which gives nothing for an entry it refuses.  The topic \<^verbatim>\<open>platform.audit\<close> of one writer is the
  list of entries the producer accepted from it, which the partition key keeps in order.
\<close>

section \<open>Entries and the logger\<close>

datatype Action =
  ActionMemberAdded | ActionMemberRemoved | ActionRoleChanged | ActionChatDeleted | ActionMessageDeleted
| ActionAccountDeleted | ActionAccountBanned | ActionDeviceRevoked | ActionUserLookup | ActionDataExport
| ActionMalwareBlocked

record Entry =
  ae_V :: int
  ae_Seq :: int
  ae_WriterID :: string
  ae_PrevHash :: string
  ae_Hash :: string
  ae_Action :: Action
  ae_At :: "int option"
  ae_ActorID :: int
  ae_ActorType :: string
  ae_ActorIP :: string
  ae_TargetType :: string
  ae_TargetID :: int
  ae_Reason :: string
  ae_Detail :: "(string \<times> string) list"

record Logger =
  lg_writerID :: string
  lg_seq :: int
  lg_prevHash :: string
  lg_topic :: "Entry list"

datatype audit_error =
  NotEncodable | PublishFailed | ContentAltered int | SequenceJumped int int int | BadLink int

definition hex_byte :: "byte \<Rightarrow> string" where
  "hex_byte b = (let digit = (\<lambda>d. ''0123456789abcdef'' ! d) in [digit (unat b div 16), digit (unat b mod 16)])"

definition EncodeToString :: "bytes \<Rightarrow> string" where
  "EncodeToString bs = concat (map hex_byte bs)"

definition genesisHash :: string where "genesisHash = replicate 64 (CHR ''0'')"

definition New :: "string \<Rightarrow> Logger" where
  "New writerID = \<lparr>lg_writerID = writerID, lg_seq = 0, lg_prevHash = genesisHash, lg_topic = []\<rparr>"

definition hashEntry :: "(Entry \<Rightarrow> bytes option) \<Rightarrow> Entry \<Rightarrow> audit_error + string" where
  "hashEntry marshal e =
     (case marshal (e\<lparr>ae_Hash := ''''\<rparr>) of
        None \<Rightarrow> Inl NotEncodable | Some body \<Rightarrow> Inr (EncodeToString (sha256 body)))"

text \<open>The entry \<^verbatim>\<open>Record\<close> hashes: the caller's, with the logger's fields and the defaults filled in.\<close>

definition stamp :: "int \<Rightarrow> Entry \<Rightarrow> Logger \<Rightarrow> Entry" where
  "stamp now e l =
     e\<lparr>ae_Seq := lg_seq l + 1, ae_WriterID := lg_writerID l, ae_PrevHash := lg_prevHash l, ae_V := 1,
       ae_At := (case ae_At e of None \<Rightarrow> Some now | Some t \<Rightarrow> Some t),
       ae_ActorType := (if ae_ActorType e = '''' then ''system'' else ae_ActorType e)\<rparr>"

definition Record ::
  "(Entry \<Rightarrow> bytes option) \<Rightarrow> bool \<Rightarrow> int \<Rightarrow> Entry \<Rightarrow> Logger \<Rightarrow> (audit_error + unit) \<times> Logger" where
  "Record marshal down now e l =
     (let e1 = stamp now e l; l1 = l\<lparr>lg_seq := lg_seq l + 1\<rparr>
      in case hashEntry marshal e1 of
        Inl err \<Rightarrow> (Inl err, l1)
      | Inr hash \<Rightarrow>
          let e2 = e1\<lparr>ae_Hash := hash\<rparr>; l2 = l1\<lparr>lg_prevHash := hash\<rparr>
          in if marshal e2 = None then (Inl NotEncodable, l2)
             else if down then (Inl PublishFailed, l2)
             else (Inr (), l2\<lparr>lg_topic := lg_topic l2 @ [e2]\<rparr>))"

section \<open>Verification\<close>

definition VerifyEntry :: "(Entry \<Rightarrow> bytes option) \<Rightarrow> Entry \<Rightarrow> audit_error + unit" where
  "VerifyEntry marshal e =
     (case hashEntry marshal e of
        Inl err \<Rightarrow> Inl err | Inr got \<Rightarrow> if got \<noteq> ae_Hash e then Inl (ContentAltered (ae_Seq e)) else Inr ())"

definition VerifyLink :: "Entry \<Rightarrow> Entry \<Rightarrow> audit_error + unit" where
  "VerifyLink prev nxt =
     (if ae_Seq nxt \<noteq> ae_Seq prev + 1
      then Inl (SequenceJumped (ae_Seq prev) (ae_Seq nxt) (ae_Seq nxt - ae_Seq prev - 1))
      else if ae_PrevHash nxt \<noteq> ae_Hash prev then Inl (BadLink (ae_Seq nxt)) else Inr ())"

fun verify_from :: "(Entry \<Rightarrow> bytes option) \<Rightarrow> string \<Rightarrow> int \<Rightarrow> Entry list \<Rightarrow> audit_error + unit" where
  "verify_from marshal prev lastSeq [] = Inr ()"
| "verify_from marshal prev lastSeq (e # es) =
     (case hashEntry marshal e of
        Inl err \<Rightarrow> Inl err
      | Inr got \<Rightarrow>
          if got \<noteq> ae_Hash e then Inl (ContentAltered (ae_Seq e))
          else if ae_PrevHash e \<noteq> prev then Inl (BadLink (ae_Seq e))
          else if lastSeq \<noteq> 0 \<and> ae_Seq e \<noteq> lastSeq + 1
            then Inl (SequenceJumped lastSeq (ae_Seq e) (ae_Seq e - lastSeq - 1))
          else verify_from marshal (ae_Hash e) (ae_Seq e) es)"

definition Verify :: "(Entry \<Rightarrow> bytes option) \<Rightarrow> Entry list \<Rightarrow> audit_error + unit" where
  "Verify marshal es = verify_from marshal genesisHash 0 es"

text \<open>A series of calls to \<^verbatim>\<open>Record\<close>, each with whether the producer refuses it and the time it is made.\<close>

fun record_all :: "(Entry \<Rightarrow> bytes option) \<Rightarrow> (bool \<times> int \<times> Entry) list \<Rightarrow> Logger \<Rightarrow> Logger" where
  "record_all marshal [] l = l"
| "record_all marshal ((down, now, e) # js) l = record_all marshal js (snd (Record marshal down now e l))"

section \<open>Lemmas\<close>

text \<open>The encoder refuses no entry.\<close>

definition encodable :: "(Entry \<Rightarrow> bytes option) \<Rightarrow> bool" where
  "encodable marshal \<longleftrightarrow> (\<forall>e. marshal e \<noteq> None)"

lemma stamp_sel [simp]:
  "ae_Seq (stamp now e l) = lg_seq l + 1" "ae_PrevHash (stamp now e l) = lg_prevHash l"
  "ae_WriterID (stamp now e l) = lg_writerID l" "ae_Action (stamp now e l) = ae_Action e"
  "ae_Hash (stamp now e l) = ae_Hash e"
  by (simp_all add: stamp_def)

lemma hashEntry_ignores_Hash [simp]: "hashEntry marshal (e\<lparr>ae_Hash := h\<rparr>) = hashEntry marshal e"
  by (simp add: hashEntry_def)

text \<open>What one call appends when the entry can be encoded.\<close>

lemma Record_encodable:
  assumes "encodable marshal"
  obtains h where "hashEntry marshal (stamp now e l) = Inr h"
    "snd (Record marshal down now e l) =
       l\<lparr>lg_seq := lg_seq l + 1, lg_prevHash := h,
         lg_topic := lg_topic l @ (if down then [] else [(stamp now e l)\<lparr>ae_Hash := h\<rparr>])\<rparr>"
    "fst (Record marshal down now e l) = (if down then Inl PublishFailed else Inr ())"
proof -
  from assms obtain b where "marshal ((stamp now e l)\<lparr>ae_Hash := ''''\<rparr>) = Some b" by (auto simp: encodable_def)
  then have h: "hashEntry marshal (stamp now e l) = Inr (EncodeToString (sha256 b))" by (simp add: hashEntry_def)
  have nn: "(marshal x = None) = False" for x using assms by (simp add: encodable_def)
  show thesis by (rule that [OF h]) (simp_all only: Record_def h Let_def nn sum.case if_False snd_conv fst_conv split: if_split, simp_all)
qed

lemma verify_from_Cons_iff:
  "verify_from marshal p s (e # es) = Inr () \<longleftrightarrow>
    hashEntry marshal e = Inr (ae_Hash e) \<and> ae_PrevHash e = p \<and> (s = 0 \<or> ae_Seq e = s + 1) \<and>
    verify_from marshal (ae_Hash e) (ae_Seq e) es = Inr ()"
  by (cases "hashEntry marshal e") auto

declare verify_from.simps(2) [simp del] verify_from_Cons_iff [simp]

lemma verify_from_append:
  "verify_from marshal p s (es @ [e]) = Inr () \<longleftrightarrow>
    verify_from marshal p s es = Inr () \<and> hashEntry marshal e = Inr (ae_Hash e) \<and>
    (if es = [] then ae_PrevHash e = p \<and> (s = 0 \<or> ae_Seq e = s + 1)
     else ae_PrevHash e = ae_Hash (last es) \<and> (ae_Seq (last es) = 0 \<or> ae_Seq e = ae_Seq (last es) + 1))"
  by (induction es arbitrary: p s) auto

text \<open>The state of a logger that has lost nothing.\<close>

definition intact :: "(Entry \<Rightarrow> bytes option) \<Rightarrow> Logger \<Rightarrow> bool" where
  "intact marshal l \<longleftrightarrow>
     Verify marshal (lg_topic l) = Inr () \<and> 0 \<le> lg_seq l \<and>
     (if lg_topic l = [] then lg_prevHash l = genesisHash \<and> lg_seq l = 0
      else lg_prevHash l = ae_Hash (last (lg_topic l)) \<and> lg_seq l = ae_Seq (last (lg_topic l)))"

lemma intact_New: "intact marshal (New wid)"
  by (simp add: intact_def New_def Verify_def)

lemma intact_Record:
  assumes "encodable marshal" and "intact marshal l"
  shows "intact marshal (snd (Record marshal False now e l))"
proof -
  obtain h where h: "hashEntry marshal (stamp now e l) = Inr h"
    "snd (Record marshal False now e l) =
       l\<lparr>lg_seq := lg_seq l + 1, lg_prevHash := h, lg_topic := lg_topic l @ [(stamp now e l)\<lparr>ae_Hash := h\<rparr>]\<rparr>"
    using Record_encodable [OF assms(1), where now = now and e = e and l = l and down = False] by auto
  show ?thesis using assms(2) by (auto simp: h intact_def Verify_def verify_from_append)
qed

lemma verified_mem: "verify_from marshal p s es = Inr () \<Longrightarrow> e \<in> set es \<Longrightarrow> hashEntry marshal e = Inr (ae_Hash e)"
  by (induction es arbitrary: p s) auto

text \<open>With a hash that tells the entries apart, a chain is determined by its newest hash.\<close>

lemma chain_determined:
  assumes "verify_from marshal p 0 es = Inr ()" and "verify_from marshal p 0 es' = Inr ()"
    and "es \<noteq> []" and "es' \<noteq> []" and "ae_Hash (last es) = ae_Hash (last es')"
    and inj: "inj_on ae_Hash (set es \<union> set es')" and "\<And>e. e \<in> set es \<union> set es' \<Longrightarrow> ae_Hash e \<noteq> p"
  shows "es = es'"
  using assms
proof (induction es arbitrary: es' rule: rev_induct)
  case (snoc e es)
  from snoc.prems(4) obtain fs f where fs: "es' = fs @ [f]" by (cases es' rule: rev_cases) auto
  have f: "f = e" using snoc.prems(5) by (intro inj_onD [OF snoc.prems(6)]) (auto simp: fs)
  show ?case
  proof (cases "es = [] \<or> fs = []")
    case True
    then show ?thesis using snoc.prems f by (auto simp: fs verify_from_append split: if_splits)
  next
    case False
    then have "es = fs" using snoc.prems f
      by (intro snoc.IH) (auto simp: fs verify_from_append intro: inj_on_subset)
    then show ?thesis by (simp add: fs f)
  qed
qed simp

lemma record_all_accepted:
  assumes total_: "encodable marshal" and "intact marshal l" and "list_all (\<lambda>(down, _, _). \<not> down) js"
  shows "intact marshal (record_all marshal js l) \<and>
    (\<exists>es. lg_topic (record_all marshal js l) = lg_topic l @ es \<and>
      map ae_Action es = map (\<lambda>(_, _, e). ae_Action e) js \<and> map ae_Seq es = map (\<lambda>i. lg_seq l + 1 + int i) [0..<length js])"
  using assms(2,3)
proof (induction js arbitrary: l)
  case (Cons j js)
  obtain now e where j: "j = (False, now, e)" using Cons.prems(2) by (cases j) auto
  obtain h where h: "snd (Record marshal False now e l) =
      l\<lparr>lg_seq := lg_seq l + 1, lg_prevHash := h, lg_topic := lg_topic l @ [(stamp now e l)\<lparr>ae_Hash := h\<rparr>]\<rparr>"
    using Record_encodable [OF total_, where now = now and e = e and l = l and down = False] by auto
  have "intact marshal (snd (Record marshal False now e l))" by (rule intact_Record [OF total_ Cons.prems(1)])
  from Cons.IH [OF this] Cons.prems(2) show ?case
    by (auto simp: j h upt_conv_Cons map_Suc_upt [symmetric] ac_simps simp del: upt_Suc)
qed simp

lemma record_all_append: "record_all marshal (js @ ks) l = record_all marshal ks (record_all marshal js l)"
  by (induction js arbitrary: l) auto

lemma record_all_refused:
  assumes "encodable marshal" and "list_all (\<lambda>(down, _, _). down) js"
  shows "lg_topic (record_all marshal js l) = lg_topic l \<and> lg_seq (record_all marshal js l) = lg_seq l + int (length js)"
  using assms(2)
proof (induction js arbitrary: l)
  case (Cons j js)
  obtain now e where j: "j = (True, now, e)" using Cons.prems by (cases j) auto
  obtain h where "snd (Record marshal True now e l) = l\<lparr>lg_seq := lg_seq l + 1, lg_prevHash := h, lg_topic := lg_topic l\<rparr>"
    using Record_encodable [OF assms(1), where now = now and e = e and l = l and down = True] by auto
  then show ?case using Cons.IH [of "snd (Record marshal True now e l)"] Cons.prems by (simp add: j)
qed simp

text \<open>Sample entries, and a stand-in for the encoder that shows an entry's sequence and its predecessor.\<close>

definition sample_entry :: "Action \<Rightarrow> Entry" where
  "sample_entry a =
     \<lparr>ae_V = 0, ae_Seq = 0, ae_WriterID = '''', ae_PrevHash = '''', ae_Hash = '''', ae_Action = a, ae_At = None,
      ae_ActorID = 4, ae_ActorType = '''', ae_ActorIP = ''10.0.0.1'', ae_TargetType = ''user'', ae_TargetID = 9,
      ae_Reason = '''', ae_Detail = []\<rparr>"

definition sample_marshal :: "Entry \<Rightarrow> bytes option" where
  "sample_marshal e = Some (map of_char (itoa (ae_Seq e) @ ae_PrevHash e))"

section \<open>Properties\<close>



text \<open>Entries the producer refused still consumed sequence numbers: the next entry that gets through fails the
  link check against the last one before the outage, and the report counts exactly the entries lost.\<close>

theorem lost_entries_counted:
  assumes "encodable marshal" and "intact marshal l" and "lg_topic l \<noteq> []"
    and "list_all (\<lambda>(down, _, _). down) js" and "js \<noteq> []"
  shows "VerifyLink (last (lg_topic l)) (last (lg_topic (record_all marshal (js @ [(False, now, e)]) l))) =
    Inl (SequenceJumped (lg_seq l) (lg_seq l + int (length js) + 1) (int (length js)))"
proof -
  let ?l = "record_all marshal js l"
  obtain h where "snd (Record marshal False now e ?l) =
      ?l\<lparr>lg_seq := lg_seq ?l + 1, lg_prevHash := h, lg_topic := lg_topic ?l @ [(stamp now e ?l)\<lparr>ae_Hash := h\<rparr>]\<rparr>"
    using Record_encodable [OF assms(1), where now = now and e = e and l = ?l and down = False] by auto
  then show ?thesis
    using record_all_refused [OF assms(1,4), of l] assms(2,3,5) by (simp add: record_all_append VerifyLink_def intact_def)
qed

theorem lost_entries_counted_witness:
  defines "l1 \<equiv> snd (Record sample_marshal False 5 (sample_entry ActionRoleChanged) (New ''pod-1''))"
  shows "VerifyLink (last (lg_topic l1))
      (last (lg_topic (record_all sample_marshal ([(True, 6, sample_entry ActionChatDeleted)] @ [(False, 7, sample_entry ActionDataExport)]) l1))) =
    Inl (SequenceJumped (lg_seq l1) (lg_seq l1 + int (length [(True, 6 :: int, sample_entry ActionChatDeleted)]) + 1) 1)"
proof -
  have m: "encodable sample_marshal" by (simp add: sample_marshal_def encodable_def)
  have "lg_topic l1 \<noteq> []" by (simp add: l1_def Record_def sample_marshal_def hashEntry_def Let_def)
  then show ?thesis
    using lost_entries_counted [OF m, of l1 "[(True, 6, sample_entry ActionChatDeleted)]" 7 "sample_entry ActionDataExport"]
      intact_Record [OF m intact_New, of 5 "sample_entry ActionRoleChanged" "''pod-1''"] by (simp add: l1_def)
qed



end
