(* ===== verification/Chat_World.thy ===== *)
theory Chat_World
  imports Chat_Authz Message_Store Redis_Store Rate_Limit Audit_Chain
begin

text \<open>
  The state the chat service's handlers share and the helpers they call: \<^verbatim>\<open>blocks.go\<close>, \<^verbatim>\<open>region.go\<close>,
  \<^verbatim>\<open>audit.go\<close>, the ban check of \<^verbatim>\<open>moderation.go\<close> and the helpers of \<^verbatim>\<open>service.go\<close> and \<^verbatim>\<open>chats.go\<close> in
  \<^verbatim>\<open>services/chat-service/internal\<close>.

  The state is the stores behind the service: the Postgres, Cassandra and Redis tables, what was
  published to Kafka and on the pub/sub bus, and the audit logger.  An environment says what one
  request meets outside: the time, which backend calls fail, what the auth service and the peer
  region answer, and the identifiers drawn for it.  The work a handler hands to a goroutine is done
  at the end of the request.
\<close>

section \<open>State and environment\<close>

record historyMessage =
  hm_MessageID :: string
  hm_ChatID :: int
  hm_Seq :: int
  hm_SenderID :: int
  hm_Type :: string
  hm_Body :: string
  hm_Encrypted :: bool
  hm_Media :: "MediaRef option"
  hm_ReplyToSeq :: int
  hm_Date :: int
  hm_EditedAt :: "int option"
  hm_Deleted :: bool

definition toHistoryMessage :: "MessageEvent \<Rightarrow> historyMessage" where
  "toHistoryMessage e =
     \<lparr>hm_MessageID = ev_MessageID e, hm_ChatID = ev_ChatID e, hm_Seq = ev_Seq e, hm_SenderID = ev_SenderID e,
      hm_Type = string_of_type (ev_Type e), hm_Body = ev_Body e, hm_Encrypted = ev_Encrypted e, hm_Media = ev_Media e,
      hm_ReplyToSeq = ev_ReplyToSeq e, hm_Date = ev_CreatedAt e, hm_EditedAt = None, hm_Deleted = False\<rparr>"

text \<open>\<open>decode\<close> is \<^verbatim>\<open>json.Unmarshal\<close> into a media reference.\<close>

definition fromStored :: "(string \<Rightarrow> MediaRef option) \<Rightarrow> StoredMessage \<Rightarrow> historyMessage" where
  "fromStored decode m =
     (let media = (if sm_MediaJSON m \<noteq> '''' \<and> sm_MediaJSON m \<noteq> ''{}'' then decode (sm_MediaJSON m) else None)
      in \<lparr>hm_MessageID = sm_MessageID m, hm_ChatID = sm_ChatID m, hm_Seq = sm_Seq m, hm_SenderID = sm_SenderID m,
          hm_Type = sm_Type m, hm_Body = (if sm_Deleted m then '''' else sm_Body m), hm_Encrypted = sm_Encrypted m,
          hm_Media = (if sm_Deleted m then None else media), hm_ReplyToSeq = sm_ReplyToSeq m,
          hm_Date = sm_CreatedAt m, hm_EditedAt = sm_EditedAt m, hm_Deleted = sm_Deleted m\<rparr>)"

text \<open>An update's body is JSON in the source; here it is the value that was encoded.\<close>

datatype UpdateKind =
  UpdateNewMessage | UpdateEditMessage | UpdateDeleteMessage | UpdateReadReceipt | UpdateTyping | UpdatePresence
| UpdateChatCreated | UpdateMemberChanged | UpdateChatDeleted | UpdateReconnectHint

datatype update_body = NoBody | MessageBody historyMessage | EditBody string int | TypingBody string | ChatBody Chat

record Update =
  up_Kind :: UpdateKind
  up_ChatID :: int
  up_Seq :: int
  up_UserID :: int
  up_At :: int
  up_Body :: update_body

definition update_of :: "UpdateKind \<Rightarrow> int \<Rightarrow> int \<Rightarrow> int \<Rightarrow> update_body \<Rightarrow> Update" where
  "update_of kind chatID seq userID body =
     \<lparr>up_Kind = kind, up_ChatID = chatID, up_Seq = seq, up_UserID = userID, up_At = 0, up_Body = body\<rparr>"

record chat_world =
  w_pg :: pg
  w_cass :: cass
  w_seq :: "int \<Rightarrow> seq_keys"
  w_roster :: members_cache
  w_bans :: bans
  w_blocks :: "(string \<times> (bool \<times> int)) list"
  w_buckets :: buckets
  w_raw :: "(bytes \<times> MessageEvent) list"
  w_bus :: "(int list \<times> Update) list"
  w_audit :: "Logger option"

datatype chat_call =
  CallMembersGet | CallTargetGet | CallChatsGet | CallMembersIDs | CallPeerIDs int | CallUsersGet | CallUsersGetMany
| CallCanPost | CallCacheGet | CallCacheSet | CallInvalidate | CallBus | CallCreateChat | CallUpdateMeta
| CallMembersAdd | CallMembersRemove | CallSetRole | CallSoftDelete | CallMarkRead | CallSequencesMax
| CallSetMuted | CallSetFlags | CallDialogs | CallBanCheck | CallBlockGet | CallBlockSet | CallLimiter
| CallKafka | CallAudit | CallSeq seq_cmd

datatype 'a peer_reply = PeerUnreachable | PeerRefused int string int | PeerGarbled | PeerAnswered 'a

record sendMessageResponse =
  sr_MessageID :: string
  sr_ChatID :: int
  sr_Seq :: int
  sr_Date :: int
  sr_Duplicate :: bool

record chat_env =
  e_now :: int
  e_down :: "chat_call \<Rightarrow> bool"
  e_cass :: "cass_stmt \<Rightarrow> bool"
  e_blocked :: "int \<Rightarrow> int \<Rightarrow> bool option"
  e_blocked_by :: "int \<Rightarrow> int list \<Rightarrow> int list option"
  e_peer :: "sendMessageResponse peer_reply"
  e_proxied :: bool
  e_cancelled :: bool
  e_between :: "seq_keys \<Rightarrow> seq_keys"
  e_uuid :: string
  e_ip :: string
  e_id :: int

record chat_cfg =
  cfg_Region :: string
  cfg_RegionEndpoints :: "(string \<times> string) list"
  cfg_MembersCacheTTL :: int
  cfg_MaxMessageRunes :: nat
  cfg_MaxGroupMembers :: int
  cfg_MaxRecipientsInline :: nat
  cfg_marshal :: "Entry \<Rightarrow> bytes option"
  cfg_decode :: "string \<Rightarrow> MediaRef option"

text \<open>One request that meets no failure.\<close>

definition calm :: "int \<Rightarrow> string \<Rightarrow> int \<Rightarrow> chat_env" where
  "calm now uuid i =
     \<lparr>e_now = now, e_down = (\<lambda>_. False), e_cass = (\<lambda>_. False), e_blocked = (\<lambda>_ _. Some False),
      e_blocked_by = (\<lambda>_ _. Some []), e_peer = PeerUnreachable, e_proxied = False, e_cancelled = False,
      e_between = id, e_uuid = uuid, e_ip = '''', e_id = i\<rparr>"

text \<open>The rest of a handler after a call that may fail and may have changed the state: an error is returned as it is.\<close>

definition and_then :: "('e + 'a) \<times> 's \<Rightarrow> ('a \<Rightarrow> 's \<Rightarrow> ('e + 'b) \<times> 's) \<Rightarrow> ('e + 'b) \<times> 's" where
  "and_then r k = (case r of (Inl err, s) \<Rightarrow> (Inl err, s) | (Inr x, s) \<Rightarrow> k x s)"

section \<open>Identity, limits, bans\<close>

text \<open>\<^verbatim>\<open>internalIdentity\<close>: the identity the gateway asserts, as claims.\<close>

definition internalIdentity :: "int \<Rightarrow> http_error + int" where
  "internalIdentity userID = (if userID = 0 then Inl Unauthorized else Inr userID)"

text \<open>The service's limiter fails open.\<close>

definition checkLimit :: "chat_env \<Rightarrow> string \<Rightarrow> Limit \<Rightarrow> chat_world \<Rightarrow> (http_error + unit) \<times> chat_world" where
  "checkLimit e key l w =
     (case AllowN True (e_down e CallLimiter) (e_now e) key l 1 (w_buckets w) of
        (d, err, b) \<Rightarrow>
          (if err \<noteq> None then Inr ()
           else if \<not> Allowed d then Inl (FloodWait (go_quot (RetryAfterMS d) 1000 + 1)) else Inr (),
           w\<lparr>w_buckets := b\<rparr>))"

definition refuseIfBanned :: "chat_env \<Rightarrow> chat_world \<Rightarrow> int \<Rightarrow> http_error option" where
  "refuseIfBanned e w userID =
     (case IsBanned (e_down e CallBanCheck) (e_now e) userID (w_bans w) of
        Inl _ \<Rightarrow> None | Inr banned \<Rightarrow> if banned then Some Forbidden else None)"

section \<open>Membership\<close>

definition requireMember :: "chat_env \<Rightarrow> chat_world \<Rightarrow> int \<Rightarrow> int \<Rightarrow> http_error + Member" where
  "requireMember e w chatID userID =
     (if e_down e CallMembersGet then Inl Internal
      else case Members_Get (w_pg w) chatID userID of
        Inl _ \<Rightarrow> Inl NotFound
      | Inr m \<Rightarrow> if active m then Inr m else Inl NotFound)"

definition targetMember :: "chat_env \<Rightarrow> chat_world \<Rightarrow> int \<Rightarrow> int \<Rightarrow> http_error + Member" where
  "targetMember e w chatID userID =
     (if e_down e CallTargetGet then Inl NotFound
      else case Members_Get (w_pg w) chatID userID of Inl _ \<Rightarrow> Inl NotFound | Inr m \<Rightarrow> Inr m)"

definition liveChat :: "chat_env \<Rightarrow> chat_world \<Rightarrow> int \<Rightarrow> http_error + Chat" where
  "liveChat e w chatID =
     (if e_down e CallChatsGet then Inl NotFound
      else case Chats_Get (w_pg w) chatID of Inl _ \<Rightarrow> Inl NotFound | Inr c \<Rightarrow> Inr c)"

definition authorisedRecipients ::
  "chat_cfg \<Rightarrow> chat_env \<Rightarrow> int \<Rightarrow> int \<Rightarrow> chat_world \<Rightarrow> (http_error + int list) \<times> chat_world" where
  "authorisedRecipients cfg e chatID userID w =
     (let cached = (case MembersCache_Get (e_down e CallCacheGet) (e_now e) chatID (w_roster w) of Inl _ \<Rightarrow> [] | Inr ms \<Rightarrow> ms)
      in if userID \<in> set cached then (Inr cached, w)
         else if e_down e CallCanPost then (Inl Internal, w)
         else case CanPost (w_pg w) chatID userID of (isMember, canPost) \<Rightarrow>
           if \<not> isMember then (Inl NotFound, w)
           else if \<not> canPost then (Inl Forbidden, w)
           else if e_down e CallMembersIDs then (Inl Internal, w)
           else
             let members = Members_IDs (w_pg w) chatID
             in (Inr members,
                 w\<lparr>w_roster := snd (MembersCache_Set (e_down e CallCacheSet) (Members_ttl (cfg_MembersCacheTTL cfg))
                    (e_now e) chatID members (w_roster w))\<rparr>))"

text \<open>The roster a detached publication goes to: the cached one, or else the database's.\<close>

definition audience :: "chat_env \<Rightarrow> chat_world \<Rightarrow> int \<Rightarrow> int list option" where
  "audience e w chatID =
     (case MembersCache_Get (e_down e CallCacheGet) (e_now e) chatID (w_roster w) of
        Inr (m # ms) \<Rightarrow> Some (m # ms)
      | _ \<Rightarrow> if e_down e CallMembersIDs then None else Some (Members_IDs (w_pg w) chatID))"

definition PublishToUsers :: "chat_env \<Rightarrow> int list \<Rightarrow> Update \<Rightarrow> chat_world \<Rightarrow> chat_world" where
  "PublishToUsers e userIDs u w =
     (if userIDs = [] \<or> e_down e CallBus then w
      else w\<lparr>w_bus := w_bus w @ [(userIDs, u\<lparr>up_At := (if up_At u = 0 then e_now e else up_At u)\<rparr>)]\<rparr>)"

definition publishUpdate :: "chat_env \<Rightarrow> int \<Rightarrow> Update \<Rightarrow> chat_world \<Rightarrow> chat_world" where
  "publishUpdate e chatID u w =
     (case audience e w chatID of None \<Rightarrow> w | Some members \<Rightarrow> PublishToUsers e members u w)"

definition invalidateMembers :: "chat_env \<Rightarrow> int \<Rightarrow> chat_world \<Rightarrow> chat_world" where
  "invalidateMembers e chatID w = w\<lparr>w_roster := snd (Invalidate (e_down e CallInvalidate) chatID (w_roster w))\<rparr>"

definition notifyChatCreated :: "chat_env \<Rightarrow> Chat \<Rightarrow> int list \<Rightarrow> chat_world \<Rightarrow> chat_world" where
  "notifyChatCreated e chat members w =
     PublishToUsers e members (update_of UpdateChatCreated (ch_ID chat) 0 0 (ChatBody chat)) w"

text \<open>The entry a handler fills in, the other fields zero; and the call that records it, if there is a logger.\<close>

definition entry_of :: "Action \<Rightarrow> int \<Rightarrow> string \<Rightarrow> int \<Rightarrow> (string \<times> string) list \<Rightarrow> Entry" where
  "entry_of action actor target_type target detail =
     \<lparr>ae_V = 0, ae_Seq = 0, ae_WriterID = '''', ae_PrevHash = '''', ae_Hash = '''', ae_Action = action, ae_At = None,
      ae_ActorID = actor, ae_ActorType = '''', ae_ActorIP = '''', ae_TargetType = target_type, ae_TargetID = target,
      ae_Reason = '''', ae_Detail = detail\<rparr>"

definition audit :: "chat_cfg \<Rightarrow> chat_env \<Rightarrow> Entry \<Rightarrow> chat_world \<Rightarrow> chat_world" where
  "audit cfg e a w =
     (case w_audit w of
        None \<Rightarrow> w
      | Some l \<Rightarrow>
          let a' = a\<lparr>ae_ActorIP := e_ip e, ae_ActorType := (if ae_ActorType a = '''' then ''user'' else ae_ActorType a)\<rparr>
          in w\<lparr>w_audit := Some (snd (Record (cfg_marshal cfg) (e_down e CallAudit) (e_now e) a' l))\<rparr>)"

section \<open>Blocks\<close>

definition blockCacheTTL :: int where "blockCacheTTL = 600000"

definition blockCacheKey :: "int \<Rightarrow> int \<Rightarrow> string" where
  "blockCacheKey a b = (let (x, y) = (if b < a then (b, a) else (a, b)) in ''block:{'' @ itoa x @ '':'' @ itoa y @ ''}'')"

definition cached_block :: "chat_env \<Rightarrow> chat_world \<Rightarrow> string \<Rightarrow> bool option" where
  "cached_block e w key =
     (if e_down e CallBlockGet then None
      else case map_of (w_blocks w) key of
        Some (v, expires) \<Rightarrow> if e_now e < expires then Some v else None | None \<Rightarrow> None)"

definition isBlocked :: "chat_env \<Rightarrow> int \<Rightarrow> int \<Rightarrow> chat_world \<Rightarrow> bool \<times> chat_world" where
  "isBlocked e a b w =
     (let key = blockCacheKey a b
      in case cached_block e w key of
        Some v \<Rightarrow> (v, w)
      | None \<Rightarrow>
          (case e_blocked e a b of
             None \<Rightarrow> (False, w)
           | Some v \<Rightarrow>
               (v, if e_down e CallBlockSet then w
                   else w\<lparr>w_blocks := AList.update key (v, e_now e + blockCacheTTL) (w_blocks w)\<rparr>)))"

definition blockedAmong :: "chat_env \<Rightarrow> int \<Rightarrow> int list \<Rightarrow> int list" where
  "blockedAmong e senderID candidates =
     (if candidates = [] then [] else case e_blocked_by e senderID candidates of None \<Rightarrow> [] | Some ids \<Rightarrow> ids)"

definition enforceBlocks ::
  "chat_env \<Rightarrow> Chat \<Rightarrow> int \<Rightarrow> int list \<Rightarrow> chat_world \<Rightarrow> (http_error + int list) \<times> chat_world" where
  "enforceBlocks e chat senderID recipients w =
     (if ch_Type chat = ChatPrivate then
        (case find (\<lambda>u. u \<noteq> senderID) recipients of
           Some peer \<Rightarrow>
             if peer = 0 then (Inr recipients, w)
             else (case isBlocked e senderID peer w of (blocked, w') \<Rightarrow>
               if blocked then (Inl Forbidden, w') else (Inr recipients, w'))
         | None \<Rightarrow> (Inr recipients, w))
      else
        let blocked = blockedAmong e senderID recipients
        in (Inr (if blocked = [] then recipients else filter (\<lambda>u. u \<notin> set blocked) recipients), w))"

section \<open>Regions\<close>

definition isLocal :: "chat_cfg \<Rightarrow> string \<Rightarrow> bool" where
  "isLocal cfg homeRegion \<longleftrightarrow> homeRegion = '''' \<or> homeRegion = cfg_Region cfg"

definition HomeRegionFor :: "chat_cfg \<Rightarrow> string" where
  "HomeRegionFor cfg = cfg_Region cfg"

definition proxyToHomeRegion :: "chat_cfg \<Rightarrow> chat_env \<Rightarrow> string \<Rightarrow> http_error + sendMessageResponse" where
  "proxyToHomeRegion cfg e homeRegion =
     (case map_of (cfg_RegionEndpoints cfg) homeRegion of
        None \<Rightarrow> Inl Unavailable
      | Some _ \<Rightarrow>
          (case e_peer e of
             PeerUnreachable \<Rightarrow> Inl Unavailable
           | PeerRefused status kind retryAfter \<Rightarrow> Inl (if 0 < retryAfter then FloodWait retryAfter else PeerError status kind)
           | PeerGarbled \<Rightarrow> Inl Internal
           | PeerAnswered r \<Rightarrow> Inr r))"

section \<open>Small helpers\<close>

definition chatKey :: "int \<Rightarrow> bytes" where
  "chatKey chatID = put_be 8 (word_of_int chatID :: u64)"

definition orDefault :: "string \<Rightarrow> string \<Rightarrow> string" where
  "orDefault v def = (if TrimSpace v = '''' then def else v)"

section \<open>The invariant, and how handlers keep it\<close>

text \<open>The counters and the topic agree: no reseed lock is left behind, a record is keyed by its chat and carries a
  sequence the counter has reached, and a chat's records are in the order of their sequences.\<close>

definition keys_ok :: "seq_keys \<Rightarrow> bool" where
  "keys_ok k \<longleftrightarrow> \<not> sk_lock k \<and> (\<forall>n. sk_counter k = Some n \<longrightarrow> 1 \<le> n)"

definition reached :: "seq_keys \<Rightarrow> int \<Rightarrow> bool" where
  "reached k s \<longleftrightarrow> (\<exists>n. sk_counter k = Some n \<and> s \<le> n)"

definition in_order :: "bytes \<times> MessageEvent \<Rightarrow> bytes \<times> MessageEvent \<Rightarrow> bool" where
  "in_order r r' \<longleftrightarrow> (ev_ChatID (snd r) = ev_ChatID (snd r') \<longrightarrow> ev_Seq (snd r) < ev_Seq (snd r'))"

definition seq_ok :: "(int \<Rightarrow> seq_keys) \<Rightarrow> (bytes \<times> MessageEvent) list \<Rightarrow> bool" where
  "seq_ok keys raw \<longleftrightarrow>
     (\<forall>c. keys_ok (keys c)) \<and> sorted_wrt in_order raw
     \<and> (\<forall>r \<in> set raw. fst r = chatKey (ev_ChatID (snd r)) \<and> reached (keys (ev_ChatID (snd r))) (ev_Seq (snd r))
          \<and> Validate (snd r) = Inr ())"

definition world_ok :: "chat_world \<Rightarrow> bool" where
  "world_ok w \<longleftrightarrow> pg_ok (w_pg w) \<and> cass_wf (w_cass w) \<and> seq_ok (w_seq w) (w_raw w)"

lemma seq_okD:
  assumes "seq_ok keys raw" and "(k, ev) \<in> set raw"
  shows "k = chatKey (ev_ChatID ev) \<and> 0 < ev_Seq ev"
  using assms Validate_InrD(2) [of ev] by (force simp: seq_ok_def)

text \<open>A handler is a chain of checks that answer with an error and leave the state alone, then an effect:
  these rules walk the chain and leave the effect, with what the checks established, for any property \<open>P\<close> of
  the state.\<close>

lemma chain_sum: "P w \<Longrightarrow> (\<And>x. r = Inr x \<Longrightarrow> P (snd (k x))) \<Longrightarrow> P (snd (case r of Inl err \<Rightarrow> (Inl err, w) | Inr x \<Rightarrow> k x))"
  by (cases r) simp_all

lemma chain_claims: "P w \<Longrightarrow> (\<And>x. r = Some x \<Longrightarrow> P (snd (k x))) \<Longrightarrow> P (snd (case r of None \<Rightarrow> (Inl err, w) | Some x \<Rightarrow> k x))"
  by (cases r) simp_all

lemma chain_rule: "P w \<Longrightarrow> (r = None \<Longrightarrow> P (snd k)) \<Longrightarrow> P (snd (case r of None \<Rightarrow> k | Some err \<Rightarrow> (Inl err, w)))"
  by (cases r) simp_all

lemma chain_if: "P w \<Longrightarrow> (\<not> b \<Longrightarrow> P (snd k)) \<Longrightarrow> P (snd (if b then (r, w) else k))"
  by simp

lemma chain_and_then:
  "P (snd r) \<Longrightarrow> (\<And>x w'. r = (Inr x, w') \<Longrightarrow> P w' \<Longrightarrow> P (snd (k x w'))) \<Longrightarrow> P (snd (and_then r k))"
  by (cases r; cases "fst r") (auto simp: and_then_def)

lemma chain_statement:
  "P (g (snd s)) \<Longrightarrow> (\<And>x t. s = (Inr x, t) \<Longrightarrow> P (snd (k x t))) \<Longrightarrow>
    P (snd (case s of (Inl err, t) \<Rightarrow> (Inl (f err), g t) | (Inr x, t) \<Rightarrow> k x t))"
  by (cases s; cases "fst s") auto

named_theorems keep
named_theorems keep_cass
named_theorems keep_raw

lemmas keep_world [keep] =
  chain_sum [where P = world_ok] chain_claims [where P = world_ok] chain_rule [where P = world_ok] chain_if [where P = world_ok]
  chain_and_then [where P = world_ok]

lemmas keep_store [keep_cass] =
  chain_sum [where P = "\<lambda>w. w_cass w = t" for t] chain_claims [where P = "\<lambda>w. w_cass w = t" for t]
  chain_rule [where P = "\<lambda>w. w_cass w = t" for t] chain_if [where P = "\<lambda>w. w_cass w = t" for t]
  chain_and_then [where P = "\<lambda>w. w_cass w = t" for t] chain_statement [where P = "\<lambda>w. w_cass w = t" for t]

lemmas keep_topic [keep_raw] =
  chain_sum [where P = "\<lambda>w. w_raw w = t" for t] chain_claims [where P = "\<lambda>w. w_raw w = t" for t]
  chain_rule [where P = "\<lambda>w. w_raw w = t" for t] chain_if [where P = "\<lambda>w. w_raw w = t" for t]
  chain_and_then [where P = "\<lambda>w. w_raw w = t" for t] chain_statement [where P = "\<lambda>w. w_raw w = t" for t]

text \<open>Statements against Postgres: the handler stores the table the statement leaves and goes on.\<close>

lemma keep_statement:
  assumes "world_ok w" and "pg_ok (snd op')" and "\<And>x t. op' = (Inr x, t) \<Longrightarrow> pg_ok t \<Longrightarrow> world_ok (snd (k x t))"
  shows "world_ok (snd (case op' of (Inl err, t) \<Rightarrow> (Inl (f err), w\<lparr>w_pg := t\<rparr>) | (Inr x, t) \<Rightarrow> k x t))"
  using assms by (cases op'; cases "fst op'") (auto simp: world_ok_def)

lemma keep_store_statement:
  assumes "world_ok w" and "cass_wf (snd op')" and "\<And>x t. op' = (Inr x, t) \<Longrightarrow> cass_wf t \<Longrightarrow> world_ok (snd (k x t))"
  shows "world_ok (snd (case op' of (Inl err, t) \<Rightarrow> (Inl (f err), w\<lparr>w_cass := t\<rparr>) | (Inr x, t) \<Rightarrow> k x t))"
  using assms by (cases op'; cases "fst op'") (auto simp: world_ok_def)

lemma world_ok_parts: "world_ok w \<Longrightarrow> pg_ok (w_pg w)" "world_ok w \<Longrightarrow> cass_wf (w_cass w)"
  by (simp_all add: world_ok_def)

lemma world_ok_put_pg: "world_ok w \<Longrightarrow> pg_ok t \<Longrightarrow> world_ok (w\<lparr>w_pg := t\<rparr>)"
  by (simp add: world_ok_def)

lemma world_ok_effects [simp]:
  "world_ok (audit cfg e a w) = world_ok w" "world_ok (publishUpdate e c u w) = world_ok w"
  "world_ok (invalidateMembers e c w) = world_ok w" "world_ok (notifyChatCreated e ch ms w) = world_ok w"
  "world_ok (PublishToUsers e us u w) = world_ok w" "world_ok (snd (checkLimit e key l w)) = world_ok w"
  "world_ok (snd (isBlocked e x y w)) = world_ok w" "world_ok (snd (enforceBlocks e ch s rs w)) = world_ok w"
  "world_ok (snd (authorisedRecipients cfg e c x w)) = world_ok w"
proof -
  have p: "world_ok (PublishToUsers e us u w) = world_ok w" for us u and w :: chat_world
    by (simp add: PublishToUsers_def world_ok_def)
  then show "world_ok (PublishToUsers e us u w) = world_ok w" .
  show "world_ok (publishUpdate e c u w) = world_ok w" "world_ok (notifyChatCreated e ch ms w) = world_ok w"
    by (simp_all add: p publishUpdate_def notifyChatCreated_def split: option.split)
  show "world_ok (audit cfg e a w) = world_ok w" "world_ok (invalidateMembers e c w) = world_ok w"
    by (simp_all add: audit_def invalidateMembers_def world_ok_def Let_def split: option.split)
  show "world_ok (snd (checkLimit e key l w)) = world_ok w"
    by (simp add: checkLimit_def world_ok_def split: prod.split)
  show b: "world_ok (snd (isBlocked e x y w)) = world_ok w" for x y
    by (simp add: isBlocked_def world_ok_def Let_def split: option.split)
  show "world_ok (snd (enforceBlocks e ch s rs w)) = world_ok w"
  proof (cases "find (\<lambda>u. u \<noteq> s) rs")
    case (Some peer)
    then show ?thesis using b [of s peer] by (cases "isBlocked e s peer w") (simp add: enforceBlocks_def Let_def)
  qed (simp add: enforceBlocks_def Let_def)
  show "world_ok (snd (authorisedRecipients cfg e c x w)) = world_ok w"
    by (simp add: authorisedRecipients_def world_ok_def Let_def split: prod.split)
qed

text \<open>What the helpers leave alone.\<close>

lemma bus_frame [simp]:
  "w_pg (PublishToUsers e us u w) = w_pg w" "w_cass (PublishToUsers e us u w) = w_cass w"
  "w_raw (PublishToUsers e us u w) = w_raw w" "w_seq (PublishToUsers e us u w) = w_seq w"
  by (simp_all add: PublishToUsers_def)

lemma effects_frame [simp]:
  "w_cass (audit cfg e a w) = w_cass w" "w_raw (audit cfg e a w) = w_raw w" "w_pg (audit cfg e a w) = w_pg w"
  "w_cass (publishUpdate e c u w) = w_cass w" "w_raw (publishUpdate e c u w) = w_raw w" "w_pg (publishUpdate e c u w) = w_pg w"
  "w_cass (invalidateMembers e c w) = w_cass w" "w_raw (invalidateMembers e c w) = w_raw w" "w_pg (invalidateMembers e c w) = w_pg w"
  "w_cass (notifyChatCreated e ch ms w) = w_cass w" "w_raw (notifyChatCreated e ch ms w) = w_raw w" "w_pg (notifyChatCreated e ch ms w) = w_pg w"
  by (simp_all add: audit_def publishUpdate_def invalidateMembers_def notifyChatCreated_def Let_def split: option.split)

lemma checks_frame [simp]:
  "w_cass (snd (checkLimit e key l w)) = w_cass w" "w_raw (snd (checkLimit e key l w)) = w_raw w" "w_pg (snd (checkLimit e key l w)) = w_pg w"
  "w_cass (snd (authorisedRecipients cfg e c x w)) = w_cass w" "w_raw (snd (authorisedRecipients cfg e c x w)) = w_raw w"
  "w_pg (snd (authorisedRecipients cfg e c x w)) = w_pg w"
  "w_roster (snd (checkLimit e key l w)) = w_roster w"
  by (simp_all add: checkLimit_def authorisedRecipients_def Let_def split: prod.split)

lemma blocks_frame [simp]:
  "w_cass (snd (enforceBlocks e ch s rs w)) = w_cass w" "w_raw (snd (enforceBlocks e ch s rs w)) = w_raw w"
proof -
  have b: "w_cass (snd (isBlocked e x y w)) = w_cass w" "w_raw (snd (isBlocked e x y w)) = w_raw w" for x y
    by (simp_all add: isBlocked_def Let_def split: option.split)
  show "w_cass (snd (enforceBlocks e ch s rs w)) = w_cass w" "w_raw (snd (enforceBlocks e ch s rs w)) = w_raw w"
    using b [of s "the (find (\<lambda>u. u \<noteq> s) rs)"]
    by (cases "find (\<lambda>u. u \<noteq> s) rs"; cases "isBlocked e s (the (find (\<lambda>u. u \<noteq> s) rs)) w"; simp add: enforceBlocks_def Let_def)+
qed

end
