(* ===== verification/Chat_Members.thy ===== *)
theory Chat_Members
  imports Chat_World
begin

text \<open>
  The chat management and administration handlers of \<^verbatim>\<open>services/chat-service/internal/chats.go\<close>.  A
  handler takes the caller's claims (the user id, or nothing when there are none), what
  \<^verbatim>\<open>httpx.PathInt64\<close> and \<^verbatim>\<open>httpx.DecodeJSON\<close> gave for the request, and the state; it returns the response
  or error, and the state it leaves.
\<close>

section \<open>Creating and describing chats\<close>

record createChatRequest =
  cc_Type :: string
  cc_PeerID :: int
  cc_Title :: string
  cc_Members :: "int list"

definition title_ok :: "string \<Rightarrow> bool" where
  "title_ok title \<longleftrightarrow> title \<noteq> '''' \<and> rune_count title \<le> 128"

definition handleCreateChat ::
  "chat_cfg \<Rightarrow> chat_env \<Rightarrow> int option \<Rightarrow> http_error + createChatRequest \<Rightarrow> chat_world \<Rightarrow> (http_error + (Chat \<times> bool)) \<times> chat_world" where
  "handleCreateChat cfg e claims body w =
     (case claims of None \<Rightarrow> (Inl Unauthorized, w) | Some user \<Rightarrow>
      case body of Inl err \<Rightarrow> (Inl err, w) | Inr req \<Rightarrow>
      case chat_type_of (cc_Type req) of
        ChatPrivate \<Rightarrow>
          if cc_PeerID req = 0 then (Inl BadRequest, w)
          else if cc_PeerID req = user then (Inl BadRequest, w)
          else if e_down e CallUsersGet \<or> Users_GetByID (w_pg w) (cc_PeerID req) = Inl PgNotFound then (Inl NotFound, w)
          else if e_down e CallCreateChat then (Inl Internal, w)
          else (case CreatePrivate (e_now e) (e_id e) user (cc_PeerID req) (HomeRegionFor cfg) (w_pg w) of
              (Inl _, t) \<Rightarrow> (Inl Internal, w\<lparr>w_pg := t\<rparr>)
            | (Inr (chat, created), t) \<Rightarrow>
                let w1 = w\<lparr>w_pg := t\<rparr>
                in (Inr (chat, created),
                    if created
                    then notifyChatCreated e chat [user, cc_PeerID req] (invalidateMembers e (ch_ID chat) w1)
                    else w1))
      | ChatOther _ \<Rightarrow> (Inl BadRequest, w)
      | kind \<Rightarrow>
          let title = TrimSpace (cc_Title req)
          in if \<not> title_ok title then (Inl BadRequest, w)
             else if 1000 < length (cc_Members req) then (Inl BadRequest, w)
             else if e_down e CallCreateChat then (Inl Internal, w)
             else (case CreateGroup (e_now e) (e_id e) kind title user (cc_Members req) (HomeRegionFor cfg) (w_pg w) of
                 (Inl _, t) \<Rightarrow> (Inl Internal, w\<lparr>w_pg := t\<rparr>)
               | (Inr chat, t) \<Rightarrow>
                   (Inr (chat, True),
                    notifyChatCreated e chat (user # cc_Members req) (invalidateMembers e (ch_ID chat) (w\<lparr>w_pg := t\<rparr>)))))"

definition handleGetChat :: "chat_env \<Rightarrow> int option \<Rightarrow> http_error + int \<Rightarrow> chat_world \<Rightarrow> http_error + Chat" where
  "handleGetChat e claims path w =
     (case claims of None \<Rightarrow> Inl Unauthorized | Some user \<Rightarrow>
      case path of Inl err \<Rightarrow> Inl err | Inr chatID \<Rightarrow>
      case requireMember e w chatID user of Inl err \<Rightarrow> Inl err | Inr _ \<Rightarrow> liveChat e w chatID)"

record updateChatRequest =
  uc_Title :: "string option"
  uc_Description :: "string option"
  uc_PhotoObject :: "string option"

definition handleUpdateChat ::
  "chat_env \<Rightarrow> int option \<Rightarrow> http_error + int \<Rightarrow> http_error + updateChatRequest \<Rightarrow> chat_world \<Rightarrow> (http_error + Chat) \<times> chat_world" where
  "handleUpdateChat e claims path body w =
     (case claims of None \<Rightarrow> (Inl Unauthorized, w) | Some user \<Rightarrow>
      case path of Inl err \<Rightarrow> (Inl err, w) | Inr chatID \<Rightarrow>
      case body of Inl err \<Rightarrow> (Inl err, w) | Inr req \<Rightarrow>
      case requireMember e w chatID user of Inl err \<Rightarrow> (Inl err, w) | Inr member \<Rightarrow>
        if mb_Role member \<noteq> RoleOwner \<and> mb_Role member \<noteq> RoleAdmin then (Inl Forbidden, w)
        else if (case uc_Title req of Some x \<Rightarrow> \<not> title_ok (TrimSpace x) | None \<Rightarrow> False) then (Inl BadRequest, w)
        else if e_down e CallUpdateMeta then (Inl Internal, w)
        else (case UpdateMeta (e_now e) chatID (map_option TrimSpace (uc_Title req)) (uc_Description req) (uc_PhotoObject req) (w_pg w) of
            (Inl _, t) \<Rightarrow> (Inl Internal, w\<lparr>w_pg := t\<rparr>)
          | (Inr chat, t) \<Rightarrow> (Inr chat, w\<lparr>w_pg := t\<rparr>)))"

section \<open>The roster\<close>

definition maxHydrated :: nat where "maxHydrated = 500"

text \<open>The accounts listed, the size of the roster, and whether the list is cut.\<close>

definition handleListMembers ::
  "chat_env \<Rightarrow> int option \<Rightarrow> http_error + int \<Rightarrow> chat_world \<Rightarrow> http_error + (int list \<times> nat \<times> bool)" where
  "handleListMembers e claims path w =
     (case claims of None \<Rightarrow> Inl Unauthorized | Some user \<Rightarrow>
      case path of Inl err \<Rightarrow> Inl err | Inr chatID \<Rightarrow>
      case requireMember e w chatID user of Inl err \<Rightarrow> Inl err | Inr _ \<Rightarrow>
        if e_down e CallMembersIDs then Inl Internal
        else
          let ids = Members_IDs (w_pg w) chatID; page = take maxHydrated ids
          in if e_down e CallUsersGetMany then Inl Internal
             else Inr (Users_GetMany (w_pg w) page, length ids, maxHydrated < length ids))"

definition handleListMemberIDs :: "chat_env \<Rightarrow> http_error + int \<Rightarrow> chat_world \<Rightarrow> http_error + int list" where
  "handleListMemberIDs e path w =
     (case path of Inl err \<Rightarrow> Inl err | Inr chatID \<Rightarrow>
        if e_down e CallMembersIDs then Inl Internal else Inr (Members_IDs (w_pg w) chatID))"

record addMemberRequest =
  am_UserID :: int
  am_Role :: string

definition member_changed :: "int \<Rightarrow> int \<Rightarrow> Update" where
  "member_changed chatID userID = update_of UpdateMemberChanged chatID 0 userID NoBody"

definition handleAddMember ::
  "chat_cfg \<Rightarrow> chat_env \<Rightarrow> int option \<Rightarrow> http_error + int \<Rightarrow> http_error + addMemberRequest \<Rightarrow> chat_world \<Rightarrow> (http_error + unit) \<times> chat_world" where
  "handleAddMember cfg e claims path body w =
     (case claims of None \<Rightarrow> (Inl Unauthorized, w) | Some user \<Rightarrow>
      case path of Inl err \<Rightarrow> (Inl err, w) | Inr chatID \<Rightarrow>
      case body of Inl err \<Rightarrow> (Inl err, w) | Inr req \<Rightarrow>
      if am_UserID req = 0 then (Inl BadRequest, w) else
      case requireMember e w chatID user of Inl err \<Rightarrow> (Inl err, w) | Inr member \<Rightarrow>
      case liveChat e w chatID of Inl err \<Rightarrow> (Inl err, w) | Inr chat \<Rightarrow>
        if ch_Type chat = ChatPrivate then (Inl BadRequest, w)
        else if mb_Role member \<noteq> RoleOwner \<and> mb_Role member \<noteq> RoleAdmin then (Inl Forbidden, w)
        else if cfg_MaxGroupMembers cfg \<le> ch_MemberCount chat then (Inl Conflict, w)
        else if e_down e CallUsersGet \<or> Users_GetByID (w_pg w) (am_UserID req) = Inl PgNotFound then (Inl NotFound, w)
        else
          let role = role_of (orDefault (am_Role req) ''member'')
          in if role \<noteq> RoleMember \<and> role \<noteq> RoleAdmin \<and> role \<noteq> RoleRestricted then (Inl BadRequest, w)
             else if e_down e CallMembersAdd then (Inl Internal, w)
             else (case Members_Add (e_now e) chatID (am_UserID req) role (w_pg w) of
                 (Inl _, t) \<Rightarrow> (Inl Internal, w\<lparr>w_pg := t\<rparr>)
               | (Inr _, t) \<Rightarrow>
                   (Inr (),
                    audit cfg e (entry_of ActionMemberAdded user ''user'' (am_UserID req)
                       [(''chat_id'', itoa chatID), (''role'', string_of_role role)])
                      (publishUpdate e chatID (member_changed chatID (am_UserID req))
                        (invalidateMembers e chatID (w\<lparr>w_pg := t\<rparr>))))))"

definition handleRemoveMember ::
  "chat_cfg \<Rightarrow> chat_env \<Rightarrow> int option \<Rightarrow> http_error + int \<Rightarrow> http_error + int \<Rightarrow> chat_world \<Rightarrow> (http_error + unit) \<times> chat_world" where
  "handleRemoveMember cfg e claims path upath w =
     (case claims of None \<Rightarrow> (Inl Unauthorized, w) | Some user \<Rightarrow>
      case path of Inl err \<Rightarrow> (Inl err, w) | Inr chatID \<Rightarrow>
      case upath of Inl err \<Rightarrow> (Inl err, w) | Inr targetID \<Rightarrow>
      case requireMember e w chatID user of Inl err \<Rightarrow> (Inl err, w) | Inr member \<Rightarrow>
      case targetMember e w chatID targetID of Inl err \<Rightarrow> (Inl err, w) | Inr target \<Rightarrow>
      case canRemoveMember member target of Some err \<Rightarrow> (Inl err, w) | None \<Rightarrow>
        if e_down e CallMembersRemove then (Inl Internal, w)
        else (case Members_Remove (e_now e) chatID targetID (w_pg w) of
            (Inl err, t) \<Rightarrow> (Inl (if err = PgNotFound then NotFound else Internal), w\<lparr>w_pg := t\<rparr>)
          | (Inr _, t) \<Rightarrow>
              (Inr (),
               audit cfg e (entry_of ActionMemberRemoved user ''user'' targetID
                       [(''chat_id'', itoa chatID), (''actor_role'', string_of_role (mb_Role member)), (''target_role'', string_of_role (mb_Role target))])
                 (publishUpdate e chatID (member_changed chatID targetID)
                   (invalidateMembers e chatID (w\<lparr>w_pg := t\<rparr>))))))"

definition handleLeave :: "chat_env \<Rightarrow> int option \<Rightarrow> http_error + int \<Rightarrow> chat_world \<Rightarrow> (http_error + unit) \<times> chat_world" where
  "handleLeave e claims path w =
     (case claims of None \<Rightarrow> (Inl Unauthorized, w) | Some user \<Rightarrow>
      case path of Inl err \<Rightarrow> (Inl err, w) | Inr chatID \<Rightarrow>
      case requireMember e w chatID user of Inl err \<Rightarrow> (Inl err, w) | Inr member \<Rightarrow>
        if mb_Role member = RoleOwner then (Inl Conflict, w)
        else if e_down e CallMembersRemove then (Inl Internal, w)
        else (case Members_Remove (e_now e) chatID user (w_pg w) of
            (Inl _, t) \<Rightarrow> (Inl Internal, w\<lparr>w_pg := t\<rparr>)
          | (Inr _, t) \<Rightarrow> (Inr (), invalidateMembers e chatID (w\<lparr>w_pg := t\<rparr>))))"

record muteRequest =
  mu_MutedForSeconds :: int
  mu_Pinned :: "bool option"
  mu_Archived :: "bool option"

text \<open>\<open>century\<close> is \<^verbatim>\<open>AddDate(100, 0, 0)\<close> on a time.\<close>

definition handleMute ::
  "(int \<Rightarrow> int) \<Rightarrow> chat_env \<Rightarrow> int option \<Rightarrow> http_error + int \<Rightarrow> http_error + muteRequest \<Rightarrow> chat_world
    \<Rightarrow> (http_error + int option) \<times> chat_world" where
  "handleMute century e claims path body w =
     (case claims of None \<Rightarrow> (Inl Unauthorized, w) | Some user \<Rightarrow>
      case path of Inl err \<Rightarrow> (Inl err, w) | Inr chatID \<Rightarrow>
      case body of Inl err \<Rightarrow> (Inl err, w) | Inr req \<Rightarrow>
      case requireMember e w chatID user of Inl err \<Rightarrow> (Inl err, w) | Inr _ \<Rightarrow>
        let until = (if mu_MutedForSeconds req < 0 then Some (century (e_now e))
                     else if 0 < mu_MutedForSeconds req then Some (e_now e + mu_MutedForSeconds req * 1000) else None)
        in if e_down e CallSetMuted then (Inl Internal, w)
           else
             let w1 = w\<lparr>w_pg := SetMuted chatID user until (w_pg w)\<rparr>
             in if mu_Pinned req = None \<and> mu_Archived req = None then (Inr until, w1)
                else if e_down e CallSetFlags then (Inl Internal, w1)
                else (Inr until, w1\<lparr>w_pg := SetFlags chatID user (mu_Pinned req) (mu_Archived req) (w_pg w1)\<rparr>))"

section \<open>Administration\<close>

text \<open>The flag of the response says whether the role changed.\<close>

definition handleSetRole ::
  "chat_cfg \<Rightarrow> chat_env \<Rightarrow> int option \<Rightarrow> http_error + int \<Rightarrow> http_error + int \<Rightarrow> http_error + string \<Rightarrow> chat_world
    \<Rightarrow> (http_error + bool) \<times> chat_world" where
  "handleSetRole cfg e claims path upath body w =
     (case claims of None \<Rightarrow> (Inl Unauthorized, w) | Some user \<Rightarrow>
      case path of Inl err \<Rightarrow> (Inl err, w) | Inr chatID \<Rightarrow>
      case upath of Inl err \<Rightarrow> (Inl err, w) | Inr targetID \<Rightarrow>
      case body of Inl err \<Rightarrow> (Inl err, w) | Inr req \<Rightarrow>
      let role = role_of req in
      case requireMember e w chatID user of Inl err \<Rightarrow> (Inl err, w) | Inr actor \<Rightarrow>
      case targetMember e w chatID targetID of Inl err \<Rightarrow> (Inl err, w) | Inr target \<Rightarrow>
      case canSetRole actor target role of Some err \<Rightarrow> (Inl err, w) | None \<Rightarrow>
        if mb_Role target = role then (Inr False, w)
        else if e_down e CallSetRole then (Inl Internal, w)
        else (case Members_SetRole chatID targetID role (w_pg w) of
            (Inl err, t) \<Rightarrow> (Inl (if err = PgNotFound then NotFound else Internal), w\<lparr>w_pg := t\<rparr>)
          | (Inr _, t) \<Rightarrow>
              (Inr True,
               audit cfg e (entry_of ActionRoleChanged user ''user'' targetID
                       [(''chat_id'', itoa chatID), (''actor_role'', string_of_role (mb_Role actor)),
                        (''from'', string_of_role (mb_Role target)), (''to'', string_of_role role)])
                 (publishUpdate e chatID (member_changed chatID targetID)
                   (invalidateMembers e chatID (w\<lparr>w_pg := t\<rparr>))))))"

definition handleDeleteChat :: "chat_cfg \<Rightarrow> chat_env \<Rightarrow> int option \<Rightarrow> http_error + int \<Rightarrow> chat_world \<Rightarrow> (http_error + unit) \<times> chat_world" where
  "handleDeleteChat cfg e claims path w =
     (case claims of None \<Rightarrow> (Inl Unauthorized, w) | Some user \<Rightarrow>
      case path of Inl err \<Rightarrow> (Inl err, w) | Inr chatID \<Rightarrow>
      case requireMember e w chatID user of Inl err \<Rightarrow> (Inl err, w) | Inr member \<Rightarrow>
      case liveChat e w chatID of Inl err \<Rightarrow> (Inl err, w) | Inr chat \<Rightarrow>
      case canDeleteChat member chat of Some err \<Rightarrow> (Inl err, w) | None \<Rightarrow>
        let recipients = (if e_down e CallMembersIDs then [] else Members_IDs (w_pg w) chatID) in
        if e_down e CallSoftDelete then (Inl Internal, w)
        else (case Chats_SoftDelete (e_now e) chatID (w_pg w) of
            (Inl err, t) \<Rightarrow> (Inl (if err = PgNotFound then NotFound else Internal), w\<lparr>w_pg := t\<rparr>)
          | (Inr _, t) \<Rightarrow>
              (Inr (),
               audit cfg e (entry_of ActionChatDeleted user ''chat'' chatID
                       [(''chat_type'', string_of_chat_type (ch_Type chat)), (''members'', itoa (int (length recipients))),
                        (''title'', ch_Title chat)])
                 (publishUpdate e chatID (update_of UpdateChatDeleted chatID 0 user NoBody)
                   (invalidateMembers e chatID (w\<lparr>w_pg := t\<rparr>))))))"

section \<open>Lemmas\<close>

lemma requireMember_InrD:
  assumes "requireMember e w c u = Inr m"
  shows "map_of (pg_members (w_pg w)) (c, u) = Some m" "active m"
  using assms by (auto simp: requireMember_def Members_Get_def split: if_splits option.splits)

lemma targetMember_InrD: "targetMember e w c u = Inr m \<Longrightarrow> map_of (pg_members (w_pg w)) (c, u) = Some m"
  by (auto simp: targetMember_def Members_Get_def split: if_splits option.splits)

lemma liveChat_InrD: "liveChat e w c = Inr ch \<Longrightarrow> map_of (pg_chats (w_pg w)) c = Some ch \<and> ch_DeletedAt ch = None"
  by (auto simp: liveChat_def split: if_splits sum.splits dest: Chats_Get_InrD)

text \<open>Every handler keeps the invariant of the stores, whatever fails on the way.\<close>

lemma canRemove_not_owner:
  "targetMember e w c u = Inr t \<Longrightarrow> canRemoveMember a t = None \<Longrightarrow> map_of (pg_members (w_pg w)) (c, u) = Some m \<Longrightarrow>
    mb_Role m \<noteq> RoleOwner"
  by (auto simp: canRemoveMember_def split: if_splits dest: targetMember_InrD)

lemma canSetRole_not_owner:
  "targetMember e w c u = Inr t \<Longrightarrow> canSetRole a t r = None \<Longrightarrow> map_of (pg_members (w_pg w)) (c, u) = Some m \<Longrightarrow>
    mb_Role m \<noteq> RoleOwner"
  "canSetRole a t r = None \<Longrightarrow> r \<noteq> RoleOwner"
  by (auto simp: canSetRole_def split: if_splits dest: targetMember_InrD)

lemma handleUpdateChat_ok: "world_ok w \<Longrightarrow> world_ok (snd (handleUpdateChat e claims path body w))"
  unfolding handleUpdateChat_def
  by (intro keep keep_statement UpdateMeta_ok world_ok_parts(1)) (simp_all add: world_ok_put_pg)

lemma handleAddMember_ok: "world_ok w \<Longrightarrow> world_ok (snd (handleAddMember cfg e claims path body w))"
  unfolding handleAddMember_def Let_def
  by (intro keep keep_statement Members_Add_ok world_ok_parts(1)) (auto simp: world_ok_put_pg dest: liveChat_InrD)

lemma handleRemoveMember_ok: "world_ok w \<Longrightarrow> world_ok (snd (handleRemoveMember cfg e claims path upath w))"
  unfolding handleRemoveMember_def
  by (intro keep keep_statement Members_Remove_ok world_ok_parts(1))
    (auto simp: world_ok_put_pg dest: canRemove_not_owner)

lemma handleLeave_ok: "world_ok w \<Longrightarrow> world_ok (snd (handleLeave e claims path w))"
  unfolding handleLeave_def
  by (intro keep keep_statement Members_Remove_ok world_ok_parts(1)) (auto simp: world_ok_put_pg dest: requireMember_InrD)

lemma handleMute_ok: "world_ok w \<Longrightarrow> world_ok (snd (handleMute century e claims path body w))"
  unfolding handleMute_def Let_def
  by (intro keep) (auto simp: world_ok_def member_field_ok)

lemma handleSetRole_ok: "world_ok w \<Longrightarrow> world_ok (snd (handleSetRole cfg e claims path upath body w))"
  unfolding handleSetRole_def Let_def
  by (intro keep keep_statement Members_SetRole_ok world_ok_parts(1))
    (auto simp: world_ok_put_pg dest: canSetRole_not_owner)

lemma handleDeleteChat_ok: "world_ok w \<Longrightarrow> world_ok (snd (handleDeleteChat cfg e claims path w))"
  unfolding handleDeleteChat_def Let_def
  by (intro keep keep_statement Chats_SoftDelete_ok world_ok_parts(1))
    (auto simp: world_ok_put_pg canDeleteChat_def dest: liveChat_InrD)

lemma handleCreateChat_ok: "world_ok w \<Longrightarrow> world_ok (snd (handleCreateChat cfg e claims body w))"
  unfolding handleCreateChat_def Let_def
  by (intro keep) (auto split: ChatType.split intro!: keep keep_statement CreatePrivate_ok CreateGroup_ok world_ok_parts(1) simp: world_ok_put_pg)

end
