(* ===== verification/Chat_Messages.thy ===== *)
theory Chat_Messages
  imports Chat_World
begin

text \<open>
  The messaging handlers of \<^verbatim>\<open>services/chat-service/internal/service.go\<close>: sending, reading history, catching
  up after a reconnect, the chat list, read receipts, edits, deletions and typing.  \<open>path\<close> is the parsed
  \<^verbatim>\<open>chatID\<close> of the URL, with \<open>None\<close> on the internal routes that have none.
\<close>

section \<open>Sending\<close>

record sendMessageRequest =
  sq_ChatID :: int
  sq_Type :: string
  sq_Body :: string
  sq_RandomID :: int
  sq_ReplyToSeq :: int
  sq_MediaObject :: string
  sq_MediaMime :: string
  sq_MediaSize :: int
  sq_MediaWidth :: int
  sq_MediaHeight :: int
  sq_MediaDurMS :: int
  sq_Encrypted :: bool

definition validateSend :: "chat_cfg \<Rightarrow> sendMessageRequest \<Rightarrow> http_error + MessageType" where
  "validateSend cfg req =
     (let raw = ToLower (TrimSpace (sq_Type req)); msgType = (if raw = '''' then MessageText else type_of_string raw)
      in case msgType of
        MessageText \<Rightarrow>
          if TrimSpace (sq_Body req) = '''' \<and> \<not> sq_Encrypted req then Inl BadRequest
          else if cfg_MaxMessageRunes cfg < rune_count (sq_Body req) then Inl BadRequest
          else Inr msgType
      | MessageSystem \<Rightarrow> Inl Forbidden
      | MessageOther _ \<Rightarrow> Inl BadRequest
      | _ \<Rightarrow>
          if sq_MediaObject req = '''' then Inl BadRequest
          else if Contains (sq_MediaObject req) ''..'' \<or> HasPrefix (sq_MediaObject req) ''/'' then Inl BadRequest
          else Inr msgType)"

text \<open>The chat a request names: the path's on the public routes, the body's on the internal ones.\<close>

definition request_chat :: "(http_error + int) option \<Rightarrow> int \<Rightarrow> http_error + int" where
  "request_chat path bodyID = (case path of None \<Rightarrow> Inr bodyID | Some r \<Rightarrow> r)"

definition message_event ::
  "chat_cfg \<Rightarrow> chat_env \<Rightarrow> int \<Rightarrow> int \<Rightarrow> int \<Rightarrow> MessageType \<Rightarrow> sendMessageRequest \<Rightarrow> int list \<Rightarrow> MessageEvent" where
  "message_event cfg e user chatID seq msgType req recipients =
     \<lparr>ev_MessageID = e_uuid e, ev_ChatID = chatID, ev_Seq = seq, ev_SenderID = user, ev_Type = msgType,
      ev_Body = sq_Body req, ev_Encrypted = sq_Encrypted req,
      ev_Media = (if sq_MediaObject req = '''' then None
                  else Some \<lparr>mr_Bucket = '''', mr_Object = sq_MediaObject req, mr_MimeType = sq_MediaMime req,
                             mr_SizeBytes = sq_MediaSize req, mr_Width = sq_MediaWidth req, mr_Height = sq_MediaHeight req,
                             mr_DurationMS = sq_MediaDurMS req, mr_ThumbObject = ''''\<rparr>),
      ev_ReplyToSeq = sq_ReplyToSeq req,
      ev_Recipients = (if length recipients \<le> cfg_MaxRecipientsInline cfg then recipients else []),
      ev_ClientRandomID = sq_RandomID req, ev_CreatedAt = e_now e\<rparr>"

definition fanout :: "chat_env \<Rightarrow> MessageEvent \<Rightarrow> int list \<Rightarrow> chat_world \<Rightarrow> chat_world" where
  "fanout e evt recipients w =
     PublishToUsers e recipients
       \<lparr>up_Kind = UpdateNewMessage, up_ChatID = ev_ChatID evt, up_Seq = ev_Seq evt, up_UserID = ev_SenderID evt,
        up_At = ev_CreatedAt evt, up_Body = MessageBody (toHistoryMessage evt)\<rparr> w"

text \<open>Steps 5 to 7 of \<^verbatim>\<open>handleSendMessage\<close>: allocate the sequence, publish, fan out.\<close>

definition accept_message ::
  "chat_cfg \<Rightarrow> chat_env \<Rightarrow> int \<Rightarrow> int \<Rightarrow> MessageType \<Rightarrow> sendMessageRequest \<Rightarrow> int list \<Rightarrow> chat_world
    \<Rightarrow> (http_error + sendMessageResponse) \<times> chat_world" where
  "accept_message cfg e user chatID msgType req recipients w =
     (case SeqAllocator_Next (\<lambda>c. e_down e (CallSeq c)) (Some (MaxSeq (e_cass e) (w_cass w) chatID)) (e_cancelled e)
             (e_between e) (w_seq w chatID) of
        (Inl _, k) \<Rightarrow> (Inl Unavailable, w\<lparr>w_seq := (w_seq w)(chatID := k)\<rparr>)
      | (Inr seq, k) \<Rightarrow>
          let w1 = w\<lparr>w_seq := (w_seq w)(chatID := k)\<rparr>; evt = message_event cfg e user chatID seq msgType req recipients
          in case Validate evt of
            Inl _ \<Rightarrow> (Inl BadRequest, w1)
          | Inr _ \<Rightarrow>
              if e_down e CallKafka then (Inl Unavailable, w1)
              else (Inr \<lparr>sr_MessageID = ev_MessageID evt, sr_ChatID = chatID, sr_Seq = seq, sr_Date = ev_CreatedAt evt div 1000, sr_Duplicate = False\<rparr>,
                    fanout e evt recipients (w1\<lparr>w_raw := w_raw w1 @ [(chatKey chatID, evt)]\<rparr>)))"

definition handleSendMessage ::
  "chat_cfg \<Rightarrow> chat_env \<Rightarrow> int option \<Rightarrow> (http_error + int) option \<Rightarrow> http_error + sendMessageRequest \<Rightarrow> chat_world
    \<Rightarrow> (http_error + sendMessageResponse) \<times> chat_world" where
  "handleSendMessage cfg e claims path body w =
     (case claims of None \<Rightarrow> (Inl Unauthorized, w) | Some user \<Rightarrow>
      case body of Inl err \<Rightarrow> (Inl err, w) | Inr req \<Rightarrow>
      case request_chat path (sq_ChatID req) of Inl err \<Rightarrow> (Inl err, w) | Inr chatID \<Rightarrow>
      if chatID = 0 then (Inl BadRequest, w) else
      case validateSend cfg req of Inl err \<Rightarrow> (Inl err, w) | Inr msgType \<Rightarrow>
      and_then (checkLimit e (KeyUser ''send'' user) SendMessage w) (\<lambda>_ w1.
      and_then (checkLimit e (KeyUserChat ''send'' user chatID) SendMessagePerChat w1) (\<lambda>_ w2.
      case refuseIfBanned e w2 user of Some err \<Rightarrow> (Inl err, w2) | None \<Rightarrow>
      and_then (authorisedRecipients cfg e chatID user w2) (\<lambda>recipients w3.
      case liveChat e w3 chatID of Inl err \<Rightarrow> (Inl err, w3) | Inr chatMeta \<Rightarrow>
      if \<not> isLocal cfg (ch_HomeRegion chatMeta) \<and> \<not> e_proxied e
      then (proxyToHomeRegion cfg e (ch_HomeRegion chatMeta), w3) else
      and_then (enforceBlocks e chatMeta user recipients w3) (\<lambda>recipients' w4.
      case (if sq_RandomID req = 0 then Inl ErrNotFound
            else FindByClientRandomID (e_cass e) (e_now e) chatID user (sq_RandomID req) (w_cass w4)) of
        Inr (seq, messageID) \<Rightarrow>
          (Inr \<lparr>sr_MessageID = messageID, sr_ChatID = chatID, sr_Seq = seq, sr_Date = e_now e div 1000, sr_Duplicate = True\<rparr>, w4)
      | Inl _ \<Rightarrow> accept_message cfg e user chatID msgType req recipients' w4)))))"

section \<open>Reading\<close>

definition handleGetHistory ::
  "chat_cfg \<Rightarrow> chat_env \<Rightarrow> int option \<Rightarrow> http_error + int \<Rightarrow> string \<Rightarrow> string \<Rightarrow> chat_world
    \<Rightarrow> (http_error + (historyMessage list \<times> int)) \<times> chat_world" where
  "handleGetHistory cfg e claims path q_before q_limit w =
     (case claims of None \<Rightarrow> (Inl Unauthorized, w) | Some user \<Rightarrow>
      case path of Inl err \<Rightarrow> (Inl err, w) | Inr chatID \<Rightarrow>
      and_then (checkLimit e (KeyUser ''read'' user) APIReadPerUser w) (\<lambda>_ w1.
      case requireMember e w1 chatID user of Inl err \<Rightarrow> (Inl err, w1) | Inr _ \<Rightarrow>
        let beforeSeq = QueryInt64 q_before 0; limit = QueryInt q_limit 50 1 200
        in case History (e_cass e) (w_cass w1) chatID beforeSeq limit of
          Inl _ \<Rightarrow> (Inl Internal, w1)
        | Inr rows \<Rightarrow>
            let out = map (fromStored (cfg_decode cfg)) rows
            in (Inr (out, if int (length out) = limit \<and> out \<noteq> [] then hm_Seq (last out) else 0), w1)))"

record differenceRequest =
  df_Cursors :: "(int \<times> int) list"
  df_Limit :: int

record difference =
  di_messages :: "historyMessage list"
  di_truncated :: bool
  di_cursors :: "(int \<times> int) list"

text \<open>One round of the loop of \<^verbatim>\<open>handleGetDifference\<close>, and the loop over the cursors in the order the map is iterated.\<close>

definition difference_step ::
  "(int \<Rightarrow> int \<Rightarrow> int \<Rightarrow> int \<Rightarrow> cass_error + StoredMessage list) \<Rightarrow> (StoredMessage \<Rightarrow> historyMessage) \<Rightarrow> (int \<Rightarrow> int option) \<Rightarrow> nat
    \<Rightarrow> int \<times> int \<Rightarrow> difference \<Rightarrow> difference" where
  "difference_step query present allowed limit cursor d =
     (case cursor of (chatID, since) \<Rightarrow>
      case allowed chatID of
        None \<Rightarrow> d
      | Some maxSeq \<Rightarrow>
          if maxSeq \<le> since then d\<lparr>di_cursors := AList.update chatID maxSeq (di_cursors d)\<rparr>
          else
            let d1 = d\<lparr>di_cursors := AList.update chatID since (di_cursors d)\<rparr>
            in if limit \<le> length (di_messages d) then d1\<lparr>di_truncated := True\<rparr>
               else (case query chatID (since + 1) maxSeq (int (limit - length (di_messages d))) of
                   Inl _ \<Rightarrow> d1
                 | Inr rows \<Rightarrow>
                     let n = (if rows = [] then since else sm_Seq (last rows))
                     in d\<lparr>di_messages := di_messages d @ map present rows,
                          di_cursors := AList.update chatID n (di_cursors d),
                          di_truncated := di_truncated d \<or> n < maxSeq\<rparr>))"

definition difference_walk ::
  "(int \<Rightarrow> int \<Rightarrow> int \<Rightarrow> int \<Rightarrow> cass_error + StoredMessage list) \<Rightarrow> (StoredMessage \<Rightarrow> historyMessage) \<Rightarrow> (int \<Rightarrow> int option) \<Rightarrow> nat
    \<Rightarrow> (int \<times> int) list \<Rightarrow> difference \<Rightarrow> difference" where
  "difference_walk query present allowed limit cursors d = fold (difference_step query present allowed limit) cursors d"

definition difference_limit :: "int \<Rightarrow> nat" where
  "difference_limit limit = (if limit \<le> 0 \<or> 1000 < limit then 300 else nat limit)"

text \<open>The chats a caller may ask about, with the newest sequence of each.\<close>

definition allowed_chats :: "chat_world \<Rightarrow> int \<Rightarrow> int \<Rightarrow> int option" where
  "allowed_chats w user = map_of (map (\<lambda>d. (ch_ID (dl_Chat d), dl_MaxSeq d)) (Dialogs (w_pg w) user True 500 0))"

definition handleGetDifference ::
  "chat_cfg \<Rightarrow> chat_env \<Rightarrow> int option \<Rightarrow> http_error + differenceRequest \<Rightarrow> chat_world \<Rightarrow> (http_error + difference) \<times> chat_world" where
  "handleGetDifference cfg e claims body w =
     (case claims of None \<Rightarrow> (Inl Unauthorized, w) | Some user \<Rightarrow>
      case body of Inl err \<Rightarrow> (Inl err, w) | Inr req \<Rightarrow>
      if df_Cursors req = [] then (Inr \<lparr>di_messages = [], di_truncated = False, di_cursors = []\<rparr>, w)
      else if 500 < length (df_Cursors req) then (Inl BadRequest, w)
      else and_then (checkLimit e (KeyUser ''read'' user) APIReadPerUser w) (\<lambda>_ w1.
        if e_down e CallDialogs then (Inl Internal, w1)
        else (Inr (difference_walk (Range (e_cass e) (w_cass w1)) (fromStored (cfg_decode cfg)) (allowed_chats w1 user)
                     (difference_limit (df_Limit req)) (df_Cursors req) \<lparr>di_messages = [], di_truncated = False, di_cursors = []\<rparr>), w1)))"

text \<open>The other party of a private chat, one entry at most; and how the loop hands the profiles out, the
  \<open>k\<close>-th private chat receiving the \<open>k\<close>-th peer that was found.\<close>

definition peer_of :: "chat_env \<Rightarrow> chat_world \<Rightarrow> int \<Rightarrow> Dialog \<Rightarrow> int list" where
  "peer_of e w user d =
     (if e_down e (CallPeerIDs (ch_ID (dl_Chat d))) then []
      else case find (\<lambda>u. u \<noteq> user) (Members_IDs (w_pg w) (ch_ID (dl_Chat d))) of None \<Rightarrow> [] | Some u \<Rightarrow> [u])"

fun attach_peers :: "(int \<Rightarrow> string) \<Rightarrow> int list \<Rightarrow> Dialog list \<Rightarrow> int list \<Rightarrow> (Dialog \<times> int option) list" where
  "attach_peers names known [] ps = []"
| "attach_peers names known (d # ds) ps =
     (if ch_Type (dl_Chat d) = ChatPrivate
      then case ps of
          [] \<Rightarrow> (d, None) # attach_peers names known ds []
        | p # ps' \<Rightarrow>
            (if p \<in> set known
             then (if ch_Title (dl_Chat d) = '''' then d\<lparr>dl_Chat := (dl_Chat d)\<lparr>ch_Title := names p\<rparr>\<rparr> else d, Some p)
             else (d, None)) # attach_peers names known ds ps'
      else (d, None) # attach_peers names known ds ps)"

text \<open>\<open>names\<close> is the display name column of the accounts.\<close>

definition handleGetDialogs ::
  "(int \<Rightarrow> string) \<Rightarrow> chat_env \<Rightarrow> int option \<Rightarrow> string \<Rightarrow> string \<Rightarrow> string \<Rightarrow> chat_world \<Rightarrow> http_error + (Dialog \<times> int option) list" where
  "handleGetDialogs names e claims q_archived q_limit q_offset w =
     (case claims of None \<Rightarrow> Inl Unauthorized | Some user \<Rightarrow>
        if e_down e CallDialogs then Inl Internal
        else
          let dialogs = Dialogs (w_pg w) user (q_archived = ''true'') (QueryInt q_limit 50 1 200) (QueryInt q_offset 0 0 100000);
              peerIDs = concat (map (peer_of e w user) (filter (\<lambda>d. ch_Type (dl_Chat d) = ChatPrivate) dialogs))
          in Inr (if e_down e CallUsersGetMany then map (\<lambda>d. (d, None)) dialogs
                  else attach_peers names (Users_GetMany (w_pg w) peerIDs) dialogs peerIDs))"

section \<open>Read receipts, edits, deletions, typing\<close>

record markReadRequest =
  rq_ChatID :: int
  rq_MaxSeq :: int

definition handleMarkRead ::
  "chat_env \<Rightarrow> int option \<Rightarrow> (http_error + int) option \<Rightarrow> http_error + markReadRequest \<Rightarrow> chat_world
    \<Rightarrow> (http_error + (int \<times> int \<times> int)) \<times> chat_world" where
  "handleMarkRead e claims path body w =
     (case claims of None \<Rightarrow> (Inl Unauthorized, w) | Some user \<Rightarrow>
      case body of Inl err \<Rightarrow> (Inl err, w) | Inr req \<Rightarrow>
      case request_chat path (rq_ChatID req) of Inl err \<Rightarrow> (Inl err, w) | Inr chatID \<Rightarrow>
      if chatID = 0 \<or> rq_MaxSeq req \<le> 0 then (Inl BadRequest, w) else
      case requireMember e w chatID user of Inl err \<Rightarrow> (Inl err, w) | Inr _ \<Rightarrow>
        if e_down e CallMarkRead then (Inl Internal, w)
        else case MarkRead chatID user (rq_MaxSeq req) (w_pg w) of
            (Inl _, t) \<Rightarrow> (Inl Internal, w\<lparr>w_pg := t\<rparr>)
          | (Inr newSeq, t) \<Rightarrow>
              let maxSeq = (if e_down e CallSequencesMax then 0 else Sequences_Max t chatID);
                  unread = (if newSeq < maxSeq then maxSeq - newSeq else 0)
              in (Inr (chatID, newSeq, unread),
                  publishUpdate e chatID (update_of UpdateReadReceipt chatID newSeq user NoBody) (w\<lparr>w_pg := t\<rparr>)))"

definition messageAt :: "chat_env \<Rightarrow> chat_world \<Rightarrow> int \<Rightarrow> int \<Rightarrow> http_error + StoredMessage" where
  "messageAt e w chatID seq =
     (case Range (e_cass e) (w_cass w) chatID seq seq 1 of
        Inl _ \<Rightarrow> Inl Internal | Inr [] \<Rightarrow> Inl NotFound | Inr (m # _) \<Rightarrow> Inr m)"

definition handleDeleteMessage ::
  "chat_cfg \<Rightarrow> chat_env \<Rightarrow> int option \<Rightarrow> http_error + int \<Rightarrow> http_error + int \<Rightarrow> chat_world \<Rightarrow> (http_error + unit) \<times> chat_world" where
  "handleDeleteMessage cfg e claims path spath w =
     (case claims of None \<Rightarrow> (Inl Unauthorized, w) | Some user \<Rightarrow>
      case path of Inl err \<Rightarrow> (Inl err, w) | Inr chatID \<Rightarrow>
      case spath of Inl err \<Rightarrow> (Inl err, w) | Inr seq \<Rightarrow>
      case requireMember e w chatID user of Inl err \<Rightarrow> (Inl err, w) | Inr member \<Rightarrow>
      case messageAt e w chatID seq of Inl err \<Rightarrow> (Inl err, w) | Inr msg \<Rightarrow>
      case canDeleteMessage member (sm_SenderID msg) of Inl err \<Rightarrow> (Inl err, w) | Inr moderation \<Rightarrow>
      case Store_SoftDelete (e_cass e) chatID seq (w_cass w) of
        (Inl _, t) \<Rightarrow> (Inl Internal, w\<lparr>w_cass := t\<rparr>)
      | (Inr _, t) \<Rightarrow>
          let w1 = publishUpdate e chatID (update_of UpdateDeleteMessage chatID seq user NoBody) (w\<lparr>w_cass := t\<rparr>)
          in (Inr (), if moderation
                      then audit cfg e (entry_of ActionMessageDeleted user ''message'' seq
                             [(''chat_id'', itoa chatID), (''sender_id'', itoa (sm_SenderID msg)),
                              (''actor_role'', string_of_role (mb_Role member))]) w1
                      else w1))"

definition handleEditMessage ::
  "chat_cfg \<Rightarrow> chat_env \<Rightarrow> int option \<Rightarrow> http_error + int \<Rightarrow> http_error + int \<Rightarrow> http_error + string \<Rightarrow> chat_world
    \<Rightarrow> (http_error + (int \<times> int)) \<times> chat_world" where
  "handleEditMessage cfg e claims path spath body w =
     (case claims of None \<Rightarrow> (Inl Unauthorized, w) | Some user \<Rightarrow>
      case path of Inl err \<Rightarrow> (Inl err, w) | Inr chatID \<Rightarrow>
      case spath of Inl err \<Rightarrow> (Inl err, w) | Inr seq \<Rightarrow>
      case body of Inl err \<Rightarrow> (Inl err, w) | Inr text \<Rightarrow>
      if TrimSpace text = '''' then (Inl BadRequest, w)
      else if cfg_MaxMessageRunes cfg < rune_count text then (Inl BadRequest, w) else
      case requireMember e w chatID user of Inl err \<Rightarrow> (Inl err, w) | Inr _ \<Rightarrow>
      case messageAt e w chatID seq of Inl err \<Rightarrow> (Inl err, w) | Inr msg \<Rightarrow>
      if sm_SenderID msg \<noteq> user then (Inl Forbidden, w)
      else if sm_Deleted msg then (Inl NotFound, w) else
      case Edit (e_cass e) chatID seq text (e_now e) (w_cass w) of
        (Inl _, t) \<Rightarrow> (Inl Internal, w\<lparr>w_cass := t\<rparr>)
      | (Inr _, t) \<Rightarrow>
          (Inr (seq, e_now e),
           publishUpdate e chatID (update_of UpdateEditMessage chatID seq user (EditBody text (e_now e))) (w\<lparr>w_cass := t\<rparr>)))"

record typingRequest =
  ty_ChatID :: int
  ty_Action :: string

definition handleTyping ::
  "chat_env \<Rightarrow> int option \<Rightarrow> http_error + typingRequest \<Rightarrow> chat_world \<Rightarrow> (http_error + unit) \<times> chat_world" where
  "handleTyping e claims body w =
     (case claims of None \<Rightarrow> (Inl Unauthorized, w) | Some user \<Rightarrow>
      case body of Inl err \<Rightarrow> (Inl err, w) | Inr req \<Rightarrow>
      if ty_ChatID req = 0 then (Inl BadRequest, w) else
      case audience e w (ty_ChatID req) of None \<Rightarrow> (Inl NotFound, w) | Some members \<Rightarrow>
        if user \<notin> set members then (Inl NotFound, w)
        else (Inr (), PublishToUsers e (filter (\<lambda>u. u \<noteq> user) members)
               (update_of UpdateTyping (ty_ChatID req) 0 user (TypingBody (orDefault (ty_Action req) ''typing''))) w))"

section \<open>The invariant\<close>

lemma world_ok_put_cass: "world_ok w \<Longrightarrow> cass_wf t \<Longrightarrow> world_ok (w\<lparr>w_cass := t\<rparr>)"
  by (simp add: world_ok_def)

text \<open>One allocation under the invariant: the counter never goes back, and a number handed out is new.\<close>

lemma Next_fresh:
  assumes "keys_ok k" and "SeqAllocator_Next down (Some answer) cancelled between k = (r, k')"
  shows "keys_ok k'" and "reached k s \<Longrightarrow> reached k' s"
    and "r = Inr n \<Longrightarrow> reached k' n" and "r = Inr n \<Longrightarrow> reached k s \<Longrightarrow> s < n"
  using assms
  by (auto simp: SeqAllocator_Next_def incr_def keys_ok_def reached_def Let_def reseedHeadroom_def split: if_splits option.splits sum.splits)

lemma seq_ok_update:
  assumes "seq_ok keys raw" and "keys_ok k" and "\<And>s. reached (keys c) s \<Longrightarrow> reached k s"
  shows "seq_ok (keys(c := k)) raw"
  using assms by (auto simp: seq_ok_def)

lemma seq_ok_snoc:
  assumes "seq_ok keys raw" and "reached (keys (ev_ChatID ev)) (ev_Seq ev)" and "Validate ev = Inr ()"
    and "\<And>r. r \<in> set raw \<Longrightarrow> ev_ChatID (snd r) = ev_ChatID ev \<Longrightarrow> ev_Seq (snd r) < ev_Seq ev"
  shows "seq_ok keys (raw @ [(chatKey (ev_ChatID ev), ev)])"
  using assms by (auto simp: seq_ok_def sorted_wrt_append in_order_def)

lemma message_event_sel [simp]:
  "ev_ChatID (message_event cfg e user c s ty req rs) = c" "ev_Seq (message_event cfg e user c s ty req rs) = s"
  "ev_SenderID (message_event cfg e user c s ty req rs) = user"
  by (simp_all add: message_event_def)

lemma world_ok_seq: "world_ok w \<Longrightarrow> seq_ok (w_seq w) (w_raw w)"
  by (simp add: world_ok_def)

lemma accept_message_ok:
  assumes "world_ok w"
  shows "world_ok (snd (accept_message cfg e user c ty req rs w))"
proof -
  obtain r k where n: "SeqAllocator_Next (\<lambda>c. e_down e (CallSeq c)) (Some (MaxSeq (e_cass e) (w_cass w) c)) (e_cancelled e)
      (e_between e) (w_seq w c) = (r, k)" by fastforce
  have old: "seq_ok (w_seq w) (w_raw w)" using assms by (rule world_ok_seq)
  then have "keys_ok (w_seq w c)" by (simp add: seq_ok_def)
  note fresh = Next_fresh [OF this n]
  have up: "seq_ok ((w_seq w)(c := k)) (w_raw w)" using fresh(1,2) by (rule seq_ok_update [OF old])
  have "seq_ok ((w_seq w)(c := k)) (w_raw w @ [(chatKey c, message_event cfg e user c s ty req rs)])"
    if "r = Inr s" "Validate (message_event cfg e user c s ty req rs) = Inr ()" for s
  proof -
    have "ev_Seq (snd r') < s" if "r' \<in> set (w_raw w)" "ev_ChatID (snd r') = c" for r'
      using old that fresh(4) [OF \<open>r = Inr s\<close>] by (auto simp: seq_ok_def)
    then show ?thesis using seq_ok_snoc [OF up _ that(2)] fresh(3) [OF that(1)] by simp
  qed
  with up assms show ?thesis
    by (simp add: accept_message_def n Let_def fanout_def split: sum.split) (simp add: world_ok_def)
qed

lemma handleSendMessage_ok: "world_ok w \<Longrightarrow> world_ok (snd (handleSendMessage cfg e claims path body w))"
  unfolding handleSendMessage_def by (intro keep) (simp_all add: accept_message_ok split: sum.split prod.split)

lemma handleGetHistory_ok: "world_ok w \<Longrightarrow> world_ok (snd (handleGetHistory cfg e claims path qb ql w))"
  unfolding handleGetHistory_def Let_def by (intro keep) (simp_all split: sum.split)

lemma handleGetDifference_ok: "world_ok w \<Longrightarrow> world_ok (snd (handleGetDifference cfg e claims body w))"
  unfolding handleGetDifference_def Let_def by (intro keep) simp_all

lemma handleMarkRead_ok: "world_ok w \<Longrightarrow> world_ok (snd (handleMarkRead e claims path body w))"
  unfolding handleMarkRead_def Let_def
  by (intro keep keep_statement member_field_ok world_ok_parts) (simp_all add: world_ok_put_pg)

lemma handleDeleteMessage_ok: "world_ok w \<Longrightarrow> world_ok (snd (handleDeleteMessage cfg e claims path spath w))"
  unfolding handleDeleteMessage_def Let_def
  by (intro keep keep_store_statement store_ops_wf world_ok_parts) (simp_all add: world_ok_put_cass)

lemma handleEditMessage_ok: "world_ok w \<Longrightarrow> world_ok (snd (handleEditMessage cfg e claims path spath body w))"
  unfolding handleEditMessage_def
  by (intro keep keep_store_statement store_ops_wf world_ok_parts) (simp_all add: world_ok_put_cass)

lemma handleTyping_ok: "world_ok w \<Longrightarrow> world_ok (snd (handleTyping e claims body w))"
  unfolding handleTyping_def by (intro keep) simp_all

end
