(* ===== verification/Chat_Service.thy ===== *)
theory Chat_Service
  imports Chat_Members Chat_Messages
begin

text \<open>
  The HTTP surface of the chat service (\<^verbatim>\<open>Routes\<close> in \<^verbatim>\<open>services/chat-service/internal/service.go\<close>): one
  request, served by the handler its route names, and sequences of requests against the stores.
\<close>

section \<open>Requests\<close>

text \<open>Who asks: a public route carries the claims of a verified token, if any; an internal one the identity the
  gateway asserts in \<^verbatim>\<open>X-User-Id\<close>, zero when the header is missing or malformed.\<close>

datatype identity = Token "int option" | Gateway int

definition claims_of :: "identity \<Rightarrow> int option" where
  "claims_of i =
     (case i of Token c \<Rightarrow> c | Gateway u \<Rightarrow> (case internalIdentity u of Inl _ \<Rightarrow> None | Inr v \<Rightarrow> Some v))"

datatype request =
  GetDialogs string string string
| CreateChat "http_error + createChatRequest"
| GetChat "http_error + int"
| UpdateChat "http_error + int" "http_error + updateChatRequest"
| ListMembers "http_error + int"
| AddMember "http_error + int" "http_error + addMemberRequest"
| RemoveMember "http_error + int" "http_error + int"
| SetRole "http_error + int" "http_error + int" "http_error + string"
| DeleteChat "http_error + int"
| Leave "http_error + int"
| Mute "http_error + int" "http_error + muteRequest"
| Send "(http_error + int) option" "http_error + sendMessageRequest"
| GetHistory "http_error + int" string string
| MarkAsRead "(http_error + int) option" "http_error + markReadRequest"
| DeleteMessage "http_error + int" "http_error + int"
| EditMessage "http_error + int" "http_error + int" "http_error + string"
| GetDifference "http_error + differenceRequest"
| Typing "http_error + typingRequest"
| ListMemberIDs "http_error + int"

datatype response =
  DialogList "(Dialog \<times> int option) list"
| ChatCreated Chat bool
| ChatInfo Chat
| MemberList "int list" nat bool
| MemberIDs "int list"
| Acknowledged
| RoleSet bool
| MutedUntil "int option"
| Sent sendMessageResponse
| History_page "historyMessage list" int
| ReadTo int int int
| Edited int int
| Difference_page difference

definition answer :: "('a \<Rightarrow> response) \<Rightarrow> ('e + 'a) \<times> 's \<Rightarrow> ('e + response) \<times> 's" where
  "answer f r = (map_sum id f (fst r), snd r)"

text \<open>\<open>names\<close> is the display name column of the accounts, \<open>century\<close> the calendar function of \<^verbatim>\<open>handleMute\<close>.\<close>

fun route ::
  "chat_cfg \<Rightarrow> (int \<Rightarrow> string) \<Rightarrow> (int \<Rightarrow> int) \<Rightarrow> chat_env \<Rightarrow> identity \<Rightarrow> request \<Rightarrow> chat_world \<Rightarrow> (http_error + response) \<times> chat_world" where
  "route cfg names century e i (GetDialogs archived limit offset) w =
     answer DialogList (handleGetDialogs names e (claims_of i) archived limit offset w, w)"
| "route cfg names century e i (CreateChat body) w =
     answer (\<lambda>(c, created). ChatCreated c created) (handleCreateChat cfg e (claims_of i) body w)"
| "route cfg names century e i (GetChat path) w = answer ChatInfo (handleGetChat e (claims_of i) path w, w)"
| "route cfg names century e i (UpdateChat path body) w = answer ChatInfo (handleUpdateChat e (claims_of i) path body w)"
| "route cfg names century e i (ListMembers path) w =
     answer (\<lambda>(ids, n, more). MemberList ids n more) (handleListMembers e (claims_of i) path w, w)"
| "route cfg names century e i (AddMember path body) w = answer (\<lambda>_. Acknowledged) (handleAddMember cfg e (claims_of i) path body w)"
| "route cfg names century e i (RemoveMember path upath) w = answer (\<lambda>_. Acknowledged) (handleRemoveMember cfg e (claims_of i) path upath w)"
| "route cfg names century e i (SetRole path upath body) w = answer RoleSet (handleSetRole cfg e (claims_of i) path upath body w)"
| "route cfg names century e i (DeleteChat path) w = answer (\<lambda>_. Acknowledged) (handleDeleteChat cfg e (claims_of i) path w)"
| "route cfg names century e i (Leave path) w = answer (\<lambda>_. Acknowledged) (handleLeave e (claims_of i) path w)"
| "route cfg names century e i (Mute path body) w = answer MutedUntil (handleMute century e (claims_of i) path body w)"
| "route cfg names century e i (Send path body) w = answer Sent (handleSendMessage cfg e (claims_of i) path body w)"
| "route cfg names century e i (GetHistory path before limit) w =
     answer (\<lambda>(ms, n). History_page ms n) (handleGetHistory cfg e (claims_of i) path before limit w)"
| "route cfg names century e i (MarkAsRead path body) w =
     answer (\<lambda>(c, s, u). ReadTo c s u) (handleMarkRead e (claims_of i) path body w)"
| "route cfg names century e i (DeleteMessage path spath) w = answer (\<lambda>_. Acknowledged) (handleDeleteMessage cfg e (claims_of i) path spath w)"
| "route cfg names century e i (EditMessage path spath body) w =
     answer (\<lambda>(s, t). Edited s t) (handleEditMessage cfg e (claims_of i) path spath body w)"
| "route cfg names century e i (GetDifference body) w = answer Difference_page (handleGetDifference cfg e (claims_of i) body w)"
| "route cfg names century e i (Typing body) w = answer (\<lambda>_. Acknowledged) (handleTyping e (claims_of i) body w)"
| "route cfg names century e i (ListMemberIDs path) w = answer MemberIDs (handleListMemberIDs e path w, w)"

text \<open>The routes each family mounts.\<close>

fun public_route :: "request \<Rightarrow> bool" where
  "public_route (Typing _) = False"
| "public_route (ListMemberIDs _) = False"
| "public_route (Send path _) = (path \<noteq> None)"
| "public_route (MarkAsRead path _) = (path \<noteq> None)"
| "public_route _ = True"

fun internal_route :: "request \<Rightarrow> bool" where
  "internal_route (Send path _) = (path = None)"
| "internal_route (MarkAsRead path _) = (path \<noteq> None)"
| "internal_route (GetHistory _ _ _) = True"
| "internal_route (GetDifference _) = True"
| "internal_route (GetDialogs _ _ _) = True"
| "internal_route (Typing _) = True"
| "internal_route (ListMemberIDs _) = True"
| "internal_route _ = False"

definition mounted :: "identity \<Rightarrow> request \<Rightarrow> bool" where
  "mounted i r = (case i of Token _ \<Rightarrow> public_route r | Gateway _ \<Rightarrow> internal_route r)"

definition serve ::
  "chat_cfg \<Rightarrow> (int \<Rightarrow> string) \<Rightarrow> (int \<Rightarrow> int) \<Rightarrow> chat_env \<Rightarrow> identity \<Rightarrow> request \<Rightarrow> chat_world \<Rightarrow> (http_error + response) \<times> chat_world" where
  "serve cfg names century e i r w =
     (if \<not> mounted i r then (Inl NotFound, w)
      else if claims_of i = None then (Inl Unauthorized, w)
      else route cfg names century e i r w)"

definition serve_all ::
  "chat_cfg \<Rightarrow> (int \<Rightarrow> string) \<Rightarrow> (int \<Rightarrow> int) \<Rightarrow> (chat_env \<times> identity \<times> request) list \<Rightarrow> chat_world \<Rightarrow> chat_world" where
  "serve_all cfg names century jobs w = fold (\<lambda>(e, i, r) w. snd (serve cfg names century e i r w)) jobs w"

section \<open>A server that keeps an invariant\<close>

locale request_server =
  fixes step :: "'job \<Rightarrow> 'w \<Rightarrow> 'w" and ok :: "'w \<Rightarrow> bool"
  assumes step_ok: "ok w \<Longrightarrow> ok (step j w)"
begin

lemma run_ok: "ok w \<Longrightarrow> ok (fold step js w)"
  by (induction js arbitrary: w) (simp_all add: step_ok)

end

lemma snd_answer [simp]: "snd (answer f r) = snd r"
  by (simp add: answer_def)

lemmas handlers_ok =
  handleCreateChat_ok handleUpdateChat_ok handleAddMember_ok handleRemoveMember_ok handleSetRole_ok handleDeleteChat_ok
  handleLeave_ok handleMute_ok handleSendMessage_ok handleGetHistory_ok handleMarkRead_ok handleDeleteMessage_ok
  handleEditMessage_ok handleGetDifference_ok handleTyping_ok

lemma serve_ok: "world_ok w \<Longrightarrow> world_ok (snd (serve cfg names century e i r w))"
  by (cases r) (simp_all add: serve_def handlers_ok)

interpretation chat: request_server "\<lambda>(e, i, r) w. snd (serve cfg names century e i r w)" world_ok
  for cfg names century
  by unfold_locales (simp add: serve_ok split: prod.split)

lemma serve_all_ok: "world_ok w \<Longrightarrow> world_ok (serve_all cfg names century jobs w)"
  unfolding serve_all_def by (rule chat.run_ok)

definition empty_world :: "(int \<times> bool) list \<Rightarrow> chat_world" where
  "empty_world users =
     \<lparr>w_pg = \<lparr>pg_chats = [], pg_members = [], pg_sequences = [], pg_users = users, pg_pair_arbiter = False\<rparr>,
      w_cass = empty_cass, w_seq = (\<lambda>_. \<lparr>sk_counter = None, sk_lock = False\<rparr>), w_roster = [], w_bans = [], w_blocks = [],
      w_buckets = [], w_raw = [], w_bus = [], w_audit = Some (New ''chat-0'')\<rparr>"

lemma empty_world_ok: "world_ok (empty_world users)"
  by (simp add: world_ok_def empty_world_def empty_cass_wf pg_ok_def seq_ok_def keys_ok_def)

section \<open>Frames\<close>

lemma members_frame [simp]:
  "w_cass (snd (handleCreateChat cfg e claims body w)) = w_cass w"
  "w_cass (snd (handleUpdateChat e claims path ubody w)) = w_cass w"
  "w_cass (snd (handleAddMember cfg e claims path abody w)) = w_cass w"
  "w_cass (snd (handleRemoveMember cfg e claims path upath w)) = w_cass w"
  "w_cass (snd (handleLeave e claims path w)) = w_cass w"
  "w_cass (snd (handleMute century e claims path mbody w)) = w_cass w"
  "w_cass (snd (handleSetRole cfg e claims path upath rbody w)) = w_cass w"
  "w_cass (snd (handleDeleteChat cfg e claims path w)) = w_cass w"
  unfolding handleCreateChat_def handleUpdateChat_def handleAddMember_def handleRemoveMember_def handleLeave_def handleMute_def
    handleSetRole_def handleDeleteChat_def Let_def
  by ((intro keep_cass, simp_all split: ChatType.split prod.split sum.split)+)

lemma messages_frame [simp]:
  "w_cass (snd (handleSendMessage cfg e claims path' sbody w)) = w_cass w"
  "w_cass (snd (handleGetHistory cfg e claims path qb ql w)) = w_cass w"
  "w_cass (snd (handleGetDifference cfg e claims dbody w)) = w_cass w"
  "w_cass (snd (handleMarkRead e claims path' kbody w)) = w_cass w"
  "w_cass (snd (handleTyping e claims tbody w)) = w_cass w"
proof -
  have "w_cass (snd (accept_message cfg e user c ty req rs w)) = w_cass w" for user c ty req rs and w :: chat_world
    by (simp add: accept_message_def Let_def fanout_def split: prod.split sum.split)
  then show "w_cass (snd (handleSendMessage cfg e claims path' sbody w)) = w_cass w"
    unfolding handleSendMessage_def by (intro keep_cass) (simp_all split: sum.split prod.split)
qed (unfold handleGetHistory_def handleGetDifference_def handleMarkRead_def handleTyping_def Let_def,
    (intro keep_cass, simp_all split: sum.split)+)

lemma raw_frame [simp]:
  "w_raw (snd (handleCreateChat cfg e claims body w)) = w_raw w"
  "w_raw (snd (handleUpdateChat e claims path ubody w)) = w_raw w"
  "w_raw (snd (handleAddMember cfg e claims path abody w)) = w_raw w"
  "w_raw (snd (handleRemoveMember cfg e claims path upath w)) = w_raw w"
  "w_raw (snd (handleLeave e claims path w)) = w_raw w"
  "w_raw (snd (handleMute century e claims path mbody w)) = w_raw w"
  "w_raw (snd (handleSetRole cfg e claims path upath rbody w)) = w_raw w"
  "w_raw (snd (handleDeleteChat cfg e claims path w)) = w_raw w"
  "w_raw (snd (handleGetHistory cfg e claims path qb ql w)) = w_raw w"
  "w_raw (snd (handleGetDifference cfg e claims dbody w)) = w_raw w"
  "w_raw (snd (handleMarkRead e claims path' kbody w)) = w_raw w"
  "w_raw (snd (handleDeleteMessage cfg e claims path spath w)) = w_raw w"
  "w_raw (snd (handleEditMessage cfg e claims path spath ebody w)) = w_raw w"
  "w_raw (snd (handleTyping e claims tbody w)) = w_raw w"
  unfolding handleCreateChat_def handleUpdateChat_def handleAddMember_def handleRemoveMember_def handleLeave_def handleMute_def
    handleSetRole_def handleDeleteChat_def handleGetHistory_def handleGetDifference_def handleMarkRead_def handleDeleteMessage_def
    handleEditMessage_def handleTyping_def Let_def
  by ((intro keep_raw, simp_all split: ChatType.split prod.split sum.split)+)

section \<open>What the checks establish\<close>

lemma requireMember_active: "requireMember e w c u = Inr m \<Longrightarrow> u \<in> active_users (w_pg w) c"
  using requireMember_InrD [of e w c u m] by (auto simp: active_users_def)

lemma messageAt_InrD: "world_ok w \<Longrightarrow> messageAt e w c s = Inr m \<Longrightarrow> stored (w_cass w) c m \<and> sm_Seq m = s"
  using read_stored(1) [OF world_ok_parts(2), of w "e_cass e" c s s 1 _ m]
  by (force simp: messageAt_def split: sum.splits list.splits)

lemma and_then_InrD: "and_then r k = (Inr y, s') \<Longrightarrow> \<exists>x s. r = (Inr x, s) \<and> k x s = (Inr y, s')"
  by (cases r; cases "fst r") (auto simp: and_then_def)

text \<open>The messages a response shows.\<close>

fun disclosed :: "response \<Rightarrow> historyMessage list" where
  "disclosed (History_page ms _) = ms"
| "disclosed (Difference_page d) = di_messages d"
| "disclosed _ = []"

lemma fromStored_chat [simp]: "hm_ChatID (fromStored decode m) = sm_ChatID m" "hm_Seq (fromStored decode m) = sm_Seq m"
  by (simp_all add: fromStored_def Let_def)

lemma history_disclosed:
  assumes "world_ok w" and "handleGetHistory cfg e claims path qb ql w = (Inr (ms, n), w')" and "m \<in> set ms"
  shows "\<exists>user. claims = Some user \<and> user \<in> active_users (w_pg w) (hm_ChatID m)"
proof -
  from assms(2) obtain user c w1 x rows where h: "claims = Some user" "checkLimit e (KeyUser ''read'' user) APIReadPerUser w = (Inr x, w1)"
    "requireMember e w1 c user = Inr (fst rows)" "History (e_cass e) (w_cass w1) c (QueryInt64 qb 0) (QueryInt ql 50 1 200) = Inr (snd rows)"
    "ms = map (fromStored (cfg_decode cfg)) (snd rows)"
    by (auto simp: handleGetHistory_def Let_def split: option.splits sum.splits dest!: and_then_InrD)
  have w1: "w_pg w1 = w_pg w" "w_cass w1 = w_cass w" using checks_frame(1,3) [of e "KeyUser ''read'' user" APIReadPerUser w] h(2) by simp_all
  obtain r where r: "m = fromStored (cfg_decode cfg) r" "r \<in> set (snd rows)" using assms(3) h(5) by auto
  then have "stored (w_cass w) c r" using read_stored(2) [OF world_ok_parts(2) [OF assms(1)]] h(4) w1 by metis
  then have "hm_ChatID m = c" using stored_chat [OF world_ok_parts(2) [OF assms(1)]] r by simp
  then show ?thesis using h(1) requireMember_active [OF h(3)] w1 by simp
qed

lemma difference_step_mem:
  assumes "m \<in> set (di_messages (difference_step q sh al l p d))"
  shows "m \<in> set (di_messages d) \<or> (\<exists>c a b n rows r. al c \<noteq> None \<and> q c a b n = Inr rows \<and> r \<in> set rows \<and> m = sh r)"
proof (cases "al (fst p)")
  case (Some mx)
  let ?q = "q (fst p) (snd p + 1) mx (int (l - length (di_messages d)))"
  from assms Some have "m \<in> set (di_messages d) \<or> (\<exists>rows. ?q = Inr rows \<and> m \<in> sh ` set rows)"
    by (auto simp: difference_step_def Let_def case_prod_unfold split: if_splits sum.splits)
  with Some show ?thesis by blast
qed (use assms in \<open>simp add: difference_step_def case_prod_unfold\<close>)

lemma difference_walk_mem:
  "m \<in> set (di_messages (difference_walk q sh al l cs d)) \<Longrightarrow>
    m \<in> set (di_messages d) \<or> (\<exists>c a b n rows r. al c \<noteq> None \<and> q c a b n = Inr rows \<and> r \<in> set rows \<and> m = sh r)"
  unfolding difference_walk_def
proof (induction cs arbitrary: d)
  case (Cons p cs)
  then show ?case using difference_step_mem [of m q sh al l p d] by auto
qed simp

lemma handleGetDifference_InrD:
  assumes "handleGetDifference cfg e claims body w = (Inr d, w')"
  shows "\<exists>user req. claims = Some user \<and> body = Inr req \<and>
    d = difference_walk (Range (e_cass e) (w_cass w)) (fromStored (cfg_decode cfg)) (allowed_chats w user)
      (difference_limit (df_Limit req)) (df_Cursors req) \<lparr>di_messages = [], di_truncated = False, di_cursors = []\<rparr>"
proof -
  from assms obtain user req where u: "claims = Some user" "body = Inr req"
    by (auto simp: handleGetDifference_def split: option.splits sum.splits)
  show ?thesis
  proof (cases "df_Cursors req = []")
    case False
    with assms u obtain x w1 where "checkLimit e (KeyUser ''read'' user) APIReadPerUser w = (Inr x, w1)"
      "d = difference_walk (Range (e_cass e) (w_cass w1)) (fromStored (cfg_decode cfg)) (allowed_chats w1 user)
        (difference_limit (df_Limit req)) (df_Cursors req) \<lparr>di_messages = [], di_truncated = False, di_cursors = []\<rparr>"
      by (auto simp: handleGetDifference_def split: if_splits dest!: and_then_InrD)
    with u checks_frame(1,3) [of e "KeyUser ''read'' user" APIReadPerUser w] show ?thesis by (simp add: allowed_chats_def)
  qed (use assms u in \<open>simp add: handleGetDifference_def difference_walk_def\<close>)
qed

lemma allowed_chats_active:
  assumes "world_ok w" and "allowed_chats w user c = Some mx"
  shows "user \<in> active_users (w_pg w) c" "mx = Sequences_Max (w_pg w) c"
proof -
  from assms(2) obtain dl where "dl \<in> set (Dialogs (w_pg w) user True 500 0)" "c = ch_ID (dl_Chat dl)" "mx = dl_MaxSeq dl"
    by (auto simp: allowed_chats_def dest!: map_of_SomeD)
  then show "user \<in> active_users (w_pg w) c" "mx = Sequences_Max (w_pg w) c"
    using Dialogs_mem [OF world_ok_parts(1) [OF assms(1)]] by simp_all
qed

lemma difference_disclosed:
  assumes "world_ok w" and "handleGetDifference cfg e claims body w = (Inr d, w')" and "m \<in> set (di_messages d)"
  shows "\<exists>user. claims = Some user \<and> user \<in> active_users (w_pg w) (hm_ChatID m)"
proof -
  from handleGetDifference_InrD [OF assms(2)] assms(3) obtain user c y a b n rows r where u: "claims = Some user"
    and c: "allowed_chats w user c = Some y" "Range (e_cass e) (w_cass w) c a b n = Inr rows" "r \<in> set rows"
      "m = fromStored (cfg_decode cfg) r"
    by (fastforce dest!: difference_walk_mem)
  have "hm_ChatID m = c" using read_stored(1) [OF world_ok_parts(2) c(2,3)] stored_chat [OF world_ok_parts(2)] c(4) assms(1) by simp
  then show ?thesis using u allowed_chats_active(1) [OF assms(1) c(1)] by simp
qed

lemma difference_step_other:
  "c \<noteq> fst p \<Longrightarrow> map_of (di_cursors (difference_step q sh al l p d)) c = map_of (di_cursors d) c"
  by (simp add: difference_step_def Let_def case_prod_unfold AList.update_conv' split: option.split sum.split)

lemma difference_step_grows: "set (di_messages d) \<subseteq> set (di_messages (difference_step q sh al l p d))"
  by (auto simp: difference_step_def Let_def case_prod_unfold split: option.split sum.split)

lemma difference_walk_grows: "set (di_messages d) \<subseteq> set (di_messages (difference_walk q sh al l cs d))"
  unfolding difference_walk_def
proof (induction cs arbitrary: d)
  case (Cons p cs)
  then show ?case using difference_step_grows [of d q sh al l p] by fastforce
qed simp

lemma difference_walk_other:
  "c \<notin> fst ` set cs \<Longrightarrow> map_of (di_cursors (difference_walk q sh al l cs d)) c = map_of (di_cursors d) c"
  unfolding difference_walk_def by (induction cs arbitrary: d) (simp_all add: difference_step_other)

text \<open>What lies below the last row of a page is on the page.\<close>

lemma page_prefix:
  fixes f :: "'a \<Rightarrow> int"
  assumes "sorted_wrt (\<lambda>x y. f x < f y) xs" and "take k xs \<noteq> []" and "m \<in> set xs" and "f m \<le> f (last (take k xs))"
  shows "m \<in> set (take k xs)"
proof (rule ccontr)
  assume "m \<notin> set (take k xs)"
  then have "m \<in> set (drop k xs)" using assms(3) by (metis append_take_drop_id in_set_conv_decomp_first set_append UnE)
  moreover have "sorted_wrt (\<lambda>x y. f x < f y) (take k xs @ drop k xs)" using assms(1) by simp
  ultimately have "f (last (take k xs)) < f m" using assms(2) by (simp only: sorted_wrt_append) auto
  with assms(4) show False by simp
qed

lemma difference_step_complete:
  fixes down :: "cass_stmt \<Rightarrow> bool" and t :: cass
  assumes "cass_wf t" and "0 \<le> since" and "map_of (di_cursors d) c = None"
    and "map_of (di_cursors (difference_step (Range down t) sh al l (c, since) d)) c = Some n"
    and "stored t c m" and "since < sm_Seq m" and "sm_Seq m \<le> n"
  shows "sh m \<in> set (di_messages (difference_step (Range down t) sh al l (c, since) d))"
proof -
  obtain mx rows where mx: "al c = Some mx" "\<not> mx \<le> since" "length (di_messages d) < l"
    "Range down t c (since + 1) mx (int (l - length (di_messages d))) = Inr rows" "rows \<noteq> []" "n = sm_Seq (last rows)"
    using assms(3-7) by (auto simp: difference_step_def Let_def AList.update_conv' split: option.splits if_splits sum.splits)
  obtain all_rows where r: "sorted_wrt (\<lambda>x y. sm_Seq x < sm_Seq y) all_rows"
    "\<And>m. m \<in> set all_rows \<longleftrightarrow> stored t c m \<and> max 1 (since + 1) \<le> sm_Seq m \<and> sm_Seq m \<le> mx"
    "rows = take (range_limit (int (l - length (di_messages d)))) all_rows"
    using Range_rows [OF assms(1), of c "since + 1" mx "int (l - length (di_messages d))"] reads_agree(1) [OF mx(4)] by auto
  have "n \<le> mx" using read_stored(1) [OF assms(1) mx(4), of "last rows"] mx(5,6) by simp
  then have "m \<in> set all_rows" using r(2) assms(2,5-7) by auto
  then have "m \<in> set rows" using page_prefix [OF r(1)] mx(5,6) r(3) assms(7) by metis
  then show ?thesis using mx by (simp add: difference_step_def Let_def)
qed

lemma difference_walk_complete:
  assumes "cass_wf t" and "distinct (map fst cs)" and "(c, since) \<in> set cs" and "0 \<le> since" and "map_of (di_cursors d) c = None"
    and "map_of (di_cursors (difference_walk (Range down t) sh al l cs d)) c = Some n"
    and "stored t c m" and "since < sm_Seq m" and "sm_Seq m \<le> n"
  shows "sh m \<in> set (di_messages (difference_walk (Range down t) sh al l cs d))"
  using assms(2,3,5,6)
proof (induction cs arbitrary: d)
  case (Cons p cs)
  let ?d = "difference_step (Range down t) sh al l p d"
  have walk: "difference_walk (Range down t) sh al l (p # cs) d = difference_walk (Range down t) sh al l cs ?d"
    by (simp add: difference_walk_def)
  show ?case
  proof (cases "p = (c, since)")
    case True
    then have "c \<notin> fst ` set cs" using Cons.prems(1) by auto
    then have "map_of (di_cursors ?d) c = Some n" using Cons.prems(4) difference_walk_other unfolding walk by metis
    then have "sh m \<in> set (di_messages ?d)" using True Cons.prems(3) difference_step_complete [OF assms(1,4)] assms(7-9) by blast
    then show ?thesis using difference_walk_grows unfolding walk by fast
  next
    case False
    then have "c \<noteq> fst p" "(c, since) \<in> set cs" using Cons.prems(1,2) by (auto simp: rev_image_eqI)
    then show ?thesis using Cons.IH [of ?d] Cons.prems unfolding walk by (simp add: difference_step_other)
  qed
qed simp

text \<open>The two writes of the store: the row they touch is the one the checks looked at.\<close>

lemma upsert_keeps_others:
  assumes "stored t c m" and "\<not> stored (upsert_row (c', BucketOf s, s) f t) c m"
  shows "c = c' \<and> sm_Seq m = s"
  using assms by (auto simp: stored_def map_of_upsert_row split: if_splits)

lemma delete_InrD:
  assumes "world_ok w" and "stored (w_cass w) c m" and "\<not> stored (w_cass (snd (handleDeleteMessage cfg e claims path spath w))) c m"
  shows "\<exists>user member. claims = Some user \<and> requireMember e w c user = Inr member \<and> canDeleteMessage member (sm_SenderID m) \<noteq> Inl Forbidden"
proof -
  from assms(2,3) obtain user c' s member m' b where h: "claims = Some user" "path = Inr c'" "spath = Inr s"
    "requireMember e w c' user = Inr member" "messageAt e w c' s = Inr m'" "canDeleteMessage member (sm_SenderID m') = Inr b"
    by (auto simp: handleDeleteMessage_def split: option.splits sum.splits)
  then have "w_cass (snd (handleDeleteMessage cfg e claims path spath w)) = snd (Store_SoftDelete (e_cass e) c' s (w_cass w))"
    by (cases "Store_SoftDelete (e_cass e) c' s (w_cass w)"; cases "fst (Store_SoftDelete (e_cass e) c' s (w_cass w))")
      (simp_all add: handleDeleteMessage_def Let_def)
  then have "c = c'" "sm_Seq m = s" using assms(2,3) upsert_keeps_others by (auto simp: Store_SoftDelete_def split: if_splits)
  then have "m' = m" using messageAt_InrD [OF assms(1) h(5)] stored_unique assms(2) by metis
  then show ?thesis using h \<open>c = c'\<close> by simp
qed

lemma edit_InrD:
  assumes "world_ok w" and "stored (w_cass w) c m" and "\<not> stored (w_cass (snd (handleEditMessage cfg e claims path spath body w))) c m"
  shows "\<exists>user member. claims = Some user \<and> requireMember e w c user = Inr member \<and> sm_SenderID m = user"
proof -
  from assms(2,3) obtain user c' s member m' body_text where h: "claims = Some user" "path = Inr c'" "spath = Inr s" "body = Inr body_text"
    "\<not> TrimSpace body_text = ''''" "\<not> cfg_MaxMessageRunes cfg < rune_count body_text"
    "requireMember e w c' user = Inr member" "messageAt e w c' s = Inr m'" "\<not> sm_SenderID m' \<noteq> user" "\<not> sm_Deleted m'"
    by (auto simp: handleEditMessage_def split: option.splits sum.splits if_splits)
  then have "w_cass (snd (handleEditMessage cfg e claims path spath body w)) = snd (Edit (e_cass e) c' s body_text (e_now e) (w_cass w))"
    by (cases "Edit (e_cass e) c' s body_text (e_now e) (w_cass w)"; cases "fst (Edit (e_cass e) c' s body_text (e_now e) (w_cass w))")
      (simp_all add: handleEditMessage_def)
  then have "c = c'" "sm_Seq m = s" using assms(2,3) upsert_keeps_others by (auto simp: Edit_def split: if_splits)
  then have "m' = m" using messageAt_InrD [OF assms(1) h(8)] stored_unique assms(2) by metis
  then show ?thesis using h \<open>c = c'\<close> by simp
qed

text \<open>What a send that reached the topic went through.\<close>

lemma limit_bans: "w_bans (snd (checkLimit e key l w)) = w_bans w"
  by (simp add: checkLimit_def split: prod.split)

lemma accept_message_raw:
  "w_raw (snd (accept_message cfg e user c ty req rs w)) = w_raw w \<or>
    (\<exists>s. w_raw (snd (accept_message cfg e user c ty req rs w)) = w_raw w @ [(chatKey c, message_event cfg e user c s ty req rs)]
      \<and> (\<exists>x. fst (accept_message cfg e user c ty req rs w) = Inr x \<and> sr_Seq x = s \<and> sr_ChatID x = c))"
  by (auto simp: accept_message_def Let_def fanout_def split: prod.split sum.split)

lemma send_published:
  assumes "w_raw (snd (handleSendMessage cfg e claims path body w)) \<noteq> w_raw w"
  obtains user req c ty rs ch rs' w2 w3 w4 where "claims = Some user" "body = Inr req" "request_chat path (sq_ChatID req) = Inr c"
    "validateSend cfg req = Inr ty" "refuseIfBanned e w2 user = None" "authorisedRecipients cfg e c user w2 = (Inr rs, w3)"
    "liveChat e w3 c = Inr ch" "isLocal cfg (ch_HomeRegion ch) \<or> e_proxied e" "w_bans w2 = w_bans w" "w_roster w2 = w_roster w"
    "w_pg w2 = w_pg w" "w_pg w3 = w_pg w" "w_raw w4 = w_raw w"
    "handleSendMessage cfg e claims path body w = accept_message cfg e user c ty req rs' w4"
proof -
  note d = handleSendMessage_def and_then_def
  let ?send = "handleSendMessage cfg e claims path body w"
  obtain user req where 1: "claims = Some user" "body = Inr req" using assms by (cases claims; cases body) (simp_all add: d)
  obtain c ty where 2: "request_chat path (sq_ChatID req) = Inr c" "c \<noteq> 0" "validateSend cfg req = Inr ty"
    using assms 1 by (cases "request_chat path (sq_ChatID req)"; cases "validateSend cfg req") (simp_all add: d split: if_splits)
  let ?l1 = "checkLimit e (KeyUser ''send'' user) SendMessage w"
  obtain x1 w1 where 3: "?l1 = (Inr x1, w1)" "w_raw w1 = w_raw w" "w_pg w1 = w_pg w" "w_roster w1 = w_roster w" "w_bans w1 = w_bans w"
    using assms 1 2 checks_frame(2,3,7) [of e "KeyUser ''send'' user" SendMessage w] limit_bans [of e "KeyUser ''send'' user" SendMessage w]
    by (cases ?l1; cases "fst ?l1") (simp_all add: d)
  let ?l2 = "checkLimit e (KeyUserChat ''send'' user c) SendMessagePerChat w1"
  obtain x2 w2 where 4: "?l2 = (Inr x2, w2)" "w_raw w2 = w_raw w" "w_pg w2 = w_pg w" "w_roster w2 = w_roster w" "w_bans w2 = w_bans w"
    using assms 1 2 3 checks_frame(2,3,7) [of e "KeyUserChat ''send'' user c" SendMessagePerChat w1]
      limit_bans [of e "KeyUserChat ''send'' user c" SendMessagePerChat w1]
    by (cases ?l2; cases "fst ?l2") (simp_all add: d)
  have 5: "refuseIfBanned e w2 user = None" using assms 1 2 3 4 by (cases "refuseIfBanned e w2 user") (simp_all add: d)
  let ?a = "authorisedRecipients cfg e c user w2"
  obtain rs w3 where 6: "?a = (Inr rs, w3)" "w_raw w3 = w_raw w" "w_pg w3 = w_pg w"
    using assms 1 2 3 4 5 checks_frame(5,6) [of cfg e c user w2] by (cases ?a; cases "fst ?a") (simp_all add: d)
  obtain ch where 7: "liveChat e w3 c = Inr ch" "isLocal cfg (ch_HomeRegion ch) \<or> e_proxied e"
    using assms 1 2 3 4 5 6 by (cases "liveChat e w3 c") (auto simp: d split: if_splits)
  let ?b = "enforceBlocks e ch user rs w3"
  obtain rs' w4 where 8: "?b = (Inr rs', w4)" "w_raw w4 = w_raw w"
    using assms 1 2 3 4 5 6 7 blocks_frame(2) [of e ch user rs w3]
    by (cases ?b; cases "fst ?b") (auto simp: d split: if_splits)
  have "?send = accept_message cfg e user c ty req rs' w4"
    using assms 1 2 3 4 5 6 7 8 by (auto simp: d split: sum.splits prod.splits)
  with 1 2 4 5 6 7 8 that show thesis by blast
qed

section \<open>Samples\<close>

definition sample_cfg :: chat_cfg where
  "sample_cfg =
     \<lparr>cfg_Region = ''eu'', cfg_RegionEndpoints = [], cfg_MembersCacheTTL = 60000, cfg_MaxMessageRunes = 4096,
      cfg_MaxGroupMembers = 200, cfg_MaxRecipientsInline = 100, cfg_marshal = (\<lambda>_. None), cfg_decode = (\<lambda>_. None)\<rparr>"

text \<open>User 5 creates group 9 with user 6, who posts twice.\<close>

definition group_of_two :: "chat_env \<times> identity \<times> request" where
  "group_of_two = (calm 0 '''' 9, Token (Some 5), CreateChat (Inr \<lparr>cc_Type = ''group'', cc_PeerID = 0, cc_Title = ''team'', cc_Members = [6]\<rparr>))"

definition text_message :: "int \<Rightarrow> string \<Rightarrow> chat_env \<times> identity \<times> request" where
  "text_message now body_text =
     (calm now ''m-1'' 0, Token (Some 6),
      Send (Some (Inr 9)) (Inr \<lparr>sq_ChatID = 0, sq_Type = ''text'', sq_Body = body_text, sq_RandomID = 0, sq_ReplyToSeq = 0,
        sq_MediaObject = '''', sq_MediaMime = '''', sq_MediaSize = 0, sq_MediaWidth = 0, sq_MediaHeight = 0, sq_MediaDurMS = 0,
        sq_Encrypted = False\<rparr>))"

definition sample_world :: chat_world where
  "sample_world = serve_all sample_cfg (\<lambda>_. '''') id [group_of_two, text_message 1000 ''hi'', text_message 2000 ''again'']
     (empty_world [(5, False), (6, False)])"

text \<open>The sample world after user 6's messages were persisted.\<close>

definition sample_row :: "int \<Rightarrow> cass \<Rightarrow> cass" where
  "sample_row seq t =
     snd (Insert (\<lambda>_. False) 0
       \<lparr>ev_MessageID = ''m-1'', ev_ChatID = 9, ev_Seq = seq, ev_SenderID = 6, ev_Type = MessageText, ev_Body = ''hi'',
        ev_Encrypted = False, ev_Media = None, ev_ReplyToSeq = 0, ev_Recipients = [5, 6], ev_ClientRandomID = 0, ev_CreatedAt = 1000\<rparr> ''{}'' t)"

definition persisted_world :: chat_world where
  "persisted_world =
     sample_world\<lparr>w_cass := sample_row 2 (sample_row 1 empty_cass), w_pg := snd (Sequences_Advance 0 9 2 (w_pg sample_world))\<rparr>"

lemma persisted_world_ok: "world_ok persisted_world"
proof -
  have "world_ok sample_world" unfolding sample_world_def by (intro serve_all_ok empty_world_ok)
  then show ?thesis
    by (simp add: persisted_world_def world_ok_def sample_row_def store_ops_wf empty_cass_wf Sequences_Advance_ok)
qed

definition catch_up :: request where
  "catch_up = GetDifference (Inr \<lparr>df_Cursors = [(9, 0)], df_Limit = 10\<rparr>)"

definition caught_up :: "http_error + response" where
  "caught_up = fst (serve sample_cfg (\<lambda>_. '''') id (calm 3000 '''' 0) (Gateway 5) catch_up persisted_world)"

lemma caught_up_value:
  "case caught_up of Inr (Difference_page d) \<Rightarrow> map hm_Seq (di_messages d) = [1, 2] \<and> di_cursors d = [(9, 2)] | _ \<Rightarrow> False"
  by code_simp

section \<open>Properties\<close>

text \<open>C1. Whatever requests are made, in whatever order and whichever backend calls fail, every group keeps exactly one
  owner, who is its creator and still a member, and its stored member count is the number of its active members.\<close>

theorem one_owner_always:
  assumes "w = serve_all cfg names century jobs (empty_world users)"
    and "map_of (pg_chats (w_pg w)) c = Some ch" and "ch_Type ch \<noteq> ChatPrivate"
  shows "{u. \<exists>m. map_of (pg_members (w_pg w)) (c, u) = Some m \<and> mb_Role m = RoleOwner} = {ch_CreatedBy ch}
    \<and> ch_CreatedBy ch \<in> active_users (w_pg w) c \<and> ch_MemberCount ch = int (card (active_users (w_pg w) c))"
proof -
  have ok: "pg_ok (w_pg w)" unfolding assms(1) by (intro world_ok_parts serve_all_ok empty_world_ok)
  obtain m where m: "map_of (pg_members (w_pg w)) (c, ch_CreatedBy ch) = Some m" "mb_Role m = RoleOwner"
    using creator_owns [OF ok assms(2,3)] by blast
  have own: "active m' \<and> u = ch_CreatedBy ch" if "map_of (pg_members (w_pg w)) (c, u) = Some m'" "mb_Role m' = RoleOwner" for u m'
    using pg_okD(2) [OF ok that(1)] that(2) assms(2) by (auto simp: member_ok_def)
  show ?thesis
  proof (intro conjI)
    show "{u. \<exists>m. map_of (pg_members (w_pg w)) (c, u) = Some m \<and> mb_Role m = RoleOwner} = {ch_CreatedBy ch}"
      using m own by blast
    show "ch_CreatedBy ch \<in> active_users (w_pg w) c" using m own [OF m] by (auto simp: active_users_def)
  qed (rule count_is_card [OF ok assms(2)])
qed

theorem one_owner_always_witness:
  "\<exists>ch. map_of (pg_chats (w_pg sample_world)) 9 = Some ch \<and>
    {u. \<exists>m. map_of (pg_members (w_pg sample_world)) (9, u) = Some m \<and> mb_Role m = RoleOwner} = {ch_CreatedBy ch}"
proof -
  have "case map_of (pg_chats (w_pg sample_world)) 9 of Some ch \<Rightarrow> ch_Type ch = ChatGroup | None \<Rightarrow> False" by code_simp
  then obtain ch where "map_of (pg_chats (w_pg sample_world)) 9 = Some ch" "ch_Type ch \<noteq> ChatPrivate" by (auto split: option.splits)
  then show ?thesis using one_owner_always [OF sample_world_def] by blast
qed



text \<open>C9. Only members read: whatever message a response shows, the caller is an active member of its chat.\<close>

theorem only_members_read:
  assumes "world_ok w" and "serve cfg names century e i r w = (Inr resp, w')" and "m \<in> set (disclosed resp)"
  shows "\<exists>user. claims_of i = Some user \<and> user \<in> active_users (w_pg w) (hm_ChatID m)"
proof (cases r)
  case (GetHistory path qb ql)
  with assms(2,3) obtain ms n where "handleGetHistory cfg e (claims_of i) path qb ql w = (Inr (ms, n), w')" "m \<in> set ms"
    by (cases "handleGetHistory cfg e (claims_of i) path qb ql w"; cases "fst (handleGetHistory cfg e (claims_of i) path qb ql w)")
      (auto simp: serve_def answer_def split: if_splits prod.splits)
  then show ?thesis by (rule history_disclosed [OF assms(1)])
next
  case (GetDifference body)
  with assms(2,3) obtain d where "handleGetDifference cfg e (claims_of i) body w = (Inr d, w')" "m \<in> set (di_messages d)"
    by (cases "handleGetDifference cfg e (claims_of i) body w"; cases "fst (handleGetDifference cfg e (claims_of i) body w)")
      (auto simp: serve_def answer_def split: if_splits)
  then show ?thesis by (rule difference_disclosed [OF assms(1)])
qed (use assms(2,3) in \<open>auto simp: serve_def answer_def map_sum_def split: if_splits sum.splits prod.splits\<close>)

theorem only_members_read_witness:
  "\<exists>d m. caught_up = Inr (Difference_page d) \<and> m \<in> set (di_messages d) \<and> 5 \<in> active_users (w_pg persisted_world) (hm_ChatID m)"
proof -
  obtain d where d: "caught_up = Inr (Difference_page d)" "map hm_Seq (di_messages d) = [1, 2]"
    using caught_up_value by (auto split: sum.splits response.splits)
  then obtain m where m: "m \<in> set (di_messages d)" by (cases "di_messages d") auto
  have "serve sample_cfg (\<lambda>_. '''') id (calm 3000 '''' 0) (Gateway 5) catch_up persisted_world =
      (Inr (Difference_page d), snd (serve sample_cfg (\<lambda>_. '''') id (calm 3000 '''' 0) (Gateway 5) catch_up persisted_world))"
    using d(1) unfolding caught_up_def by (metis prod.collapse)
  from only_members_read [OF persisted_world_ok this] m d(1) show ?thesis by (auto simp: claims_of_def internalIdentity_def)
qed

text \<open>C21. The reconnect catch-up leaves no gap: for every chat it reports on, the messages between the cursor the client
  sent and the one it gets back are all in the response, whatever queries failed and wherever the page was cut.\<close>

theorem difference_no_gap:
  assumes "world_ok w" and "serve cfg names century e i (GetDifference (Inr req)) w = (Inr (Difference_page d), w')"
    and "distinct (map fst (df_Cursors req))" and "(c, since) \<in> set (df_Cursors req)" and "0 \<le> since"
    and "map_of (di_cursors d) c = Some n"
    and "stored (w_cass w) c m" and "since < sm_Seq m" and "sm_Seq m \<le> n"
  shows "fromStored (cfg_decode cfg) m \<in> set (di_messages d)"
proof -
  from assms(2) have "handleGetDifference cfg e (claims_of i) (Inr req) w = (Inr d, w')"
    by (cases "handleGetDifference cfg e (claims_of i) (Inr req) w"; cases "fst (handleGetDifference cfg e (claims_of i) (Inr req) w)")
      (auto simp: serve_def answer_def split: if_splits)
  from handleGetDifference_InrD [OF this] obtain user where
    d: "d = difference_walk (Range (e_cass e) (w_cass w)) (fromStored (cfg_decode cfg)) (allowed_chats w user)
      (difference_limit (df_Limit req)) (df_Cursors req) \<lparr>di_messages = [], di_truncated = False, di_cursors = []\<rparr>" by auto
  show ?thesis using difference_walk_complete [OF world_ok_parts(2) [OF assms(1)] assms(3-5)] assms(6-9) unfolding d by simp
qed

theorem difference_no_gap_witness:
  "\<exists>d m. caught_up = Inr (Difference_page d) \<and> stored (w_cass persisted_world) 9 m \<and> fromStored (cfg_decode sample_cfg) m \<in> set (di_messages d)"
proof -
  obtain d where d: "caught_up = Inr (Difference_page d)" "di_cursors d = [(9, 2)]"
    using caught_up_value by (auto split: sum.splits response.splits)
  have s: "serve sample_cfg (\<lambda>_. '''') id (calm 3000 '''' 0) (Gateway 5) (GetDifference (Inr \<lparr>df_Cursors = [(9, 0)], df_Limit = 10\<rparr>)) persisted_world =
      (Inr (Difference_page d), snd (serve sample_cfg (\<lambda>_. '''') id (calm 3000 '''' 0) (Gateway 5) catch_up persisted_world))"
    using d(1) unfolding caught_up_def catch_up_def by (metis prod.collapse)
  have "case map_of (messages_by_chat (w_cass persisted_world)) (9, 0, 1) of Some m \<Rightarrow> sm_Seq m = 1 | None \<Rightarrow> False" by code_simp
  then obtain m where m: "map_of (messages_by_chat (w_cass persisted_world)) (9, 0, 1) = Some m" "sm_Seq m = 1" by (auto split: option.splits)
  then have st: "stored (w_cass persisted_world) 9 m" by (simp add: stored_def BucketOf_nonneg)
  have "fromStored (cfg_decode sample_cfg) m \<in> set (di_messages d)"
    by (rule difference_no_gap [OF persisted_world_ok s, of 9 0 2]) (use m st d in simp_all)
  with d(1) st show ?thesis by blast
qed

text \<open>C10. Stored messages are protected: if a request changes a stored message, whatever the request and whatever fails, its
  caller is an active member of the chat and either wrote the message or is an administrator or owner.\<close>

theorem stored_messages_protected:
  assumes "world_ok w" and "serve cfg names century e i r w = (res, w')" and "stored (w_cass w) c m" and "\<not> stored (w_cass w') c m"
  shows "\<exists>user member. claims_of i = Some user \<and> map_of (pg_members (w_pg w)) (c, user) = Some member \<and> active member
    \<and> (sm_SenderID m = user \<or> 0 < rank (mb_Role member))"
proof (cases r)
  case (DeleteMessage path spath)
  then have "\<not> stored (w_cass (snd (handleDeleteMessage cfg e (claims_of i) path spath w))) c m"
    using assms(2-4) by (auto simp: serve_def answer_def split: if_splits)
  from delete_InrD [OF assms(1,3) this] obtain user member where h: "claims_of i = Some user" "requireMember e w c user = Inr member"
    "canDeleteMessage member (sm_SenderID m) \<noteq> Inl Forbidden" by blast
  note mem = requireMember_InrD [OF h(2)]
  then have "mb_UserID member = user" using pg_okD(2) [OF world_ok_parts(1) [OF assms(1)] mem(1)] by (simp add: member_ok_def)
  then show ?thesis using h mem by (auto simp: canDeleteMessage_def rank_cases split: if_splits)
next
  case (EditMessage path spath body)
  then have "\<not> stored (w_cass (snd (handleEditMessage cfg e (claims_of i) path spath body w))) c m"
    using assms(2-4) by (auto simp: serve_def answer_def split: if_splits)
  from edit_InrD [OF assms(1,3) this] show ?thesis by (blast dest: requireMember_InrD)
qed (use assms(2-4) in \<open>auto simp: serve_def answer_def split: if_splits dest: arg_cong [of _ _ snd]\<close>)

theorem stored_messages_protected_witness:
  "\<exists>user member. claims_of (Token (Some 5)) = Some user \<and> map_of (pg_members (w_pg persisted_world)) (9, user) = Some member
    \<and> 0 < rank (mb_Role member)"
proof -
  let ?w' = "snd (serve sample_cfg (\<lambda>_. '''') id (calm 3000 '''' 0) (Token (Some 5)) (DeleteMessage (Inr 9) (Inr 1)) persisted_world)"
  have "case map_of (messages_by_chat (w_cass persisted_world)) (9, 0, 1) of
      Some m \<Rightarrow> sm_Seq m = 1 \<and> sm_SenderID m = 6 \<and> map_of (messages_by_chat (w_cass ?w')) (9, 0, 1) \<noteq> Some m | None \<Rightarrow> False" by code_simp
  then obtain m where m: "map_of (messages_by_chat (w_cass persisted_world)) (9, 0, 1) = Some m" "sm_Seq m = 1" "sm_SenderID m = 6"
    "map_of (messages_by_chat (w_cass ?w')) (9, 0, 1) \<noteq> Some m" by (auto split: option.splits)
  then have "stored (w_cass persisted_world) 9 m" "\<not> stored (w_cass ?w') 9 m" by (simp_all add: stored_def BucketOf_nonneg)
  from stored_messages_protected [OF persisted_world_ok prod.collapse [symmetric] this] m(3) show ?thesis
    by (auto simp: claims_of_def)
qed



end
