(* ===== verification/Chat_Gaps.thy ===== *)
theory Chat_Gaps
  imports Chat_Service
begin

text \<open>
  Runs of the chat service in which the code does something its comments rule out: each is a sequence of
  requests from an empty installation, evaluated.
\<close>

definition post :: "int \<Rightarrow> int \<Rightarrow> int \<Rightarrow> chat_env \<times> identity \<times> request" where
  "post now user chatID =
     (calm now ''m-1'' 0, Token (Some user),
      Send (Some (Inr chatID)) (Inr \<lparr>sq_ChatID = 0, sq_Type = ''text'', sq_Body = ''hi'', sq_RandomID = 0, sq_ReplyToSeq = 0,
        sq_MediaObject = '''', sq_MediaMime = '''', sq_MediaSize = 0, sq_MediaWidth = 0, sq_MediaHeight = 0, sq_MediaDurMS = 0,
        sq_Encrypted = False\<rparr>))"

definition as_user :: "int \<Rightarrow> int \<Rightarrow> request \<Rightarrow> chat_env \<times> identity \<times> request" where
  "as_user now user r = (calm now '''' 0, Token (Some user), r)"

definition new_group :: "int list \<Rightarrow> chat_env \<times> identity \<times> request" where
  "new_group members =
     (calm 0 '''' 9, Token (Some 5), CreateChat (Inr \<lparr>cc_Type = ''group'', cc_PeerID = 0, cc_Title = ''team'', cc_Members = members\<rparr>))"

definition new_private :: "int \<Rightarrow> int \<Rightarrow> int \<Rightarrow> int \<Rightarrow> chat_env \<times> identity \<times> request" where
  "new_private now chatID user peer =
     (calm now '''' chatID, Token (Some user), CreateChat (Inr \<lparr>cc_Type = ''private'', cc_PeerID = peer, cc_Title = '''', cc_Members = []\<rparr>))"

definition users :: "(int \<times> bool) list" where "users = [(5, False), (6, False), (7, False)]"

text \<open>An installation whose schema lets private chats be created.\<close>

definition indexed_world :: chat_world where
  "indexed_world = (let w = empty_world users in w\<lparr>w_pg := (w_pg w)\<lparr>pg_pair_arbiter := True\<rparr>\<rparr>)"

definition run_jobs :: "(chat_env \<times> identity \<times> request) list \<Rightarrow> chat_world \<Rightarrow> chat_world" where
  "run_jobs jobs w = serve_all sample_cfg (\<lambda>_. '''') id jobs w"

definition reply :: "chat_env \<times> identity \<times> request \<Rightarrow> chat_world \<Rightarrow> http_error + response" where
  "reply job w = (case job of (e, i, r) \<Rightarrow> fst (serve sample_cfg (\<lambda>_. '''') id e i r w))"

text \<open>A restricted member can post: the send path trusts the cached roster, which lists restricted members too, so
  after the restriction the refusal lasts only until somebody else posts.\<close>

theorem restricted_member_posts:
  "let w = run_jobs [new_group [6], as_user 1000 5 (SetRole (Inr 9) (Inr 6) (Inr ''restricted''))] (empty_world users)
   in reply (post 2000 6 9) w = Inl Forbidden
      \<and> map (\<lambda>(_, ev). (ev_Seq ev, ev_SenderID ev)) (w_raw (run_jobs [post 2000 5 9, post 3000 6 9] w)) = [(1, 5), (2, 6)]"
  by code_simp

text \<open>An administrator can make administrators: promoting a member is reserved to the owner, but removing that member
  and adding them back in the role of an administrator is not.\<close>

theorem admin_mints_admin:
  "let w = run_jobs [new_group [6, 7], as_user 1000 5 (SetRole (Inr 9) (Inr 6) (Inr ''admin''))] (empty_world users)
   in reply (as_user 2000 6 (SetRole (Inr 9) (Inr 7) (Inr ''admin''))) w = Inl Forbidden
      \<and> (case map_of (pg_members (w_pg (run_jobs
            [as_user 2000 6 (RemoveMember (Inr 9) (Inr 7)), as_user 3000 6 (AddMember (Inr 9) (Inr \<lparr>am_UserID = 7, am_Role = ''admin''\<rparr>))] w))) (9, 7) of
           Some m \<Rightarrow> mb_Role m = RoleAdmin \<and> active m | None \<Rightarrow> False)"
  by code_simp

text \<open>A private chat one side has left cannot be opened again: asking for the chat answers with the old one, and the
  one who left still is not a member.\<close>

theorem left_private_chat_unrecoverable:
  "let w = run_jobs [new_private 0 11 5 6, as_user 1000 6 (Leave (Inr 11))] indexed_world;
       w' = run_jobs [new_private 2000 12 6 5] w
   in (case reply (new_private 2000 12 6 5) w of Inr (ChatCreated ch created) \<Rightarrow> ch_ID ch = 11 \<and> \<not> created | _ \<Rightarrow> False)
      \<and> reply (post 3000 6 11) w' = Inl NotFound"
  by code_simp

text \<open>The chat list shows the wrong person: when the other side of a private chat has left it, that chat is labelled
  with the other party of the next private chat, which is then labelled with nobody.\<close>

theorem dialog_peer_shifted:
  "let w = run_jobs [new_private 0 12 5 7, new_private 1000 11 5 6, as_user 2000 6 (Leave (Inr 11))] indexed_world
   in case reply (as_user 3000 5 (GetDialogs '''' '''' '''')) w of
        Inr (DialogList ds) \<Rightarrow> map (\<lambda>(d, peer). (ch_ID (dl_Chat d), peer)) ds = [(11, Some 7), (12, None)] | _ \<Rightarrow> False"
  by code_simp

text \<open>Deleting a chat does not close it: the history of a deleted chat stays readable to its members, and its messages
  can still be edited.\<close>

theorem deleted_chat_still_open:
  "let w = (run_jobs [new_group [6], as_user 1000 5 (DeleteChat (Inr 9))] (empty_world users))\<lparr>w_cass := sample_row 1 empty_cass\<rparr>
   in reply (as_user 2000 6 (GetChat (Inr 9))) w = Inl NotFound
      \<and> (case reply (as_user 2000 6 (GetHistory (Inr 9) ''100'' '''')) w of Inr (History_page ms _) \<Rightarrow> map hm_Seq ms = [1] | _ \<Rightarrow> False)
      \<and> reply (as_user 2000 6 (EditMessage (Inr 9) (Inr 1) (Inr ''changed''))) w = Inr (Edited 1 2000)"
  by code_simp

end
