(* ===== verification/Kafka_Consumer.thy ===== *)
theory Kafka_Consumer
  imports Go_Prelude
begin

text \<open>
  The consumer-group member every consumer runs on, \<^verbatim>\<open>pkg/kafkax/consumer.go\<close>: one partition with its committed
  offset, in-place retries, the dead-letter topic and the commit after each record.  The handler is a parameter: a
  function of the environment of one attempt, the record and the state behind the consumer.

  Kafka is outside the program.  What is relied on is that a partition is an append-only log of numbered records, that a
  reader resumes at the committed offset after a restart or a rebalance and reads on in order, and that committing a
  record moves the offset to the one after it.
\<close>

section \<open>Records, handlers, dead letters\<close>

record kafka_message =
  km_Topic :: string
  km_Partition :: int
  km_Offset :: int
  km_Key :: bytes
  km_Value :: bytes

datatype handler_outcome = Handled | ErrSkip | HandlerError string

type_synonym ('e, 's) handler = "'e \<Rightarrow> kafka_message \<Rightarrow> 's \<Rightarrow> handler_outcome \<times> 's"

record DeadLetter =
  dq_SourceTopic :: string
  dq_Group :: string
  dq_Partition :: int
  dq_Offset :: int
  dq_Key :: bytes
  dq_Payload :: bytes
  dq_Error :: string
  dq_Attempts :: nat
  dq_FailedAt :: int

text \<open>\<open>valid\<close> is \<^verbatim>\<open>json.Valid\<close>, \<open>quote\<close> is \<^verbatim>\<open>json.Marshal\<close> of a string, \<open>None\<close> when it fails.\<close>

definition buildDeadLetter ::
  "(bytes \<Rightarrow> bool) \<Rightarrow> (bytes \<Rightarrow> bytes option) \<Rightarrow> int \<Rightarrow> kafka_message \<Rightarrow> string \<Rightarrow> string \<Rightarrow> nat \<Rightarrow> DeadLetter" where
  "buildDeadLetter valid quote now m grp cause attempts =
     \<lparr>dq_SourceTopic = km_Topic m, dq_Group = grp, dq_Partition = km_Partition m, dq_Offset = km_Offset m,
      dq_Key = km_Key m,
      dq_Payload =
        (if valid (km_Value m) then km_Value m
         else case quote (km_Value m) of
           Some raw \<Rightarrow> raw
         | None \<Rightarrow> map (\<lambda>c. word_of_nat (of_char c)) ([char_of (34 :: nat)] @ ''<payload could not be encoded>'' @ [char_of (34 :: nat)])),
      dq_Error = cause, dq_Attempts = attempts, dq_FailedAt = now\<rparr>"

section \<open>Options\<close>

text \<open>Durations are nanoseconds in 64 bits.\<close>

record ConsumerOptions =
  co_Topic :: string
  co_Group :: string
  co_MaxRetries :: int
  co_RetryBase :: int
  co_RetryMax :: int
  co_HasDLQ :: bool

definition max_retries :: "ConsumerOptions \<Rightarrow> nat" where
  "max_retries o' = (if co_MaxRetries o' \<le> 0 then 5 else nat (co_MaxRetries o'))"

definition or_default_ns :: "int \<Rightarrow> int \<Rightarrow> int" where
  "or_default_ns v def = (if v = 0 then def else v)"

text \<open>The wait after a failed attempt: \<^verbatim>\<open>base << attempt\<close>, capped.\<close>

definition retry_delay :: "ConsumerOptions \<Rightarrow> nat \<Rightarrow> int" where
  "retry_delay o' attempt =
     (let base = or_default_ns (co_RetryBase o') 100000000; mx = or_default_ns (co_RetryMax o') 10000000000;
          delay = sint (push_bit attempt (word_of_int base :: 64 word))
      in if mx < delay then mx else delay)"

section \<open>Handling one record\<close>

text \<open>What the attempts at one record meet: the handler's environment at each, whether the context is cancelled
  when an attempt has failed or while waiting for the next, and what the dead-letter topic answers.\<close>

record 'e attempt_env =
  at_env :: "nat \<Rightarrow> 'e"
  at_cancelled :: "nat \<Rightarrow> bool"
  at_cancelled_waiting :: "nat \<Rightarrow> bool"
  at_dlq_down :: bool
  at_now :: int

datatype retry_result = Settled | Stopped | Exhausted string

text \<open>The loop over the attempts, with the number of attempts left after this one.\<close>

fun retry_loop :: "('e, 's) handler \<Rightarrow> 'e attempt_env \<Rightarrow> kafka_message \<Rightarrow> nat \<Rightarrow> nat \<Rightarrow> 's \<Rightarrow> retry_result \<times> 's" where
  "retry_loop h a m attempt left s =
     (case h (at_env a attempt) m s of
        (Handled, s') \<Rightarrow> (Settled, s')
      | (ErrSkip, s') \<Rightarrow> (Settled, s')
      | (HandlerError err, s') \<Rightarrow>
          if at_cancelled a attempt then (Stopped, s')
          else case left of
            0 \<Rightarrow> (Exhausted err, s')
          | Suc n \<Rightarrow> if at_cancelled_waiting a attempt then (Stopped, s') else retry_loop h a m (attempt + 1) n s')"

declare retry_loop.simps [simp del]

record 's consumer =
  cn_log :: "kafka_message list"
  cn_position :: nat
  cn_committed :: nat
  cn_running :: bool
  cn_dlq :: "DeadLetter list"
  cn_state :: 's

datatype step_error = NoDLQ string | DLQDown string | ContextDone

record json_codec =
  jc_valid :: "bytes \<Rightarrow> bool"
  jc_quote :: "bytes \<Rightarrow> bytes option"

definition toDLQ ::
  "json_codec \<Rightarrow> ConsumerOptions \<Rightarrow> 'e attempt_env \<Rightarrow> kafka_message \<Rightarrow> string \<Rightarrow> nat \<Rightarrow> DeadLetter list
     \<Rightarrow> (step_error + unit) \<times> DeadLetter list" where
  "toDLQ jc o' a m cause attempts q =
     (if \<not> co_HasDLQ o' then (Inl (NoDLQ cause), q)
      else if at_dlq_down a then (Inl (DLQDown cause), q)
      else (Inr (), q @ [buildDeadLetter (jc_valid jc) (jc_quote jc) (at_now a) m (co_Group o') cause attempts]))"

definition handleWithRetry ::
  "json_codec \<Rightarrow> ConsumerOptions \<Rightarrow> ('e, 's) handler \<Rightarrow> 'e attempt_env \<Rightarrow> kafka_message \<Rightarrow> 's \<times> DeadLetter list
     \<Rightarrow> (step_error + unit) \<times> ('s \<times> DeadLetter list)" where
  "handleWithRetry jc o' h a m sq =
     (case retry_loop h a m 0 (max_retries o') (fst sq) of
        (Settled, s') \<Rightarrow> (Inr (), (s', snd sq))
      | (Stopped, s') \<Rightarrow> (Inl ContextDone, (s', snd sq))
      | (Exhausted err, s') \<Rightarrow>
          (case toDLQ jc o' a m err (max_retries o' + 1) (snd sq) of (r, q) \<Rightarrow> (r, (s', q))))"

section \<open>Running\<close>

text \<open>One turn of \<^verbatim>\<open>Run\<close>: a record is fetched and handled, and its offset committed; a fetch may fail and be tried
  again; the process may be restarted, by its platform or after it stopped, or lose the partition to another
  member; the producers append records; and other programs change the stores the handler works on.\<close>

datatype ('e, 's) turn =
  FetchFails
| FetchCancelled
| Fetch "'e attempt_env" (commit_fails: bool) (commit_cancelled: bool)
| Restart
| Append bytes bytes
| Meanwhile "'s \<Rightarrow> 's"

fun consumer_turn ::
  "json_codec \<Rightarrow> ConsumerOptions \<Rightarrow> ('e, 's) handler \<Rightarrow> ('e, 's) turn \<Rightarrow> 's consumer \<Rightarrow> 's consumer" where
  "consumer_turn jc o' h FetchFails c = c"
| "consumer_turn jc o' h FetchCancelled c = c\<lparr>cn_running := False\<rparr>"
| "consumer_turn jc o' h (Fetch a fails cancelled) c =
     (if \<not> cn_running c \<or> length (cn_log c) \<le> cn_position c then c
      else let m = cn_log c ! cn_position c
           in case handleWithRetry jc o' h a m (cn_state c, cn_dlq c) of
                (Inl _, (s', q)) \<Rightarrow> c\<lparr>cn_running := False, cn_state := s', cn_dlq := q\<rparr>
              | (Inr _, (s', q)) \<Rightarrow>
                  let c' = c\<lparr>cn_position := cn_position c + 1, cn_state := s', cn_dlq := q\<rparr>
                  in if fails then (if cancelled then c'\<lparr>cn_running := False\<rparr> else c')
                     else c'\<lparr>cn_committed := cn_position c + 1\<rparr>)"
| "consumer_turn jc o' h Restart c = c\<lparr>cn_position := cn_committed c, cn_running := True\<rparr>"
| "consumer_turn jc o' h (Append key val) c =
     c\<lparr>cn_log := cn_log c @ [\<lparr>km_Topic = co_Topic o', km_Partition = 0, km_Offset = int (length (cn_log c)), km_Key = key, km_Value = val\<rparr>]\<rparr>"
| "consumer_turn jc o' h (Meanwhile f) c = c\<lparr>cn_state := f (cn_state c)\<rparr>"

definition consumer_run ::
  "json_codec \<Rightarrow> ConsumerOptions \<Rightarrow> ('e, 's) handler \<Rightarrow> ('e, 's) turn list \<Rightarrow> 's consumer \<Rightarrow> 's consumer" where
  "consumer_run jc o' h turns c = fold (consumer_turn jc o' h) turns c"

definition new_consumer :: "'s \<Rightarrow> 's consumer" where
  "new_consumer s = \<lparr>cn_log = [], cn_position = 0, cn_committed = 0, cn_running = True, cn_dlq = [], cn_state = s\<rparr>"

text \<open>The dead letter of a record names where it came from.\<close>

definition dead_lettered :: "DeadLetter list \<Rightarrow> kafka_message \<Rightarrow> bool" where
  "dead_lettered q m =
     list_ex (\<lambda>d. dq_SourceTopic d = km_Topic m \<and> dq_Partition d = km_Partition m \<and> dq_Offset d = km_Offset m
        \<and> dq_Key d = km_Key m) q"

section \<open>The contract of a handler\<close>

text \<open>What the consumer needs of a handler to keep its promise.  A record is \<open>settled\<close> in a state when its work is
  done there.  A handler that returns without error has settled the record; it skips only what can never succeed;
  whatever it returns, it undoes the work of no other record it can live with, and keeps its own invariant.\<close>

locale settled_handler =
  fixes handle :: "('e, 's) handler" and settled :: "'s \<Rightarrow> kafka_message \<Rightarrow> bool"
    and skippable :: "kafka_message \<Rightarrow> bool" and compatible :: "kafka_message \<Rightarrow> kafka_message \<Rightarrow> bool"
    and ok :: "'s \<Rightarrow> bool"
  assumes handled_settles: "ok s \<Longrightarrow> handle e m s = (Handled, s') \<Longrightarrow> settled s' m"
    and skips_skippable: "ok s \<Longrightarrow> handle e m s = (ErrSkip, s') \<Longrightarrow> skippable m"
    and keeps_ok: "ok s \<Longrightarrow> handle e m s = (r, s') \<Longrightarrow> ok s'"
    and keeps_settled: "ok s \<Longrightarrow> handle e m s = (r, s') \<Longrightarrow> settled s m' \<Longrightarrow> compatible m' m \<Longrightarrow> settled s' m'"
begin

lemma retry_loop_sound:
  assumes "ok s" and "retry_loop handle a m attempt left s = (r, s')"
  shows "ok s' \<and> (r = Settled \<longrightarrow> settled s' m \<or> skippable m)
    \<and> (\<forall>m'. settled s m' \<longrightarrow> compatible m' m \<longrightarrow> settled s' m')"
  using assms
proof (induction left arbitrary: attempt s)
  case 0
  obtain o1 s1 where h: "handle (at_env a attempt) m s = (o1, s1)" by (cases "handle (at_env a attempt) m s")
  with 0 show ?case
    using handled_settles skips_skippable keeps_ok keeps_settled
    by (cases o1) (fastforce simp: retry_loop.simps [of handle a m attempt 0] split: if_splits)+
next
  case (Suc n)
  obtain o1 s1 where h: "handle (at_env a attempt) m s = (o1, s1)" by (cases "handle (at_env a attempt) m s")
  note law = keeps_ok [OF Suc.prems(1) h] keeps_settled [OF Suc.prems(1) h]
  show ?case
  proof (cases o1)
    case (HandlerError err)
    have u: "retry_loop handle a m attempt (Suc n) s =
        (if at_cancelled a attempt then (Stopped, s1)
         else if at_cancelled_waiting a attempt then (Stopped, s1) else retry_loop handle a m (attempt + 1) n s1)"
      by (subst retry_loop.simps) (simp add: h HandlerError)
    show ?thesis
    proof (cases "at_cancelled a attempt \<or> at_cancelled_waiting a attempt")
      case True
      then have "r = Stopped" "s' = s1" using Suc.prems(2) u by (auto split: if_splits)
      then show ?thesis using law by simp
    next
      case False
      then show ?thesis using Suc.prems(2) u Suc.IH [OF law(1)] law by auto
    qed
  qed (use Suc.prems h law handled_settles skips_skippable in \<open>auto simp: retry_loop.simps [of handle a m attempt "Suc n"]\<close>)
qed

definition accounted :: "'s \<Rightarrow> DeadLetter list \<Rightarrow> kafka_message \<Rightarrow> bool" where
  "accounted s q m \<longleftrightarrow> settled s m \<or> skippable m \<or> dead_lettered q m"

lemma handleWithRetry_sound:
  assumes "ok s" and "handleWithRetry jc o' handle a m (s, q) = (r, (s', q'))"
  shows "ok s' \<and> (r = Inr () \<longrightarrow> accounted s' q' m)
    \<and> (\<forall>m'. accounted s q m' \<longrightarrow> compatible m' m \<longrightarrow> accounted s' q' m')"
proof -
  obtain r1 s1 where l: "retry_loop handle a m 0 (max_retries o') s = (r1, s1)" by (cases "retry_loop handle a m 0 (max_retries o') s")
  note snd = retry_loop_sound [OF assms(1) l]
  have q: "q' = q \<and> r1 \<noteq> Exhausted err \<or> set q \<subseteq> set q'" for err
    using assms(2) l by (cases r1) (auto simp: handleWithRetry_def toDLQ_def split: if_splits)
  then have sub: "set q \<subseteq> set q'" by blast
  have s1: "s1 = s'" using assms(2) l by (cases r1) (auto simp: handleWithRetry_def split: prod.splits)
  have "accounted s' q' m" if "r = Inr ()"
  proof (cases r1)
    case (Exhausted err)
    then show ?thesis
      using assms(2) l that
      by (auto simp: handleWithRetry_def toDLQ_def accounted_def dead_lettered_def buildDeadLetter_def list_ex_iff split: if_splits)
  qed (use assms(2) l that snd s1 in \<open>auto simp: handleWithRetry_def accounted_def\<close>)
  then show ?thesis using snd s1 sub unfolding accounted_def dead_lettered_def list_ex_iff by blast
qed

definition harmless :: "('e, 's) turn \<Rightarrow> bool" where
  "harmless t \<longleftrightarrow>
     (case t of Meanwhile f \<Rightarrow> \<forall>s. ok s \<longrightarrow> ok (f s) \<and> (\<forall>m. settled s m \<longrightarrow> settled (f s) m) | _ \<Rightarrow> True)"

definition pairwise_compatible :: "kafka_message list \<Rightarrow> bool" where
  "pairwise_compatible ms \<longleftrightarrow> (\<forall>m \<in> set ms. \<forall>m' \<in> set ms. compatible m m')"

definition sound :: "'s consumer \<Rightarrow> bool" where
  "sound c \<longleftrightarrow> ok (cn_state c) \<and> cn_committed c \<le> cn_position c \<and> cn_position c \<le> length (cn_log c)
     \<and> (\<forall>i < cn_position c. accounted (cn_state c) (cn_dlq c) (cn_log c ! i))"

lemma turn_log: "\<exists>ms. cn_log (consumer_turn jc o' h t c) = cn_log c @ ms"
  by (cases t) (auto simp: Let_def split: sum.split prod.split)

lemma turn_sound:
  assumes "sound c" and "pairwise_compatible (cn_log c)" and "harmless t"
  shows "sound (consumer_turn jc o' handle t c)"
proof (cases t)
  case (Fetch a fails cancelled)
  show ?thesis
  proof (cases "\<not> cn_running c \<or> length (cn_log c) \<le> cn_position c")
    case True
    then show ?thesis using assms Fetch by simp
  next
    case False
    let ?m = "cn_log c ! cn_position c"
    obtain r s' q' where h: "handleWithRetry jc o' handle a ?m (cn_state c, cn_dlq c) = (r, (s', q'))"
      by (cases "handleWithRetry jc o' handle a ?m (cn_state c, cn_dlq c)") auto
    from assms(1) have ok: "ok (cn_state c)" by (simp add: sound_def)
    note hw = handleWithRetry_sound [OF ok h]
    have keep: "accounted s' q' (cn_log c ! i)" if "i < cn_position c" for i
      using hw that assms False by (simp add: sound_def pairwise_compatible_def)
    show ?thesis
    proof (cases r)
      case (Inl err)
      then show ?thesis using hw keep assms False h Fetch by (simp add: sound_def)
    next
      case (Inr u)
      then have "accounted s' q' (cn_log c ! i)" if "i < cn_position c + 1" for i
        using hw keep that by (cases "i = cn_position c") auto
      then show ?thesis using hw assms False h Fetch Inr by (simp add: sound_def Let_def)
    qed
  qed
next
  case (Meanwhile f)
  then show ?thesis using assms by (auto simp: sound_def harmless_def accounted_def)
qed (use assms in \<open>auto simp: sound_def nth_append\<close>)

lemma turn_keeps_ok:
  assumes "ok (cn_state c)" and "harmless t"
  shows "ok (cn_state (consumer_turn jc o' handle t c))"
proof (cases t)
  case (Fetch a fails cancelled)
  obtain r s' q' where "handleWithRetry jc o' handle a (cn_log c ! cn_position c) (cn_state c, cn_dlq c) = (r, (s', q'))"
    by (cases "handleWithRetry jc o' handle a (cn_log c ! cn_position c) (cn_state c, cn_dlq c)") auto
  with handleWithRetry_sound [OF assms(1) this] show ?thesis using assms Fetch by (simp add: Let_def split: sum.split)
qed (use assms in \<open>auto simp: harmless_def\<close>)

lemma run_keeps_ok: "ok (cn_state c) \<Longrightarrow> \<forall>t \<in> set ts. harmless t \<Longrightarrow> ok (cn_state (consumer_run jc o' handle ts c))"
  unfolding consumer_run_def by (induction ts arbitrary: c) (simp_all add: turn_keeps_ok)

lemma run_sound:
  "sound c \<Longrightarrow> pairwise_compatible (cn_log (consumer_run jc o' handle ts c)) \<Longrightarrow> \<forall>t \<in> set ts. harmless t \<Longrightarrow>
    sound (consumer_run jc o' handle ts c)"
proof (induction ts rule: rev_induct)
  case (snoc t ts)
  have st: "consumer_run jc o' handle (ts @ [t]) c = consumer_turn jc o' handle t (consumer_run jc o' handle ts c)"
    by (simp add: consumer_run_def)
  obtain ms where "cn_log (consumer_run jc o' handle (ts @ [t]) c) = cn_log (consumer_run jc o' handle ts c) @ ms"
    using turn_log [of jc o' handle t] st by metis
  then have "pairwise_compatible (cn_log (consumer_run jc o' handle ts c))" using snoc.prems by (auto simp: pairwise_compatible_def)
  then have "sound (consumer_run jc o' handle ts c)" using snoc by simp
  then show ?case using snoc.prems turn_sound \<open>pairwise_compatible (cn_log (consumer_run jc o' handle ts c))\<close> st by simp
qed (simp add: consumer_run_def)

text \<open>Nothing below the committed offset was lost: however often the process stopped, whatever failed, every committed
  record is settled, can never succeed, or is in the dead-letter topic.\<close>

lemma committed_accounted:
  assumes "ok s" and "c = consumer_run jc o' handle ts (new_consumer s)" and "pairwise_compatible (cn_log c)"
    and "\<forall>t \<in> set ts. harmless t" and "i < cn_committed c"
  shows "accounted (cn_state c) (cn_dlq c) (cn_log c ! i)"
  using run_sound [of "new_consumer s" jc o' ts] assms by (auto simp: sound_def new_consumer_def)

end

section \<open>Retries\<close>

text \<open>Retries back off and are bounded: as long as the shift stays in 64 bits, the wait doubles from the base up to the
  configured maximum, never exceeds it and never shrinks.\<close>

theorem retry_delay_doubles:
  assumes "0 < co_RetryBase o'" and "co_RetryBase o' * 2 ^ (n + 1) < 2 ^ 63" and "0 < co_RetryMax o'"
  shows "retry_delay o' n = min (co_RetryMax o') (co_RetryBase o' * 2 ^ n)
    \<and> 0 < retry_delay o' n \<and> retry_delay o' n \<le> retry_delay o' (n + 1)"
proof -
  have shift: "sint (push_bit k (word_of_int (co_RetryBase o') :: 64 word)) = co_RetryBase o' * 2 ^ k"
    if "co_RetryBase o' * 2 ^ k < 2 ^ 63" for k
  proof -
    have "(push_bit k (word_of_int (co_RetryBase o')) :: 64 word) = word_of_int (co_RetryBase o' * 2 ^ k)"
      by (simp add: push_bit_eq_mult)
    also have "sint \<dots> = co_RetryBase o' * 2 ^ k"
      using that assms(1) order_trans [of "- (2 ^ 63)" 0 "co_RetryBase o' * 2 ^ k"]
      unfolding sint_sbintrunc' by (intro signed_take_bit_int_eq_self) simp_all
    finally show ?thesis .
  qed
  have le: "co_RetryBase o' * 2 ^ n \<le> co_RetryBase o' * 2 ^ (n + 1)" using assms(1) by simp
  have "retry_delay o' k = min (co_RetryMax o') (co_RetryBase o' * 2 ^ k)" if "co_RetryBase o' * 2 ^ k < 2 ^ 63" for k
    using assms that by (simp add: retry_delay_def or_default_ns_def shift Let_def)
  note d = this [of n] this [of "n + 1"]
  show ?thesis using d assms le by (auto simp: min_def)
qed

theorem retry_delay_doubles_witness:
  "retry_delay \<lparr>co_Topic = '''', co_Group = '''', co_MaxRetries = 6, co_RetryBase = 100000000, co_RetryMax = 5000000000, co_HasDLQ = True\<rparr> 5
     = 3200000000"
  using retry_delay_doubles [of "\<lparr>co_Topic = '''', co_Group = '''', co_MaxRetries = 6, co_RetryBase = 100000000, co_RetryMax = 5000000000,
      co_HasDLQ = True\<rparr>" 5] by simp

lemma retry_not_stopped:
  assumes "\<forall>n. \<not> at_cancelled a n \<and> \<not> at_cancelled_waiting a n"
  shows "fst (retry_loop h a m attempt left s) \<noteq> Stopped"
proof (induction left arbitrary: attempt s)
  case 0
  show ?case using assms by (subst retry_loop.simps) (simp split: handler_outcome.split prod.split)
next
  case (Suc n)
  show ?case using assms Suc by (subst retry_loop.simps) (simp split: handler_outcome.split prod.split)
qed

lemma healthy_turn:
  assumes "\<forall>n. \<not> at_cancelled a n \<and> \<not> at_cancelled_waiting a n" and "\<not> at_dlq_down a" and "co_HasDLQ o'"
    and "cn_running c" and "cn_position c < length (cn_log c)"
    and c': "c' = consumer_turn jc o' h (Fetch a False False) c"
  shows "cn_running c' \<and> cn_log c' = cn_log c \<and> cn_position c' = cn_position c + 1 \<and> cn_committed c' = cn_position c + 1"
proof -
  let ?m = "cn_log c ! cn_position c"
  obtain r s' q where h: "handleWithRetry jc o' h a ?m (cn_state c, cn_dlq c) = (r, (s', q))"
    by (cases "handleWithRetry jc o' h a ?m (cn_state c, cn_dlq c)") auto
  have "r = Inr ()"
    using h assms(2,3) retry_not_stopped [OF assms(1), of h ?m 0 "max_retries o'" "cn_state c"]
    by (auto simp: handleWithRetry_def toDLQ_def split: retry_result.splits prod.splits)
  then show ?thesis using assms(4,5) h by (simp add: c' Let_def)
qed


definition calm_attempts :: "unit attempt_env" where
  "calm_attempts = \<lparr>at_env = (\<lambda>_. ()), at_cancelled = (\<lambda>_. False), at_cancelled_waiting = (\<lambda>_. False), at_dlq_down = False, at_now = 0\<rparr>"

definition always_fails :: "(unit, nat) handler" where
  "always_fails e m s = (HandlerError ''no'', s + 1)"

definition one_record :: "nat consumer" where
  "one_record = consumer_turn \<lparr>jc_valid = (\<lambda>_. True), jc_quote = Some\<rparr>
     \<lparr>co_Topic = ''t'', co_Group = ''g'', co_MaxRetries = 0, co_RetryBase = 0, co_RetryMax = 0, co_HasDLQ = True\<rparr> always_fails (Append [] [1])
     (new_consumer 0)"


end
