(* ===== verification/Media_Paths.thy ===== *)
theory Media_Paths
  imports Go_Text
begin

text \<open>
  Names of media objects: what is used of Go's \<^verbatim>\<open>path\<close> package, the key under which an object's permissions
  are kept and the names of its derivatives (\<^verbatim>\<open>pkg/gcsx/variant.go\<close>, \<^verbatim>\<open>variantObject\<close> of the media processor), the
  name of an upload and the name offered for a download (\<^verbatim>\<open>pkg/gcsx/gcs.go\<close>).
\<close>

section \<open>Go's path package\<close>

abbreviation slash :: char where "slash \<equiv> CHR ''/''"
abbreviation dot :: char where "dot \<equiv> CHR ''.''"

fun split_slash :: "string \<Rightarrow> string list" where
  "split_slash [] = [[]]"
| "split_slash (c # s) =
     (if c = slash then [] # split_slash s
      else case split_slash s of [] \<Rightarrow> [[c]] | e # es \<Rightarrow> (c # e) # es)"

fun join_slash :: "string list \<Rightarrow> string" where
  "join_slash [] = []"
| "join_slash [e] = e"
| "join_slash (e # es) = e @ slash # join_slash es"

text \<open>\<^verbatim>\<open>path.Clean\<close>: the elements kept so far, last first.\<close>

definition clean_step :: "bool \<Rightarrow> string \<Rightarrow> string list \<Rightarrow> string list" where
  "clean_step rooted e kept =
     (if e = '''' \<or> e = ''.'' then kept
      else if e = ''..'' then
        (if kept \<noteq> [] \<and> hd kept \<noteq> ''..'' then tl kept else if rooted then kept else e # kept)
      else e # kept)"

definition path_Clean :: "string \<Rightarrow> string" where
  "path_Clean s =
     (if s = '''' then ''.''
      else
        let rooted = (hd s = slash); es = rev (fold (clean_step rooted) (split_slash s) [])
        in if rooted then slash # join_slash es else if es = [] then ''.'' else join_slash es)"

text \<open>\<^verbatim>\<open>path.Split\<close> cuts after the last slash.\<close>

definition last_element :: "string \<Rightarrow> string" where
  "last_element s = rev (takeWhile (\<lambda>c. c \<noteq> slash) (rev s))"

definition dir_prefix :: "string \<Rightarrow> string" where
  "dir_prefix s = rev (dropWhile (\<lambda>c. c \<noteq> slash) (rev s))"

definition path_Dir :: "string \<Rightarrow> string" where
  "path_Dir s = path_Clean (dir_prefix s)"

definition path_Base :: "string \<Rightarrow> string" where
  "path_Base s =
     (if s = '''' then ''.''
      else let e = last_element (rev (dropWhile (\<lambda>c. c = slash) (rev s))) in if e = '''' then ''/'' else e)"

definition path_Ext :: "string \<Rightarrow> string" where
  "path_Ext s =
     (let e = last_element s in if dot \<in> set e then dot # rev (takeWhile (\<lambda>c. c \<noteq> dot) (rev e)) else '''')"

text \<open>\<^verbatim>\<open>path.Join\<close> of two elements.\<close>

definition path_Join :: "string \<Rightarrow> string \<Rightarrow> string" where
  "path_Join d b = (if d = '''' then (if b = '''' then '''' else path_Clean b) else path_Clean (d @ slash # b))"

definition HasSuffix :: "string \<Rightarrow> string \<Rightarrow> bool" where
  "HasSuffix s p \<longleftrightarrow> length p \<le> length s \<and> drop (length s - length p) s = p"

definition TrimSuffix :: "string \<Rightarrow> string \<Rightarrow> string" where
  "TrimSuffix s p = (if HasSuffix s p then take (length s - length p) s else s)"

section \<open>Permission keys and derivatives\<close>

definition knownVariantSuffixes :: "string list" where
  "knownVariantSuffixes = [''_s'', ''_m'', ''_l'', ''_poster'', ''_720p'', ''_480p'']"

text \<open>The loop over the suffixes, which stops at the first that fits and leaves a stem.\<close>

fun strip_variant :: "string list \<Rightarrow> string \<Rightarrow> string" where
  "strip_variant [] base = base"
| "strip_variant (suffix # rest) base =
     (let stem = TrimSuffix base suffix
      in if stem \<noteq> base \<and> stem \<noteq> '''' then stem else strip_variant rest base)"

definition ACLKey :: "string \<Rightarrow> string" where
  "ACLKey object =
     (let d = path_Dir object;
          base = strip_variant knownVariantSuffixes (TrimSuffix (path_Base object) (path_Ext object))
      in if d = ''.'' then base else path_Join d base)"

definition IsVariant :: "string \<Rightarrow> bool" where
  "IsVariant object =
     (let base = TrimSuffix (path_Base object) (path_Ext object)
      in list_ex (\<lambda>suffix. let stem = TrimSuffix base suffix in stem \<noteq> base \<and> stem \<noteq> '''') knownVariantSuffixes)"

definition variantObject :: "string \<Rightarrow> string \<Rightarrow> string \<Rightarrow> string" where
  "variantObject original suffix ext =
     path_Join (path_Dir original) (TrimSuffix (path_Base original) (path_Ext original) @ suffix @ ext)"

section \<open>Names of uploads and downloads\<close>

text \<open>\<^verbatim>\<open>strings.ToLower\<close> on any text: ASCII letters change case, a byte that is not UTF-8 becomes the
  replacement character, and \<open>uni\<close> is the Unicode table for the other code points.\<close>

definition replacement_rune :: string where
  "replacement_rune = map char_of [239, 191, 189 :: nat]"

definition lower_any :: "(string \<Rightarrow> string) \<Rightarrow> string \<Rightarrow> string" where
  "lower_any uni r =
     (case r of
        [c] \<Rightarrow> if 128 \<le> char_byte c then replacement_rune
               else if 65 \<le> char_byte c \<and> char_byte c \<le> 90 then [char_of (char_byte c + 32)] else r
      | _ \<Rightarrow> uni r)"

definition ToLower_any :: "(string \<Rightarrow> string) \<Rightarrow> string \<Rightarrow> string" where
  "ToLower_any uni s = concat (map (lower_any uni) (runes s))"

text \<open>\<^verbatim>\<open>%0nd\<close> of a number that is not negative.\<close>

definition pad_zeros :: "nat \<Rightarrow> nat \<Rightarrow> string" where
  "pad_zeros n i = replicate (n - length (itoa_nat i)) (CHR ''0'') @ itoa_nat i"

definition ObjectPath :: "(string \<Rightarrow> string) \<Rightarrow> nat \<times> nat \<times> nat \<Rightarrow> string \<Rightarrow> int \<Rightarrow> string \<Rightarrow> string \<Rightarrow> string" where
  "ObjectPath uni today uuid ownerID kind filename =
     (case today of (year, month, day) \<Rightarrow>
        let lowered = ToLower_any uni (path_Ext filename); ext = (if 10 < length lowered then '''' else lowered)
        in kind @ ''/'' @ pad_zeros 4 year @ ''/'' @ pad_zeros 2 month @ ''/'' @ pad_zeros 2 day @ ''/''
           @ itoa ownerID @ ''/'' @ uuid @ ext)"

definition safeFilename :: "string \<Rightarrow> string" where
  "safeFilename name =
     (let base = path_Base (TrimSpace name)
      in if base = ''.'' \<or> base = ''/'' \<or> base = '''' then ''file'' else base)"

text \<open>The characters that would leave the quoted string of a \<^verbatim>\<open>Content-Disposition\<close> header.\<close>

definition unsafe_char :: "char \<Rightarrow> bool" where
  "unsafe_char c \<longleftrightarrow> char_byte c < 32 \<or> char_byte c = 127 \<or> char_byte c = 34 \<or> char_byte c = 92 \<or> char_byte c = 47"

definition sanitise_rune :: "string \<Rightarrow> string" where
  "sanitise_rune r =
     (case r of [c] \<Rightarrow> if unsafe_char c then ''_'' else if 128 \<le> char_byte c then replacement_rune else r | _ \<Rightarrow> r)"

text \<open>\<^verbatim>\<open>strings.Trim(out, "_. ") == ""\<close>: every character is one of the three.\<close>

definition sanitiseFilename :: "string \<Rightarrow> string" where
  "sanitiseFilename s =
     (let base = path_Base s
      in if base \<in> {'''', ''.'', ''..'', ''/''} then ''file''
         else let out = take 120 (concat (map sanitise_rune (runes base)))
              in if list_all (\<lambda>c. c \<in> set ''_. '') out then ''file'' else out)"

section \<open>Lemmas on paths\<close>

definition plain :: "string \<Rightarrow> bool" where
  "plain e \<longleftrightarrow> e \<noteq> '''' \<and> e \<noteq> ''.'' \<and> e \<noteq> ''..'' \<and> slash \<notin> set e"

lemma split_slash_ne [simp]: "split_slash s \<noteq> []"
  by (induction s) (auto split: list.split)

lemma split_slash_cut: "split_slash (s @ slash # t) = split_slash s @ split_slash t"
proof (induction s)
  case (Cons c s)
  then show ?case by (cases "split_slash s") auto
qed simp

lemma split_slash_plain: "slash \<notin> set e \<Longrightarrow> split_slash e = [e]"
  by (induction e) auto

lemma split_join: "es \<noteq> [] \<Longrightarrow> \<forall>e \<in> set es. slash \<notin> set e \<Longrightarrow> split_slash (join_slash es) = es"
  by (induction es rule: join_slash.induct) (auto simp: split_slash_plain split_slash_cut)

lemma join_snoc: "es \<noteq> [] \<Longrightarrow> join_slash (es @ [b]) = join_slash es @ slash # b"
  by (induction es rule: join_slash.induct) auto

lemma clean_steps: "\<forall>e \<in> set es. plain e \<Longrightarrow> fold (clean_step r) es kept = rev es @ kept"
  by (induction es arbitrary: kept) (auto simp: clean_step_def plain_def)

lemma join_head: "es \<noteq> [] \<Longrightarrow> \<forall>e \<in> set es. plain e \<Longrightarrow> join_slash es \<noteq> '''' \<and> hd (join_slash es) \<noteq> slash"
proof (induction es rule: join_slash.induct)
  case (3 e v va)
  then show ?case by (cases e) (auto simp: plain_def)
qed (auto simp: plain_def dest: hd_in_set)

lemma Clean_join:
  assumes "es \<noteq> []" and "\<forall>e \<in> set es. plain e"
  shows "path_Clean (join_slash es) = join_slash es" and "path_Clean (join_slash es @ ''/'') = join_slash es"
proof -
  have s: "split_slash (join_slash es) = es" using assms by (intro split_join) (auto simp: plain_def)
  then have s': "split_slash (join_slash es @ ''/'') = es @ [[]]" by (simp add: split_slash_cut)
  show "path_Clean (join_slash es) = join_slash es" "path_Clean (join_slash es @ ''/'') = join_slash es"
    using join_head [OF assms] assms(1)
    unfolding path_Clean_def Let_def s s' fold_append comp_apply clean_steps [OF assms(2)] by (auto simp: clean_step_def)
qed

lemma takeWhile_cut:
  "c \<notin> set r \<Longrightarrow> takeWhile (\<lambda>x. x \<noteq> c) (r @ c # t) = r \<and> dropWhile (\<lambda>x. x \<noteq> c) (r @ c # t) = c # t"
  "c \<notin> set r \<Longrightarrow> takeWhile (\<lambda>x. x \<noteq> c) r = r"
  by (induction r) auto

lemma last_element_join: "slash \<notin> set b \<Longrightarrow> last_element (t @ slash # b) = b \<and> dir_prefix (t @ slash # b) = t @ ''/''"
  by (simp add: last_element_def dir_prefix_def takeWhile_cut)

lemma TrimSuffix_append [simp]: "TrimSuffix (s @ p) p = s"
  by (simp add: TrimSuffix_def HasSuffix_def)

lemma TrimSuffix_not: "\<not> HasSuffix s p \<Longrightarrow> TrimSuffix s p = s"
  by (simp add: TrimSuffix_def)

lemma HasSuffix_last: "HasSuffix s p \<Longrightarrow> p \<noteq> [] \<Longrightarrow> last s = last p"
  by (auto simp: HasSuffix_def) (metis append_take_drop_id last_appendR)

lemma HasSuffix_subset: "HasSuffix s p \<Longrightarrow> set p \<subseteq> set s"
  unfolding HasSuffix_def by (metis set_drop_subset)

text \<open>An object \<open>es/stem.ext\<close> of plain elements.\<close>

definition ext_ok :: "string \<Rightarrow> bool" where
  "ext_ok ext \<longleftrightarrow> ext = '''' \<or> (\<exists>x. ext = dot # x \<and> dot \<notin> set x \<and> slash \<notin> set x)"

definition stem_ok :: "string \<Rightarrow> bool" where
  "stem_ok stem \<longleftrightarrow> stem \<noteq> '''' \<and> dot \<notin> set stem \<and> slash \<notin> set stem"

lemma stem_plain: "stem_ok stem \<Longrightarrow> plain stem"
  by (auto simp: stem_ok_def plain_def)

lemma object_parts:
  assumes "es \<noteq> []" and "\<forall>e \<in> set es. plain e" and "stem_ok stem" and "ext_ok ext"
  defines "ob \<equiv> join_slash es @ slash # stem @ ext"
  shows "path_Dir ob = join_slash es" and "TrimSuffix (path_Base ob) (path_Ext ob) = stem"
proof -
  have b: "slash \<notin> set (stem @ ext)" using assms by (auto simp: stem_ok_def ext_ok_def)
  have le: "last_element ob = stem @ ext" "dir_prefix ob = join_slash es @ ''/''"
    using last_element_join [OF b, of "join_slash es"] by (simp_all add: ob_def)
  show "path_Dir ob = join_slash es" by (simp add: path_Dir_def le Clean_join [OF assms(1,2)])
  have "stem @ ext \<noteq> []" using assms by (auto simp: stem_ok_def)
  then obtain r c where cr: "stem @ ext = r @ [c]" by (metis rev_exhaust)
  then have "c \<noteq> slash" using b by auto
  moreover have "ob = (join_slash es @ slash # r) @ [c]" using cr by (simp add: ob_def)
  ultimately have "rev (dropWhile (\<lambda>c. c = slash) (rev ob)) = ob" by simp
  then have base: "path_Base ob = stem @ ext" 
    using assms(3) le(1) by (simp add: path_Base_def Let_def stem_ok_def) (simp add: ob_def)
  have "path_Ext ob = ext"
    using assms(3,4) by (auto simp: path_Ext_def le Let_def stem_ok_def ext_ok_def takeWhile_cut)
  then show "TrimSuffix (path_Base ob) (path_Ext ob) = stem" by (simp add: base)
qed

lemma strip_none: "CHR ''_'' \<notin> set stem \<Longrightarrow> strip_variant knownVariantSuffixes stem = stem"
proof -
  assume u: "CHR ''_'' \<notin> set stem"
  have "TrimSuffix stem p = stem" if "CHR ''_'' \<in> set p" for p
    using HasSuffix_subset [of stem p] that u by (auto intro: TrimSuffix_not)
  then show ?thesis by (simp add: knownVariantSuffixes_def)
qed

lemma strip_suffix:
  assumes "p \<in> set knownVariantSuffixes" and "stem \<noteq> ''''"
  shows "strip_variant knownVariantSuffixes (stem @ p) = stem"
proof -
  have n: "TrimSuffix (stem @ q) r = stem @ q" if "last q \<noteq> last r" "q \<noteq> []" "r \<noteq> []" for q r
    using HasSuffix_last [of "stem @ q" r] that by (auto intro: TrimSuffix_not)
  have m: "TrimSuffix (stem @ ''_480p'') ''_720p'' = stem @ ''_480p''" by (simp add: TrimSuffix_def HasSuffix_def)
  from assms(1) consider "p = ''_s''" | "p = ''_m''" | "p = ''_l''" | "p = ''_poster''" | "p = ''_720p''" | "p = ''_480p''"
    unfolding knownVariantSuffixes_def by auto
  then show ?thesis
    using assms(2) by cases (simp_all add: knownVariantSuffixes_def n m)
qed

text \<open>The names the processor gives to derivatives lead to the original's key.\<close>

lemma ACLKey_object:
  assumes "es \<noteq> []" and "\<forall>e \<in> set es. plain e" and "stem_ok stem" and "ext_ok ext"
    and "stem_ok (strip_variant knownVariantSuffixes stem)"
  shows "ACLKey (join_slash es @ slash # stem @ ext) = join_slash (es @ [strip_variant knownVariantSuffixes stem])"
proof -
  have p: "\<forall>e \<in> set (es @ [strip_variant knownVariantSuffixes stem]). plain e" using assms stem_plain by auto
  have d: "join_slash es \<noteq> ''''" using join_head assms by blast
  have "join_slash es \<noteq> ''.''"
  proof
    assume e: "join_slash es = ''.''"
    have "es = [''.'']" using split_join [of es] assms e by (auto simp: plain_def)
    with assms(2) show False by (simp add: plain_def)
  qed
  then show ?thesis
    using Clean_join(1) [OF _ p] d
    by (simp add: ACLKey_def object_parts [OF assms(1-4)] path_Join_def join_snoc [OF assms(1)])
qed

lemma variant_name:
  assumes "es \<noteq> []" and "\<forall>e \<in> set es. plain e" and "stem_ok stem" and "ext_ok ext" and "stem_ok (stem @ p)" and "ext_ok x"
  shows "variantObject (join_slash es @ slash # stem @ ext) p x = join_slash es @ slash # (stem @ p) @ x"
proof -
  have "plain (stem @ p @ x)" using assms(5,6) by (auto simp: plain_def stem_ok_def ext_ok_def append_eq_Cons_conv)
  then have "\<forall>e \<in> set (es @ [stem @ p @ x]). plain e" using assms(2) by simp
  from Clean_join(1) [OF _ this] show ?thesis
    using join_head [OF assms(1,2)] by (simp add: variantObject_def object_parts [OF assms(1-4)] path_Join_def join_snoc [OF assms(1)])
qed

section \<open>Uploads\<close>

text \<open>What the naming relies on outside the program: the case table maps no code point to a dot or a slash, and
  a UUID is hexadecimal digits and dashes.\<close>

definition case_table_ok :: "(string \<Rightarrow> string) \<Rightarrow> bool" where
  "case_table_ok uni \<longleftrightarrow> (\<forall>r. dot \<notin> set (uni r) \<and> slash \<notin> set (uni r))"

definition uuid_ok :: "string \<Rightarrow> bool" where
  "uuid_ok u \<longleftrightarrow> u \<noteq> '''' \<and> set u \<subseteq> set ''0123456789abcdef-''"

definition media_kinds :: "string list" where
  "media_kinds = [''photo'', ''video'', ''voice'', ''file'']"

definition upload_dirs :: "nat \<times> nat \<times> nat \<Rightarrow> int \<Rightarrow> string \<Rightarrow> string list" where
  "upload_dirs today ownerID kind =
     (case today of (y, m, d) \<Rightarrow> [kind, pad_zeros 4 y, pad_zeros 2 m, pad_zeros 2 d, itoa ownerID])"

lemma digits_plain:
  assumes "s \<noteq> []" and "set s \<subseteq> insert (CHR ''-'') (range digit_char \<inter> {c. is_digit c})"
  shows "plain s"
proof -
  have "\<not> is_digit slash" "\<not> is_digit dot" by (simp_all add: is_digit_def)
  then have "c \<noteq> slash \<and> c \<noteq> dot" if "c \<in> set s" for c using that assms(2) by auto
  then show ?thesis using assms(1) unfolding plain_def by (metis list.set_intros(1))
qed

lemma itoa_nat_set: "set (itoa_nat n) \<subseteq> range digit_char \<inter> {c. is_digit c}"
  by (auto simp: is_digit_def of_digit_char dest!: itoa_nat_digits)

lemma itoa_plain: "plain (itoa i)"
  using itoa_nat_set by (intro digits_plain) (auto simp: itoa_def)

lemma zero_digit: "CHR ''0'' = digit_char 0" "is_digit (CHR ''0'')"
  by (simp_all add: digit_char_def is_digit_def)

lemma pad_plain: "plain (pad_zeros n i)"
  using itoa_nat_set [of i] zero_digit by (intro digits_plain) (auto simp: pad_zeros_def)

lemma upload_dirs_plain: "kind \<in> set media_kinds \<Longrightarrow> \<forall>e \<in> set (upload_dirs today ownerID kind). plain e"
  by (auto simp: upload_dirs_def media_kinds_def pad_plain itoa_plain split: prod.split) (auto simp: plain_def)

lemma upload_dirs_ne [simp]: "upload_dirs today ownerID kind \<noteq> []"
  by (simp add: upload_dirs_def split: prod.split)

lemma uuid_stem: "uuid_ok u \<Longrightarrow> stem_ok u \<and> CHR ''_'' \<notin> set u"
  unfolding uuid_ok_def stem_ok_def by auto

lemma known_suffix_stem: "stem_ok u \<Longrightarrow> p \<in> set knownVariantSuffixes \<Longrightarrow> stem_ok (u @ p)"
  by (auto simp: stem_ok_def knownVariantSuffixes_def)

lemma rune_subset: "r \<in> set (runes s) \<Longrightarrow> set r \<subseteq> set s"
  using concat_runes [of s] by (metis UN_upper set_concat)

lemma lower_any_chars:
  assumes "case_table_ok uni" and "dot \<notin> set r" "slash \<notin> set r"
  shows "dot \<notin> set (lower_any uni r) \<and> slash \<notin> set (lower_any uni r)"
proof (cases "\<exists>c. r = [c]")
  case True
  then obtain c where r: "r = [c]" by blast
  have "char_byte (char_of (char_byte c + 32)) = char_byte c + 32" if "char_byte c \<le> 90"
    using that by (simp add: char_byte_def)
  moreover have "char_byte dot = 46" "char_byte slash = 47" by (simp_all add: char_byte_def)
  ultimately have "char_of (char_byte c + 32) \<noteq> dot \<and> char_of (char_byte c + 32) \<noteq> slash" if "65 \<le> char_byte c" "char_byte c \<le> 90"
    using that by auto
  then show ?thesis using assms r by (auto simp: lower_any_def replacement_rune_def char_of_def)
next
  case False
  then have "lower_any uni r = uni r" by (auto simp: lower_any_def split: list.split)
  then show ?thesis using assms(1) by (simp add: case_table_ok_def)
qed

lemma lowered_ext_ok:
  assumes "case_table_ok uni"
  shows "ext_ok (ToLower_any uni (path_Ext f))"
proof (cases "dot \<in> set (last_element f)")
  case True
  define x where "x = rev (takeWhile (\<lambda>c. c \<noteq> dot) (rev (last_element f)))"
  have x: "dot \<notin> set x" "slash \<notin> set x"
    by (auto simp: x_def last_element_def dest!: set_takeWhileD)
  have "runes (dot # x) = [dot] # runes x"
    by (subst runes.simps) (simp add: rune_width_ascii char_byte_def)
  then have "ToLower_any uni (path_Ext f) = dot # ToLower_any uni x"
    using True by (simp add: path_Ext_def Let_def x_def ToLower_any_def lower_any_def char_byte_def)
  moreover have "dot \<notin> set (lower_any uni r) \<and> slash \<notin> set (lower_any uni r)" if "r \<in> set (runes x)" for r
    using lower_any_chars [OF assms] rune_subset [OF that] x by blast
  then have "dot \<notin> set (ToLower_any uni x) \<and> slash \<notin> set (ToLower_any uni x)" by (auto simp: ToLower_any_def)
  ultimately show ?thesis by (simp add: ext_ok_def)
qed (simp add: path_Ext_def Let_def ToLower_any_def runes.simps ext_ok_def)

lemma ObjectPath_shape:
  assumes "case_table_ok uni"
  shows "\<exists>ext. ext_ok ext \<and> ObjectPath uni today u ownerID kind f = join_slash (upload_dirs today ownerID kind) @ slash # u @ ext"
proof -
  obtain y m d where t: "today = (y, m, d)" by (cases today) auto
  show ?thesis
    using lowered_ext_ok [OF assms, of f]
    by (auto simp: t ObjectPath_def upload_dirs_def Let_def ext_ok_def)
qed

lemma upload_key:
  assumes "case_table_ok uni" and "uuid_ok u" and "kind \<in> set media_kinds"
  shows "ACLKey (ObjectPath uni today u ownerID kind f) = join_slash (upload_dirs today ownerID kind @ [u])"
proof -
  have u: "stem_ok u" "strip_variant knownVariantSuffixes u = u" using uuid_stem strip_none assms(2) by auto
  obtain ext where "ext_ok ext" and
    o: "ObjectPath uni today u ownerID kind f = join_slash (upload_dirs today ownerID kind) @ slash # u @ ext"
    using ObjectPath_shape [OF assms(1)] by blast
  then show ?thesis
    using ACLKey_object [OF upload_dirs_ne upload_dirs_plain [OF assms(3)] u(1)] u by simp
qed

lemma atoi_pad: "atoi_nat (pad_zeros n i) = i"
proof -
  have "foldl (\<lambda>acc c. 10 * acc + (of_char c - 48)) (0 :: nat) (replicate k (CHR ''0'')) = 0" for k
    by (induction k) simp_all
  then show ?thesis using atoi_itoa_nat [of i] by (simp add: atoi_nat_def pad_zeros_def)
qed

lemma no_variant_suffix: "CHR ''_'' \<notin> set u \<Longrightarrow> q \<in> set knownVariantSuffixes \<Longrightarrow> TrimSuffix u q = u"
proof (rule TrimSuffix_not, rule notI)
  assume "CHR ''_'' \<notin> set u" "q \<in> set knownVariantSuffixes" "HasSuffix u q"
  moreover from this have "CHR ''_'' \<in> set q" by (auto simp: knownVariantSuffixes_def)
  ultimately show False using HasSuffix_subset by blast
qed

lemma variant_key:
  assumes "case_table_ok uni" and "uuid_ok u" and "kind \<in> set media_kinds"
    and o: "ob = ObjectPath uni today u ownerID kind f" and p: "p \<in> set knownVariantSuffixes" and x: "x \<in> {''.jpg'', ''.mp4''}"
  shows "ACLKey (variantObject ob p x) = ACLKey ob \<and> IsVariant (variantObject ob p x) \<and> \<not> IsVariant ob"
proof -
  let ?es = "upload_dirs today ownerID kind"
  have u: "stem_ok u" "CHR ''_'' \<notin> set u" using uuid_stem assms(2) by auto
  note pl = upload_dirs_plain [OF assms(3), of today ownerID]
  note key = upload_key [OF assms(1-3), of today ownerID f, folded o]
  obtain ext where ext: "ext_ok ext" and ob: "ob = join_slash ?es @ slash # u @ ext"
    using ObjectPath_shape [OF assms(1)] unfolding o by blast
  have up: "stem_ok (u @ p)" by (rule known_suffix_stem [OF u(1) p])
  have xo: "ext_ok x" using x by (auto simp: ext_ok_def)
  have v: "variantObject ob p x = join_slash ?es @ slash # (u @ p) @ x"
    unfolding ob by (rule variant_name [OF upload_dirs_ne pl u(1) ext up xo])
  have s: "strip_variant knownVariantSuffixes (u @ p) = u" using strip_suffix p u(1) by (simp add: stem_ok_def)
  have "ACLKey (variantObject ob p x) = ACLKey ob"
    using ACLKey_object [OF upload_dirs_ne pl up xo] s u(1) key by (simp add: v)
  moreover have "IsVariant (variantObject ob p x)"
    unfolding IsVariant_def v object_parts(2) [OF upload_dirs_ne pl up xo] Let_def list_ex_iff
    using p u(1) by (intro bexI [of _ p]) (auto simp: stem_ok_def knownVariantSuffixes_def)
  moreover have "\<not> IsVariant ob"
    unfolding IsVariant_def ob object_parts(2) [OF upload_dirs_ne pl u(1) ext] Let_def list_ex_iff
    by (simp add: no_variant_suffix u(2))
  ultimately show ?thesis by blast
qed

lemma upload_dirs_inject:
  "upload_dirs today' ownerID' kind' = upload_dirs today ownerID kind \<longleftrightarrow> (kind', today', ownerID') = (kind, today, ownerID)"
  by (cases today; cases today') (auto simp: upload_dirs_def itoa_inject dest: arg_cong [where f = atoi_nat] simp: atoi_pad)

lemma upload_key_inject:
  assumes "case_table_ok uni" and h: "uuid_ok u" "kind \<in> set media_kinds" and h': "uuid_ok u'" "kind' \<in> set media_kinds"
  shows "ACLKey (ObjectPath uni today' u' ownerID' kind' f') = ACLKey (ObjectPath uni today u ownerID kind f) \<longleftrightarrow>
      (kind', today', ownerID', u') = (kind, today, ownerID, u)"
proof -
  let ?es = "upload_dirs today ownerID kind" and ?es' = "upload_dirs today' ownerID' kind'"
  have "\<forall>e \<in> set (?es' @ [u']). slash \<notin> set e" "\<forall>e \<in> set (?es @ [u]). slash \<notin> set e"
    using upload_dirs_plain [OF h'(2), of today' ownerID'] upload_dirs_plain [OF h(2), of today ownerID]
      uuid_stem [OF h(1)] uuid_stem [OF h'(1)] by (auto simp: plain_def stem_ok_def)
  then have "join_slash (?es' @ [u']) = join_slash (?es @ [u]) \<longleftrightarrow> ?es' @ [u'] = ?es @ [u]"
    by (metis snoc_eq_iff_butlast split_join)
  then show ?thesis by (auto simp: upload_key [OF assms(1) h] upload_key [OF assms(1) h'] upload_dirs_inject)
qed

text \<open>A derivative has the permissions of its original, and of nothing else: whatever file name the uploader chose, every
  name the processor can give to a derivative of an upload leads to the same permission key as the upload itself and
  is recognised as a variant, which the upload is not; and a second upload shares that key only when it agrees on
  kind, day, owner and UUID.\<close>

theorem variants_share_key:
  assumes "case_table_ok uni" and "uuid_ok u" and "kind \<in> set media_kinds"
    and "ob = ObjectPath uni today u ownerID kind f"
    and "p \<in> set knownVariantSuffixes" and "x \<in> {''.jpg'', ''.mp4''}"
    and "uuid_ok u'" and "kind' \<in> set media_kinds"
  shows "ACLKey (variantObject ob p x) = ACLKey ob \<and> IsVariant (variantObject ob p x) \<and> \<not> IsVariant ob
    \<and> (ACLKey (ObjectPath uni today' u' ownerID' kind' f') = ACLKey (variantObject ob p x)
        \<longleftrightarrow> (kind', today', ownerID', u') = (kind, today, ownerID, u))"
  using variant_key [OF assms(1-6)] upload_key_inject [OF assms(1,2,3,7,8), of today' ownerID' f' today ownerID f, folded assms(4)]
  by metis

theorem variants_share_key_witness:
  "ACLKey (variantObject ''photo/2026/08/17/42/ab-1.jpg'' ''_s'' ''.jpg'') = ACLKey ''photo/2026/08/17/42/ab-1.jpg''"
proof -
  have o: "''photo/2026/08/17/42/ab-1.jpg'' = ObjectPath (\<lambda>_. replacement_rune) (2026, 8, 17) ''ab-1'' 42 ''photo'' ''me.JPG''"
    by code_simp
  show ?thesis
    using variants_share_key [where uni = "\<lambda>_. replacement_rune", OF _ _ _ o, of "''_s''" "''.jpg''" "''ab-1''" "''photo''"]
    by (simp add: case_table_ok_def uuid_ok_def media_kinds_def knownVariantSuffixes_def replacement_rune_def char_of_def)
qed

text \<open>A rune of more than one byte has no ASCII byte.\<close>

lemma wide_rune_high:
  "byte_in 194 223 a \<and> byte_in 128 191 b \<Longrightarrow> 128 \<le> char_byte a \<and> 128 \<le> char_byte b"
  "byte_in 128 191 c
     \<and> (char_byte a = 224 \<and> byte_in 160 191 b \<or> byte_in 225 236 a \<and> byte_in 128 191 b
        \<or> char_byte a = 237 \<and> byte_in 128 159 b \<or> byte_in 238 239 a \<and> byte_in 128 191 b)
     \<Longrightarrow> 128 \<le> char_byte a \<and> 128 \<le> char_byte b \<and> 128 \<le> char_byte c"
  "byte_in 128 191 c \<and> byte_in 128 191 d
     \<and> (char_byte a = 240 \<and> byte_in 144 191 b \<or> byte_in 241 243 a \<and> byte_in 128 191 b
        \<or> char_byte a = 244 \<and> byte_in 128 143 b)
     \<Longrightarrow> 128 \<le> char_byte a \<and> 128 \<le> char_byte b \<and> 128 \<le> char_byte c \<and> 128 \<le> char_byte d"
  unfolding byte_in_def by linarith+

lemma wide_high: "rune_width s = 1 \<or> list_all (\<lambda>c. 128 \<le> char_byte c) (take (rune_width s) s)"
proof -
  define P where "P w t \<longleftrightarrow> w = 1 \<or> list_all (\<lambda>c. 128 \<le> char_byte c) (take w t)" for w :: nat and t
  have pick: "P (if q then w else v) t" if "q \<Longrightarrow> P w t" "P v t" for q w v t using that by simp
  have wide: "byte_in 194 223 a \<and> byte_in 128 191 b \<Longrightarrow> P 2 (a # b # t)" for a b t
    using wide_rune_high(1) [of a b] by (simp add: P_def)
  have "P (rune_width s) s"
  proof (cases s rule: rune_width.cases)
    case (3 a b)
    then show ?thesis unfolding 3 rune_width.simps by (intro pick wide) (simp_all add: P_def)
  next
    case (4 a b c)
    show ?thesis unfolding 4 rune_width.simps
      by (intro pick wide) (simp_all add: P_def wide_rune_high(2) [of c a b] del: disj_not1)
  next
    case (5 a b c d t)
    show ?thesis unfolding 5 rune_width.simps
    proof (intro pick wide)
      show "P 3 (a # b # c # d # t)" if "byte_in 128 191 c
        \<and> (char_byte a = 224 \<and> byte_in 160 191 b \<or> byte_in 225 236 a \<and> byte_in 128 191 b
           \<or> char_byte a = 237 \<and> byte_in 128 159 b \<or> byte_in 238 239 a \<and> byte_in 128 191 b)"
        using wide_rune_high(2) [OF that] by (simp add: P_def numeral_3_eq_3)
      show "P 4 (a # b # c # d # t)" if "byte_in 128 191 c \<and> byte_in 128 191 d
        \<and> (char_byte a = 240 \<and> byte_in 144 191 b \<or> byte_in 241 243 a \<and> byte_in 128 191 b
           \<or> char_byte a = 244 \<and> byte_in 128 143 b)"
        using wide_rune_high(3) [OF that] by (simp add: P_def)
    qed (simp_all add: P_def)
  qed (simp_all add: P_def)
  then show ?thesis by (simp add: P_def)
qed

lemma rune_low: "r \<in> set (runes s) \<Longrightarrow> c \<in> set r \<Longrightarrow> char_byte c < 128 \<Longrightarrow> r = [c]"
proof (induction s rule: runes.induct)
  case (1 s)
  show ?case
  proof (cases "s = [] \<or> r \<noteq> take (rune_width s) s")
    case True
    then show ?thesis using 1 by (subst (asm) (2) runes.simps) (auto split: if_splits)
  next
    case False
    then have "rune_width s = 1" using wide_high [of s] 1(3,4) by (auto simp: list_all_iff)
    then show ?thesis using False 1(3) by (cases s) auto
  qed
qed

lemma sanitise_rune_safe: "r \<in> set (runes s) \<Longrightarrow> c \<in> set (sanitise_rune r) \<Longrightarrow> \<not> unsafe_char c"
proof
  assume r: "r \<in> set (runes s)" and c: "c \<in> set (sanitise_rune r)" and u: "unsafe_char c"
  have b: "char_byte c < 128" using u by (auto simp: unsafe_char_def)
  have "\<not> unsafe_char (CHR ''_'')" "\<forall>c \<in> set replacement_rune. \<not> unsafe_char c"
    by (simp_all add: unsafe_char_def char_byte_def replacement_rune_def)
  with c u have "c \<in> set r" and "\<forall>d. r = [d] \<longrightarrow> \<not> unsafe_char d"
    by (auto simp: sanitise_rune_def split: list.splits if_splits)
  with rune_low [OF r _ b] u show False by blast
qed

text \<open>The name offered for a download cannot leave its header: it is never empty, has at most 120 bytes, and contains
  no control character, quote, backslash or slash, whatever the client asked for.\<close>

theorem sanitiseFilename_safe:
  "sanitiseFilename s \<noteq> '''' \<and> length (sanitiseFilename s) \<le> 120 \<and> (\<forall>c. c \<in> set (sanitiseFilename s) \<longrightarrow> \<not> unsafe_char c)"
proof -
  let ?cs = "concat (map sanitise_rune (runes (path_Base s)))"
  have "\<not> unsafe_char c" if "c \<in> set (take 120 ?cs)" for c
    using that sanitise_rune_safe in_set_takeD [of c 120 ?cs] by fastforce
  moreover have "\<forall>c \<in> set ''file''. \<not> unsafe_char c" by (simp add: unsafe_char_def char_byte_def)
  moreover have "sanitiseFilename s = ''file'' \<or> sanitiseFilename s = take 120 ?cs \<and> take 120 ?cs \<noteq> []"
    unfolding sanitiseFilename_def Let_def by (metis list.pred_inject(1))
  ultimately show ?thesis by auto
qed

theorem sanitiseFilename_safe_witness:
  "\<not> list_ex unsafe_char (sanitiseFilename ''../a b'')"
  using sanitiseFilename_safe [of "''../a b''"] by (auto simp: list_ex_iff)

end
