(* ===== verification/Media_Service.thy ===== *)
theory Media_Service
  imports Media_Paths Chat_World
begin

text \<open>
  Uploads and downloads: the media permissions of \<^verbatim>\<open>pkg/cassandrax\<close> (\<^verbatim>\<open>MediaACL\<close>), the signed URLs of \<^verbatim>\<open>pkg/gcsx\<close>
  and the handlers of \<^verbatim>\<open>services/media-service\<close>.  Cloud Storage is outside the program: what it answers to one request
  is part of that request's environment, and a signed URL is the description of what was signed, passed to a signer.
\<close>

section \<open>Media permissions\<close>

record AclRow =
  acl_ChatID :: int
  acl_MessageID :: string
  acl_UploaderID :: int
  acl_BoundAt :: int

type_synonym media_acl = "(string \<times> AclRow) list"

datatype acl_error = AclNotFound | AclFailed

definition MediaACL_Bind ::
  "bool \<Rightarrow> int \<Rightarrow> string \<Rightarrow> int \<Rightarrow> string \<Rightarrow> int \<Rightarrow> media_acl \<Rightarrow> (acl_error + unit) \<times> media_acl" where
  "MediaACL_Bind down now object chatID messageID uploaderID t =
     (if object = '''' then (Inr (), t)
      else if down then (Inl AclFailed, t)
      else (Inr (), AList.update (ACLKey object)
              \<lparr>acl_ChatID = chatID, acl_MessageID = messageID, acl_UploaderID = uploaderID, acl_BoundAt = now\<rparr> t))"

definition ChatFor :: "bool \<Rightarrow> string \<Rightarrow> media_acl \<Rightarrow> acl_error + (int \<times> int)" where
  "ChatFor down object t =
     (if down then Inl AclFailed
      else case map_of t (ACLKey object) of
        None \<Rightarrow> Inl AclNotFound | Some r \<Rightarrow> Inr (acl_ChatID r, acl_UploaderID r))"

definition Unbind :: "bool \<Rightarrow> string \<Rightarrow> media_acl \<Rightarrow> (acl_error + unit) \<times> media_acl" where
  "Unbind down object t = (if down then (Inl AclFailed, t) else (Inr (), AList.delete (ACLKey object) t))"

section \<open>Signed URLs\<close>

record signed_options =
  so_Method :: string
  so_Object :: string
  so_Expires :: int
  so_ContentType :: string
  so_ContentLength :: "int option"
  so_Filename :: "string option"

datatype gcs_error = GcsRefused | GcsSign | GcsNotFound | GcsFailed

record gcs_config =
  gc_UploadTTL :: int
  gc_DownloadTTL :: int
  gc_MaxUploadBytes :: int

definition orDefaultDur :: "int \<Rightarrow> int \<Rightarrow> int" where
  "orDefaultDur v def = (if v = 0 then def else v)"

definition sign_with :: "(signed_options \<Rightarrow> string option) \<Rightarrow> signed_options \<Rightarrow> gcs_error + string" where
  "sign_with sign opts = (case sign opts of None \<Rightarrow> Inl GcsSign | Some u \<Rightarrow> Inr u)"

definition UploadURL ::
  "gcs_config \<Rightarrow> (signed_options \<Rightarrow> string option) \<Rightarrow> int \<Rightarrow> string \<Rightarrow> string \<Rightarrow> int \<Rightarrow> gcs_error + string" where
  "UploadURL c sign now object contentType sizeBytes =
     (if sizeBytes \<le> 0 then Inl GcsRefused
      else if 0 < gc_MaxUploadBytes c \<and> gc_MaxUploadBytes c < sizeBytes then Inl GcsRefused
      else if contentType = '''' then Inl GcsRefused
      else sign_with sign
        \<lparr>so_Method = ''PUT'', so_Object = object, so_Expires = now + orDefaultDur (gc_UploadTTL c) 900000,
         so_ContentType = contentType, so_ContentLength = Some sizeBytes, so_Filename = None\<rparr>)"

definition DownloadURL ::
  "gcs_config \<Rightarrow> (signed_options \<Rightarrow> string option) \<Rightarrow> int \<Rightarrow> string \<Rightarrow> string \<Rightarrow> gcs_error + string" where
  "DownloadURL c sign now object filename =
     sign_with sign
       \<lparr>so_Method = ''GET'', so_Object = object, so_Expires = now + orDefaultDur (gc_DownloadTTL c) 21600000,
        so_ContentType = '''', so_ContentLength = None,
        so_Filename = (if filename \<noteq> '''' then Some (sanitiseFilename filename) else None)\<rparr>"

section \<open>State of the service\<close>

definition allowedMime :: "(string \<times> string) list" where
  "allowedMime =
     [(''image/jpeg'', ''photo''), (''image/png'', ''photo''), (''image/webp'', ''photo''), (''image/gif'', ''photo''),
      (''image/heic'', ''photo''), (''video/mp4'', ''video''), (''video/quicktime'', ''video''), (''video/webm'', ''video''),
      (''audio/ogg'', ''voice''), (''audio/mpeg'', ''voice''), (''audio/mp4'', ''voice''), (''audio/aac'', ''voice''),
      (''application/pdf'', ''file''), (''application/zip'', ''file''), (''application/octet-stream'', ''file''),
      (''text/plain'', ''file'')]"

record initUploadRequest =
  iu_Filename :: string
  iu_MimeType :: string
  iu_SizeBytes :: int
  iu_Purpose :: string

record initUploadResponse =
  ir_UploadID :: string
  ir_Object :: string
  ir_UploadURL :: string
  ir_ContentType :: string
  ir_ContentLength :: int

record completeUploadResponse =
  cr_Object :: string
  cr_MimeType :: string
  cr_SizeBytes :: int

record pending_upload =
  pu_Owner :: int
  pu_Object :: string
  pu_Mime :: string
  pu_Size :: int
  pu_Kind :: string
  pu_Purpose :: string

record MediaJob =
  mj_UploadID :: string
  mj_OwnerID :: int
  mj_Media :: MediaRef
  mj_Ops :: "string list"
  mj_CreatedAt :: int

text \<open>The keys \<^verbatim>\<open>upload:{id}\<close> and \<^verbatim>\<open>uploadowner:{key}\<close> of Redis with their expiry, the limiter's buckets, the jobs
  published and the objects deleted.\<close>

record media_world =
  mw_acl :: media_acl
  mw_uploads :: "(string \<times> (pending_upload \<times> int)) list"
  mw_owners :: "(string \<times> (int \<times> int)) list"
  mw_buckets :: buckets
  mw_jobs :: "(string \<times> MediaJob) list"
  mw_deleted :: "string list"

datatype media_call =
  CallUploadLimiter | CallUploadSet | CallOwnerSet | CallUploadGet | CallOwnerGet | CallGcsDelete | CallJobPublish
| CallAcl | CallMemberGet

record media_env =
  me_now :: int
  me_today :: "nat \<times> nat \<times> nat"
  me_object_uuid :: string
  me_upload_uuid :: string
  me_down :: "media_call \<Rightarrow> bool"
  me_sign :: "signed_options \<Rightarrow> string option"
  me_attrs :: "string \<Rightarrow> gcs_error + (string \<times> int)"

record media_cfg =
  mc_gcs :: gcs_config
  mc_maxUploadBytes :: int
  mc_uni :: "string \<Rightarrow> string"

definition live :: "int \<Rightarrow> ('k \<times> ('v \<times> int)) list \<Rightarrow> 'k \<Rightarrow> 'v option" where
  "live now t k = (case map_of t k of Some (v, expires) \<Rightarrow> if now < expires then Some v else None | None \<Rightarrow> None)"

section \<open>Handlers\<close>

definition opsFor :: "string \<Rightarrow> string \<Rightarrow> string list" where
  "opsFor kind purpose =
     [''scan''] @
     (if kind = ''photo'' then
        [''thumbnail''] @ (if purpose = ''avatar'' \<or> purpose = ''chat_photo'' then [''publish_public''] else [])
      else if kind = ''video'' then [''thumbnail'', ''transcode''] else [])"

text \<open>The checks on the declared file, in the order of the handler.\<close>

definition upload_kind :: "media_cfg \<Rightarrow> initUploadRequest \<Rightarrow> http_error + (string \<times> string)" where
  "upload_kind cfg req =
     (let mime = ToLower (TrimSpace (iu_MimeType req)); profile = iu_Purpose req = ''avatar'' \<or> iu_Purpose req = ''chat_photo''
      in case map_of allowedMime mime of
           None \<Rightarrow> Inl BadRequest
         | Some kind \<Rightarrow>
             if iu_SizeBytes req \<le> 0 then Inl BadRequest
             else if mc_maxUploadBytes cfg < iu_SizeBytes req then Inl BadRequest
             else if profile \<and> 8388608 < iu_SizeBytes req then Inl BadRequest
             else if profile \<and> kind \<noteq> ''photo'' then Inl BadRequest
             else Inr (mime, kind))"

definition upload_limit :: "media_env \<Rightarrow> int \<Rightarrow> media_world \<Rightarrow> (http_error + unit) \<times> media_world" where
  "upload_limit e userID w =
     (case Allow True (me_down e CallUploadLimiter) (me_now e) (KeyUser ''upload'' userID) UploadInit (mw_buckets w) of
        (d, err, b) \<Rightarrow>
          (if err = None \<and> \<not> Allowed d then Inl (FloodWait (go_quot (RetryAfterMS d) 1000 + 1)) else Inr (),
           w\<lparr>mw_buckets := b\<rparr>))"

definition record_upload ::
  "media_env \<Rightarrow> int \<Rightarrow> string \<Rightarrow> string \<Rightarrow> string \<Rightarrow> initUploadRequest \<Rightarrow> string \<Rightarrow> media_world
     \<Rightarrow> (http_error + initUploadResponse) \<times> media_world" where
  "record_upload e userID object mime kind req url w =
     (let day = 86400000; uploadID = me_upload_uuid e
      in if me_down e CallUploadSet then (Inl Unavailable, w)
         else
           let w1 = w\<lparr>mw_uploads := AList.update uploadID
                 (\<lparr>pu_Owner = userID, pu_Object = object, pu_Mime = mime, pu_Size = iu_SizeBytes req, pu_Kind = kind,
                   pu_Purpose = iu_Purpose req\<rparr>, me_now e + day) (mw_uploads w)\<rparr>
           in if me_down e CallOwnerSet then (Inl Unavailable, w1)
              else
                (Inr \<lparr>ir_UploadID = uploadID, ir_Object = object, ir_UploadURL = url, ir_ContentType = mime,
                      ir_ContentLength = iu_SizeBytes req\<rparr>,
                 w1\<lparr>mw_owners := AList.update (ACLKey object) (userID, me_now e + day) (mw_owners w1)\<rparr>))"

definition handleInitUpload ::
  "media_cfg \<Rightarrow> media_env \<Rightarrow> int option \<Rightarrow> http_error + initUploadRequest \<Rightarrow> media_world
     \<Rightarrow> (http_error + initUploadResponse) \<times> media_world" where
  "handleInitUpload cfg e claims body w =
     (case claims of
        None \<Rightarrow> (Inl Unauthorized, w)
      | Some userID \<Rightarrow>
          (case body of
             Inl err \<Rightarrow> (Inl err, w)
           | Inr req \<Rightarrow>
               and_then (upload_limit e userID w) (\<lambda>_ w.
                 case upload_kind cfg req of
                   Inl err \<Rightarrow> (Inl err, w)
                 | Inr (mime, kind) \<Rightarrow>
                     let object = ObjectPath (mc_uni cfg) (me_today e) (me_object_uuid e) userID kind (safeFilename (iu_Filename req))
                     in case UploadURL (mc_gcs cfg) (me_sign e) (me_now e) object mime (iu_SizeBytes req) of
                          Inl _ \<Rightarrow> (Inl Internal, w)
                        | Inr url \<Rightarrow> record_upload e userID object mime kind req url w)))"

definition handleCompleteUpload ::
  "media_env \<Rightarrow> int option \<Rightarrow> string \<Rightarrow> media_world \<Rightarrow> (http_error + completeUploadResponse) \<times> media_world" where
  "handleCompleteUpload e claims uploadID w =
     (case claims of
        None \<Rightarrow> (Inl Unauthorized, w)
      | Some userID \<Rightarrow>
          if uploadID = '''' then (Inl BadRequest, w)
          else case (if me_down e CallUploadGet then None else live (me_now e) (mw_uploads w) uploadID) of
            None \<Rightarrow> (Inl NotFound, w)
          | Some p \<Rightarrow>
              if pu_Owner p \<noteq> userID then (Inl NotFound, w)
              else case me_attrs e (pu_Object p) of
                Inl err \<Rightarrow> (Inl (if err = GcsNotFound then Conflict else Internal), w)
              | Inr (bucket, landed) \<Rightarrow>
                  if landed \<noteq> pu_Size p then
                    (if me_down e CallGcsDelete then (Inl Internal, w)
                     else (Inl BadRequest, w\<lparr>mw_deleted := mw_deleted w @ [pu_Object p]\<rparr>))
                  else
                    let job = \<lparr>mj_UploadID = uploadID, mj_OwnerID = userID,
                          mj_Media = \<lparr>mr_Bucket = bucket, mr_Object = pu_Object p, mr_MimeType = pu_Mime p, mr_SizeBytes = landed,
                            mr_Width = 0, mr_Height = 0, mr_DurationMS = 0, mr_ThumbObject = ''''\<rparr>,
                          mj_Ops = opsFor (pu_Kind p) (pu_Purpose p), mj_CreatedAt = me_now e\<rparr>
                    in (Inr \<lparr>cr_Object = pu_Object p, cr_MimeType = pu_Mime p, cr_SizeBytes = landed\<rparr>,
                        if me_down e CallJobPublish then w else w\<lparr>mw_jobs := mw_jobs w @ [(uploadID, job)]\<rparr>))"

definition ownsPendingUpload :: "media_env \<Rightarrow> int \<Rightarrow> string \<Rightarrow> media_world \<Rightarrow> bool" where
  "ownsPendingUpload e userID object w =
     (\<not> me_down e CallOwnerGet \<and> live (me_now e) (mw_owners w) (ACLKey object) = Some userID)"

definition may_download :: "media_env \<Rightarrow> pg \<Rightarrow> int \<Rightarrow> string \<Rightarrow> media_world \<Rightarrow> http_error + unit" where
  "may_download e t userID object w =
     (case ChatFor (me_down e CallAcl) object (mw_acl w) of
        Inl AclNotFound \<Rightarrow> if ownsPendingUpload e userID object w then Inr () else Inl NotFound
      | Inl AclFailed \<Rightarrow> Inl Unavailable
      | Inr (chatID, uploaderID) \<Rightarrow>
          if uploaderID = userID then Inr ()
          else if me_down e CallMemberGet then Inl NotFound
          else case Members_Get t chatID userID of
            Inl _ \<Rightarrow> Inl NotFound | Inr m \<Rightarrow> if mb_LeftAt m \<noteq> None then Inl NotFound else Inr ())"

definition handleDownloadURL ::
  "media_cfg \<Rightarrow> media_env \<Rightarrow> pg \<Rightarrow> int option \<Rightarrow> string \<Rightarrow> string \<Rightarrow> media_world \<Rightarrow> http_error + string" where
  "handleDownloadURL cfg e t claims object filename w =
     (case claims of
        None \<Rightarrow> Inl Unauthorized
      | Some userID \<Rightarrow>
          if object = '''' then Inl BadRequest
          else if Contains object ''..'' \<or> HasPrefix object ''/'' then Inl BadRequest
          else case may_download e t userID object w of
            Inl err \<Rightarrow> Inl err
          | Inr _ \<Rightarrow>
              (case DownloadURL (mc_gcs cfg) (me_sign e) (me_now e) object filename of
                 Inl _ \<Rightarrow> Inl Internal | Inr url \<Rightarrow> Inr url))"

section \<open>Runs of the service\<close>

datatype media_request =
  InitUpload "http_error + initUploadRequest"
| CompleteUpload string
| GetDownloadURL string string

datatype media_response = UploadStarted initUploadResponse | UploadCompleted completeUploadResponse | DownloadAt string

definition media_serve ::
  "media_cfg \<Rightarrow> pg \<Rightarrow> media_env \<Rightarrow> int option \<Rightarrow> media_request \<Rightarrow> media_world \<Rightarrow> (http_error + media_response) \<times> media_world" where
  "media_serve cfg t e claims req w =
     (case req of
        InitUpload body \<Rightarrow> map_prod (map_sum id UploadStarted) id (handleInitUpload cfg e claims body w)
      | CompleteUpload uploadID \<Rightarrow> map_prod (map_sum id UploadCompleted) id (handleCompleteUpload e claims uploadID w)
      | GetDownloadURL object filename \<Rightarrow> (map_sum id DownloadAt (handleDownloadURL cfg e t claims object filename w), w))"

fun media_run :: "media_cfg \<Rightarrow> (pg \<times> media_env \<times> int option \<times> media_request) list \<Rightarrow> media_world \<Rightarrow> media_world" where
  "media_run cfg [] w = w"
| "media_run cfg ((t, e, claims, req) # rest) w = media_run cfg rest (snd (media_serve cfg t e claims req w))"

section \<open>Lemmas\<close>

lemma Bind_ChatFor:
  "ACLKey object = ACLKey object' \<Longrightarrow> object \<noteq> '''' \<Longrightarrow>
    ChatFor False object' (snd (MediaACL_Bind False now object chatID messageID uploaderID t)) = Inr (chatID, uploaderID)"
  by (simp add: MediaACL_Bind_def ChatFor_def update_conv')

lemma upload_limit_frame:
  "mw_acl (snd (upload_limit e u w)) = mw_acl w" "mw_owners (snd (upload_limit e u w)) = mw_owners w"
  "mw_uploads (snd (upload_limit e u w)) = mw_uploads w" "mw_jobs (snd (upload_limit e u w)) = mw_jobs w"
  by (simp_all add: upload_limit_def split: prod.split)

lemma allowed_kind: "map_of allowedMime mime = Some kind \<Longrightarrow> mime \<noteq> '''' \<and> kind \<in> set media_kinds"
  by (auto simp: allowedMime_def media_kinds_def split: if_splits)

text \<open>What an upload that was started left behind.\<close>

lemma InitUpload_started:
  assumes "handleInitUpload cfg e claims body w = (Inr r, w')"
  obtains userID req mime kind where "claims = Some userID" and "body = Inr req" and "upload_kind cfg req = Inr (mime, kind)"
    and "kind \<in> set media_kinds"
    and "ir_Object r = ObjectPath (mc_uni cfg) (me_today e) (me_object_uuid e) userID kind (safeFilename (iu_Filename req))"
    and "mw_owners w' = AList.update (ACLKey (ir_Object r)) (userID, me_now e + 86400000) (mw_owners w)"
    and "mw_acl w' = mw_acl w"
    and "mw_uploads w' = AList.update (ir_UploadID r)
           (\<lparr>pu_Owner = userID, pu_Object = ir_Object r, pu_Mime = mime, pu_Size = iu_SizeBytes req, pu_Kind = kind,
             pu_Purpose = iu_Purpose req\<rparr>, me_now e + 86400000) (mw_uploads w)"
proof -
  obtain userID req where c: "claims = Some userID" "body = Inr req"
    using assms by (auto simp: handleInitUpload_def split: option.splits sum.splits)
  obtain x w1 where l: "upload_limit e userID w = (Inr x, w1)"
    using assms c by (cases "upload_limit e userID w"; cases "fst (upload_limit e userID w)")
      (auto simp: handleInitUpload_def and_then_def)
  obtain mime kind where k: "upload_kind cfg req = Inr (mime, kind)"
    using assms c l by (auto simp: handleInitUpload_def and_then_def split: sum.splits)
  then have kk: "kind \<in> set media_kinds"
    using allowed_kind by (auto simp: upload_kind_def Let_def split: option.splits if_splits)
  note fr = upload_limit_frame [of e userID w, unfolded l snd_conv]
  from assms show ?thesis
    by (intro that [OF c k kk]) (auto simp: handleInitUpload_def c l k and_then_def record_upload_def Let_def fr split: sum.splits if_splits)
qed

lemma InitUpload_failed: "handleInitUpload cfg e claims body w = (Inl err, w') \<Longrightarrow> mw_acl w' = mw_acl w \<and> mw_owners w' = mw_owners w"
proof -
  assume a: "handleInitUpload cfg e claims body w = (Inl err, w')"
  have l: "mw_acl (snd p) = mw_acl w \<and> mw_owners (snd p) = mw_owners w \<Longrightarrow>
     (\<And>x w1. p = (Inr x, w1) \<Longrightarrow> mw_acl w1 = mw_acl w \<Longrightarrow> mw_owners w1 = mw_owners w \<Longrightarrow> k x w1 = (Inl err, w') \<Longrightarrow>
        mw_acl w' = mw_acl w \<and> mw_owners w' = mw_owners w) \<Longrightarrow>
     and_then p k = (Inl err, w') \<Longrightarrow> mw_acl w' = mw_acl w \<and> mw_owners w' = mw_owners w" for p :: "(http_error + unit) \<times> media_world" and k
    by (cases p; cases "fst p") (auto simp: and_then_def)
  show ?thesis
  proof (cases claims; cases body)
    fix u req assume "claims = Some u" "body = Inr req"
    with a show ?thesis
      by (simp add: handleInitUpload_def)
        (erule l [rotated 2], simp add: upload_limit_frame, auto simp: record_upload_def Let_def split: sum.splits if_splits)
  qed (use a in \<open>auto simp: handleInitUpload_def\<close>)
qed

lemma CompleteUpload_frame: "mw_acl (snd (handleCompleteUpload e claims i w)) = mw_acl w" "mw_owners (snd (handleCompleteUpload e claims i w)) = mw_owners w"
  by (simp_all add: handleCompleteUpload_def Let_def split: option.split sum.split prod.split)

text \<open>Only the start of an upload, and only under that upload's own key, changes who owns a pending upload; nothing
  the service does changes a binding.\<close>

lemma serve_frame:
  assumes "media_serve cfg t e claims req w = (r, w')"
  shows "mw_acl w' = mw_acl w"
    and "\<lbrakk>\<forall>userID kind f. kind \<in> set media_kinds \<longrightarrow>
            ACLKey (ObjectPath (mc_uni cfg) (me_today e) (me_object_uuid e) userID kind f) \<noteq> key\<rbrakk>
         \<Longrightarrow> map_of (mw_owners w') key = map_of (mw_owners w) key"
proof -
  have "mw_acl w' = mw_acl w \<and> ((\<forall>userID kind f. kind \<in> set media_kinds \<longrightarrow>
            ACLKey (ObjectPath (mc_uni cfg) (me_today e) (me_object_uuid e) userID kind f) \<noteq> key)
         \<longrightarrow> map_of (mw_owners w') key = map_of (mw_owners w) key)"
  proof (cases req)
    case (InitUpload body)
    then obtain r' where r': "handleInitUpload cfg e claims body w = (r', w')"
      using assms by (cases "handleInitUpload cfg e claims body w") (auto simp: media_serve_def)
    show ?thesis
    proof (cases r')
      case (Inl err)
      then show ?thesis using InitUpload_failed r' by metis
    next
      case (Inr resp)
      from InitUpload_started [OF r' [unfolded Inr]] show ?thesis by (metis update_conv' fun_upd_apply)
    qed
  next
    case (CompleteUpload i)
    then show ?thesis using assms CompleteUpload_frame [of e claims i w] by (cases "handleCompleteUpload e claims i w") (auto simp: media_serve_def)
  next
    case (GetDownloadURL ob f)
    then show ?thesis using assms by (auto simp: media_serve_def)
  qed
  then show "mw_acl w' = mw_acl w" "\<lbrakk>\<forall>userID kind f. kind \<in> set media_kinds \<longrightarrow>
            ACLKey (ObjectPath (mc_uni cfg) (me_today e) (me_object_uuid e) userID kind f) \<noteq> key\<rbrakk>
         \<Longrightarrow> map_of (mw_owners w') key = map_of (mw_owners w) key" by blast+
qed

lemma run_frame:
  assumes "\<forall>(t, e, claims, req) \<in> set jobs. \<forall>userID kind f. kind \<in> set media_kinds \<longrightarrow>
      ACLKey (ObjectPath (mc_uni cfg) (me_today e) (me_object_uuid e) userID kind f) \<noteq> key"
  shows "mw_acl (media_run cfg jobs w) = mw_acl w \<and> map_of (mw_owners (media_run cfg jobs w)) key = map_of (mw_owners w) key"
  using assms
proof (induction jobs arbitrary: w)
  case (Cons job jobs)
  obtain t e claims req where j: "job = (t, e, claims, req)" by (cases job) auto
  obtain r w' where s: "media_serve cfg t e claims req w = (r, w')" by (cases "media_serve cfg t e claims req w")
  show ?case
    using Cons.IH [of w'] Cons.prems serve_frame [OF s] by (simp add: j s)
qed simp

lemma download_granted:
  "handleDownloadURL cfg e t claims object filename w = Inr url \<Longrightarrow>
    \<exists>u. claims = Some u \<and> may_download e t u object w = Inr () \<and> object \<noteq> '''' \<and> \<not> Contains object ''..'' \<and> \<not> HasPrefix object ''/''
      \<and> DownloadURL (mc_gcs cfg) (me_sign e) (me_now e) object filename = Inr url"
  by (auto simp: handleDownloadURL_def split: option.splits if_splits sum.splits)

section \<open>Properties\<close>

text \<open>C5. A read URL is signed only for someone entitled to the object: the caller presented a valid token, the path cannot
  escape the bucket's prefix, and either the object (or the original it derives from) was sent to a chat and the caller
  is its sender or a member who has not left, or it was never sent and the caller is its uploader within a day.\<close>

theorem download_only_for:
  assumes "handleDownloadURL cfg e t claims object filename w = Inr url"
  shows "\<exists>u. claims = Some u \<and> \<not> Contains object ''..'' \<and> \<not> HasPrefix object ''/''
    \<and> (case map_of (mw_acl w) (ACLKey object) of
         Some r \<Rightarrow> acl_UploaderID r = u \<or> (\<exists>m. map_of (pg_members t) (acl_ChatID r, u) = Some m \<and> active m)
       | None \<Rightarrow> \<exists>expires. map_of (mw_owners w) (ACLKey object) = Some (u, expires) \<and> me_now e < expires)
    \<and> (\<exists>opts. me_sign e opts = Some url \<and> so_Method opts = ''GET'' \<and> so_Object opts = object)"
proof -
  from download_granted [OF assms] obtain u where u: "claims = Some u" "may_download e t u object w = Inr ()"
    "\<not> Contains object ''..''" "\<not> HasPrefix object ''/''" "DownloadURL (mc_gcs cfg) (me_sign e) (me_now e) object filename = Inr url" by blast
  from u(5) have "\<exists>opts. me_sign e opts = Some url \<and> so_Method opts = ''GET'' \<and> so_Object opts = object"
    unfolding DownloadURL_def sign_with_def by (auto split: option.splits)
  with u show ?thesis
    by (cases "map_of (mw_acl w) (ACLKey object)")
      (auto simp: may_download_def ChatFor_def ownsPendingUpload_def live_def Members_Get_def active_def
         split: if_splits option.splits)
qed

definition empty_media :: media_world where
  "empty_media = \<lparr>mw_acl = [], mw_uploads = [], mw_owners = [], mw_buckets = [], mw_jobs = [], mw_deleted = []\<rparr>"

definition no_members :: pg where
  "no_members = \<lparr>pg_chats = [], pg_members = [], pg_sequences = [], pg_users = [], pg_pair_arbiter = False\<rparr>"

definition media_calm :: "int \<Rightarrow> string \<Rightarrow> media_env" where
  "media_calm now uuid =
     \<lparr>me_now = now, me_today = (2026, 8, 17), me_object_uuid = uuid, me_upload_uuid = uuid, me_down = (\<lambda>_. False),
      me_sign = (\<lambda>opts. Some (so_Method opts @ so_Object opts)), me_attrs = (\<lambda>_. Inr (''media'', 100))\<rparr>"

lemma media_calm_uuid [simp]: "me_object_uuid (media_calm now uuid) = uuid"
  by (simp add: media_calm_def)

definition sample_media_cfg :: media_cfg where
  "sample_media_cfg =
     \<lparr>mc_gcs = \<lparr>gc_UploadTTL = 0, gc_DownloadTTL = 0, gc_MaxUploadBytes = 1000\<rparr>, mc_maxUploadBytes = 1000,
      mc_uni = (\<lambda>_. replacement_rune)\<rparr>"

definition photo_upload :: initUploadRequest where
  "photo_upload = \<lparr>iu_Filename = ''me.JPG'', iu_MimeType = ''image/jpeg'', iu_SizeBytes = 100, iu_Purpose = ''message''\<rparr>"

abbreviation sample_object :: string where "sample_object \<equiv> ''photo/2026/08/17/42/ab-1.jpg''"

definition uploaded :: "(http_error + initUploadResponse) \<times> media_world" where
  "uploaded = handleInitUpload sample_media_cfg (media_calm 0 ''ab-1'') (Some 42) (Inr photo_upload) empty_media"

lemma uploaded_value: "\<exists>r. fst uploaded = Inr r \<and> ir_Object r = sample_object"
proof -
  have "case fst uploaded of Inr r \<Rightarrow> ir_Object r = sample_object | _ \<Rightarrow> False" by code_simp
  then show ?thesis by (auto split: sum.splits)
qed

theorem download_only_for_witness:
  "\<not> Contains sample_object ''..''
    \<and> handleDownloadURL sample_media_cfg (media_calm 5 ''c'') no_members (Some 42)
        sample_object '''' (snd uploaded) = Inr (''GET'' @ sample_object)"
proof -
  have h: "handleDownloadURL sample_media_cfg (media_calm 5 ''c'') no_members (Some 42)
        sample_object '''' (snd uploaded) = Inr (''GET'' @ sample_object)" by code_simp
  from download_only_for [OF h] h show ?thesis by blast
qed

text \<open>C30. An upload stays its uploader's until it is sent: after an upload was started, whatever else the service is asked by
  anyone, as long as no message binds the object, a read URL for it or for one of its derivatives goes to the uploader
  and to nobody else, and for a day only; and to the uploader it does go while the stores answer.\<close>

theorem private_until_sent:
  assumes "case_table_ok (mc_uni cfg)" and "uuid_ok (me_object_uuid e)"
    and "handleInitUpload cfg e claims body w0 = (Inr r, w1)"
    and "\<forall>(t, e', c, req) \<in> set jobs. uuid_ok (me_object_uuid e') \<and> me_object_uuid e' \<noteq> me_object_uuid e"
    and "w = media_run cfg jobs w1"
    and "map_of (mw_acl w1) (ACLKey (ir_Object r)) = None"
    and "ACLKey object = ACLKey (ir_Object r)"
  shows "(handleDownloadURL cfg e1 t (Some v) object filename w = Inr url \<longrightarrow> claims = Some v \<and> me_now e1 < me_now e + 86400000)
    \<and> (claims = Some v \<longrightarrow> me_now e1 < me_now e + 86400000 \<longrightarrow> \<not> me_down e1 CallAcl \<longrightarrow> \<not> me_down e1 CallOwnerGet
        \<longrightarrow> may_download e1 t v object w = Inr ())"
proof -
  obtain u req mime kind where u: "claims = Some u" "kind \<in> set media_kinds" "body = Inr req"
    and o: "ir_Object r = ObjectPath (mc_uni cfg) (me_today e) (me_object_uuid e) u kind (safeFilename (iu_Filename req))"
    and ow: "mw_owners w1 = AList.update (ACLKey (ir_Object r)) (u, me_now e + 86400000) (mw_owners w0)"
    by (rule InitUpload_started [OF assms(3)]) (rule that)
  have "\<forall>(t, e', c, req) \<in> set jobs. \<forall>userID kind f. kind \<in> set media_kinds \<longrightarrow>
      ACLKey (ObjectPath (mc_uni cfg) (me_today e') (me_object_uuid e') userID kind f) \<noteq> ACLKey (ir_Object r)"
    using assms(4) upload_key_inject [OF assms(1,2) u(2)] unfolding o by fastforce
  from run_frame [OF this, of w1] have w: "mw_acl w = mw_acl w1"
    "map_of (mw_owners w) (ACLKey object) = Some (u, me_now e + 86400000)"
    by (simp_all add: assms(5,7) ow update_conv')
  have m: "may_download e1 t v object w =
      (if me_down e1 CallAcl then Inl Unavailable
       else if \<not> me_down e1 CallOwnerGet \<and> me_now e1 < me_now e + 86400000 \<and> u = v then Inr () else Inl NotFound)"
    using w assms(6,7) by (simp add: may_download_def ChatFor_def ownsPendingUpload_def live_def)
  show ?thesis using download_granted [of cfg e1 t "Some v" object filename w url] m u(1) by (auto split: if_splits)
qed

theorem private_until_sent_witness:
  "\<forall>t filename url. handleDownloadURL sample_media_cfg (media_calm 5 ''c'') t (Some 43) sample_object filename
     (media_run sample_media_cfg [(no_members, media_calm 2 ''c'', Some 43, InitUpload (Inr photo_upload))] (snd uploaded)) \<noteq> Inr url"
proof -
  obtain r where r: "fst uploaded = Inr r" "ir_Object r = sample_object" using uploaded_value by blast
  then have h: "handleInitUpload sample_media_cfg (media_calm 0 ''ab-1'') (Some 42) (Inr photo_upload) empty_media = (Inr r, snd uploaded)"
    unfolding uploaded_def by (metis prod.collapse)
  have a: "map_of (mw_acl (snd uploaded)) (ACLKey (ir_Object r)) = None" unfolding r(2) by code_simp
  have "case_table_ok (mc_uni sample_media_cfg)"
    by (simp add: case_table_ok_def sample_media_cfg_def replacement_rune_def char_of_def)
  moreover have "uuid_ok (me_object_uuid (media_calm 0 ''ab-1''))" by (simp add: uuid_ok_def)
  moreover let ?jobs = "[(no_members, media_calm 2 ''c'', Some 43, InitUpload (Inr photo_upload))]"
  have "\<forall>(t, e', c, req) \<in> set ?jobs. uuid_ok (me_object_uuid e') \<and> me_object_uuid e' \<noteq> me_object_uuid (media_calm 0 ''ab-1'')"
    by (simp add: uuid_ok_def)
  ultimately have "handleDownloadURL sample_media_cfg e1 t (Some v) sample_object filename (media_run sample_media_cfg ?jobs (snd uploaded)) = Inr url
      \<longrightarrow> Some 42 = Some v" for e1 t v filename url
    using private_until_sent [OF _ _ h _ refl a, of ?jobs sample_object e1 t v filename url] unfolding r by blast
  then show ?thesis by fastforce
qed

text \<open>A URL to upload to is signed only for what the checks allow: a type of the allow-list, a positive size within the
  limit, a profile picture only as an image of at most 8 MiB; type and length are part of what is signed, and the path
  carries the uploader's number and a fresh UUID, not the file name.\<close>

theorem upload_url_bound:
  assumes "handleInitUpload cfg e claims body w = (Inr r, w')"
  shows "\<exists>u req mime kind opts. claims = Some u \<and> body = Inr req \<and> map_of allowedMime mime = Some kind
    \<and> 0 < iu_SizeBytes req \<and> iu_SizeBytes req \<le> mc_maxUploadBytes cfg
    \<and> (iu_Purpose req \<in> {''avatar'', ''chat_photo''} \<longrightarrow> kind = ''photo'' \<and> iu_SizeBytes req \<le> 8388608)
    \<and> me_sign e opts = Some (ir_UploadURL r) \<and> so_Method opts = ''PUT'' \<and> so_Object opts = ir_Object r
    \<and> so_ContentType opts = mime \<and> so_ContentLength opts = Some (iu_SizeBytes req)
    \<and> ir_Object r = ObjectPath (mc_uni cfg) (me_today e) (me_object_uuid e) u kind (safeFilename (iu_Filename req))"
proof -
  obtain u req mime kind where i: "claims = Some u" "body = Inr req"
    "upload_kind cfg req = Inr (mime, kind)"
    "ir_Object r = ObjectPath (mc_uni cfg) (me_today e) (me_object_uuid e) u kind (safeFilename (iu_Filename req))"
    by (rule InitUpload_started [OF assms]) (rule that)
  have k: "map_of allowedMime mime = Some kind \<and> 0 < iu_SizeBytes req \<and> iu_SizeBytes req \<le> mc_maxUploadBytes cfg
      \<and> (iu_Purpose req \<in> {''avatar'', ''chat_photo''} \<longrightarrow> kind = ''photo'' \<and> iu_SizeBytes req \<le> 8388608)"
    using i(3) by (auto simp: upload_kind_def Let_def split: option.splits if_splits)
  obtain x w1 where l: "upload_limit e u w = (Inr x, w1)"
    using assms i by (cases "upload_limit e u w"; cases "fst (upload_limit e u w)") (auto simp: handleInitUpload_def and_then_def)
  have "UploadURL (mc_gcs cfg) (me_sign e) (me_now e) (ir_Object r) mime (iu_SizeBytes req) = Inr (ir_UploadURL r)"
    using assms i l by (auto simp: handleInitUpload_def and_then_def record_upload_def Let_def split: sum.splits if_splits)
  then have "\<exists>opts. me_sign e opts = Some (ir_UploadURL r) \<and> so_Method opts = ''PUT'' \<and> so_Object opts = ir_Object r
      \<and> so_ContentType opts = mime \<and> so_ContentLength opts = Some (iu_SizeBytes req)"
    unfolding UploadURL_def sign_with_def by (auto split: if_splits option.splits)
  with i k show ?thesis by blast
qed

theorem upload_url_bound_witness:
  "\<exists>r opts. fst uploaded = Inr r \<and> so_ContentLength opts = Some 100 \<and> so_Object opts = sample_object
     \<and> me_sign (media_calm 0 ''ab-1'') opts = Some (ir_UploadURL r)"
proof -
  obtain r where r: "fst uploaded = Inr r" "ir_Object r = sample_object" using uploaded_value by blast
  then have "handleInitUpload sample_media_cfg (media_calm 0 ''ab-1'') (Some 42) (Inr photo_upload) empty_media = (Inr r, snd uploaded)"
    unfolding uploaded_def by (metis prod.collapse)
  from upload_url_bound [OF this] obtain req mime opts where "Inr photo_upload = (Inr req :: http_error + initUploadRequest)"
    "so_ContentLength opts = Some (iu_SizeBytes req)" "so_Object opts = ir_Object r"
    "me_sign (media_calm 0 ''ab-1'') opts = Some (ir_UploadURL r)" by blast
  then show ?thesis using r by (auto simp: photo_upload_def)
qed

end
