(* ===== verification/Persister.thy ===== *)
theory Persister
  imports Kafka_Consumer Media_Service
begin

text \<open>
  The consumer that makes accepted messages durable, \<^verbatim>\<open>services/consumers/persister/main.go\<close>: it writes the message
  to Cassandra, records its bucket, mirrors the sequence into Postgres, binds the media it carries to its chat, publishes
  it on \<^verbatim>\<open>messages.persisted\<close> and queues the search document.  Its state is the stores it shares with the chat service
  and the media service, and the two topics it writes.
\<close>

section \<open>State\<close>

record SearchDoc =
  sd_Index :: string
  sd_DocID :: string
  sd_Op :: string
  sd_ChatID :: int
  sd_Members :: "int list"
  sd_Body :: string
  sd_SenderID :: int
  sd_Seq :: int
  sd_CreatedAt :: int

record platform =
  p_chat :: chat_world
  p_media :: media_world
  p_persisted :: "(bytes \<times> bytes) list"
  p_search :: "(string \<times> SearchDoc) list"

datatype persist_call = CallAdvance | CallBind | CallPersisted | CallSearch | CallSearchEncode

record persist_env =
  pe_now :: int
  pe_cass :: "cass_stmt \<Rightarrow> bool"
  pe_down :: "persist_call \<Rightarrow> bool"

text \<open>\<^verbatim>\<open>json.Unmarshal\<close> of an event and \<^verbatim>\<open>json.Marshal\<close> of a media reference.\<close>

record event_codec =
  ec_decode :: "bytes \<Rightarrow> MessageEvent option"
  ec_media :: "MediaRef \<Rightarrow> string option"

section \<open>The handler\<close>

definition search_doc :: "MessageEvent \<Rightarrow> SearchDoc" where
  "search_doc evt =
     \<lparr>sd_Index = ''messages'', sd_DocID = ev_MessageID evt, sd_Op = ''upsert'', sd_ChatID = ev_ChatID evt,
      sd_Members = ev_Recipients evt, sd_Body = ev_Body evt, sd_SenderID = ev_SenderID evt, sd_Seq = ev_Seq evt,
      sd_CreatedAt = ev_CreatedAt evt\<rparr>"

text \<open>\<^verbatim>\<open>indexDoc\<close>; its error is only logged.\<close>

definition indexDoc :: "persist_env \<Rightarrow> MessageEvent \<Rightarrow> platform \<Rightarrow> platform" where
  "indexDoc e evt p =
     (if ev_Encrypted evt \<or> ev_Body evt = '''' then p
      else if pe_down e CallSearchEncode \<or> pe_down e CallSearch then p
      else p\<lparr>p_search := p_search p @ [(ev_MessageID evt, search_doc evt)]\<rparr>)"

definition media_json :: "event_codec \<Rightarrow> MessageEvent \<Rightarrow> string option" where
  "media_json c evt = (case ev_Media evt of None \<Rightarrow> Some ''{}'' | Some m \<Rightarrow> ec_media c m)"

definition set_cass :: "platform \<Rightarrow> cass \<Rightarrow> platform" where
  "set_cass p t = p\<lparr>p_chat := (p_chat p)\<lparr>w_cass := t\<rparr>\<rparr>"

definition set_pg :: "platform \<Rightarrow> pg \<Rightarrow> platform" where
  "set_pg p t = p\<lparr>p_chat := (p_chat p)\<lparr>w_pg := t\<rparr>\<rparr>"

definition set_acl :: "platform \<Rightarrow> media_acl \<Rightarrow> platform" where
  "set_acl p t = p\<lparr>p_media := (p_media p)\<lparr>mw_acl := t\<rparr>\<rparr>"

text \<open>The writes of the handler, each of which may end it with an error.\<close>

definition insert_step :: "persist_env \<Rightarrow> MessageEvent \<Rightarrow> string \<Rightarrow> platform \<Rightarrow> (string + unit) \<times> platform" where
  "insert_step e evt mediaJSON p =
     (case Insert (pe_cass e) (pe_now e) evt mediaJSON (w_cass (p_chat p)) of
        (r, t) \<Rightarrow> (map_sum (\<lambda>_. ''persist message'') id r, set_cass p t))"

definition touch_step :: "persist_env \<Rightarrow> MessageEvent \<Rightarrow> platform \<Rightarrow> (string + unit) \<times> platform" where
  "touch_step e evt p =
     (case TouchBucket (pe_cass e) (ev_ChatID evt) (ev_Seq evt) (w_cass (p_chat p)) of
        (r, t) \<Rightarrow> (map_sum (\<lambda>_. ''record bucket'') id r, set_cass p t))"

definition advance_step :: "persist_env \<Rightarrow> MessageEvent \<Rightarrow> platform \<Rightarrow> (string + unit) \<times> platform" where
  "advance_step e evt p =
     (if pe_down e CallAdvance then (Inl ''advance chat sequence'', p)
      else case Sequences_Advance (pe_now e) (ev_ChatID evt) (ev_Seq evt) (w_pg (p_chat p)) of
        (r, t) \<Rightarrow> (map_sum (\<lambda>_. ''advance chat sequence'') id r, set_pg p t))"

definition bind_step :: "persist_env \<Rightarrow> MessageEvent \<Rightarrow> platform \<Rightarrow> (string + unit) \<times> platform" where
  "bind_step e evt p =
     (case ev_Media evt of
        None \<Rightarrow> (Inr (), p)
      | Some m \<Rightarrow>
          if mr_Object m = '''' then (Inr (), p)
          else case MediaACL_Bind (pe_down e CallBind) (pe_now e) (mr_Object m) (ev_ChatID evt) (ev_MessageID evt) (ev_SenderID evt)
                      (mw_acl (p_media p)) of
            (r, t) \<Rightarrow> (map_sum (\<lambda>_. ''bind media acl'') id r, set_acl p t))"

definition publish_step :: "persist_env \<Rightarrow> kafka_message \<Rightarrow> platform \<Rightarrow> (string + unit) \<times> platform" where
  "publish_step e m p =
     (if pe_down e CallPersisted then (Inl ''publish persisted event'', p)
      else (Inr (), p\<lparr>p_persisted := p_persisted p @ [(km_Key m, km_Value m)]\<rparr>))"

definition persist_writes :: "persist_env \<Rightarrow> kafka_message \<Rightarrow> MessageEvent \<Rightarrow> string \<Rightarrow> platform \<Rightarrow> (string + unit) \<times> platform" where
  "persist_writes e m evt mediaJSON p =
     and_then (insert_step e evt mediaJSON p) (\<lambda>_ p.
     and_then (touch_step e evt p) (\<lambda>_ p.
     and_then (advance_step e evt p) (\<lambda>_ p.
     and_then (bind_step e evt p) (\<lambda>_ p.
     and_then (publish_step e m p) (\<lambda>_ p. (Inr (), indexDoc e evt p))))))"

definition persist_handle :: "event_codec \<Rightarrow> (persist_env, platform) handler" where
  "persist_handle c e m p =
     (case ec_decode c (km_Value m) of
        None \<Rightarrow> (ErrSkip, p)
      | Some evt \<Rightarrow>
          (case Validate evt of
             Inl _ \<Rightarrow> (ErrSkip, p)
           | Inr _ \<Rightarrow>
               (case media_json c evt of
                  None \<Rightarrow> (ErrSkip, p)
                | Some mediaJSON \<Rightarrow>
                    (case persist_writes e m evt mediaJSON p of
                       (Inl err, p') \<Rightarrow> (HandlerError err, p') | (Inr _, p') \<Rightarrow> (Handled, p')))))"

definition persister_options :: ConsumerOptions where
  "persister_options =
     \<lparr>co_Topic = ''messages.raw'', co_Group = ''persister'', co_MaxRetries = 6, co_RetryBase = 100000000, co_RetryMax = 5000000000,
      co_HasDLQ = True\<rparr>"

section \<open>What a persisted message is\<close>

definition event_key :: "MessageEvent \<Rightarrow> int \<times> int \<times> int" where
  "event_key evt = (ev_ChatID evt, BucketOf (ev_Seq evt), ev_Seq evt)"

definition row_of :: "MessageEvent \<Rightarrow> cass \<Rightarrow> bool" where
  "row_of evt t =
     (case map_of (messages_by_chat t) (event_key evt) of
        None \<Rightarrow> False | Some r \<Rightarrow> sm_MessageID r = ev_MessageID evt \<and> sm_SenderID r = ev_SenderID evt)"

definition media_bound :: "MessageEvent \<Rightarrow> media_acl \<Rightarrow> bool" where
  "media_bound evt t =
     (case ev_Media evt of None \<Rightarrow> True | Some m \<Rightarrow> mr_Object m = '''' \<or> map_of t (ACLKey (mr_Object m)) \<noteq> None)"

definition durable_event :: "MessageEvent \<Rightarrow> platform \<Rightarrow> bool" where
  "durable_event evt p \<longleftrightarrow>
     row_of evt (w_cass (p_chat p))
     \<and> (ev_ChatID evt, BucketOf (ev_Seq evt)) \<in> set (messages_by_chat_buckets (w_cass (p_chat p)))
     \<and> ev_Seq evt \<le> Sequences_Max (w_pg (p_chat p)) (ev_ChatID evt)
     \<and> media_bound evt (mw_acl (p_media p))"

definition persisted_record :: "event_codec \<Rightarrow> platform \<Rightarrow> kafka_message \<Rightarrow> bool" where
  "persisted_record c p m =
     (case ec_decode c (km_Value m) of
        None \<Rightarrow> False
      | Some evt \<Rightarrow> durable_event evt p \<and> (km_Key m, km_Value m) \<in> set (p_persisted p))"

definition hopeless_record :: "event_codec \<Rightarrow> kafka_message \<Rightarrow> bool" where
  "hopeless_record c m =
     (case ec_decode c (km_Value m) of
        None \<Rightarrow> True | Some evt \<Rightarrow> Validate evt \<noteq> Inr () \<or> media_json c evt = None)"

text \<open>Two records that do not claim one place in a chat for two different messages.\<close>

definition same_place_same_message :: "event_codec \<Rightarrow> kafka_message \<Rightarrow> kafka_message \<Rightarrow> bool" where
  "same_place_same_message c m m' =
     (case (ec_decode c (km_Value m), ec_decode c (km_Value m')) of
        (Some evt, Some evt') \<Rightarrow>
          event_key evt = event_key evt' \<longrightarrow> ev_MessageID evt = ev_MessageID evt' \<and> ev_SenderID evt = ev_SenderID evt'
      | _ \<Rightarrow> True)"

section \<open>What each write does\<close>

lemma and_then_InrE:
  assumes "and_then r k = (Inr y, s)"
  obtains x s1 where "r = (Inr x, s1)" and "k x s1 = (Inr y, s)"
  using assms by (cases r; cases "fst r") (auto simp: and_then_def)

lemma Insert_touches:
  "messages_by_chat_buckets (snd (Insert d now evt j t)) = messages_by_chat_buckets t"
  "map_of (messages_by_chat (snd (Insert d now evt j t))) k =
    (if k = event_key evt \<and> \<not> d InsertMessagesByChat
     then Some (event_columns evt j (case map_of (messages_by_chat t) k of Some r \<Rightarrow> r | None \<Rightarrow> zero_row k))
     else map_of (messages_by_chat t) k)"
  by (auto simp: Insert_def Let_def upsert_row_other map_of_upsert_row event_key_def)

lemma TouchBucket_touches:
  "messages_by_chat (snd (TouchBucket d c s t)) = messages_by_chat t"
  "set (messages_by_chat_buckets t) \<subseteq> set (messages_by_chat_buckets (snd (TouchBucket d c s t)))"
  by (auto simp: TouchBucket_def)

lemma Advance_Max:
  "Sequences_Max t c' \<le> Sequences_Max (snd (Sequences_Advance now c s t)) c' \<or> c' = c \<and> map_of (pg_sequences t) c = None"
  "Sequences_Advance now c s t = (Inr u, t') \<Longrightarrow> s \<le> Sequences_Max t' c"
  by (auto simp: Sequences_Advance_def Sequences_Max_def AList.update_conv' split: option.splits if_splits)

lemma Advance_Max_mono: "0 \<le> s \<Longrightarrow> Sequences_Max t c' \<le> Sequences_Max (snd (Sequences_Advance now c s t)) c'"
  by (auto simp: Sequences_Advance_def Sequences_Max_def AList.update_conv' split: option.splits)

text \<open>The parts of the platform each write may change.\<close>

lemma steps_frame [simp]:
  "p_media (snd (insert_step e evt j p)) = p_media p" "w_pg (p_chat (snd (insert_step e evt j p))) = w_pg (p_chat p)"
  "p_persisted (snd (insert_step e evt j p)) = p_persisted p"
  "p_media (snd (touch_step e evt p)) = p_media p" "w_pg (p_chat (snd (touch_step e evt p))) = w_pg (p_chat p)"
  "p_persisted (snd (touch_step e evt p)) = p_persisted p"
  "p_media (snd (advance_step e evt p)) = p_media p" "w_cass (p_chat (snd (advance_step e evt p))) = w_cass (p_chat p)"
  "p_persisted (snd (advance_step e evt p)) = p_persisted p"
  "p_chat (snd (bind_step e evt p)) = p_chat p" "p_persisted (snd (bind_step e evt p)) = p_persisted p"
  "p_chat (snd (publish_step e m p)) = p_chat p" "p_media (snd (publish_step e m p)) = p_media p"
  "p_chat (indexDoc e evt p) = p_chat p" "p_media (indexDoc e evt p) = p_media p" "p_persisted (indexDoc e evt p) = p_persisted p"
  by (simp_all add: insert_step_def touch_step_def advance_step_def bind_step_def publish_step_def indexDoc_def set_cass_def set_pg_def
      set_acl_def split: prod.split option.split)

lemma steps_world_ok:
  assumes "world_ok (p_chat p)"
  shows "world_ok (p_chat (snd (insert_step e evt j p)))" "world_ok (p_chat (snd (touch_step e evt p)))"
    "world_ok (p_chat (snd (advance_step e evt p)))"
  using assms store_ops_wf(1) [of "w_cass (p_chat p)" "pe_cass e" "pe_now e" evt j]
    store_ops_wf(4) [of "w_cass (p_chat p)" "pe_cass e" "ev_ChatID evt" "ev_Seq evt"]
    Sequences_Advance_ok [of "w_pg (p_chat p)" "pe_now e" "ev_ChatID evt" "ev_Seq evt"]
  by (auto simp: insert_step_def touch_step_def advance_step_def set_cass_def set_pg_def world_ok_def split: prod.splits)

text \<open>Nothing undoes another message's work, unless it claims the same place for a different message.\<close>

lemma steps_keep_durable:
  assumes "durable_event evt' p"
  shows "event_key evt' = event_key evt \<longrightarrow> ev_MessageID evt' = ev_MessageID evt \<and> ev_SenderID evt' = ev_SenderID evt \<Longrightarrow>
      durable_event evt' (snd (insert_step e evt j p))"
    and "durable_event evt' (snd (touch_step e evt p))"
    and "0 \<le> ev_Seq evt \<Longrightarrow> durable_event evt' (snd (advance_step e evt p))"
    and "durable_event evt' (snd (bind_step e evt p))"
    and "durable_event evt' (snd (publish_step e m p))"
    and "durable_event evt' (indexDoc e evt p)"
proof -
  have r: "row_of evt' (w_cass (p_chat p))" using assms by (simp add: durable_event_def)
  show "durable_event evt' (snd (insert_step e evt j p))"
    if c: "event_key evt' = event_key evt \<longrightarrow> ev_MessageID evt' = ev_MessageID evt \<and> ev_SenderID evt' = ev_SenderID evt"
  proof -
    have "row_of evt' (snd (Insert (pe_cass e) (pe_now e) evt j (w_cass (p_chat p))))"
      using r c by (auto simp: row_of_def Insert_touches event_columns_def split: option.splits)
    then show ?thesis
      using assms Insert_touches(1) [of "pe_cass e" "pe_now e" evt j "w_cass (p_chat p)"]
      by (auto simp: durable_event_def insert_step_def set_cass_def split: prod.splits)
  qed
  show "durable_event evt' (snd (touch_step e evt p))"
    using assms TouchBucket_touches [where d = "pe_cass e" and c = "ev_ChatID evt" and s = "ev_Seq evt" and t = "w_cass (p_chat p)"]
    by (auto simp: durable_event_def touch_step_def set_cass_def row_of_def split: prod.splits)
  show "durable_event evt' (snd (advance_step e evt p))" if "0 \<le> ev_Seq evt"
    using assms Advance_Max_mono [OF that, of "w_pg (p_chat p)" "ev_ChatID evt'" "pe_now e" "ev_ChatID evt"]
    by (auto simp: durable_event_def advance_step_def set_pg_def split: prod.splits)
  show "durable_event evt' (snd (bind_step e evt p))"
    using assms by (auto simp: durable_event_def bind_step_def set_acl_def MediaACL_Bind_def media_bound_def AList.update_conv'
        split: prod.splits option.splits)
qed (use assms in \<open>simp_all add: durable_event_def\<close>)

lemma persisted_grows:
  "set (p_persisted p) \<subseteq> set (p_persisted (snd (publish_step e m p)))"
  by (auto simp: publish_step_def)

text \<open>A property of the platform that every write keeps is kept by the handler.\<close>

lemma handle_keeps:
  assumes "P p" and "\<And>p evt j. P p \<Longrightarrow> ec_decode c (km_Value m) = Some evt \<Longrightarrow> Validate evt = Inr () \<Longrightarrow>
      P (snd (insert_step e evt j p)) \<and> P (snd (touch_step e evt p)) \<and> P (snd (advance_step e evt p))
      \<and> P (snd (bind_step e evt p)) \<and> P (snd (publish_step e m p)) \<and> P (indexDoc e evt p)"
  shows "P (snd (persist_handle c e m p))"
proof -
  have "P (snd (persist_writes e m evt j p))" if "ec_decode c (km_Value m) = Some evt" "Validate evt = Inr ()" for evt j
    unfolding persist_writes_def using assms(1)
    by (intro chain_and_then [where P = P]) (use assms(2) [OF _ that] in \<open>simp_all\<close>)
  then show ?thesis
    using assms(1) by (auto simp: persist_handle_def split: option.split sum.split prod.split) (metis snd_conv)+
qed

lemma map_sum_Inr_iff [simp]: "map_sum f id x = Inr u \<longleftrightarrow> x = Inr u"
  by (cases x) auto

lemma writes_establish:
  assumes "persist_writes e m evt j p = (Inr u, p')"
  shows "durable_event evt p' \<and> (km_Key m, km_Value m) \<in> set (p_persisted p')"
proof -
  from assms obtain x1 p1 x2 p2 x3 p3 x4 p4 x5 p5 where
    s: "insert_step e evt j p = (Inr x1, p1)" "touch_step e evt p1 = (Inr x2, p2)" "advance_step e evt p2 = (Inr x3, p3)"
    "bind_step e evt p3 = (Inr x4, p4)" "publish_step e m p4 = (Inr x5, p5)" and p': "p' = indexDoc e evt p5"
    unfolding persist_writes_def by (elim and_then_InrE) auto
  note fr = steps_frame(4-6) [of e evt p1, unfolded s snd_conv] steps_frame(7-9) [of e evt p2, unfolded s snd_conv]
    steps_frame(10,11) [of e evt p3, unfolded s snd_conv] steps_frame(12,13) [of e m p4, unfolded s snd_conv]
  have "Insert (pe_cass e) (pe_now e) evt j (w_cass (p_chat p)) = (Inr (), w_cass (p_chat p1))"
    using s(1) by (auto simp: insert_step_def set_cass_def split: prod.splits sum.splits)
  then have "\<not> pe_cass e InsertMessagesByChat"
    and rows: "map_of (messages_by_chat (w_cass (p_chat p1))) (event_key evt) =
      (if \<not> pe_cass e InsertMessagesByChat
       then Some (event_columns evt j (case map_of (messages_by_chat (w_cass (p_chat p))) (event_key evt) of Some r \<Rightarrow> r | None \<Rightarrow> zero_row (event_key evt)))
       else map_of (messages_by_chat (w_cass (p_chat p))) (event_key evt))"
    using Insert_touches(2) [of "pe_cass e" "pe_now e" evt j "w_cass (p_chat p)" "event_key evt"]
    by (auto simp: Insert_def Let_def split: if_splits)
  then have r1: "row_of evt (w_cass (p_chat p1))" by (simp add: row_of_def event_columns_def)
  have "TouchBucket (pe_cass e) (ev_ChatID evt) (ev_Seq evt) (w_cass (p_chat p1)) = (Inr (), w_cass (p_chat p2))"
    using s(2) by (auto simp: touch_step_def set_cass_def split: prod.splits sum.splits)
  then have "w_cass (p_chat p2) = (w_cass (p_chat p1))\<lparr>messages_by_chat_buckets :=
      List.insert (ev_ChatID evt, BucketOf (ev_Seq evt)) (messages_by_chat_buckets (w_cass (p_chat p1)))\<rparr>"
    by (auto simp: TouchBucket_def split: if_splits)
  then have r2: "row_of evt (w_cass (p_chat p2))"
      "(ev_ChatID evt, BucketOf (ev_Seq evt)) \<in> set (messages_by_chat_buckets (w_cass (p_chat p2)))"
    using r1 by (simp_all add: row_of_def)
  have "Sequences_Advance (pe_now e) (ev_ChatID evt) (ev_Seq evt) (w_pg (p_chat p2)) = (Inr (), w_pg (p_chat p3))"
    using s(3) by (auto simp: advance_step_def set_pg_def split: prod.splits sum.splits if_splits)
  then have r3: "ev_Seq evt \<le> Sequences_Max (w_pg (p_chat p3)) (ev_ChatID evt)" using Advance_Max(2) by blast
  have r4: "media_bound evt (mw_acl (p_media p4))"
    using s(4) by (auto simp: bind_step_def media_bound_def MediaACL_Bind_def set_acl_def AList.update_conv'
        split: option.splits prod.splits if_splits)
  have r5: "(km_Key m, km_Value m) \<in> set (p_persisted p5)" using s(5) by (auto simp: publish_step_def split: if_splits)
  show ?thesis using r2 r3 r4 r5 fr by (simp add: durable_event_def p')
qed

interpretation persister: settled_handler "persist_handle c" "persisted_record c" "hopeless_record c"
  "same_place_same_message c" "\<lambda>p. world_ok (p_chat p)" for c
proof
  fix p e m p' assume h: "persist_handle c e m p = (Handled, p')"
  then obtain evt j u where "ec_decode c (km_Value m) = Some evt" "persist_writes e m evt j p = (Inr u, p')"
    by (auto simp: persist_handle_def split: option.splits sum.splits prod.splits)
  then show "persisted_record c p' m" using writes_establish by (simp add: persisted_record_def)
next
  fix p e m p' assume h: "persist_handle c e m p = (ErrSkip, p')"
  then show "hopeless_record c m"
    by (auto simp: persist_handle_def hopeless_record_def split: option.splits sum.splits prod.splits)
next
  fix p e m r p' assume w: "world_ok (p_chat p)" and h: "persist_handle c e m p = (r, p')"
  have "world_ok (p_chat (snd (persist_handle c e m p)))"
    by (rule handle_keeps [where P = "\<lambda>p. world_ok (p_chat p)", OF w]) (simp add: steps_world_ok)
  then show "world_ok (p_chat p')" by (simp add: h)
next
  fix p e m r p' m' assume h: "persist_handle c e m p = (r, p')" and s: "persisted_record c p m'"
    and compat: "same_place_same_message c m' m"
  obtain evt' where d: "ec_decode c (km_Value m') = Some evt'" "durable_event evt' p" "(km_Key m', km_Value m') \<in> set (p_persisted p)"
    using s by (auto simp: persisted_record_def split: option.splits)
  let ?P = "\<lambda>p. durable_event evt' p \<and> (km_Key m', km_Value m') \<in> set (p_persisted p)"
  have "?P (snd (persist_handle c e m p))"
  proof (rule handle_keeps [where P = ?P])
    fix q evt j assume q: "?P q" and ev: "ec_decode c (km_Value m) = Some evt" "Validate evt = Inr ()"
    have "0 \<le> ev_Seq evt" using Validate_InrD(2) [OF ev(2)] by simp
    moreover have "event_key evt' = event_key evt \<longrightarrow> ev_MessageID evt' = ev_MessageID evt \<and> ev_SenderID evt' = ev_SenderID evt"
      using compat ev(1) d(1) by (simp add: same_place_same_message_def)
    ultimately show "?P (snd (insert_step e evt j q)) \<and> ?P (snd (touch_step e evt q)) \<and> ?P (snd (advance_step e evt q))
        \<and> ?P (snd (bind_step e evt q)) \<and> ?P (snd (publish_step e m q)) \<and> ?P (indexDoc e evt q)"
      using q steps_keep_durable [of evt' q] subsetD [OF persisted_grows [of q e m], of "(km_Key m', km_Value m')"] by auto
  qed (use d in simp)
  then show "persisted_record c p' m'" using h d(1) by (simp add: persisted_record_def)
qed

section \<open>Properties\<close>

text \<open>No committed message is lost: whatever the stores refuse, however often the process stops, restarts or loses the
  partition, and whatever harmless things other services do in between, a record whose offset was committed is in the
  history under its chat and sequence, counted in the mirror the chat list reads, its media bound and announced to push
  and search; or it could never have been stored; or it is in the dead-letter topic.\<close>

theorem committed_messages_kept:
  assumes "world_ok (p_chat p0)"
    and "c = consumer_run jc persister_options (persist_handle cd) turns (new_consumer p0)"
    and "\<forall>m \<in> set (cn_log c). \<forall>m' \<in> set (cn_log c). same_place_same_message cd m m'"
    and "\<forall>f. Meanwhile f \<in> set turns \<longrightarrow> (\<forall>p. world_ok (p_chat p) \<longrightarrow> world_ok (p_chat (f p))
           \<and> (\<forall>m. persisted_record cd p m \<longrightarrow> persisted_record cd (f p) m))"
    and "i < cn_committed c" and "m = cn_log c ! i"
  shows "persisted_record cd (cn_state c) m \<or> hopeless_record cd m \<or> dead_lettered (cn_dlq c) m"
proof -
  have "\<forall>t \<in> set turns. persister.harmless cd t"
    using assms(4) by (auto simp: persister.harmless_def split: turn.split)
  from persister.committed_accounted [OF assms(1,2) _ this assms(5)] assms(3,6) show ?thesis
    by (simp add: persister.accounted_def persister.pairwise_compatible_def)
qed

end
