(* ===== verification/Platform.thy ===== *)
theory Platform
  imports Chat_Service Persister
begin

text \<open>
  The services together: the chat service accepts messages and publishes them, the persister makes them durable, the
  media service answers for the media they carry.  One consumer of \<^verbatim>\<open>messages.raw\<close> runs beside any number of requests to
  the two services, all on the same stores; what the chat service publishes is appended to the topic the persister reads.
\<close>

section \<open>Events of the platform\<close>

record platform_cfg =
  pc_chat :: chat_cfg
  pc_names :: "int \<Rightarrow> string"
  pc_century :: "int \<Rightarrow> int"
  pc_media :: media_cfg
  pc_codec :: event_codec
  pc_json :: json_codec
  pc_encode :: "MessageEvent \<Rightarrow> bytes"

datatype platform_event =
  ChatRequest chat_env identity request
| MediaRequest media_env "int option" media_request
| PersisterFetch "persist_env attempt_env" bool bool
| PersisterFetchFails
| PersisterStops
| PersisterRestarts

definition chat_effect :: "platform_cfg \<Rightarrow> chat_env \<Rightarrow> identity \<Rightarrow> request \<Rightarrow> platform \<Rightarrow> platform" where
  "chat_effect g e i r p = p\<lparr>p_chat := snd (serve (pc_chat g) (pc_names g) (pc_century g) e i r (p_chat p))\<rparr>"

definition media_effect :: "platform_cfg \<Rightarrow> media_env \<Rightarrow> int option \<Rightarrow> media_request \<Rightarrow> platform \<Rightarrow> platform" where
  "media_effect g e claims r p = p\<lparr>p_media := snd (media_serve (pc_media g) (w_pg (p_chat p)) e claims r (p_media p))\<rparr>"

text \<open>An event as turns of the consumer: a request changes the stores and appends what it published.\<close>

definition turns_of :: "platform_cfg \<Rightarrow> platform_event \<Rightarrow> platform \<Rightarrow> (persist_env, platform) turn list" where
  "turns_of g ev p =
     (case ev of
        ChatRequest e i r \<Rightarrow>
          Meanwhile (chat_effect g e i r)
          # map (\<lambda>(key, evt). Append key (pc_encode g evt))
              (drop (length (w_raw (p_chat p))) (w_raw (p_chat (chat_effect g e i r p))))
      | MediaRequest e claims r \<Rightarrow> [Meanwhile (media_effect g e claims r)]
      | PersisterFetch a fails cancelled \<Rightarrow> [Fetch a fails cancelled]
      | PersisterFetchFails \<Rightarrow> [FetchFails]
      | PersisterStops \<Rightarrow> [FetchCancelled]
      | PersisterRestarts \<Rightarrow> [Restart])"

definition platform_step :: "platform_cfg \<Rightarrow> platform_event \<Rightarrow> platform consumer \<Rightarrow> platform consumer" where
  "platform_step g ev c =
     consumer_run (pc_json g) persister_options (persist_handle (pc_codec g)) (turns_of g ev (cn_state c)) c"

definition platform_run :: "platform_cfg \<Rightarrow> platform_event list \<Rightarrow> platform consumer \<Rightarrow> platform consumer" where
  "platform_run g evs c = fold (platform_step g) evs c"

definition new_platform :: "(int \<times> bool) list \<Rightarrow> platform consumer" where
  "new_platform users =
     new_consumer \<lparr>p_chat = empty_world users, p_media = empty_media, p_persisted = [], p_search = []\<rparr>"

section \<open>What the chat service leaves of a persisted message\<close>

lemma pg_ops_sequences [simp]:
  "pg_sequences (put_chat ch t) = pg_sequences t" "pg_sequences (put_member mb t) = pg_sequences t"
  "pg_sequences (snd (CreatePrivate now c a b region t)) = pg_sequences t"
  "pg_sequences (snd (CreateGroup now c kind title owner ms region t)) = pg_sequences t"
  "pg_sequences (snd (UpdateMeta now c ti de ph t)) = pg_sequences t"
  "pg_sequences (snd (Chats_SoftDelete now c t)) = pg_sequences t"
  "pg_sequences (snd (Members_Add now c u role t)) = pg_sequences t"
  "pg_sequences (snd (Members_Remove now c u t)) = pg_sequences t"
  "pg_sequences (snd (Members_SetRole c u role t)) = pg_sequences t"
  "pg_sequences (snd (MarkRead c u s t)) = pg_sequences t"
  "pg_sequences (SetMuted c u m t) = pg_sequences t" "pg_sequences (SetFlags c u pn ar t) = pg_sequences t"
proof -
  show put: "pg_sequences (put_chat ch t) = pg_sequences t" "pg_sequences (put_member mb t) = pg_sequences t" for ch mb t
    by (simp_all add: put_chat_def put_member_def)
  have cnt: "pg_sequences (set_count now c f t) = pg_sequences t" for now c f t by (simp add: set_count_def put split: option.split)
  have join: "join_private now c u t = Inr t' \<Longrightarrow> pg_sequences t' = pg_sequences t" for now c u t t'
    by (auto simp: join_private_def put split: option.splits if_splits)
  show "pg_sequences (snd (CreatePrivate now c a b region t)) = pg_sequences t"
    by (auto simp: CreatePrivate_def Let_def put join split: option.split sum.split dest!: join)
  have "pg_sequences (fold (\<lambda>u. put_member (f u)) us t) = pg_sequences t" for f and us :: "int list" and t
    by (induction us arbitrary: t) (simp_all add: put)
  then show "pg_sequences (snd (CreateGroup now c kind title owner ms region t)) = pg_sequences t"
    by (simp add: CreateGroup_def Let_def put)
  show "pg_sequences (snd (UpdateMeta now c ti de ph t)) = pg_sequences t" "pg_sequences (snd (Chats_SoftDelete now c t)) = pg_sequences t"
    by (simp_all add: UpdateMeta_def Chats_SoftDelete_def Let_def put split: sum.split)
  show "pg_sequences (snd (Members_Add now c u role t)) = pg_sequences t" "pg_sequences (snd (Members_Remove now c u t)) = pg_sequences t"
    "pg_sequences (snd (Members_SetRole c u role t)) = pg_sequences t" "pg_sequences (snd (MarkRead c u s t)) = pg_sequences t"
    "pg_sequences (SetMuted c u m t) = pg_sequences t" "pg_sequences (SetFlags c u pn ar t) = pg_sequences t"
    by (simp_all add: Members_Add_def Members_Remove_def Members_SetRole_def MarkRead_def SetMuted_def SetFlags_def Let_def put cnt
        split: option.split)
qed

named_theorems keep_seqs

lemma keep_seqs_statement [keep_seqs]:
  assumes "pg_sequences (snd op') = q"
    and "\<And>x t. op' = (Inr x, t) \<Longrightarrow> pg_sequences t = q \<Longrightarrow> pg_sequences (w_pg (snd (k x t))) = q"
  shows "pg_sequences (w_pg (snd (case op' of (Inl err, t) \<Rightarrow> (Inl (f err), w\<lparr>w_pg := t\<rparr>) | (Inr x, t) \<Rightarrow> k x t))) = q"
  using assms by (cases op'; cases "fst op'") auto

lemmas keep_seqs_chain [keep_seqs] =
  chain_sum [where P = "\<lambda>w. pg_sequences (w_pg w) = q" for q] chain_claims [where P = "\<lambda>w. pg_sequences (w_pg w) = q" for q]
  chain_rule [where P = "\<lambda>w. pg_sequences (w_pg w) = q" for q] chain_if [where P = "\<lambda>w. pg_sequences (w_pg w) = q" for q]
  chain_and_then [where P = "\<lambda>w. pg_sequences (w_pg w) = q" for q]

lemma blocks_pg [simp]: "w_pg (snd (enforceBlocks e ch s rs w)) = w_pg w"
proof -
  have b: "w_pg (snd (isBlocked e x y w)) = w_pg w" for x y by (simp add: isBlocked_def Let_def split: option.split)
  show ?thesis
    using b [of s "the (find (\<lambda>u. u \<noteq> s) rs)"]
    by (cases "find (\<lambda>u. u \<noteq> s) rs"; cases "isBlocked e s (the (find (\<lambda>u. u \<noteq> s) rs)) w") (simp_all add: enforceBlocks_def Let_def)
qed

lemma create_sequences [simp]: "pg_sequences (w_pg (snd (handleCreateChat cfg e claims body w))) = pg_sequences (w_pg w)"
proof -
  have p: "CreatePrivate now c a b g t = (r, t') \<Longrightarrow> pg_sequences t' = pg_sequences t" for now c a b g t r t'
    using pg_ops_sequences(3) [of now c a b g t] by simp
  have q: "CreateGroup now c k ti ow ms g t = (r, t') \<Longrightarrow> pg_sequences t' = pg_sequences t" for now c k ti ow ms g t r t'
    using pg_ops_sequences(4) [of now c k ti ow ms g t] by simp
  show ?thesis
  proof (cases claims; cases body)
    fix user req assume "claims = Some user" "body = Inr req"
    then show ?thesis
      by (cases "chat_type_of (cc_Type req)") (auto simp: handleCreateChat_def Let_def split: prod.split sum.split dest: p q)
  qed (simp_all add: handleCreateChat_def)
qed

lemma sequences_frame [simp]:
  "pg_sequences (w_pg (snd (handleUpdateChat e claims path ubody w))) = pg_sequences (w_pg w)"
  "pg_sequences (w_pg (snd (handleAddMember cfg e claims path abody w))) = pg_sequences (w_pg w)"
  "pg_sequences (w_pg (snd (handleRemoveMember cfg e claims path upath w))) = pg_sequences (w_pg w)"
  "pg_sequences (w_pg (snd (handleLeave e claims path w))) = pg_sequences (w_pg w)"
  "pg_sequences (w_pg (snd (handleMute century e claims path mbody w))) = pg_sequences (w_pg w)"
  "pg_sequences (w_pg (snd (handleSetRole cfg e claims path upath rbody w))) = pg_sequences (w_pg w)"
  "pg_sequences (w_pg (snd (handleDeleteChat cfg e claims path w))) = pg_sequences (w_pg w)"
  "pg_sequences (w_pg (snd (handleMarkRead e claims path' kbody w))) = pg_sequences (w_pg w)"
  unfolding handleUpdateChat_def handleAddMember_def handleRemoveMember_def handleLeave_def handleMute_def
    handleSetRole_def handleDeleteChat_def handleMarkRead_def Let_def
  by ((intro keep_seqs, simp_all split: ChatType.split prod.split sum.split)+)

lemmas keep_pg =
  chain_sum [where P = "\<lambda>w. w_pg w = t" for t] chain_claims [where P = "\<lambda>w. w_pg w = t" for t]
  chain_rule [where P = "\<lambda>w. w_pg w = t" for t] chain_if [where P = "\<lambda>w. w_pg w = t" for t]
  chain_and_then [where P = "\<lambda>w. w_pg w = t" for t] chain_statement [where P = "\<lambda>w. w_pg w = t" for t]

lemma messages_pg_frame [simp]:
  "w_pg (snd (handleSendMessage cfg e claims path' sbody w)) = w_pg w"
  "w_pg (snd (handleGetHistory cfg e claims path qb ql w)) = w_pg w"
  "w_pg (snd (handleGetDifference cfg e claims dbody w)) = w_pg w"
  "w_pg (snd (handleDeleteMessage cfg e claims path spath w)) = w_pg w"
  "w_pg (snd (handleEditMessage cfg e claims path spath ebody w)) = w_pg w"
  "w_pg (snd (handleTyping e claims tbody w)) = w_pg w"
proof -
  have "w_pg (snd (accept_message cfg e user c ty req rs w)) = w_pg w" for user c ty req rs and w :: chat_world
    by (simp add: accept_message_def Let_def fanout_def split: prod.split sum.split)
  then show "w_pg (snd (handleSendMessage cfg e claims path' sbody w)) = w_pg w"
    unfolding handleSendMessage_def by (intro keep_pg) (simp_all split: sum.split prod.split)
qed (unfold handleGetHistory_def handleGetDifference_def handleDeleteMessage_def handleEditMessage_def handleTyping_def Let_def,
    (intro keep_pg, simp_all split: sum.split)+)

text \<open>The two writes of the service to the message store keep every row's identity and sender, and no bucket entry goes.\<close>

definition rows_survive :: "cass \<Rightarrow> cass \<Rightarrow> bool" where
  "rows_survive t t' \<longleftrightarrow> messages_by_chat_buckets t' = messages_by_chat_buckets t
     \<and> (\<forall>k r. map_of (messages_by_chat t) k = Some r \<longrightarrow>
          (\<exists>r'. map_of (messages_by_chat t') k = Some r' \<and> sm_MessageID r' = sm_MessageID r \<and> sm_SenderID r' = sm_SenderID r))"

lemma rows_survive_refl: "rows_survive t t"
  by (simp add: rows_survive_def)

lemma store_writes_survive: "rows_survive t (snd (Store_SoftDelete d c s t))" "rows_survive t (snd (Edit d c s b now t))"
  by (auto simp: rows_survive_def Store_SoftDelete_def Edit_def upsert_row_other map_of_upsert_row)

lemmas keep_rows =
  chain_sum [where P = "\<lambda>w'. rows_survive t (w_cass w')" for t] chain_claims [where P = "\<lambda>w'. rows_survive t (w_cass w')" for t]
  chain_if [where P = "\<lambda>w'. rows_survive t (w_cass w')" for t] chain_statement [where P = "\<lambda>w'. rows_survive t (w_cass w')" for t]

lemma writes_survive:
  "rows_survive (w_cass w) (w_cass (snd (handleDeleteMessage cfg e claims path spath w)))"
  "rows_survive (w_cass w) (w_cass (snd (handleEditMessage cfg e claims path spath body w)))"
proof -
  have d: "Store_SoftDelete down c s t = (r, t') \<Longrightarrow> rows_survive t t'" for down c s t r t'
    using store_writes_survive(1) [of t down c s] by simp
  have ed: "Edit down c s b now t = (r, t') \<Longrightarrow> rows_survive t t'" for down c s b now t r t'
    using store_writes_survive(2) [of t down c s b now] by simp
  show "rows_survive (w_cass w) (w_cass (snd (handleDeleteMessage cfg e claims path spath w)))"
    unfolding handleDeleteMessage_def Let_def
    by (intro keep_rows) (auto simp: rows_survive_refl store_writes_survive dest: d)
  show "rows_survive (w_cass w) (w_cass (snd (handleEditMessage cfg e claims path spath body w)))"
    unfolding handleEditMessage_def Let_def
    by (intro keep_rows) (auto simp: rows_survive_refl store_writes_survive dest: ed)
qed

lemma serve_survives:
  "rows_survive (w_cass w) (w_cass (snd (serve cfg names century e i r w)))"
  "pg_sequences (w_pg (snd (serve cfg names century e i r w))) = pg_sequences (w_pg w)"
  by (cases r; simp add: serve_def rows_survive_refl writes_survive)+

lemma persisted_survives:
  assumes "rows_survive (w_cass (p_chat p)) (w_cass (p_chat p'))" and "pg_sequences (w_pg (p_chat p')) = pg_sequences (w_pg (p_chat p))"
    and "mw_acl (p_media p') = mw_acl (p_media p)" and "p_persisted p' = p_persisted p" and "persisted_record cd p m"
  shows "persisted_record cd p' m"
proof -
  have "row_of evt (w_cass (p_chat p'))" if "row_of evt (w_cass (p_chat p))" for evt
  proof -
    from that obtain r where r: "map_of (messages_by_chat (w_cass (p_chat p))) (event_key evt) = Some r"
      "sm_MessageID r = ev_MessageID evt" "sm_SenderID r = ev_SenderID evt" by (auto simp: row_of_def split: option.splits)
    then obtain r' where "map_of (messages_by_chat (w_cass (p_chat p'))) (event_key evt) = Some r'"
      "sm_MessageID r' = sm_MessageID r" "sm_SenderID r' = sm_SenderID r" using assms(1) unfolding rows_survive_def by blast
    then show ?thesis using r by (simp add: row_of_def)
  qed
  moreover have "Sequences_Max (w_pg (p_chat p')) = Sequences_Max (w_pg (p_chat p))"
    by (simp add: Sequences_Max_def assms(2) fun_eq_iff)
  ultimately show ?thesis
    using assms by (auto simp: persisted_record_def durable_event_def rows_survive_def split: option.splits)
qed

lemma effects_harmless:
  "persister.harmless cd (Meanwhile (chat_effect g e i r))" "persister.harmless cd (Meanwhile (media_effect g e' claims r'))"
proof -
  have "persisted_record cd (chat_effect g e i r p) m" if "persisted_record cd p m" for p m
    by (rule persisted_survives [OF _ _ _ _ that]) (simp_all add: chat_effect_def serve_survives)
  then show "persister.harmless cd (Meanwhile (chat_effect g e i r))"
    by (simp add: persister.harmless_def chat_effect_def serve_ok)
  have "mw_acl (snd (media_serve mcfg t e' claims r' w)) = mw_acl w" for mcfg t w
    using serve_frame(1) [of mcfg t e' claims r' w] by (metis prod.collapse)
  then have "persisted_record cd (media_effect g e' claims r' p) m" if "persisted_record cd p m" for p m
    by (intro persisted_survives [OF _ _ _ _ that]) (simp_all add: media_effect_def rows_survive_refl)
  then show "persister.harmless cd (Meanwhile (media_effect g e' claims r'))"
    by (simp add: persister.harmless_def media_effect_def)
qed

lemma turns_harmless: "t \<in> set (turns_of g ev p) \<Longrightarrow> persister.harmless cd t"
  using effects_harmless by (cases ev) (auto simp: turns_of_def persister.harmless_def)

section \<open>The topic and the log\<close>

definition log_of :: "platform_cfg \<Rightarrow> (bytes \<times> MessageEvent) list \<Rightarrow> (bytes \<times> bytes) list" where
  "log_of g raw = map (\<lambda>(k, evt). (k, pc_encode g evt)) raw"

definition in_step :: "platform_cfg \<Rightarrow> platform consumer \<Rightarrow> bool" where
  "in_step g c \<longleftrightarrow> map (\<lambda>m. (km_Key m, km_Value m)) (cn_log c) = log_of g (w_raw (p_chat (cn_state c)))"

lemma serve_raw_grows: "\<exists>new. w_raw (snd (serve cfg names century e i r w)) = w_raw w @ new"
proof (cases "w_raw (snd (serve cfg names century e i r w)) = w_raw w")
  case False
  then obtain path body where r: "r = Send path body" by (cases r) (auto simp: serve_def split: if_splits)
  with False have ne: "w_raw (snd (handleSendMessage cfg e (claims_of i) path body w)) \<noteq> w_raw w"
    by (auto simp: serve_def split: if_splits)
  from send_published [OF ne] obtain user c ty req rs' w4 where "w_raw w4 = w_raw w"
    "handleSendMessage cfg e (claims_of i) path body w = accept_message cfg e user c ty req rs' w4" by metis
  then show ?thesis using accept_message_raw [of cfg e user c ty req rs' w4] r by (auto simp: serve_def)
qed simp

lemma retry_loop_keeps:
  assumes "\<And>e m s. P s \<Longrightarrow> P (snd (h e m s))" and "P s"
  shows "P (snd (retry_loop h a m attempt left s))"
  using assms(2)
proof (induction left arbitrary: attempt s)
  case 0
  then show ?case using assms(1) [of s "at_env a attempt" m]
    by (subst retry_loop.simps) (auto split: handler_outcome.split prod.split)
next
  case (Suc n)
  show ?case using assms(1) [OF Suc.prems, of "at_env a attempt" m] Suc.IH
    by (subst retry_loop.simps) (auto split: handler_outcome.split prod.split)
qed

lemma fetch_keeps:
  assumes "\<And>e m s. P s \<Longrightarrow> P (snd (h e m s))" and "P (cn_state c)"
  shows "P (cn_state (consumer_turn jc o' h (Fetch a fails cancelled) c)) \<and> cn_log (consumer_turn jc o' h (Fetch a fails cancelled) c) = cn_log c"
proof -
  obtain r s' where l: "retry_loop h a (cn_log c ! cn_position c) 0 (max_retries o') (cn_state c) = (r, s')" by (metis surj_pair)
  have "P s'" using retry_loop_keeps [of P h "cn_state c" a "cn_log c ! cn_position c" 0 "max_retries o'"] assms l by simp
  with assms(2) l show ?thesis
    by (auto simp: handleWithRetry_def toDLQ_def Let_def split: retry_result.split prod.split sum.split)
qed

lemma handle_raw: "w_raw (p_chat (snd (persist_handle cd e m p))) = w_raw (p_chat p)"
  by (rule handle_keeps [where P = "\<lambda>q. w_raw (p_chat q) = w_raw (p_chat p)"])
    (auto simp: insert_step_def touch_step_def advance_step_def bind_step_def publish_step_def indexDoc_def set_cass_def set_pg_def
      set_acl_def split: prod.splits option.splits)

lemma appends_log:
  "map (\<lambda>m. (km_Key m, km_Value m)) (cn_log (consumer_run jc o' h (map (\<lambda>(k, evt). Append k (enc evt)) new) c)) =
     map (\<lambda>m. (km_Key m, km_Value m)) (cn_log c) @ map (\<lambda>(k, evt). (k, enc evt)) new
   \<and> cn_state (consumer_run jc o' h (map (\<lambda>(k, evt). Append k (enc evt)) new) c) = cn_state c"
  unfolding consumer_run_def by (induction new arbitrary: c) auto

lemma step_in_step:
  assumes "in_step g c"
  shows "in_step g (platform_step g ev c) \<and>
    (\<exists>new. w_raw (p_chat (cn_state (platform_step g ev c))) = w_raw (p_chat (cn_state c)) @ new)"
proof (cases ev)
  case (ChatRequest e i r)
  let ?w = "p_chat (cn_state c)" and ?p' = "chat_effect g e i r (cn_state c)"
  obtain new where new: "w_raw (p_chat ?p') = w_raw ?w @ new" 
    using serve_raw_grows [of "pc_chat g" "pc_names g" "pc_century g" e i r ?w] by (auto simp: chat_effect_def)
  let ?c1 = "consumer_turn (pc_json g) persister_options (persist_handle (pc_codec g)) (Meanwhile (chat_effect g e i r)) c"
  have "platform_step g ev c = consumer_run (pc_json g) persister_options (persist_handle (pc_codec g))
      (map (\<lambda>(k, evt). Append k (pc_encode g evt)) new) ?c1"
    by (simp add: platform_step_def turns_of_def ChatRequest new consumer_run_def)
  then show ?thesis
    using appends_log [of "pc_json g" persister_options "persist_handle (pc_codec g)" "pc_encode g" new ?c1] assms
    by (simp add: in_step_def log_of_def new)
next
  case (PersisterFetch a fails cancelled)
  from fetch_keeps [where P = "\<lambda>p. w_raw (p_chat p) = w_raw (p_chat (cn_state c))" and h = "persist_handle (pc_codec g)" and c = c]
  show ?thesis
    using assms handle_raw by (simp add: platform_step_def turns_of_def PersisterFetch consumer_run_def in_step_def del: consumer_turn.simps)
qed (use assms in \<open>simp_all add: platform_step_def turns_of_def consumer_run_def in_step_def media_effect_def\<close>)

section \<open>Nothing accepted is lost\<close>

text \<open>\<open>round_trips\<close> is what is relied on of \<^verbatim>\<open>encoding/json\<close>: an event that was marshalled is unmarshalled as itself.\<close>

definition round_trips :: "platform_cfg \<Rightarrow> (bytes \<times> MessageEvent) list \<Rightarrow> bool" where
  "round_trips g raw = list_all (\<lambda>(_, evt). ec_decode (pc_codec g) (pc_encode g evt) = Some evt) raw"

lemma topic_unique:
  assumes "seq_ok keys raw" and "(k, evt) \<in> set raw" and "(k', evt') \<in> set raw" and "event_key evt = event_key evt'"
  shows "evt = evt'"
proof -
  have srt: "sorted_wrt in_order raw" using assms(1) by (simp add: seq_ok_def)
  from assms(2,3) obtain i j where i: "i < length raw" "raw ! i = (k, evt)" and j: "j < length raw" "raw ! j = (k', evt')"
    by (metis in_set_conv_nth)
  have "\<not> i < j" "\<not> j < i"
    using sorted_wrt_nth_less [OF srt] i j assms(4) by (fastforce simp: in_order_def event_key_def)+
  then have "i = j" by simp
  then show ?thesis using i j by simp
qed

lemma in_step_log:
  assumes "in_step g c"
  shows "length (cn_log c) = length (w_raw (p_chat (cn_state c)))"
    and "i < length (cn_log c) \<Longrightarrow> (k, evt) = w_raw (p_chat (cn_state c)) ! i \<Longrightarrow>
      km_Key (cn_log c ! i) = k \<and> km_Value (cn_log c ! i) = pc_encode g evt"
proof -
  show l: "length (cn_log c) = length (w_raw (p_chat (cn_state c)))"
    using arg_cong [OF assms [unfolded in_step_def], of length] by (simp add: log_of_def)
  show "km_Key (cn_log c ! i) = k \<and> km_Value (cn_log c ! i) = pc_encode g evt"
    if "i < length (cn_log c)" "(k, evt) = w_raw (p_chat (cn_state c)) ! i"
    using arg_cong [OF assms [unfolded in_step_def], of "\<lambda>xs. xs ! i"] that l by (simp add: log_of_def split: prod.splits)
qed

lemma in_step_compatible:
  assumes "in_step g c" and "round_trips g (w_raw (p_chat (cn_state c)))" and "seq_ok keys (w_raw (p_chat (cn_state c)))"
  shows "persister.pairwise_compatible (pc_codec g) (cn_log c)"
proof -
  have dec: "\<exists>k evt. (k, evt) \<in> set (w_raw (p_chat (cn_state c))) \<and> ec_decode (pc_codec g) (km_Value m) = Some evt"
    if "m \<in> set (cn_log c)" for m
  proof -
    from that obtain i where i: "i < length (cn_log c)" "m = cn_log c ! i" by (metis in_set_conv_nth)
    obtain k evt where e: "(k, evt) = w_raw (p_chat (cn_state c)) ! i" by (metis surj_pair)
    have "(k, evt) \<in> set (w_raw (p_chat (cn_state c)))" using e i in_step_log(1) [OF assms(1)] by simp
    then show ?thesis using in_step_log(2) [OF assms(1) i(1) e] i(2) assms(2) by (fastforce simp: round_trips_def list_all_iff)
  qed
  have "same_place_same_message (pc_codec g) m m'" if "m \<in> set (cn_log c)" "m' \<in> set (cn_log c)" for m m'
  proof -
    from dec [OF that(1)] dec [OF that(2)] obtain k evt k' evt' where
      e: "(k, evt) \<in> set (w_raw (p_chat (cn_state c)))" "(k', evt') \<in> set (w_raw (p_chat (cn_state c)))"
      "ec_decode (pc_codec g) (km_Value m) = Some evt" "ec_decode (pc_codec g) (km_Value m') = Some evt'" by blast
    then show ?thesis using topic_unique [OF assms(3) e(1,2)] by (auto simp: same_place_same_message_def)
  qed
  then show ?thesis by (simp add: persister.pairwise_compatible_def)
qed

lemma step_sound:
  assumes "round_trips g (w_raw (p_chat (cn_state (platform_step g ev c))))" and "in_step g c" and "persister.sound (pc_codec g) c"
  shows "persister.sound (pc_codec g) (platform_step g ev c)"
proof -
  have "world_ok (p_chat (cn_state (platform_step g ev c)))"
    unfolding platform_step_def
    by (rule persister.run_keeps_ok) (use assms(3) turns_harmless in \<open>auto simp: persister.sound_def\<close>)
  then have "persister.pairwise_compatible (pc_codec g) (cn_log (platform_step g ev c))"
    using in_step_compatible [OF _ assms(1)] step_in_step [OF assms(2)] by (auto simp: world_ok_def)
  then show ?thesis
    unfolding platform_step_def by (rule persister.run_sound [OF assms(3)]) (use turns_harmless in blast)
qed

lemma platform_sound:
  assumes "in_step g c" and "persister.sound (pc_codec g) c" and "round_trips g (w_raw (p_chat (cn_state (platform_run g evs c))))"
  shows "in_step g (platform_run g evs c) \<and> persister.sound (pc_codec g) (platform_run g evs c)"
  using assms(3)
proof (induction evs rule: rev_induct)
  case (snoc ev evs)
  let ?c = "platform_run g evs c"
  have run: "platform_run g (evs @ [ev]) c = platform_step g ev ?c" by (simp add: platform_run_def)
  have st: "in_step g ?c" using assms(1) step_in_step by (induction evs rule: rev_induct) (simp_all add: platform_run_def)
  from step_in_step [OF st, of ev] obtain new where new: "in_step g (platform_step g ev ?c)"
    "w_raw (p_chat (cn_state (platform_step g ev ?c))) = w_raw (p_chat (cn_state ?c)) @ new" by blast
  with snoc run have "persister.sound (pc_codec g) ?c" by (simp add: round_trips_def)
  then show ?case using step_sound [OF _ st] snoc.prems new(1) run by simp
qed (use assms in \<open>simp add: platform_run_def\<close>)

lemma new_platform_sound: "in_step g (new_platform users)" "persister.sound cd (new_platform users)"
  by (simp_all add: in_step_def new_platform_def new_consumer_def log_of_def persister.sound_def empty_world_ok)
    (simp add: empty_world_def)

lemma committed_cases:
  assumes "in_step g c" and "persister.sound (pc_codec g) c" and "round_trips g (w_raw (p_chat (cn_state c)))" and "i < cn_committed c"
  shows "\<exists>k evt. i < length (w_raw (p_chat (cn_state c))) \<and> w_raw (p_chat (cn_state c)) ! i = (k, evt)
    \<and> (durable_event evt (cn_state c) \<and> (k, pc_encode g evt) \<in> set (p_persisted (cn_state c))
       \<or> media_json (pc_codec g) evt = None \<or> dead_lettered (cn_dlq c) (cn_log c ! i))"
proof -
  have i: "i < length (cn_log c)" "persister.accounted (pc_codec g) (cn_state c) (cn_dlq c) (cn_log c ! i)"
    using assms(2,4) by (auto simp: persister.sound_def)
  obtain k evt where e: "(k, evt) = w_raw (p_chat (cn_state c)) ! i" by (metis surj_pair)
  note log = in_step_log(2) [OF assms(1) i(1) e] and len = in_step_log(1) [OF assms(1)]
  have "(k, evt) \<in> set (w_raw (p_chat (cn_state c)))" using e i(1) len by simp
  moreover have "world_ok (p_chat (cn_state c))" using assms(2) by (simp add: persister.sound_def)
  ultimately have "Validate evt = Inr ()" "ec_decode (pc_codec g) (pc_encode g evt) = Some evt"
    using assms(3) unfolding world_ok_def seq_ok_def round_trips_def list_all_iff by fastforce+
  then have "durable_event evt (cn_state c) \<and> (k, pc_encode g evt) \<in> set (p_persisted (cn_state c))
       \<or> media_json (pc_codec g) evt = None \<or> dead_lettered (cn_dlq c) (cn_log c ! i)"
    using i(2) log by (auto simp: persister.accounted_def persisted_record_def hopeless_record_def)
  then show ?thesis using e i(1) len by (intro exI [of _ k] exI [of _ evt]) simp
qed

text \<open>C2. No accepted message is lost: however many requests reach the chat and media services, whatever the stores, the topics
  and the process running the persister do in between, every message the chat service accepted whose record was committed
  is in the history of its chat under its own sequence number and identifier, is counted by the mirror the chat list
  reads, has its media bound and was announced on \<^verbatim>\<open>messages.persisted\<close>; otherwise its media reference could not be
  encoded, or its dead letter is there to replay.\<close>

theorem accepted_messages_durable:
  assumes "c = platform_run g evs (new_platform users)"
    and "round_trips g (w_raw (p_chat (cn_state c)))"
    and "i < cn_committed c"
  shows "\<exists>k evt. i < length (w_raw (p_chat (cn_state c))) \<and> w_raw (p_chat (cn_state c)) ! i = (k, evt)
    \<and> (durable_event evt (cn_state c) \<and> (k, pc_encode g evt) \<in> set (p_persisted (cn_state c))
       \<or> media_json (pc_codec g) evt = None \<or> dead_lettered (cn_dlq c) (cn_log c ! i))"
  using committed_cases platform_sound [OF new_platform_sound] assms by blast

text \<open>A platform with one group and one message in it.\<close>

definition first_event :: MessageEvent where
  "first_event = snd (hd (w_raw sample_world))"

definition sample_platform_cfg :: platform_cfg where
  "sample_platform_cfg =
     \<lparr>pc_chat = sample_cfg, pc_names = (\<lambda>_. ''''), pc_century = id, pc_media = sample_media_cfg,
      pc_codec = \<lparr>ec_decode = (\<lambda>_. Some first_event), ec_media = (\<lambda>_. Some ''{}'')\<rparr>,
      pc_json = \<lparr>jc_valid = (\<lambda>_. True), jc_quote = Some\<rparr>, pc_encode = (\<lambda>_. [1])\<rparr>"

definition calm_persist :: "persist_env attempt_env" where
  "calm_persist =
     \<lparr>at_env = (\<lambda>_. \<lparr>pe_now = 1500, pe_cass = (\<lambda>_. False), pe_down = (\<lambda>_. False)\<rparr>), at_cancelled = (\<lambda>_. False),
      at_cancelled_waiting = (\<lambda>_. False), at_dlq_down = False, at_now = 1500\<rparr>"

definition chat_request :: "chat_env \<times> identity \<times> request \<Rightarrow> platform_event" where
  "chat_request job = (case job of (e, i, r) \<Rightarrow> ChatRequest e i r)"

definition sample_platform :: "platform consumer" where
  "sample_platform =
     platform_run sample_platform_cfg
       [chat_request group_of_two, chat_request (text_message 1000 ''hi''), PersisterFetch calm_persist False False]
       (new_platform [(5, False), (6, False)])"

lemma sample_platform_value:
  "let c = sample_platform in cn_committed c = 1 \<and> length (cn_dlq c) = 0 \<and> length (w_raw (p_chat (cn_state c))) = 1
     \<and> round_trips sample_platform_cfg (w_raw (p_chat (cn_state c)))"
  by code_simp

theorem accepted_messages_durable_witness:
  "\<exists>k evt. durable_event evt (cn_state sample_platform) \<and> w_raw (p_chat (cn_state sample_platform)) = [(k, evt)]"
proof -
  note v = sample_platform_value [unfolded Let_def]
  have n: "media_json (pc_codec sample_platform_cfg) evt \<noteq> None" for evt
    by (simp add: sample_platform_cfg_def media_json_def split: option.split)
  from accepted_messages_durable [OF sample_platform_def, of 0] obtain k evt where
    e: "w_raw (p_chat (cn_state sample_platform)) ! 0 = (k, evt)" "durable_event evt (cn_state sample_platform)"
    using n v by (auto simp: dead_lettered_def)
  moreover have "w_raw (p_chat (cn_state sample_platform)) = [w_raw (p_chat (cn_state sample_platform)) ! 0]"
    using v by (cases "w_raw (p_chat (cn_state sample_platform))") auto
  ultimately show ?thesis by auto
qed

section \<open>Reseeding the sequence\<close>

text \<open>Every bucket the index lists has a row: the row is written first.\<close>

definition index_sound :: "cass \<Rightarrow> bool" where
  "index_sound t \<longleftrightarrow> (\<forall>(c, b) \<in> set (messages_by_chat_buckets t). \<exists>s. map_of (messages_by_chat t) (c, b, s) \<noteq> None)"

lemma index_sound_survives: "index_sound t \<Longrightarrow> rows_survive t t' \<Longrightarrow> index_sound t'"
  unfolding index_sound_def rows_survive_def by (fastforce split: prod.splits)

lemma index_sound_writes:
  assumes "index_sound (w_cass (p_chat p))"
  shows "index_sound (w_cass (p_chat (snd (persist_writes e m evt j p))))"
proof -
  let ?P = "\<lambda>p. index_sound (w_cass (p_chat p))"
  have ins: "index_sound (snd (Insert d now evt j t))" if "index_sound t" for d now t
    using that unfolding index_sound_def by (fastforce simp: Insert_touches split: prod.splits)
  have 1: "?P (snd (insert_step e evt j p))"
    using assms ins by (auto simp: insert_step_def set_cass_def split: prod.splits) (metis snd_conv)
  have 2: "?P (snd (touch_step e evt p1))" if "insert_step e evt j p = (Inr x, p1)" "?P p1" for x p1
  proof -
    have "Insert (pe_cass e) (pe_now e) evt j (w_cass (p_chat p)) = (Inr (), w_cass (p_chat p1))"
      using that(1) by (auto simp: insert_step_def set_cass_def split: prod.splits)
    then have "map_of (messages_by_chat (w_cass (p_chat p1))) (event_key evt) \<noteq> None"
      using Insert_touches(2) [of "pe_cass e" "pe_now e" evt j "w_cass (p_chat p)" "event_key evt"]
      by (auto simp: Insert_def Let_def split: if_splits)
    then show ?thesis
      using that(2) unfolding index_sound_def touch_step_def TouchBucket_def set_cass_def event_key_def
      by (auto split: prod.splits)
  qed
  show ?thesis
    unfolding persist_writes_def
    by (intro chain_and_then [where P = ?P] 1) (auto simp: 2)
qed

lemma index_sound_handle: "index_sound (w_cass (p_chat p)) \<Longrightarrow> index_sound (w_cass (p_chat (snd (persist_handle cd e m p))))"
  using index_sound_writes [of p e m] by (auto simp: persist_handle_def split: option.split sum.split prod.split) (metis snd_conv)+

lemma platform_index_sound: "index_sound (w_cass (p_chat (cn_state c))) \<Longrightarrow> index_sound (w_cass (p_chat (cn_state (platform_run g evs c))))"
  unfolding platform_run_def
proof (induction evs arbitrary: c)
  case (Cons ev evs)
  let ?P = "\<lambda>p. index_sound (w_cass (p_chat p))"
  have turn: "?P (cn_state (consumer_turn jc o' (persist_handle cd) t c))" if "?P (cn_state c)" "t \<in> set (turns_of g ev p)" for jc o' cd t c p
  proof (cases t)
    case (Fetch a fails cancelled)
    then show ?thesis
      using fetch_keeps [where P = ?P and h = "persist_handle cd" and c = c] index_sound_handle that(1) by (simp del: consumer_turn.simps)
  next
    case (Meanwhile f)
    then have "?P (f q)" if "?P q" for q
      using \<open>t \<in> _\<close> that serve_survives(1) index_sound_survives
      by (cases ev) (auto simp: turns_of_def chat_effect_def media_effect_def)
    then show ?thesis using that(1) Meanwhile by simp
  qed (use that(1) in simp_all)
  have "?P (cn_state (fold (consumer_turn jc o' (persist_handle cd)) ts c))" if "set ts \<subseteq> set (turns_of g ev p)" "?P (cn_state c)" for jc o' cd ts c p
    using that by (induction ts arbitrary: c) (auto intro: turn)
  then have "?P (cn_state (platform_step g ev c))" 
    unfolding platform_step_def consumer_run_def using Cons.prems by blast
  then show ?case using Cons.IH by simp
qed simp

lemma MaxSeq_past:
  assumes "cass_wf t" and "index_sound t" and "row_of evt t" and "(ev_ChatID evt, BucketOf (ev_Seq evt)) \<in> set (messages_by_chat_buckets t)"
  shows "\<exists>n. MaxSeq (\<lambda>_. False) t (ev_ChatID evt) = Inr n \<and> ev_Seq evt \<le> n"
proof -
  let ?c = "ev_ChatID evt"
  let ?bs = "map snd (filter (\<lambda>(c', _). c' = ?c) (messages_by_chat_buckets t))"
  have mem: "b \<in> set ?bs \<longleftrightarrow> (?c, b) \<in> set (messages_by_chat_buckets t)" for b by force
  obtain b xs where b: "rev (sort ?bs) = b # xs" using assms(4) mem by (metis list.exhaust rev_is_Nil_conv set_sort empty_iff set_empty)
  have top: "b \<in> set ?bs" "\<And>b'. b' \<in> set ?bs \<Longrightarrow> b' \<le> b" using rev_sorted_head [OF b sorted_sort] by simp_all
  then have "partition_rows t ?c b \<noteq> []" using assms(2) mem unfolding index_sound_def partition_nonempty by fastforce
  then obtain m ms where r: "rev (partition_rows t ?c b) = m # ms" by (metis list.exhaust rev_is_Nil_conv)
  have srt: "sorted_wrt (\<lambda>x y. sm_Seq x \<le> sm_Seq y) (partition_rows t ?c b)"
    using partition_rows_sorted [OF assms(1)] by (rule sorted_wrt_mono_rel [rotated]) simp
  have m: "stored t ?c m" "BucketOf (sm_Seq m) = b" using rev_sorted_head(1) [OF r srt] partition_rows_stored [OF assms(1)] by auto
  obtain row where row: "map_of (messages_by_chat t) (event_key evt) = Some row" using assms(3) by (auto simp: row_of_def split: option.splits)
  then have "row_wf (event_key evt, row)" using assms(1) by (auto simp: cass_wf_def list_all_iff dest: map_of_SomeD)
  then have st: "stored t ?c row" "sm_Seq row = ev_Seq evt" using row by (auto simp: row_wf_def event_key_def stored_def)
  have "ev_Seq evt \<le> sm_Seq m"
  proof (cases "BucketOf (ev_Seq evt) = b")
    case True
    then show ?thesis using rev_sorted_head(2) [OF r srt, of row] st partition_rows_stored [OF assms(1)] by auto
  next
    case False
    then have "BucketOf (ev_Seq evt) < BucketOf (sm_Seq m)" using top(2) assms(4) mem m(2) by fastforce
    then show ?thesis using less_of_BucketOf_less by fastforce
  qed
  then show ?thesis using b r by (intro exI [of _ "sm_Seq m"]) (simp add: MaxSeq_def)
qed



section \<open>Media that changes hands\<close>

lemma handled_binds:
  assumes "persist_handle cd e m p = (Handled, p')" and "ec_decode cd (km_Value m) = Some evt"
    and "ev_Media evt = Some ref" and "mr_Object ref \<noteq> ''''"
  shows "ChatFor False (mr_Object ref) (mw_acl (p_media p')) = Inr (ev_ChatID evt, ev_SenderID evt)"
proof -
  from assms(1,2) obtain j u where "persist_writes e m evt j p = (Inr u, p')"
    by (auto simp: persist_handle_def split: option.splits sum.splits prod.splits)
  then obtain x3 p3 x4 p4 x5 p5 where s: "bind_step e evt p3 = (Inr x4, p4)" "publish_step e m p4 = (Inr x5, p5)" "p' = indexDoc e evt p5"
    unfolding persist_writes_def by (elim and_then_InrE) auto
  have "mw_acl (p_media p') = mw_acl (p_media p4)" using steps_frame(13) [of e m p4] s by simp
  moreover have "ChatFor False (mr_Object ref) (mw_acl (p_media p4)) = Inr (ev_ChatID evt, ev_SenderID evt)"
    using s(1) assms(3,4) by (auto simp: bind_step_def MediaACL_Bind_def ChatFor_def set_acl_def AList.update_conv' split: if_splits)
  ultimately show ?thesis by simp
qed

text \<open>Media follows the last message that carries it: once the persister has handled a message with a media object, the object
  and its derivatives are readable by that message's sender and by the members of its chat, and by nobody else,
  whatever chat the object was bound to before and whoever uploaded it.  So whoever knows an object's path can send it to
  a chat of their own and read it from then on, and the members of the chat it was first sent to lose it.\<close>

theorem media_follows_last_message:
  assumes "persist_handle cd e m p = (Handled, p')" and "ec_decode cd (km_Value m) = Some evt"
    and "ev_Media evt = Some ref" and "mr_Object ref \<noteq> ''''" and "ACLKey object = ACLKey (mr_Object ref)"
    and "\<not> me_down e1 CallAcl" and "\<not> me_down e1 CallMemberGet"
  shows "may_download e1 t u object (p_media p') = Inr () \<longleftrightarrow> u = ev_SenderID evt \<or> u \<in> active_users t (ev_ChatID evt)"
proof -
  have "ChatFor False object (mw_acl (p_media p')) = Inr (ev_ChatID evt, ev_SenderID evt)"
    using handled_binds [OF assms(1-4)] assms(5) by (simp add: ChatFor_def)
  then show ?thesis
    using assms(6,7) by (auto simp: may_download_def Members_Get_def active_users_def active_def split: option.splits)
qed

text \<open>User 7 sends the path of a photo that is bound to chat 9 to chat 8.\<close>

definition stolen_photo :: MessageEvent where
  "stolen_photo =
     \<lparr>ev_MessageID = ''m'', ev_ChatID = 8, ev_Seq = 1, ev_SenderID = 7, ev_Type = MessagePhoto, ev_Body = '''', ev_Encrypted = False,
      ev_Media = Some \<lparr>mr_Bucket = '''', mr_Object = ''p/a.jpg'', mr_MimeType = ''image/jpeg'', mr_SizeBytes = 100, mr_Width = 0, mr_Height = 0,
        mr_DurationMS = 0, mr_ThumbObject = ''''\<rparr>,
      ev_ReplyToSeq = 0, ev_Recipients = [7], ev_ClientRandomID = 0, ev_CreatedAt = 0\<rparr>"

definition two_chats :: platform where
  "two_chats =
     \<lparr>p_chat = (empty_world [])\<lparr>w_pg := no_members\<lparr>pg_sequences := [(8, (0, 0)), (9, (1, 0))]\<rparr>\<rparr>,
      p_media = empty_media\<lparr>mw_acl := [(''p/a'', \<lparr>acl_ChatID = 9, acl_MessageID = ''x'', acl_UploaderID = 5, acl_BoundAt = 0\<rparr>)]\<rparr>,
      p_persisted = [], p_search = []\<rparr>"

definition stolen :: "handler_outcome \<times> platform" where
  "stolen = persist_handle \<lparr>ec_decode = (\<lambda>_. Some stolen_photo), ec_media = (\<lambda>_. Some ''{}'')\<rparr> (at_env calm_persist 0)
     \<lparr>km_Topic = ''messages.raw'', km_Partition = 0, km_Offset = 0, km_Key = [], km_Value = [1]\<rparr> two_chats"

theorem media_follows_last_message_witness:
  "may_download (media_calm 0 ''u'') no_members 5 ''p/a.jpg'' (p_media two_chats) = Inr ()
   \<and> may_download (media_calm 0 ''u'') no_members 5 ''p/a.jpg'' (p_media (snd stolen)) \<noteq> Inr ()
   \<and> may_download (media_calm 0 ''u'') no_members 7 ''p/a.jpg'' (p_media (snd stolen)) = Inr ()"
proof -
  have "fst stolen = Handled" by code_simp
  then have h: "persist_handle \<lparr>ec_decode = (\<lambda>_. Some stolen_photo), ec_media = (\<lambda>_. Some ''{}'')\<rparr> (at_env calm_persist 0)
     \<lparr>km_Topic = ''messages.raw'', km_Partition = 0, km_Offset = 0, km_Key = [], km_Value = [1]\<rparr> two_chats = (Handled, snd stolen)"
    unfolding stolen_def by (metis prod.collapse)
  have "may_download (media_calm 0 ''u'') no_members u ''p/a.jpg'' (p_media (snd stolen)) = Inr () \<longleftrightarrow> u = 7" for u
    using media_follows_last_message [OF h, of stolen_photo _ "''p/a.jpg''" "media_calm 0 ''u''" no_members u]
    by (simp add: stolen_photo_def media_calm_def active_users_def no_members_def)
  moreover have "may_download (media_calm 0 ''u'') no_members 5 ''p/a.jpg'' (p_media two_chats) = Inr ()" by code_simp
  ultimately show ?thesis by simp
qed

end
