(* ===== verification/Media_Processor.thy ===== *)
theory Media_Processor
  imports Media_Service Kafka_Consumer
begin

text \<open>
  What happens to an upload after it landed: the virus scanner and the image arithmetic of \<^verbatim>\<open>pkg/mediaproc\<close>
  (\<^verbatim>\<open>scan.go\<close>, \<^verbatim>\<open>image.go\<close>) and the consumer that drives them, \<^verbatim>\<open>services/consumers/mediaproc/main.go\<close>.
  Image codecs, ffmpeg, clamd and Cloud Storage are outside the program: what they answer to one job is part of the job's
  environment.
\<close>

section \<open>Scanning\<close>

record ScanResult =
  sc_Clean :: bool
  sc_Threat :: string

datatype scan_error = ScanTooLarge | ScanRead | ScanUnavailable string

record ClamAV =
  ca_MaxBytes :: int
  ca_ChunkSize :: int

definition NewClamAV :: ClamAV where
  "NewClamAV = \<lparr>ca_MaxBytes = 268435456, ca_ChunkSize = 65536\<rparr>"

text \<open>What the connection meets: it cannot be made; a write fails, by the number of writes before it; and the
  bytes of the one read, if that succeeds.\<close>

record clamd =
  cl_dial :: bool
  cl_write_fails :: "nat \<Rightarrow> bool"
  cl_reply :: "bytes option"

definition byte_string :: "bytes \<Rightarrow> string" where
  "byte_string bs = map (\<lambda>b. char_of (unat b)) bs"

definition string_bytes :: "string \<Rightarrow> bytes" where
  "string_bytes s = map (\<lambda>c. word_of_nat (of_char c)) s"

definition chunk_size :: "ClamAV \<Rightarrow> nat" where
  "chunk_size c = (if ca_ChunkSize c \<le> 0 then 65536 else nat (ca_ChunkSize c))"

definition scan_writes :: "bytes list \<Rightarrow> bytes list" where
  "scan_writes cs =
     string_bytes (''zINSTREAM'' @ [char_of (0 :: nat)])
     # concat (map (\<lambda>chunk. [put_be 4 (word_of_nat (length chunk) :: u32), chunk]) cs)"

text \<open>The writes go out one after the other until one fails.\<close>

fun send_all :: "(nat \<Rightarrow> bool) \<Rightarrow> nat \<Rightarrow> bytes list \<Rightarrow> bool \<times> bytes" where
  "send_all fails i [] = (True, [])"
| "send_all fails i (w # ws) = (if fails i then (False, []) else (case send_all fails (i + 1) ws of (ok, sent) \<Rightarrow> (ok, w @ sent)))"

definition TrimRight :: "string \<Rightarrow> string \<Rightarrow> string" where
  "TrimRight s cutset = rev (dropWhile (\<lambda>c. c \<in> set cutset) (rev s))"

fun Index :: "string \<Rightarrow> string \<Rightarrow> nat option" where
  "Index [] p = (if p = [] then Some 0 else None)"
| "Index (c # s) p = (if HasPrefix (c # s) p then Some 0 else map_option Suc (Index s p))"

definition read_verdict :: "string \<Rightarrow> scan_error + ScanResult" where
  "read_verdict reply =
     (let verdict = TrimRight reply (map char_of [0, 10, 32 :: nat])
      in if HasSuffix verdict ''OK'' then Inr \<lparr>sc_Clean = True, sc_Threat = ''''\<rparr>
         else if HasSuffix verdict ''FOUND'' then
           Inr \<lparr>sc_Clean = False,
                sc_Threat = (case Index verdict '': '' of None \<Rightarrow> verdict | Some i \<Rightarrow> TrimSuffix (drop (i + 2) verdict) '' FOUND'')\<rparr>
         else if Contains verdict ''ERROR'' then Inl (ScanUnavailable verdict)
         else Inl (ScanUnavailable verdict))"

text \<open>The file is read in chunks, to its end or, if \<open>read_fails\<close>, to an error after the chunks there are.\<close>

definition Scan :: "ClamAV \<Rightarrow> clamd \<Rightarrow> bytes \<Rightarrow> bool \<Rightarrow> int \<Rightarrow> (scan_error + ScanResult) \<times> bytes" where
  "Scan c conn content read_fails declared =
     (if 0 < ca_MaxBytes c \<and> ca_MaxBytes c < declared then (Inl ScanTooLarge, [])
      else if \<not> cl_dial conn then (Inl (ScanUnavailable ''dial''), [])
      else
        let ws = scan_writes (chunks (chunk_size c) content)
        in case send_all (cl_write_fails conn) 0 ws of
             (False, sent) \<Rightarrow> (Inl (ScanUnavailable ''write''), sent)
           | (True, sent) \<Rightarrow>
               if read_fails then (Inl ScanRead, sent)
               else if cl_write_fails conn (length ws) then (Inl (ScanUnavailable ''write''), sent)
               else (case cl_reply conn of
                   None \<Rightarrow> (Inl (ScanUnavailable ''read verdict''), sent @ put_be 4 (0 :: u32))
                 | Some reply \<Rightarrow> (read_verdict (byte_string (take 512 reply)), sent @ put_be 4 (0 :: u32))))"

section \<open>Images\<close>

record ThumbnailSpec =
  ts_Name :: string
  ts_MaxDim :: int
  ts_Quality :: int

definition DefaultThumbnails :: "ThumbnailSpec list" where
  "DefaultThumbnails =
     [\<lparr>ts_Name = ''_s'', ts_MaxDim = 96, ts_Quality = 70\<rparr>, \<lparr>ts_Name = ''_m'', ts_MaxDim = 320, ts_Quality = 78\<rparr>,
      \<lparr>ts_Name = ''_l'', ts_MaxDim = 1280, ts_Quality = 85\<rparr>]"

record ImageInfo =
  ii_Width :: int
  ii_Height :: int
  ii_Format :: string

datatype image_error = ErrTooLarge | ErrUnsupportedImage | ErrEncode

definition MaxDecodePixels :: int where "MaxDecodePixels = 64000000"

text \<open>The codecs: what the header says, the size of the decoded picture, and the encoder.\<close>

record codecs =
  cd_header :: "bytes \<Rightarrow> (int \<times> int \<times> string) option"
  cd_decode :: "bytes \<Rightarrow> string \<Rightarrow> (int \<times> int) option"
  cd_encode :: "bytes \<Rightarrow> int \<times> int \<Rightarrow> int \<Rightarrow> bytes option"

definition Probe :: "codecs \<Rightarrow> bytes \<Rightarrow> image_error + ImageInfo" where
  "Probe cd src =
     (case cd_header cd src of
        None \<Rightarrow> Inl ErrUnsupportedImage
      | Some (w, h, fmt) \<Rightarrow>
          if MaxDecodePixels < w * h then Inl ErrTooLarge else Inr \<lparr>ii_Width = w, ii_Height = h, ii_Format = fmt\<rparr>)"

definition fit :: "int \<Rightarrow> int \<Rightarrow> int \<Rightarrow> int \<times> int" where
  "fit w h maxDim =
     (if maxDim \<le> 0 \<or> (w \<le> maxDim \<and> h \<le> maxDim) then (w, h)
      else if h \<le> w then let nh = go_quot (h * maxDim) w in (maxDim, if nh < 1 then 1 else nh)
      else let nw = go_quot (w * maxDim) h in (if nw < 1 then 1 else nw, maxDim))"

definition decode_image :: "codecs \<Rightarrow> bytes \<Rightarrow> string \<Rightarrow> image_error + (int \<times> int)" where
  "decode_image cd src fmt =
     (if fmt \<in> {''jpeg'', ''png'', ''gif'', ''webp''}
      then (case cd_decode cd src fmt of None \<Rightarrow> Inl ErrUnsupportedImage | Some d \<Rightarrow> Inr d)
      else Inl ErrUnsupportedImage)"

definition thumbnail_size :: "int \<Rightarrow> int \<Rightarrow> ThumbnailSpec \<Rightarrow> int \<times> int" where
  "thumbnail_size w h spec =
     (case fit w h (ts_MaxDim spec) of (tw, th) \<Rightarrow> if w \<le> tw \<and> h \<le> th then (w, h) else (tw, th))"

definition Thumbnail :: "codecs \<Rightarrow> bytes \<Rightarrow> ThumbnailSpec \<Rightarrow> image_error + (bytes \<times> ImageInfo)" where
  "Thumbnail cd src spec =
     (case Probe cd src of
        Inl err \<Rightarrow> Inl err
      | Inr info \<Rightarrow>
          (case decode_image cd src (ii_Format info) of
             Inl err \<Rightarrow> Inl err
           | Inr (w, h) \<Rightarrow>
               let d = thumbnail_size w h spec; q = (if ts_Quality spec \<le> 0 \<or> 100 < ts_Quality spec then 80 else ts_Quality spec)
               in (case cd_encode cd src d q of
                     None \<Rightarrow> Inl ErrEncode
                   | Some out \<Rightarrow> Inr (out, \<lparr>ii_Width = fst d, ii_Height = snd d, ii_Format = ''jpeg''\<rparr>))))"

section \<open>The consumer's state\<close>

record VideoInfo =
  vi_Width :: int
  vi_Height :: int
  vi_DurationMS :: int
  vi_Codec :: string

record TranscodeProfile =
  tp_Name :: string
  tp_MaxHeight :: int

definition DefaultProfiles :: "TranscodeProfile list" where
  "DefaultProfiles = [\<lparr>tp_Name = ''_720p'', tp_MaxHeight = 720\<rparr>]"

record MediaVariant =
  mv_Name :: string
  mv_Object :: string
  mv_MimeType :: string
  mv_Width :: int
  mv_Height :: int
  mv_SizeBytes :: int

record MediaDerived =
  md_Width :: int
  md_Height :: int
  md_DurationMS :: int
  md_Variants :: "MediaVariant list"

record MediaProcessed =
  mp_UploadID :: string
  mp_OwnerID :: int
  mp_Object :: string
  mp_Derived :: MediaDerived
  mp_Quarantined :: bool
  mp_Threat :: string
  mp_ProcessedAt :: int

record proc_world =
  xw_written :: "(string \<times> string) list"
  xw_public :: "string list"
  xw_deleted :: "string list"
  xw_processed :: "MediaProcessed list"
  xw_audit :: "Logger option"

datatype proc_call =
  CallMkdir | CallDownload | CallOpen | CallReadSource | CallDeleteInfected | CallPublishQuarantine | CallPublishComplete
| CallAuditMalware | CallUpload string | CallCopy string

text \<open>What one attempt at a job meets; ffprobe, the frame extractor and the transcoder answer with what they found
  or made.\<close>

record proc_env =
  px_now :: int
  px_attrs :: "gcs_error + int"
  px_down :: "proc_call \<Rightarrow> bool"
  px_content :: bytes
  px_clamd :: clamd
  px_read_fails :: bool
  px_video :: "VideoInfo option"
  px_poster :: "bytes option"
  px_transcoded :: "string \<Rightarrow> bytes option"

record proc_cfg =
  xc_scanner :: "ClamAV option"
  xc_codecs :: codecs
  xc_transcoder :: bool
  xc_publicBucket :: string
  xc_maxDownloadBytes :: int
  xc_decode :: "bytes \<Rightarrow> MediaJob option"
  xc_marshal :: "Entry \<Rightarrow> bytes option"

datatype proc_error = SkipJob | FailJob string

section \<open>Handling a job\<close>

definition hasOp :: "string list \<Rightarrow> string \<Rightarrow> bool" where
  "hasOp ops want = list_ex (\<lambda>x. x = want) ops"

definition kindOf :: "string \<Rightarrow> string" where
  "kindOf mime =
     (if HasPrefix mime ''image/'' then ''image'' else if HasPrefix mime ''video/'' then ''video''
      else if HasPrefix mime ''audio/'' then ''audio'' else ''file'')"

definition put_object ::
  "proc_env \<Rightarrow> string \<Rightarrow> string \<Rightarrow> string \<Rightarrow> proc_world \<Rightarrow> (proc_error + unit) \<times> proc_world" where
  "put_object e what object mime w =
     (if px_down e (CallUpload object) then (Inl (FailJob what), w)
      else (Inr (), w\<lparr>xw_written := xw_written w @ [(object, mime)]\<rparr>))"

fun image_loop ::
  "codecs \<Rightarrow> proc_env \<Rightarrow> string \<Rightarrow> bytes \<Rightarrow> ImageInfo \<Rightarrow> ThumbnailSpec list \<Rightarrow> MediaVariant list \<Rightarrow> proc_world
     \<Rightarrow> (proc_error + MediaVariant list) \<times> proc_world" where
  "image_loop cd e original src info [] thumbs w = (Inr thumbs, w)"
| "image_loop cd e original src info (spec # specs) thumbs w =
     (if ii_Width info < ts_MaxDim spec \<and> ii_Height info < ts_MaxDim spec \<and> ts_Name spec \<noteq> ''_s''
      then image_loop cd e original src info specs thumbs w
      else case Thumbnail cd src spec of
        Inl _ \<Rightarrow> (Inl SkipJob, w)
      | Inr (data, ti) \<Rightarrow>
          let object = variantObject original (ts_Name spec) ''.jpg''
          in and_then (put_object e ''upload thumbnail'' object ''image/jpeg'' w) (\<lambda>_ w.
               image_loop cd e original src info specs
                 (thumbs @ [\<lparr>mv_Name = ts_Name spec, mv_Object = object, mv_MimeType = ''image/jpeg'', mv_Width = ii_Width ti,
                    mv_Height = ii_Height ti, mv_SizeBytes = int (length data)\<rparr>]) w))"

definition TrimPrefix :: "string \<Rightarrow> string \<Rightarrow> string" where
  "TrimPrefix s p = (if HasPrefix s p then drop (length p) s else s)"

fun publish_loop :: "proc_env \<Rightarrow> MediaVariant list \<Rightarrow> proc_world \<Rightarrow> (proc_error + unit) \<times> proc_world" where
  "publish_loop e [] w = (Inr (), w)"
| "publish_loop e (v # vs) w =
     (if px_down e (CallCopy (mv_Object v)) then (Inl (FailJob ''promote to the public bucket''), w)
      else publish_loop e vs (w\<lparr>xw_public := xw_public w @ [TrimPrefix (mv_Object v) ''photo/'']\<rparr>))"

definition processed_of :: "proc_env \<Rightarrow> MediaJob \<Rightarrow> MediaDerived \<Rightarrow> bool \<Rightarrow> string \<Rightarrow> MediaProcessed" where
  "processed_of e job derived quarantined threat =
     \<lparr>mp_UploadID = mj_UploadID job, mp_OwnerID = mj_OwnerID job, mp_Object = mr_Object (mj_Media job), mp_Derived = derived,
      mp_Quarantined = quarantined, mp_Threat = threat, mp_ProcessedAt = px_now e\<rparr>"

definition publishComplete :: "proc_env \<Rightarrow> MediaJob \<Rightarrow> MediaDerived \<Rightarrow> proc_world \<Rightarrow> (proc_error + unit) \<times> proc_world" where
  "publishComplete e job derived w =
     (if px_down e CallPublishComplete then (Inl (FailJob ''publish''), w)
      else (Inr (), w\<lparr>xw_processed := xw_processed w @ [processed_of e job derived False '''']\<rparr>))"

definition no_derivatives :: MediaDerived where
  "no_derivatives = \<lparr>md_Width = 0, md_Height = 0, md_DurationMS = 0, md_Variants = []\<rparr>"

definition publishQuarantine :: "proc_env \<Rightarrow> MediaJob \<Rightarrow> string \<Rightarrow> proc_world \<Rightarrow> proc_world" where
  "publishQuarantine e job threat w =
     (if px_down e CallPublishQuarantine then w
      else w\<lparr>xw_processed := xw_processed w @ [processed_of e job no_derivatives True threat]\<rparr>)"

definition processImage :: "proc_cfg \<Rightarrow> proc_env \<Rightarrow> MediaJob \<Rightarrow> bytes \<Rightarrow> proc_world \<Rightarrow> (proc_error + unit) \<times> proc_world" where
  "processImage cfg e job src w =
     (if px_down e CallReadSource then (Inl (FailJob ''read''), w)
      else case Probe (xc_codecs cfg) src of
        Inl _ \<Rightarrow> (Inl SkipJob, w)
      | Inr info \<Rightarrow>
          and_then (image_loop (xc_codecs cfg) e (mr_Object (mj_Media job)) src info DefaultThumbnails [] w) (\<lambda>thumbs w.
          and_then (if hasOp (mj_Ops job) ''publish_public'' \<and> xc_publicBucket cfg \<noteq> '''' then publish_loop e thumbs w else (Inr (), w)) (\<lambda>_ w.
          publishComplete e job \<lparr>md_Width = ii_Width info, md_Height = ii_Height info, md_DurationMS = 0, md_Variants = thumbs\<rparr> w)))"

definition poster_step ::
  "proc_env \<Rightarrow> MediaJob \<Rightarrow> proc_world \<Rightarrow> (proc_error + MediaVariant list) \<times> proc_world" where
  "poster_step e job w =
     (case px_poster e of
        None \<Rightarrow> (Inr [], w)
      | Some frame \<Rightarrow>
          let object = variantObject (mr_Object (mj_Media job)) ''_poster'' ''.jpg''
          in and_then (put_object e ''upload poster frame'' object ''image/jpeg'' w) (\<lambda>_ w.
               (Inr [\<lparr>mv_Name = ''_poster'', mv_Object = object, mv_MimeType = ''image/jpeg'', mv_Width = 0, mv_Height = 0,
                  mv_SizeBytes = int (length frame)\<rparr>], w)))"

fun transcode_loop ::
  "proc_env \<Rightarrow> string \<Rightarrow> VideoInfo \<Rightarrow> TranscodeProfile list \<Rightarrow> MediaVariant list \<Rightarrow> proc_world
     \<Rightarrow> (proc_error + MediaVariant list) \<times> proc_world" where
  "transcode_loop e original info [] variants w = (Inr variants, w)"
| "transcode_loop e original info (pr # prs) variants w =
     (if vi_Height info \<le> tp_MaxHeight pr \<and> vi_Codec info = ''h264'' then transcode_loop e original info prs variants w
      else case px_transcoded e (tp_Name pr) of
        None \<Rightarrow> (Inl (FailJob ''transcode''), w)
      | Some data \<Rightarrow>
          let object = variantObject original (tp_Name pr) ''.mp4''
          in and_then (put_object e ''upload rendition'' object ''video/mp4'' w) (\<lambda>_ w.
               transcode_loop e original info prs
                 (variants @ [\<lparr>mv_Name = tp_Name pr, mv_Object = object, mv_MimeType = ''video/mp4'', mv_Width = 0,
                    mv_Height = tp_MaxHeight pr, mv_SizeBytes = int (length data)\<rparr>]) w))"

definition processVideo :: "proc_env \<Rightarrow> MediaJob \<Rightarrow> proc_world \<Rightarrow> (proc_error + unit) \<times> proc_world" where
  "processVideo e job w =
     (case px_video e of
        None \<Rightarrow> (Inl SkipJob, w)
      | Some info \<Rightarrow>
          and_then (if hasOp (mj_Ops job) ''thumbnail'' then poster_step e job w else (Inr [], w)) (\<lambda>variants w.
          and_then (if hasOp (mj_Ops job) ''transcode''
                    then transcode_loop e (mr_Object (mj_Media job)) info DefaultProfiles variants w else (Inr variants, w)) (\<lambda>variants w.
          publishComplete e job \<lparr>md_Width = vi_Width info, md_Height = vi_Height info, md_DurationMS = vi_DurationMS info,
            md_Variants = variants\<rparr> w)))"

text \<open>The scan step: \<open>True\<close> when the job may go on, \<open>False\<close> when it ended with the object deleted.\<close>

definition malware_entry :: "MediaJob \<Rightarrow> string \<Rightarrow> int \<Rightarrow> Entry" where
  "malware_entry job threat landed =
     (entry_of ActionMalwareBlocked 0 ''user'' (mj_OwnerID job)
        [(''threat'', threat), (''mime'', mr_MimeType (mj_Media job)), (''size'', itoa landed)])\<lparr>ae_ActorType := ''system''\<rparr>"

definition quarantine :: "proc_cfg \<Rightarrow> proc_env \<Rightarrow> MediaJob \<Rightarrow> string \<Rightarrow> int \<Rightarrow> proc_world \<Rightarrow> (proc_error + bool) \<times> proc_world" where
  "quarantine cfg e job threat landed w =
     (if px_down e CallDeleteInfected then (Inl (FailJob ''delete infected object''), w)
      else
        let w1 = publishQuarantine e job threat (w\<lparr>xw_deleted := xw_deleted w @ [mr_Object (mj_Media job)]\<rparr>)
        in (Inr False,
            case xw_audit w1 of
              None \<Rightarrow> w1
            | Some l \<Rightarrow>
                w1\<lparr>xw_audit := Some (snd (Record (xc_marshal cfg) (px_down e CallAuditMalware) (px_now e) (malware_entry job threat landed) l))\<rparr>))"

definition scan_step :: "proc_cfg \<Rightarrow> proc_env \<Rightarrow> MediaJob \<Rightarrow> bytes \<Rightarrow> int \<Rightarrow> proc_world \<Rightarrow> (proc_error + bool) \<times> proc_world" where
  "scan_step cfg e job content landed w =
     (if \<not> hasOp (mj_Ops job) ''scan'' then (Inr True, w)
      else if px_down e CallOpen then (Inl (FailJob ''open''), w)
      else case (case xc_scanner cfg of
                   None \<Rightarrow> Inr \<lparr>sc_Clean = True, sc_Threat = ''''\<rparr>
                 | Some c \<Rightarrow> fst (Scan c (px_clamd e) content (px_read_fails e) landed)) of
        Inl _ \<Rightarrow> (Inl (FailJob ''scan''), w)
      | Inr verdict \<Rightarrow> if sc_Clean verdict then (Inr True, w) else quarantine cfg e job (sc_Threat verdict) landed w)"

definition process_job :: "proc_cfg \<Rightarrow> proc_env \<Rightarrow> MediaJob \<Rightarrow> proc_world \<Rightarrow> (proc_error + unit) \<times> proc_world" where
  "process_job cfg e job w =
     (if mr_Object (mj_Media job) = '''' then (Inl SkipJob, w)
      else case px_attrs e of
        Inl err \<Rightarrow> (Inl (if err = GcsNotFound then SkipJob else FailJob ''read object attributes''), w)
      | Inr landed \<Rightarrow>
          if xc_maxDownloadBytes cfg < landed then (Inl SkipJob, w)
          else if px_down e CallMkdir then (Inl (FailJob ''create work directory''), w)
          else if px_down e CallDownload then (Inl (FailJob ''download object''), w)
          else
            let content = take (nat (xc_maxDownloadBytes cfg + 1)) (px_content e); kind = kindOf (mr_MimeType (mj_Media job))
            in and_then (scan_step cfg e job content landed w) (\<lambda>go_on w.
                 if \<not> go_on then (Inr (), w)
                 else if kind = ''image'' then processImage cfg e job content w
                 else if kind = ''video'' then (if xc_transcoder cfg then processVideo e job w else (Inl SkipJob, w))
                 else (Inr (), w)))"

definition mediaproc_handle :: "proc_cfg \<Rightarrow> (proc_env, proc_world) handler" where
  "mediaproc_handle cfg e m w =
     (case xc_decode cfg (km_Value m) of
        None \<Rightarrow> (ErrSkip, w)
      | Some job \<Rightarrow>
          (case process_job cfg e job w of
             (Inr _, w') \<Rightarrow> (Handled, w') | (Inl SkipJob, w') \<Rightarrow> (ErrSkip, w') | (Inl (FailJob what), w') \<Rightarrow> (HandlerError what, w')))"

section \<open>The stream clamd reads\<close>

text \<open>The other end of the protocol: chunks with their length before them, up to a chunk of length zero.\<close>

function instream_payload :: "bytes \<Rightarrow> bytes option" where
  "instream_payload src =
     (case read_full 4 src of
        None \<Rightarrow> None
      | Some (header, rest) \<Rightarrow>
          let n = unat (get_be header :: u32)
          in if n = 0 then (if rest = [] then Some [] else None)
             else case read_full n rest of
               None \<Rightarrow> None | Some (chunk, next_chunks) \<Rightarrow> map_option ((@) chunk) (instream_payload next_chunks))"
  by pat_completeness auto
termination by (relation "measure length") (auto simp: read_full_Some_iff)

declare instream_payload.simps [simp del]

lemma instream_chunks:
  assumes "\<forall>chunk \<in> set cs. chunk \<noteq> [] \<and> length chunk < 2 ^ 32"
  shows "instream_payload (concat (concat (map (\<lambda>chunk. [put_be 4 (word_of_nat (length chunk) :: u32), chunk]) cs)) @ put_be 4 (0 :: u32))
    = Some (concat cs)"
  using assms
proof (induction cs)
  case Nil
  have "read_full 4 (put_be 4 (0 :: u32)) = Some (put_be 4 (0 :: u32), [])" using read_full_append [of "put_be 4 (0 :: u32)" 4 "[]"] by simp
  then show ?case by (simp add: instream_payload.simps [of "put_be 4 (0 :: u32)"] get_put_be)
next
  case (Cons chunk cs)
  let ?more = "concat (concat (map (\<lambda>chunk. [put_be 4 (word_of_nat (length chunk) :: u32), chunk]) cs)) @ put_be 4 (0 :: u32)"
  have u: "unat (word_of_nat (length chunk) :: u32) = length chunk" using Cons.prems by (simp add: unat_of_nat take_bit_nat_eq_self)
  show ?case
    using Cons by (simp, subst instream_payload.simps) (simp add: get_put_be u)
qed

lemma chunks_short: "c \<in> set (chunks n xs) \<Longrightarrow> c \<noteq> [] \<and> length c \<le> n"
proof (induction n xs rule: chunks.induct)
  case (1 n xs)
  then show ?case by (cases "n = 0 \<or> xs = []") (auto simp: chunks.simps [of n xs])
qed

lemma send_all_sent: "send_all fails i ws = (True, sent) \<Longrightarrow> sent = concat ws"
  by (induction ws arbitrary: i sent) (auto split: if_splits prod.splits)

text \<open>C29. A verdict is about the whole file: when the scanner answers, what it was sent is the protocol's command followed by a
  well-formed stream whose chunks make up exactly the file's bytes, the declared size was within the scan limit, the file
  was read to its end, and a file counts as clean only on a reply that ends in OK.\<close>

theorem scan_covers_file:
  assumes "Scan c conn content read_fails declared = (Inr v, sent)" and "chunk_size c < 2 ^ 32"
  shows "\<exists>body reply. sent = string_bytes (''zINSTREAM'' @ [char_of (0 :: nat)]) @ body \<and> instream_payload body = Some content
    \<and> \<not> read_fails \<and> \<not> (0 < ca_MaxBytes c \<and> ca_MaxBytes c < declared)
    \<and> cl_reply conn = Some reply
    \<and> (sc_Clean v \<longleftrightarrow> HasSuffix (TrimRight (byte_string (take 512 reply)) (map char_of [0, 10, 32 :: nat])) ''OK'')"
proof -
  let ?cs = "chunks (chunk_size c) content"
  let ?body = "concat (concat (map (\<lambda>chunk. [put_be 4 (word_of_nat (length chunk) :: u32), chunk]) ?cs)) @ put_be 4 (0 :: u32)"
  from assms(1) obtain sent' reply where s: "send_all (cl_write_fails conn) 0 (scan_writes ?cs) = (True, sent')" "\<not> read_fails"
    "cl_reply conn = Some reply" "read_verdict (byte_string (take 512 reply)) = Inr v" "sent = sent' @ put_be 4 (0 :: u32)"
    "\<not> (0 < ca_MaxBytes c \<and> ca_MaxBytes c < declared)"
    by (auto simp: Scan_def Let_def split: if_splits prod.splits bool.splits option.splits)
  have "sent = string_bytes (''zINSTREAM'' @ [char_of (0 :: nat)]) @ ?body"
    using send_all_sent [OF s(1)] s(5) by (simp add: scan_writes_def)
  moreover have "0 < chunk_size c" by (simp add: chunk_size_def)
  then have cc: "concat ?cs = content" by (rule concat_chunks)
  have "\<forall>chunk \<in> set ?cs. chunk \<noteq> [] \<and> length chunk < 2 ^ 32"
    using chunks_short [of _ "chunk_size c" content] assms(2) order_le_less_trans by blast
  from instream_chunks [OF this] have "instream_payload ?body = Some content" by (simp only: cc)
  moreover have "sc_Clean v \<longleftrightarrow> HasSuffix (TrimRight (byte_string (take 512 reply)) (map char_of [0, 10, 32 :: nat])) ''OK''"
    using s(4) by (auto simp: read_verdict_def Let_def split: if_splits)
  ultimately show ?thesis using s by blast
qed

definition clean_clamd :: clamd where
  "clean_clamd = \<lparr>cl_dial = True, cl_write_fails = (\<lambda>_. False), cl_reply = Some (string_bytes ''stream: OK'')\<rparr>"

theorem scan_covers_file_witness:
  "\<exists>body. snd (Scan \<lparr>ca_MaxBytes = 100, ca_ChunkSize = 2\<rparr> clean_clamd [1, 2, 3] False 3)
      = string_bytes (''zINSTREAM'' @ [char_of (0 :: nat)]) @ body \<and> instream_payload body = Some [1, 2, 3]"
proof -
  let ?scan = "Scan \<lparr>ca_MaxBytes = 100, ca_ChunkSize = 2\<rparr> clean_clamd [1, 2, 3] False 3"
  have "case fst ?scan of Inr v \<Rightarrow> sc_Clean v | _ \<Rightarrow> False" by code_simp
  then obtain v where "?scan = (Inr v, snd ?scan)" by (cases ?scan) (auto split: sum.splits)
  from scan_covers_file [OF this] show ?thesis by (auto simp: chunk_size_def)
qed

section \<open>Sizes\<close>

text \<open>Thumbnails shrink: a picture is never made larger, stays within the bound of its variant, and no side vanishes.\<close>

theorem thumbnail_shrinks:
  assumes "1 \<le> w" and "1 \<le> h" and "1 \<le> ts_MaxDim spec"
  shows "case thumbnail_size w h spec of (tw, th) \<Rightarrow>
    1 \<le> tw \<and> tw \<le> w \<and> tw \<le> ts_MaxDim spec \<and> 1 \<le> th \<and> th \<le> h \<and> th \<le> ts_MaxDim spec"
proof -
  have q: "go_quot (x * d) y = x * d div y" if "1 \<le> x" "1 \<le> d" "1 \<le> y" for x d y :: int
    using that by (simp add: go_quot_def)
  have d1: "x * d div y \<le> x" if "1 \<le> x" "1 \<le> d" "d \<le> y" for x d y :: int
    using that by (smt (verit) mult_left_mono zdiv_mono1 nonzero_mult_div_cancel_right)
  have d2: "x * d div y \<le> d" if "1 \<le> d" "1 \<le> x" "x \<le> y" for x d y :: int
    using d1 [of d x y] that by (simp add: mult.commute)
  show ?thesis
    using assms d1 [of h "ts_MaxDim spec" w] d2 [of "ts_MaxDim spec" h w] d1 [of w "ts_MaxDim spec" h] d2 [of "ts_MaxDim spec" w h]
    by (auto simp: thumbnail_size_def fit_def q Let_def)
qed

theorem thumbnail_shrinks_witness: "thumbnail_size 4000 3000 \<lparr>ts_Name = ''_m'', ts_MaxDim = 320, ts_Quality = 78\<rparr> = (320, 240)
    \<and> (1 :: int) \<le> fst (thumbnail_size 4000 3000 \<lparr>ts_Name = ''_m'', ts_MaxDim = 320, ts_Quality = 78\<rparr>)"
  using thumbnail_shrinks [of 4000 3000 "\<lparr>ts_Name = ''_m'', ts_MaxDim = 320, ts_Quality = 78\<rparr>"]
  by (simp add: thumbnail_size_def fit_def go_quot_def Let_def)

section \<open>What a job may write\<close>

text \<open>A property of the objects written that every upload of the job keeps.\<close>

lemma put_object_keeps:
  "P w \<Longrightarrow> (\<And>w. P w \<Longrightarrow> P (w\<lparr>xw_written := xw_written w @ [(ob, mime)]\<rparr>)) \<Longrightarrow> P (snd (put_object e what ob mime w))"
  by (simp add: put_object_def)

lemma image_loop_keeps:
  assumes "P w" and "\<And>spec w. spec \<in> set specs \<Longrightarrow> P w \<Longrightarrow>
      P (w\<lparr>xw_written := xw_written w @ [(variantObject ob (ts_Name spec) ''.jpg'', ''image/jpeg'')]\<rparr>)"
  shows "P (snd (image_loop cd e ob src info specs thumbs w))"
  using assms
proof (induction specs arbitrary: thumbs w)
  case (Cons spec specs)
  have IH: "P (snd (image_loop cd e ob src info specs thumbs w))" if "P w" for thumbs w
    using Cons.IH [OF that] Cons.prems(2) by simp
  have put: "P (snd (put_object e what (variantObject ob (ts_Name spec) ''.jpg'') ''image/jpeg'' w))" for what
    by (rule put_object_keeps [where P = P, OF Cons.prems(1)]) (simp add: Cons.prems(2))
  have "P (snd (and_then (put_object e what (variantObject ob (ts_Name spec) ''.jpg'') ''image/jpeg'' w)
      (\<lambda>_ w. image_loop cd e ob src info specs thumbs' w)))" for what thumbs'
    by (rule chain_and_then [where P = P, OF put IH])
  then show ?case using IH [OF Cons.prems(1)] Cons.prems(1) by (cases "Thumbnail cd src spec") (simp_all add: Let_def split_beta)
qed simp

lemma transcode_loop_keeps:
  assumes "P w" and "\<And>pr w. pr \<in> set prs \<Longrightarrow> P w \<Longrightarrow>
      P (w\<lparr>xw_written := xw_written w @ [(variantObject ob (tp_Name pr) ''.mp4'', ''video/mp4'')]\<rparr>)"
  shows "P (snd (transcode_loop e ob info prs variants w))"
  using assms
proof (induction prs arbitrary: variants w)
  case (Cons pr prs)
  have IH: "P (snd (transcode_loop e ob info prs variants w))" if "P w" for variants w
    using Cons.IH [OF that] Cons.prems(2) by simp
  have put: "P (snd (put_object e what (variantObject ob (tp_Name pr) ''.mp4'') ''video/mp4'' w))" for what
    by (rule put_object_keeps [where P = P, OF Cons.prems(1)]) (simp add: Cons.prems(2))
  have "P (snd (and_then (put_object e what (variantObject ob (tp_Name pr) ''.mp4'') ''video/mp4'' w)
      (\<lambda>_ w. transcode_loop e ob info prs variants' w)))" for what variants'
    by (rule chain_and_then [where P = P, OF put IH])
  then show ?case using IH [OF Cons.prems(1)] Cons.prems(1) by (cases "px_transcoded e (tp_Name pr)") (simp_all add: Let_def)
qed simp

lemma publish_loop_keeps:
  "P w \<Longrightarrow> (\<And>ob w. P w \<Longrightarrow> P (w\<lparr>xw_public := xw_public w @ [ob]\<rparr>)) \<Longrightarrow> P (snd (publish_loop e vs w))"
  by (induction vs arbitrary: w) auto

lemma process_keeps:
  assumes "P w"
    and up: "\<And>p x mime w. p \<in> set knownVariantSuffixes \<Longrightarrow> x \<in> {''.jpg'', ''.mp4''} \<Longrightarrow> P w \<Longrightarrow>
      P (w\<lparr>xw_written := xw_written w @ [(variantObject (mr_Object (mj_Media job)) p x, mime)]\<rparr>)"
    and pub: "\<And>ob w. P w \<Longrightarrow> P (w\<lparr>xw_public := xw_public w @ [ob]\<rparr>)"
    and comp: "\<And>m w. P w \<Longrightarrow> P (w\<lparr>xw_processed := xw_processed w @ [m]\<rparr>)"
  shows "P (snd (processImage cfg e job src w))" and "P (snd (processVideo e job w))"
proof -
  have t: "ts_Name spec \<in> set knownVariantSuffixes" if "spec \<in> set DefaultThumbnails" for spec
    using that by (auto simp: DefaultThumbnails_def knownVariantSuffixes_def)
  have pr: "tp_Name p \<in> set knownVariantSuffixes" if "p \<in> set DefaultProfiles" for p
    using that by (auto simp: DefaultProfiles_def knownVariantSuffixes_def)
  have fin: "P (snd (publishComplete e job d w))" if "P w" for d w using that comp by (simp add: publishComplete_def)
  have img: "P (snd (image_loop cd e (mr_Object (mj_Media job)) src info DefaultThumbnails thumbs w))" if "P w" for cd info thumbs w
    by (rule image_loop_keeps [where P = P]) (use that t up in auto)
  have vid: "P (snd (transcode_loop e (mr_Object (mj_Media job)) info DefaultProfiles vs w))" if "P w" for info vs w
    by (rule transcode_loop_keeps [where P = P]) (use that pr up in auto)
  have post: "P (snd (poster_step e job w))" if "P w" for w
  proof (cases "px_poster e")
    case (Some frame)
    have "P (snd (put_object e what (variantObject (mr_Object (mj_Media job)) ''_poster'' ''.jpg'') ''image/jpeg'' w))" for what
      by (rule put_object_keeps [where P = P, OF that]) (simp add: up knownVariantSuffixes_def)
    then show ?thesis using Some by (simp add: poster_step_def Let_def) (rule chain_and_then [where P = P], simp_all)
  qed (simp add: poster_step_def that)
  have pubs: "P (snd (if b then publish_loop e vs w else (Inr (), w)))" if "P w" for b vs w
    using publish_loop_keeps [where P = P, OF that] pub that by simp
  show "P (snd (processImage cfg e job src w))"
  proof (cases "Probe (xc_codecs cfg) src")
    case (Inr info)
    have "P (snd (and_then (image_loop (xc_codecs cfg) e (mr_Object (mj_Media job)) src info DefaultThumbnails [] w) (\<lambda>thumbs w.
        and_then (if b then publish_loop e thumbs w else (Inr (), w)) (\<lambda>_ w. publishComplete e job (d thumbs) w))))" for b d
      by (rule chain_and_then [where P = P, OF img [OF assms(1)]], rule chain_and_then [where P = P, OF pubs]) (simp_all add: fin)
    then show ?thesis using assms(1) Inr by (simp add: processImage_def)
  qed (simp add: processImage_def assms(1))
  show "P (snd (processVideo e job w))"
  proof (cases "px_video e")
    case (Some info)
    have a: "P (snd (if b then poster_step e job w else (Inr [], w)))" for b using post assms(1) by simp
    have t: "P (snd (if b then transcode_loop e (mr_Object (mj_Media job)) info DefaultProfiles vs w else (Inr vs, w)))" if "P w" for b vs w
      using vid [OF that] that by simp
    have "P (snd (and_then (if b then poster_step e job w else (Inr [], w)) (\<lambda>vs w.
        and_then (if b' then transcode_loop e (mr_Object (mj_Media job)) info DefaultProfiles vs w else (Inr vs, w))
          (\<lambda>vs w. publishComplete e job (d vs) w))))" for b b' d
      by (rule chain_and_then [where P = P, OF a], rule chain_and_then [where P = P, OF t]) (simp_all add: fin)
    then show ?thesis using Some by (simp add: processVideo_def)
  qed (simp add: processVideo_def assms(1))
qed

lemma scan_step_written:
  "xw_written (snd (scan_step cfg e job content landed w)) = xw_written w \<and> xw_public (snd (scan_step cfg e job content landed w)) = xw_public w"
  by (auto simp: scan_step_def quarantine_def publishQuarantine_def Let_def split: sum.split option.split)

lemma process_job_scanned:
  assumes "process_job cfg e job w = (r, w')" and "(xw_written w', xw_public w') \<noteq> (xw_written w, xw_public w)"
  shows "\<exists>landed w1 src. px_attrs e = Inr landed \<and> landed \<le> xc_maxDownloadBytes cfg
    \<and> scan_step cfg e job (take (nat (xc_maxDownloadBytes cfg + 1)) (px_content e)) landed w = (Inr True, w1)
    \<and> (w' = snd (processImage cfg e job src w1) \<or> w' = snd (processVideo e job w1))"
proof -
  from assms obtain landed where l: "px_attrs e = Inr landed" "landed \<le> xc_maxDownloadBytes cfg" "mr_Object (mj_Media job) \<noteq> ''''"
    "\<not> px_down e CallMkdir" "\<not> px_down e CallDownload"
    by (auto simp: process_job_def split: sum.splits if_splits)
  let ?content = "take (nat (xc_maxDownloadBytes cfg + 1)) (px_content e)"
  let ?s = "scan_step cfg e job ?content landed w"
  note sw = scan_step_written [of cfg e job ?content landed w]
  obtain r1 w1 where s: "?s = (r1, w1)" by (cases ?s)
  have same: "\<not> (xw_written w' = xw_written w1 \<and> xw_public w' = xw_public w1)" using assms(2) sw s by auto
  have "r1 = Inr True" using assms(1) l s same by (cases r1) (auto simp: process_job_def and_then_def Let_def split: if_splits)
  moreover from this have "w' = snd (processImage cfg e job ?content w1) \<or> w' = snd (processVideo e job w1)"
    using assms(1) l s same by (auto simp: process_job_def and_then_def Let_def split: if_splits)
  ultimately show ?thesis using l s by blast
qed


text \<open>All that was added to the objects of before are derivatives of one object.\<close>

definition only_variants :: "string \<Rightarrow> (string \<times> string) list \<Rightarrow> proc_world \<Rightarrow> bool" where
  "only_variants original before w =
     (\<forall>ob mime. (ob, mime) \<in> set (xw_written w) \<longrightarrow> (ob, mime) \<notin> set before \<longrightarrow> ACLKey ob = ACLKey original \<and> IsVariant ob)"

text \<open>C24. Derivatives cannot be more visible than their original: every object the processor writes for an upload has the
  permission key of that upload, so the binding that governs the original governs it too.\<close>

theorem derivatives_share_permissions:
  assumes "process_job cfg e job w = (r, w')" and "case_table_ok uni" and "uuid_ok u" and "kind \<in> set media_kinds"
    and "mr_Object (mj_Media job) = ObjectPath uni today u ownerID kind f"
    and "(ob, mime) \<in> set (xw_written w')" and "(ob, mime) \<notin> set (xw_written w)"
  shows "ACLKey ob = ACLKey (mr_Object (mj_Media job)) \<and> IsVariant ob"
proof -
  have v: "ACLKey (variantObject (mr_Object (mj_Media job)) p x) = ACLKey (mr_Object (mj_Media job))
      \<and> IsVariant (variantObject (mr_Object (mj_Media job)) p x)" if "p \<in> set knownVariantSuffixes" "x \<in> {''.jpg'', ''.mp4''}" for p x
    using variant_key [OF assms(2-5) that] by blast
  have "(xw_written w', xw_public w') \<noteq> (xw_written w, xw_public w)" using assms(6,7) by auto
  from process_job_scanned [OF assms(1) this] obtain landed w1 src
    where sc: "scan_step cfg e job (take (nat (xc_maxDownloadBytes cfg + 1)) (px_content e)) landed w = (Inr True, w1)"
      and w': "w' = snd (processImage cfg e job src w1) \<or> w' = snd (processVideo e job w1)" by blast
  have w1: "only_variants (mr_Object (mj_Media job)) (xw_written w) w1"
    using scan_step_written [of cfg e job _ landed w] sc by (metis only_variants_def snd_conv)
  have "only_variants (mr_Object (mj_Media job)) (xw_written w) w'"
    using w' process_keeps [where P = "only_variants (mr_Object (mj_Media job)) (xw_written w)" and job = job and w = w1, OF w1] v
    by (auto simp: only_variants_def)
  then show ?thesis using assms(6,7) by (auto simp: only_variants_def)
qed

section \<open>A photo\<close>

definition small_scanner :: ClamAV where "small_scanner = \<lparr>ca_MaxBytes = 100, ca_ChunkSize = 2\<rparr>"

definition sample_job :: MediaJob where
  "sample_job =
     \<lparr>mj_UploadID = ''u'', mj_OwnerID = 42,
      mj_Media = \<lparr>mr_Bucket = ''b'', mr_Object = ''photo/2026/08/17/42/ab-1.jpg'', mr_MimeType = ''image/jpeg'', mr_SizeBytes = 3,
        mr_Width = 0, mr_Height = 0, mr_DurationMS = 0, mr_ThumbObject = ''''\<rparr>,
      mj_Ops = [''scan'', ''thumbnail''], mj_CreatedAt = 0\<rparr>"

definition sample_proc_cfg :: proc_cfg where
  "sample_proc_cfg =
     \<lparr>xc_scanner = Some small_scanner,
      xc_codecs = \<lparr>cd_header = (\<lambda>_. Some (400, 300, ''jpeg'')), cd_decode = (\<lambda>_ _. Some (400, 300)), cd_encode = (\<lambda>_ _ _. Some [9])\<rparr>,
      xc_transcoder = True, xc_publicBucket = '''', xc_maxDownloadBytes = 4, xc_decode = (\<lambda>_. Some sample_job), xc_marshal = (\<lambda>_. None)\<rparr>"

definition sample_proc_env :: "string \<Rightarrow> proc_env" where
  "sample_proc_env verdict =
     \<lparr>px_now = 0, px_attrs = Inr 3, px_down = (\<lambda>_. False), px_content = [1, 2, 3],
      px_clamd = clean_clamd\<lparr>cl_reply := Some (string_bytes verdict)\<rparr>, px_read_fails = False, px_video = None, px_poster = None,
      px_transcoded = (\<lambda>_. None)\<rparr>"

definition empty_proc :: proc_world where
  "empty_proc = \<lparr>xw_written = [], xw_public = [], xw_deleted = [], xw_processed = [], xw_audit = None\<rparr>"

definition sample_scan :: "string \<Rightarrow> scan_error + ScanResult" where
  "sample_scan verdict =
     fst (Scan small_scanner (px_clamd (sample_proc_env verdict)) (take (nat (xc_maxDownloadBytes sample_proc_cfg + 1))
       (px_content (sample_proc_env verdict)))       (px_read_fails (sample_proc_env verdict)) 3)"

lemma sample_job_runs:
  "map fst (xw_written (snd (process_job sample_proc_cfg (sample_proc_env ''stream: OK'') sample_job empty_proc)))
     = [''photo/2026/08/17/42/ab-1_s.jpg'', ''photo/2026/08/17/42/ab-1_m.jpg'']"
  "fst (process_job sample_proc_cfg (sample_proc_env ''stream: Eicar FOUND'') sample_job empty_proc) = Inr ()"
  "sample_scan ''stream: Eicar FOUND'' = Inr \<lparr>sc_Clean = False, sc_Threat = ''Eicar''\<rparr>"
  by code_simp+


theorem derivatives_share_permissions_witness:
  "ACLKey ''photo/2026/08/17/42/ab-1_s.jpg'' = ACLKey ''photo/2026/08/17/42/ab-1.jpg'' \<and> IsVariant ''photo/2026/08/17/42/ab-1_s.jpg''"
proof -
  let ?run = "process_job sample_proc_cfg (sample_proc_env ''stream: OK'') sample_job empty_proc"
  have o: "mr_Object (mj_Media sample_job) = ObjectPath (\<lambda>_. replacement_rune) (2026, 8, 17) ''ab-1'' 42 ''photo'' ''me.JPG''"
    by code_simp
  have "''photo/2026/08/17/42/ab-1_s.jpg'' \<in> set (map fst (xw_written (snd ?run)))" by (simp add: sample_job_runs(1))
  then obtain mime where m: "(''photo/2026/08/17/42/ab-1_s.jpg'', mime) \<in> set (xw_written (snd ?run))" by auto
  have h: "case_table_ok (\<lambda>_. replacement_rune)" "uuid_ok ''ab-1''" "''photo'' \<in> set media_kinds"
    by (simp_all add: case_table_ok_def uuid_ok_def media_kinds_def replacement_rune_def char_of_def)
  from derivatives_share_permissions [OF prod.collapse [symmetric] h o m] show ?thesis
    by (simp add: empty_proc_def sample_job_def)
qed

end
