(* ===== verification/Accounts.thy ===== *)
theory Accounts
  imports Chat_Tables Go_Crypto
begin

text \<open>
  The account tables of \<^verbatim>\<open>pkg/pgstore\<close>: users, devices and verification challenges (\<^verbatim>\<open>users.go\<close>), contacts and blocks
  (\<^verbatim>\<open>contacts.go\<close>).  Each repository method is the effect of its SQL statement on the record \<open>accounts\<close>, the
  constraints and unique indexes of \<^verbatim>\<open>db/postgres/migrations/0001_init.sql\<close> included.  A statement that reaches the
  database is atomic; whether it reaches it is decided by its caller.  Times are milliseconds.
\<close>

section \<open>Rows\<close>

record User =
  us_ID :: int
  us_Phone :: string
  us_Username :: "string option"
  us_DisplayName :: string
  us_AboutText :: string
  us_AvatarObj :: "string option"
  us_LangCode :: string
  us_CreatedAt :: int
  us_UpdatedAt :: int
  us_DeletedAt :: "int option"
  us_Banned :: bool

record Device =
  dv_ID :: int
  dv_UserID :: int
  dv_AuthKeyID :: string
  dv_Platform :: string
  dv_AppVersion :: string
  dv_DeviceModel :: string
  dv_PushToken :: "string option"
  dv_LastIP :: string
  dv_CreatedAt :: int
  dv_LastSeenAt :: int
  dv_RevokedAt :: "int option"

record OTPChallenge =
  ot_ID :: string
  ot_Phone :: string
  ot_CodeHash :: string
  ot_Attempts :: int
  ot_CreatedAt :: int
  ot_ExpiresAt :: int
  ot_ConsumedAt :: "int option"

record Contact =
  co_OwnerID :: int
  co_UserID :: int
  co_FirstName :: string
  co_LastName :: string
  co_AddedAt :: int

text \<open>The blocklist maps a pair of blocker and blocked to the time of the block.\<close>

record accounts =
  ac_users :: "(int \<times> User) list"
  ac_devices :: "(int \<times> Device) list"
  ac_otps :: "(string \<times> OTPChallenge) list"
  ac_contacts :: "((int \<times> int) \<times> Contact) list"
  ac_blocks :: "((int \<times> int) \<times> int) list"

definition empty_accounts :: accounts where
  "empty_accounts = \<lparr>ac_users = [], ac_devices = [], ac_otps = [], ac_contacts = [], ac_blocks = []\<rparr>"

text \<open>\<^verbatim>\<open>UPDATE ... WHERE\<close>: the rows that satisfy the condition are changed in place.\<close>

definition update_where :: "('v \<Rightarrow> bool) \<Rightarrow> ('v \<Rightarrow> 'v) \<Rightarrow> ('k \<times> 'v) list \<Rightarrow> ('k \<times> 'v) list" where
  "update_where P f al = map (\<lambda>(k, v). (k, if P v then f v else v)) al"

definition rows_where :: "('v \<Rightarrow> bool) \<Rightarrow> ('k \<times> 'v) list \<Rightarrow> 'v list" where
  "rows_where P al = filter P (map snd al)"

section \<open>Users\<close>

text \<open>The check constraints; the pattern of a number is that of \<^verbatim>\<open>e164\<close> in the auth service too.\<close>

definition is_e164 :: "string \<Rightarrow> bool" where
  "is_e164 s =
     (case s of
        p # d # ds \<Rightarrow> p = CHR ''+'' \<and> is_digit d \<and> d \<noteq> CHR ''0'' \<and> list_all is_digit ds \<and> 7 \<le> length ds \<and> length ds \<le> 14
      | _ \<Rightarrow> False)"

definition deleted_phone :: "int \<Rightarrow> string" where
  "deleted_phone i = ''deleted:'' @ itoa i"

definition phone_format :: "string \<Rightarrow> bool" where
  "phone_format p =
     (is_e164 p \<or> (HasPrefix p ''deleted:'' \<and> drop 8 p \<noteq> [] \<and> list_all is_digit (drop 8 p)))"

definition user_checks :: "User \<Rightarrow> bool" where
  "user_checks u =
     (phone_format (us_Phone u) \<and> 1 \<le> rune_count (us_DisplayName u) \<and> rune_count (us_DisplayName u) \<le> 64
      \<and> rune_count (us_AboutText u) \<le> 280)"

definition live_user :: "User \<Rightarrow> bool" where
  "live_user u = (us_DeletedAt u = None)"

text \<open>Usernames are ASCII: \<^verbatim>\<open>handleSetUsername\<close> admits nothing else, so \<^verbatim>\<open>lower\<close> maps letters only.\<close>

definition lower_username :: "string \<Rightarrow> string" where
  "lower_username s = map (\<lambda>c. if byte_in 65 90 c then char_of (char_byte c + 32) else c) s"

text \<open>The two unique indexes, as the conflict an inserted or changed row would meet.\<close>

definition user_conflict :: "(int \<times> User) list \<Rightarrow> User \<Rightarrow> bool" where
  "user_conflict users u =
     list_ex (\<lambda>(_, v). us_ID v \<noteq> us_ID u \<and> live_user u \<and> live_user v
        \<and> (us_Phone v = us_Phone u
           \<or> (us_Username u \<noteq> None \<and> map_option lower_username (us_Username v) = map_option lower_username (us_Username u)))) users"

definition find_user :: "(User \<Rightarrow> bool) \<Rightarrow> accounts \<Rightarrow> pg_error + User" where
  "find_user P t = (case rows_where (\<lambda>u. P u \<and> live_user u) (ac_users t) of [] \<Rightarrow> Inl PgNotFound | u # _ \<Rightarrow> Inr u)"

definition Account_GetByID :: "accounts \<Rightarrow> int \<Rightarrow> pg_error + User" where
  "Account_GetByID t i = find_user (\<lambda>u. us_ID u = i) t"

definition Account_GetByPhone :: "accounts \<Rightarrow> string \<Rightarrow> pg_error + User" where
  "Account_GetByPhone t phone = find_user (\<lambda>u. us_Phone u = phone) t"

definition Account_GetMany :: "accounts \<Rightarrow> int list \<Rightarrow> (int \<times> User) list" where
  "Account_GetMany t is = (if is = [] then [] else map (\<lambda>u. (us_ID u, u)) (rows_where (\<lambda>u. us_ID u \<in> set is \<and> live_user u) (ac_users t)))"

definition new_user :: "int \<Rightarrow> int \<Rightarrow> string \<Rightarrow> string \<Rightarrow> string \<Rightarrow> User" where
  "new_user now i phone displayName langCode =
     \<lparr>us_ID = i, us_Phone = phone, us_Username = None, us_DisplayName = displayName, us_AboutText = '''', us_AvatarObj = None,
      us_LangCode = (if langCode = '''' then ''en'' else langCode), us_CreatedAt = now, us_UpdatedAt = now, us_DeletedAt = None,
      us_Banned = False\<rparr>"

definition Account_Create :: "int \<Rightarrow> int \<Rightarrow> string \<Rightarrow> string \<Rightarrow> string \<Rightarrow> accounts \<Rightarrow> (pg_error + User) \<times> accounts" where
  "Account_Create now i phone displayName langCode t =
     (let u = new_user now i phone displayName langCode
      in if \<not> user_checks u then (Inl PgCheck, t)
         else if map_of (ac_users t) i \<noteq> None \<or> user_conflict (ac_users t) u then (Inl PgConflict, t)
         else (Inr u, t\<lparr>ac_users := ac_users t @ [(i, u)]\<rparr>))"

text \<open>An update of one live row by its key: no row, a constraint, or the new row.\<close>

definition update_user :: "int \<Rightarrow> int \<Rightarrow> (User \<Rightarrow> User) \<Rightarrow> accounts \<Rightarrow> (pg_error + User) \<times> accounts" where
  "update_user now i f t =
     (case Account_GetByID t i of
        Inl err \<Rightarrow> (Inl err, t)
      | Inr u \<Rightarrow>
          let u' = (f u)\<lparr>us_UpdatedAt := now\<rparr>
          in if \<not> user_checks u' then (Inl PgCheck, t)
             else if user_conflict (ac_users t) u' then (Inl PgConflict, t)
             else (Inr u', t\<lparr>ac_users := update_where (\<lambda>v. us_ID v = i) (\<lambda>_. u') (ac_users t)\<rparr>))"

definition UpdateProfile ::
  "int \<Rightarrow> int \<Rightarrow> string option \<Rightarrow> string option \<Rightarrow> string option \<Rightarrow> string option \<Rightarrow> accounts \<Rightarrow> (pg_error + User) \<times> accounts" where
  "UpdateProfile now i displayName about avatarObj langCode t =
     (if displayName = None \<and> about = None \<and> avatarObj = None \<and> langCode = None then (Account_GetByID t i, t)
      else update_user now i (\<lambda>u. u\<lparr>us_DisplayName := coalesce displayName (us_DisplayName u),
             us_AboutText := coalesce about (us_AboutText u),
             us_AvatarObj := (if avatarObj = None then us_AvatarObj u else avatarObj),
             us_LangCode := coalesce langCode (us_LangCode u)\<rparr>) t)"

text \<open>\<^verbatim>\<open>SetUsername\<close> and \<^verbatim>\<open>SoftDelete\<close> do not look at the number of rows changed.\<close>

definition no_row_is_fine :: "(pg_error + 'a) \<times> accounts \<Rightarrow> (pg_error + unit) \<times> accounts" where
  "no_row_is_fine r = (case r of (Inl PgNotFound, t) \<Rightarrow> (Inr (), t) | (Inl err, t) \<Rightarrow> (Inl err, t) | (Inr _, t) \<Rightarrow> (Inr (), t))"

definition SetUsername :: "int \<Rightarrow> int \<Rightarrow> string \<Rightarrow> accounts \<Rightarrow> (pg_error + unit) \<times> accounts" where
  "SetUsername now i username t =
     no_row_is_fine (update_user now i (\<lambda>u. u\<lparr>us_Username := (if username = '''' then None else Some username)\<rparr>) t)"

definition Account_SoftDelete :: "int \<Rightarrow> int \<Rightarrow> accounts \<Rightarrow> (pg_error + unit) \<times> accounts" where
  "Account_SoftDelete now i t =
     no_row_is_fine (update_user now i (\<lambda>u. u\<lparr>us_DeletedAt := Some now, us_Phone := deleted_phone i, us_Username := None,
        us_DisplayName := ''Deleted Account'', us_AvatarObj := None, us_AboutText := ''''\<rparr>) t)"

section \<open>Devices\<close>

definition platforms :: "string list" where
  "platforms = [''android'', ''ios'', ''web'', ''desktop'', ''tcp'', ''udp'', ''ws'', ''unknown'']"

definition live_device :: "Device \<Rightarrow> bool" where
  "live_device d = (dv_RevokedAt d = None)"

definition Devices_GetByAuthKey :: "accounts \<Rightarrow> string \<Rightarrow> pg_error + Device" where
  "Devices_GetByAuthKey t key =
     (case rows_where (\<lambda>d. dv_AuthKeyID d = key \<and> live_device d) (ac_devices t) of [] \<Rightarrow> Inl PgNotFound | d # _ \<Rightarrow> Inr d)"

text \<open>\<^verbatim>\<open>Upsert\<close>: a check fails before a conflict is looked for; on a conflict of the auth key the existing row is
  refreshed and returned, its owner unchanged.\<close>

definition Devices_Upsert ::
  "int \<Rightarrow> int \<Rightarrow> int \<Rightarrow> string \<Rightarrow> string \<Rightarrow> string \<Rightarrow> string \<Rightarrow> string \<Rightarrow> accounts \<Rightarrow> (pg_error + Device) \<times> accounts" where
  "Devices_Upsert now i userID authKeyID platform appVersion deviceModel lastIP t =
     (if platform \<notin> set platforms then (Inl PgCheck, t)
      else case rows_where (\<lambda>d. dv_AuthKeyID d = authKeyID) (ac_devices t) of
        d # _ \<Rightarrow>
          let d' = d\<lparr>dv_LastSeenAt := now, dv_LastIP := lastIP, dv_AppVersion := appVersion, dv_RevokedAt := None\<rparr>
          in (Inr d', t\<lparr>ac_devices := update_where (\<lambda>x. dv_AuthKeyID x = authKeyID) (\<lambda>_. d') (ac_devices t)\<rparr>)
      | [] \<Rightarrow>
          if map_of (ac_devices t) i \<noteq> None then (Inl PgConflict, t)
          else if map_of (ac_users t) userID = None then (Inl PgForeignKey, t)
          else
            let d = \<lparr>dv_ID = i, dv_UserID = userID, dv_AuthKeyID = authKeyID, dv_Platform = platform, dv_AppVersion = appVersion,
                     dv_DeviceModel = deviceModel, dv_PushToken = None, dv_LastIP = lastIP, dv_CreatedAt = now, dv_LastSeenAt = now,
                     dv_RevokedAt = None\<rparr>
            in (Inr d, t\<lparr>ac_devices := ac_devices t @ [(i, d)]\<rparr>))"

definition ListForUser :: "accounts \<Rightarrow> int \<Rightarrow> Device list" where
  "ListForUser t userID = sort_key (\<lambda>d. - dv_LastSeenAt d) (rows_where (\<lambda>d. dv_UserID d = userID \<and> live_device d) (ac_devices t))"

definition SetPushToken :: "int \<Rightarrow> int \<Rightarrow> string \<Rightarrow> accounts \<Rightarrow> accounts" where
  "SetPushToken now deviceID token t =
     t\<lparr>ac_devices := update_where (\<lambda>d. dv_ID d = deviceID)
        (\<lambda>d. d\<lparr>dv_PushToken := (if token = '''' then None else Some token), dv_LastSeenAt := now\<rparr>) (ac_devices t)\<rparr>"

record PushTarget =
  pt_DeviceID :: int
  pt_Token :: string
  pt_Platform :: string

definition push_target :: "Device \<Rightarrow> PushTarget option" where
  "push_target d = map_option (\<lambda>tok. \<lparr>pt_DeviceID = dv_ID d, pt_Token = tok, pt_Platform = dv_Platform d\<rparr>) (dv_PushToken d)"

definition PushTargetsFor :: "accounts \<Rightarrow> int list \<Rightarrow> int \<Rightarrow> PushTarget list" where
  "PushTargetsFor t userIDs u =
     (if u \<in> set userIDs then List.map_filter push_target (rows_where (\<lambda>d. dv_UserID d = u \<and> live_device d) (ac_devices t)) else [])"

definition ClearPushToken :: "int \<Rightarrow> accounts \<Rightarrow> accounts" where
  "ClearPushToken deviceID t =
     t\<lparr>ac_devices := update_where (\<lambda>d. dv_ID d = deviceID) (\<lambda>d. d\<lparr>dv_PushToken := None\<rparr>) (ac_devices t)\<rparr>"

definition revoke_where :: "int \<Rightarrow> (Device \<Rightarrow> bool) \<Rightarrow> accounts \<Rightarrow> int \<times> accounts" where
  "revoke_where now P t =
     (int (length (rows_where (\<lambda>d. P d \<and> live_device d) (ac_devices t))),
      t\<lparr>ac_devices := update_where (\<lambda>d. P d \<and> live_device d) (\<lambda>d. d\<lparr>dv_RevokedAt := Some now, dv_PushToken := None\<rparr>) (ac_devices t)\<rparr>)"

definition Revoke :: "int \<Rightarrow> int \<Rightarrow> int \<Rightarrow> accounts \<Rightarrow> (pg_error + unit) \<times> accounts" where
  "Revoke now userID deviceID t =
     (case revoke_where now (\<lambda>d. dv_ID d = deviceID \<and> dv_UserID d = userID) t of
        (n, t') \<Rightarrow> (if n = 0 then Inl PgNotFound else Inr (), t'))"

definition RevokeAllExcept :: "int \<Rightarrow> int \<Rightarrow> int \<Rightarrow> accounts \<Rightarrow> int \<times> accounts" where
  "RevokeAllExcept now userID keepDeviceID t = revoke_where now (\<lambda>d. dv_UserID d = userID \<and> dv_ID d \<noteq> keepDeviceID) t"

definition Touch :: "int \<Rightarrow> int \<Rightarrow> string \<Rightarrow> accounts \<Rightarrow> accounts" where
  "Touch now deviceID ip t =
     t\<lparr>ac_devices := update_where (\<lambda>d. dv_ID d = deviceID) (\<lambda>d. d\<lparr>dv_LastSeenAt := now, dv_LastIP := ip\<rparr>) (ac_devices t)\<rparr>"

section \<open>Challenges\<close>

text \<open>The lifetime is cut to whole seconds when it is written into the statement.\<close>

definition OTP_Create :: "int \<Rightarrow> string \<Rightarrow> string \<Rightarrow> string \<Rightarrow> int \<Rightarrow> accounts \<Rightarrow> (pg_error + OTPChallenge) \<times> accounts" where
  "OTP_Create now i phone codeHash ttl t =
     (if map_of (ac_otps t) i \<noteq> None then (Inl PgConflict, t)
      else
        let c = \<lparr>ot_ID = i, ot_Phone = phone, ot_CodeHash = codeHash, ot_Attempts = 0, ot_CreatedAt = now,
                 ot_ExpiresAt = now + go_quot ttl 1000 * 1000, ot_ConsumedAt = None\<rparr>
        in (Inr c, t\<lparr>ac_otps := ac_otps t @ [(i, c)]\<rparr>))"

definition OTP_Get :: "accounts \<Rightarrow> string \<Rightarrow> pg_error + OTPChallenge" where
  "OTP_Get t i = (case map_of (ac_otps t) i of None \<Rightarrow> Inl PgNotFound | Some c \<Rightarrow> Inr c)"

definition IncrementAttempts :: "string \<Rightarrow> accounts \<Rightarrow> (pg_error + int) \<times> accounts" where
  "IncrementAttempts i t =
     (case map_of (ac_otps t) i of
        None \<Rightarrow> (Inl PgNotFound, t)
      | Some c \<Rightarrow>
          (Inr (ot_Attempts c + 1), t\<lparr>ac_otps := AList.update i (c\<lparr>ot_Attempts := ot_Attempts c + 1\<rparr>) (ac_otps t)\<rparr>))"

definition Consume :: "int \<Rightarrow> string \<Rightarrow> accounts \<Rightarrow> (pg_error + unit) \<times> accounts" where
  "Consume now i t =
     (case map_of (ac_otps t) i of
        None \<Rightarrow> (Inl PgNotFound, t)
      | Some c \<Rightarrow>
          if ot_ConsumedAt c = None \<and> now < ot_ExpiresAt c
          then (Inr (), t\<lparr>ac_otps := AList.update i (c\<lparr>ot_ConsumedAt := Some now\<rparr>) (ac_otps t)\<rparr>)
          else (Inl PgNotFound, t))"

definition PurgeExpired :: "int \<Rightarrow> accounts \<Rightarrow> int \<times> accounts" where
  "PurgeExpired now t =
     (let old = (\<lambda>c. ot_ExpiresAt c < now - 86400000)
      in (int (length (rows_where old (ac_otps t))), t\<lparr>ac_otps := filter (\<lambda>(_, c). \<not> old c) (ac_otps t)\<rparr>))"

section \<open>Contacts\<close>

text \<open>Base64 over an alphabet: a group of three bytes is four digits of six bits.\<close>

fun sextets :: "bytes \<Rightarrow> nat list" where
  "sextets [] = []"
| "sextets [a] = [unat a div 4, unat a mod 4 * 16]"
| "sextets [a, b] = [unat a div 4, unat a mod 4 * 16 + unat b div 16, unat b mod 16 * 4]"
| "sextets (a # b # c # rest) =
     [unat a div 4, unat a mod 4 * 16 + unat b div 16, unat b mod 16 * 4 + unat c div 64, unat c mod 64] @ sextets rest"

definition alphabet :: "string \<Rightarrow> nat \<Rightarrow> char" where
  "alphabet last_two i =
     (''ABCDEFGHIJKLMNOPQRSTUVWXYZabcdefghijklmnopqrstuvwxyz0123456789'' @ last_two) ! i"

definition RawURLEncoding :: "bytes \<Rightarrow> string" where
  "RawURLEncoding bs = map (alphabet ''-_'') (sextets bs)"

definition hmac_pad :: "byte \<Rightarrow> bytes \<Rightarrow> bytes" where
  "hmac_pad x key =
     (let k = (if 64 < length key then sha256 key else key) in map (\<lambda>b. b XOR x) (k @ replicate (64 - length k) 0))"

definition hmac_sha256 :: "bytes \<Rightarrow> bytes \<Rightarrow> bytes" where
  "hmac_sha256 key msg = sha256 (hmac_pad 0x5c key @ sha256 (hmac_pad 0x36 key @ msg))"

definition phone_bytes :: "string \<Rightarrow> bytes" where
  "phone_bytes s = map (\<lambda>c. word_of_nat (char_byte c)) s"

definition PhoneHash :: "bytes \<Rightarrow> string \<Rightarrow> string" where
  "PhoneHash pepper e164 = RawURLEncoding (hmac_sha256 pepper (phone_bytes e164))"

text \<open>The expression of the query: the padded standard encoding, translated character by character.\<close>

definition encode_base64 :: "bytes \<Rightarrow> string" where
  "encode_base64 bs = map (alphabet ''+/'') (sextets bs) @ replicate ((3 - length bs mod 3) mod 3) (CHR ''='')"

definition translate :: "string \<Rightarrow> string \<Rightarrow> string \<Rightarrow> string" where
  "translate from to s =
     concat (map (\<lambda>c. case map_of (zip from [0..<length from]) c of
                        None \<Rightarrow> [c] | Some i \<Rightarrow> if i < length to then [to ! i] else []) s)"

definition sql_phone_hash :: "bytes \<Rightarrow> string \<Rightarrow> string" where
  "sql_phone_hash pepper phone = translate ''+/='' ''-_'' (encode_base64 (hmac_sha256 pepper (phone_bytes phone)))"

definition put_contact :: "int \<Rightarrow> int \<Rightarrow> int \<Rightarrow> string \<Rightarrow> string \<Rightarrow> accounts \<Rightarrow> (pg_error + unit) \<times> accounts" where
  "put_contact now ownerID userID firstName lastName t =
     (if ownerID = userID then (Inl PgCheck, t)
      else case map_of (ac_contacts t) (ownerID, userID) of
        Some c \<Rightarrow>
          (Inr (), t\<lparr>ac_contacts := AList.update (ownerID, userID) (c\<lparr>co_FirstName := firstName, co_LastName := lastName\<rparr>) (ac_contacts t)\<rparr>)
      | None \<Rightarrow>
          if map_of (ac_users t) ownerID = None \<or> map_of (ac_users t) userID = None then (Inl PgForeignKey, t)
          else (Inr (), t\<lparr>ac_contacts := ac_contacts t @ [((ownerID, userID),
            \<lparr>co_OwnerID = ownerID, co_UserID = userID, co_FirstName = firstName, co_LastName = lastName, co_AddedAt = now\<rparr>)]\<rparr>))"

definition Contacts_Add :: "int \<Rightarrow> int \<Rightarrow> int \<Rightarrow> string \<Rightarrow> string \<Rightarrow> accounts \<Rightarrow> (pg_error + unit) \<times> accounts" where
  "Contacts_Add now ownerID userID firstName lastName t =
     (if ownerID = userID then (Inl PgConflict, t) else put_contact now ownerID userID firstName lastName t)"

record ImportEntry =
  ie_PhoneHash :: string
  ie_FirstName :: string
  ie_LastName :: string

text \<open>The first entry of each hash, by hash; entries without one are dropped.\<close>

fun by_hash :: "ImportEntry list \<Rightarrow> (string \<times> ImportEntry) list \<Rightarrow> (string \<times> ImportEntry) list" where
  "by_hash [] seen = seen"
| "by_hash (e # es) seen =
     (if ie_PhoneHash e = '''' \<or> map_of seen (ie_PhoneHash e) \<noteq> None then by_hash es seen
      else by_hash es (seen @ [(ie_PhoneHash e, e)]))"

fun put_contacts :: "int \<Rightarrow> int \<Rightarrow> (int \<times> ImportEntry) list \<Rightarrow> accounts \<Rightarrow> (pg_error + unit) \<times> accounts" where
  "put_contacts now ownerID [] t = (Inr (), t)"
| "put_contacts now ownerID ((u, e) # rows) t =
     (case put_contact now ownerID u (ie_FirstName e) (ie_LastName e) t of
        (Inl err, _) \<Rightarrow> (Inl err, t) | (Inr _, t') \<Rightarrow> put_contacts now ownerID rows t')"

definition import_matches :: "bytes \<Rightarrow> int \<Rightarrow> (string \<times> ImportEntry) list \<Rightarrow> accounts \<Rightarrow> User list" where
  "import_matches pepper ownerID entries t =
     rows_where (\<lambda>u. us_ID u \<noteq> ownerID \<and> live_user u \<and> \<not> us_Banned u
        \<and> map_of entries (sql_phone_hash pepper (us_Phone u)) \<noteq> None) (ac_users t)"

definition Contacts_Import :: "int \<Rightarrow> int \<Rightarrow> bytes \<Rightarrow> ImportEntry list \<Rightarrow> accounts \<Rightarrow> (pg_error + User list) \<times> accounts" where
  "Contacts_Import now ownerID pepper entries t =
     (let hashes = by_hash entries []
      in if hashes = [] then (Inr [], t)
         else
           let matched = import_matches pepper ownerID hashes t
           in case put_contacts now ownerID
                (map (\<lambda>u. (us_ID u, the (map_of hashes (sql_phone_hash pepper (us_Phone u))))) matched) t of
                (Inl err, _) \<Rightarrow> (Inl err, t)
              | (Inr _, t') \<Rightarrow> (Inr (map (\<lambda>u. u\<lparr>us_Phone := ''''\<rparr>) matched), t'))"

text \<open>\<open>order\<close> sorts by the two names in the database's collation.\<close>

definition Contacts_List :: "(Contact list \<Rightarrow> Contact list) \<Rightarrow> accounts \<Rightarrow> int \<Rightarrow> int \<Rightarrow> int \<Rightarrow> Contact list" where
  "Contacts_List order t ownerID limit offset =
     (let n = (if limit \<le> 0 \<or> 1000 < limit then 200 else limit)
      in take (nat n) (drop (nat offset) (order (rows_where
           (\<lambda>c. co_OwnerID c = ownerID \<and> list_ex (\<lambda>(_, u). us_ID u = co_UserID c \<and> live_user u) (ac_users t)) (ac_contacts t)))))"

definition Contacts_Delete :: "int \<Rightarrow> int \<Rightarrow> accounts \<Rightarrow> (pg_error + unit) \<times> accounts" where
  "Contacts_Delete ownerID userID t =
     (if map_of (ac_contacts t) (ownerID, userID) = None then (Inl PgNotFound, t)
      else (Inr (), t\<lparr>ac_contacts := AList.delete (ownerID, userID) (ac_contacts t)\<rparr>))"

definition MutualIDs :: "accounts \<Rightarrow> int \<Rightarrow> int list" where
  "MutualIDs t userID = take 5000 (map co_OwnerID (rows_where (\<lambda>c. co_UserID c = userID) (ac_contacts t)))"

section \<open>Blocks\<close>

definition Blocks_Block :: "int \<Rightarrow> int \<Rightarrow> int \<Rightarrow> accounts \<Rightarrow> (pg_error + unit) \<times> accounts" where
  "Blocks_Block now ownerID blockedID t =
     (if ownerID = blockedID then (Inl PgConflict, t)
      else if map_of (ac_blocks t) (ownerID, blockedID) \<noteq> None then (Inr (), t)
      else if map_of (ac_users t) ownerID = None \<or> map_of (ac_users t) blockedID = None then (Inl PgForeignKey, t)
      else (Inr (), t\<lparr>ac_blocks := ac_blocks t @ [((ownerID, blockedID), now)]\<rparr>))"

definition Blocks_Unblock :: "int \<Rightarrow> int \<Rightarrow> accounts \<Rightarrow> accounts" where
  "Blocks_Unblock ownerID blockedID t = t\<lparr>ac_blocks := AList.delete (ownerID, blockedID) (ac_blocks t)\<rparr>"

definition Blocks_List :: "accounts \<Rightarrow> int \<Rightarrow> int list" where
  "Blocks_List t ownerID =
     map (\<lambda>((_, b), _). b) (sort_key (\<lambda>(_, at). - at) (filter (\<lambda>((a, _), _). a = ownerID) (ac_blocks t)))"

definition IsBlockedBetween :: "accounts \<Rightarrow> int \<Rightarrow> int \<Rightarrow> bool" where
  "IsBlockedBetween t a b = (map_of (ac_blocks t) (a, b) \<noteq> None \<or> map_of (ac_blocks t) (b, a) \<noteq> None)"

definition Blocks_BlockedAmong :: "accounts \<Rightarrow> int \<Rightarrow> int list \<Rightarrow> int list" where
  "Blocks_BlockedAmong t senderID candidates =
     map (\<lambda>((a, _), _). a) (filter (\<lambda>((a, b), _). b = senderID \<and> a \<in> set candidates) (ac_blocks t))"

section \<open>The invariant of the tables\<close>

lemma update_where_fst [simp]: "map fst (update_where P f al) = map fst al"
  by (induction al) (auto simp: update_where_def)

lemma map_of_update_where: "map_of (update_where P f al) k = map_option (\<lambda>v. if P v then f v else v) (map_of al k)"
  by (induction al) (auto simp: update_where_def)

lemma set_update_where: "(k, v) \<in> set (update_where P f al) \<longleftrightarrow> (\<exists>v0. (k, v0) \<in> set al \<and> v = (if P v0 then f v0 else v0))"
  by (force simp: update_where_def image_iff)

lemma rows_where_head:
  assumes "rows_where P al = v # vs"
  shows "P v \<and> (\<exists>k. (k, v) \<in> set al)"
proof -
  have "v \<in> set (filter P (map snd al))" using assms by (simp add: rows_where_def)
  then show ?thesis by auto
qed

lemma rows_where_Nil: "rows_where P al = [] \<longleftrightarrow> (\<forall>(k, v) \<in> set al. \<not> P v)"
  by (auto simp: rows_where_def filter_empty_conv)

text \<open>Keys are unique and are the rows' own; rows under different keys are compatible.\<close>

definition keyed :: "('v \<Rightarrow> 'k) \<Rightarrow> ('v \<Rightarrow> 'v \<Rightarrow> bool) \<Rightarrow> ('k \<times> 'v) list \<Rightarrow> bool" where
  "keyed key R al =
     (distinct (map fst al) \<and> (\<forall>k v. (k, v) \<in> set al \<longrightarrow> key v = k)
      \<and> (\<forall>k v k' v'. (k, v) \<in> set al \<longrightarrow> (k', v') \<in> set al \<longrightarrow> k \<noteq> k' \<longrightarrow> R v v'))"

lemma keyedD:
  assumes "keyed key R al"
  shows "distinct (map fst al)" "(k, v) \<in> set al \<Longrightarrow> key v = k"
    "(k, v) \<in> set al \<Longrightarrow> (k', v') \<in> set al \<Longrightarrow> k \<noteq> k' \<Longrightarrow> R v v'"
  using assms unfolding keyed_def by blast+

lemma keyed_map_of: "keyed key R al \<Longrightarrow> (k, v) \<in> set al \<longleftrightarrow> map_of al k = Some v"
  by (rule mem_iff_map_of [OF keyedD(1)])

lemma keyed_append:
  assumes "keyed key R al" and "map_of al (key v) = None" and "\<And>k v'. (k, v') \<in> set al \<Longrightarrow> R v v' \<and> R v' v"
  shows "keyed key R (al @ [(key v, v)])"
proof -
  have "key v \<notin> fst ` set al" using assms(2) by (simp add: map_of_eq_None_iff)
  then have "distinct (map fst (al @ [(key v, v)]))" using keyedD(1) [OF assms(1)] by simp
  moreover have "R x x'" if "(k, x) \<in> set (al @ [(key v, v)])" "(k', x') \<in> set (al @ [(key v, v)])" "k \<noteq> k'" for k x k' x'
  proof -
    from that consider "(k, x) \<in> set al" "(k', x') \<in> set al" | "x = v" "(k', x') \<in> set al" | "x' = v" "(k, x) \<in> set al" by auto
    then show ?thesis
      by cases (use keyedD(3) [OF assms(1)] that(3) in blast, use assms(3) in blast, use assms(3) in blast)
  qed
  moreover have "key x = k" if "(k, x) \<in> set (al @ [(key v, v)])" for k x
    using that keyedD(2) [OF assms(1)] by auto
  ultimately show ?thesis unfolding keyed_def by blast
qed

lemma keyed_update:
  assumes "keyed key R al" and "\<And>v. P v \<Longrightarrow> key (f v) = key v"
    and "\<And>k v k' v'. (k, v) \<in> set al \<Longrightarrow> (k', v') \<in> set al \<Longrightarrow> k \<noteq> k' \<Longrightarrow> P v \<Longrightarrow>
      R (f v) (if P v' then f v' else v') \<and> R (if P v' then f v' else v') (f v)"
  shows "keyed key R (update_where P f al)"
proof -
  have "R (if P v then f v else v) (if P v' then f v' else v')" if "(k, v) \<in> set al" "(k', v') \<in> set al" "k \<noteq> k'" for k v k' v'
    using keyedD(3) [OF assms(1) that] assms(3) [OF that] assms(3) [OF that(2,1)] that(3) by auto
  moreover have "key v = k" if "(k, v) \<in> set (update_where P f al)" for k v
  proof -
    from that obtain v0 where "(k, v0) \<in> set al" "v = (if P v0 then f v0 else v0)" unfolding set_update_where by blast
    then show ?thesis using keyedD(2) [OF assms(1)] assms(2) by (cases "P v0") simp_all
  qed
  moreover have "distinct (map fst (update_where P f al))" using keyedD(1) [OF assms(1)] by simp
  ultimately show ?thesis unfolding keyed_def set_update_where by blast
qed

lemma keyed_upsert:
  assumes "keyed key (\<lambda>_ _. True) al" and "key v = k"
  shows "keyed key (\<lambda>_ _. True) (AList.update k v al)"
proof -
  have "distinct (map fst (AList.update k v al))" using assms(1) by (simp add: keyed_def distinct_update)
  moreover have "key x = k'" if "(k', x) \<in> set (AList.update k v al)" for k' x
    using that set_update_subset [of k v al] keyedD(2) [OF assms(1)] assms(2) by auto
  ultimately show ?thesis by (auto simp: keyed_def)
qed

lemma keyed_filter: "keyed key R al \<Longrightarrow> keyed key R (filter P al)"
  unfolding keyed_def set_filter by (blast intro: distinct_map_filter)

lemma keyed_delete: "keyed key R al \<Longrightarrow> keyed key R (AList.delete k al)"
  unfolding AList.delete_eq by (rule keyed_filter)

definition users_apart :: "User \<Rightarrow> User \<Rightarrow> bool" where
  "users_apart u v =
     (live_user u \<longrightarrow> live_user v \<longrightarrow> us_Phone u \<noteq> us_Phone v
        \<and> (us_Username u \<noteq> None \<longrightarrow> map_option lower_username (us_Username u) \<noteq> map_option lower_username (us_Username v)))"

definition users_ok :: "(int \<times> User) list \<Rightarrow> bool" where
  "users_ok us = (keyed us_ID users_apart us \<and> (\<forall>k u. (k, u) \<in> set us \<longrightarrow> user_checks u))"

definition devices_ok :: "(int \<times> User) list \<Rightarrow> (int \<times> Device) list \<Rightarrow> bool" where
  "devices_ok us ds =
     (keyed dv_ID (\<lambda>d d'. dv_AuthKeyID d \<noteq> dv_AuthKeyID d') ds
      \<and> (\<forall>k d. (k, d) \<in> set ds \<longrightarrow> dv_Platform d \<in> set platforms \<and> map_of us (dv_UserID d) \<noteq> None))"

definition otps_ok :: "(string \<times> OTPChallenge) list \<Rightarrow> bool" where
  "otps_ok os = (keyed ot_ID (\<lambda>_ _. True) os \<and> (\<forall>k c. (k, c) \<in> set os \<longrightarrow> 0 \<le> ot_Attempts c))"

definition contacts_ok :: "(int \<times> User) list \<Rightarrow> ((int \<times> int) \<times> Contact) list \<Rightarrow> bool" where
  "contacts_ok us cs =
     (keyed (\<lambda>c. (co_OwnerID c, co_UserID c)) (\<lambda>_ _. True) cs
      \<and> (\<forall>k c. (k, c) \<in> set cs \<longrightarrow> co_OwnerID c \<noteq> co_UserID c \<and> map_of us (co_OwnerID c) \<noteq> None \<and> map_of us (co_UserID c) \<noteq> None))"

definition blocks_ok :: "(int \<times> User) list \<Rightarrow> ((int \<times> int) \<times> int) list \<Rightarrow> bool" where
  "blocks_ok us bs =
     (distinct (map fst bs) \<and> (\<forall>a b at. ((a, b), at) \<in> set bs \<longrightarrow> a \<noteq> b \<and> map_of us a \<noteq> None \<and> map_of us b \<noteq> None))"

definition accounts_ok :: "accounts \<Rightarrow> bool" where
  "accounts_ok t =
     (users_ok (ac_users t) \<and> devices_ok (ac_users t) (ac_devices t) \<and> otps_ok (ac_otps t)
      \<and> contacts_ok (ac_users t) (ac_contacts t) \<and> blocks_ok (ac_users t) (ac_blocks t))"

lemma empty_accounts_ok [simp]: "accounts_ok empty_accounts"
  by (simp add: accounts_ok_def empty_accounts_def users_ok_def devices_ok_def otps_ok_def contacts_ok_def blocks_ok_def keyed_def)

text \<open>Rows of users are never removed, so the references of the other tables survive every change of that table.\<close>

lemma accounts_ok_users:
  assumes "accounts_ok t" and "users_ok us" and "\<And>i. map_of (ac_users t) i \<noteq> None \<Longrightarrow> map_of us i \<noteq> None"
  shows "accounts_ok (t\<lparr>ac_users := us\<rparr>)"
proof -
  have "devices_ok us (ac_devices t)" using assms(1,3) unfolding accounts_ok_def devices_ok_def by blast
  moreover have "contacts_ok us (ac_contacts t)" using assms(1,3) unfolding accounts_ok_def contacts_ok_def by blast
  moreover have "blocks_ok us (ac_blocks t)" using assms(1,3) unfolding accounts_ok_def blocks_ok_def by blast
  ultimately show ?thesis using assms(1,2) by (simp add: accounts_ok_def)
qed

lemma not_conflict_apart:
  assumes "\<not> user_conflict us u" and "(k, v) \<in> set us" and "us_ID v \<noteq> us_ID u"
  shows "users_apart u v \<and> users_apart v u"
proof -
  have "\<forall>x \<in> set us. \<not> (case x of (_, v) \<Rightarrow> us_ID v \<noteq> us_ID u \<and> live_user u \<and> live_user v
        \<and> (us_Phone v = us_Phone u
           \<or> (us_Username u \<noteq> None \<and> map_option lower_username (us_Username v) = map_option lower_username (us_Username u))))"
    using assms(1) unfolding user_conflict_def list_ex_iff by blast
  from bspec [OF this assms(2)] show ?thesis using assms(3) by (cases "us_Username u"; cases "us_Username v") (auto simp: users_apart_def)
qed

lemma find_user_Inr: "find_user P t = Inr u \<Longrightarrow> (\<exists>k. (k, u) \<in> set (ac_users t)) \<and> P u \<and> live_user u"
proof (cases "rows_where (\<lambda>u. P u \<and> live_user u) (ac_users t)")
  case (Cons v vs)
  then show "find_user P t = Inr u \<Longrightarrow> ?thesis" using rows_where_head [OF Cons] by (simp add: find_user_def)
qed (simp add: find_user_def)

lemma find_user_Inl: "find_user P t = Inl err \<Longrightarrow> err = PgNotFound \<and> (\<forall>(k, u) \<in> set (ac_users t). \<not> (P u \<and> live_user u))"
  by (auto simp: find_user_def rows_where_Nil split: list.splits)

named_theorems keep_accounts

lemma Account_Create_ok [keep_accounts]:
  assumes "accounts_ok t"
  shows "accounts_ok (snd (Account_Create now i phone name lang t))"
proof -
  let ?u = "new_user now i phone name lang"
  have u: "users_ok (ac_users t)" using assms by (simp add: accounts_ok_def)
  have "users_ok (ac_users t @ [(i, ?u)])"
    if c: "user_checks ?u" "map_of (ac_users t) i = None" "\<not> user_conflict (ac_users t) ?u"
  proof -
    have i: "us_ID ?u = i" by (simp add: new_user_def)
    have "users_apart ?u v \<and> users_apart v ?u" if "(k, v) \<in> set (ac_users t)" for k v
    proof -
      have "us_ID v = k" using that u keyedD(2) by (fastforce simp: users_ok_def)
      moreover have "k \<noteq> i" using that c(2) weak_map_of_SomeI [of k v "ac_users t"] by auto
      ultimately show ?thesis using not_conflict_apart [OF c(3) that] i by simp
    qed
    then show ?thesis
      using keyed_append [of us_ID users_apart "ac_users t" ?u] u c(1,2) by (auto simp: users_ok_def i)
  qed
  then show ?thesis
    using assms accounts_ok_users [OF assms, of "ac_users t @ [(i, ?u)]"] by (auto simp: Account_Create_def Let_def map_add_def split: option.splits)
qed

lemma update_user_ok [keep_accounts]:
  assumes "accounts_ok t" and "\<And>u. us_ID (f u) = us_ID u"
  shows "accounts_ok (snd (update_user now i f t))"
proof (cases "Account_GetByID t i")
  case (Inr u)
  let ?u = "(f u)\<lparr>us_UpdatedAt := now\<rparr>"
  have us: "users_ok (ac_users t)" using assms by (simp add: accounts_ok_def)
  have i: "us_ID ?u = i" using find_user_Inr Inr assms(2) by (fastforce simp: Account_GetByID_def)
  have "users_ok (update_where (\<lambda>v. us_ID v = i) (\<lambda>_. ?u) (ac_users t))"
    if c: "user_checks ?u" "\<not> user_conflict (ac_users t) ?u"
  proof -
    have other: "users_apart ?u v \<and> users_apart v ?u" if "(k, v) \<in> set (ac_users t)" "us_ID v \<noteq> i" for k v
      using not_conflict_apart [OF c(2) that(1)] that(2) i by simp
    have "keyed us_ID users_apart (update_where (\<lambda>v. us_ID v = i) (\<lambda>_. ?u) (ac_users t))"
    proof (rule keyed_update)
      show k: "keyed us_ID users_apart (ac_users t)" using us by (simp add: users_ok_def)
      show "users_apart ?u (if us_ID v' = i then ?u else v') \<and> users_apart (if us_ID v' = i then ?u else v') ?u"
        if "(k, v) \<in> set (ac_users t)" "(k', v') \<in> set (ac_users t)" "k \<noteq> k'" "us_ID v = i" for k v k' v'
      proof -
        have "us_ID v' \<noteq> i" using keyedD(2) [OF k that(1)] keyedD(2) [OF k that(2)] that(3,4) by simp
        then show ?thesis using other [OF that(2)] by simp
      qed
    qed (simp add: i)
    then show ?thesis using us c(1) by (auto simp: users_ok_def set_update_where)
  qed
  then show ?thesis
    using assms(1) Inr accounts_ok_users [OF assms(1), of "update_where (\<lambda>v. us_ID v = i) (\<lambda>_. ?u) (ac_users t)"]
    by (auto simp: update_user_def Let_def map_of_update_where)
qed (simp add: update_user_def assms)

lemma no_row_is_fine_snd [simp]: "snd (no_row_is_fine r) = snd r"
  by (auto simp: no_row_is_fine_def split: prod.split sum.split pg_error.split)

lemma user_updates_ok [keep_accounts]:
  assumes "accounts_ok t"
  shows "accounts_ok (snd (UpdateProfile now i dn ab av lc t))" "accounts_ok (snd (SetUsername now i un t))"
    "accounts_ok (snd (Account_SoftDelete now i t))"
  using assms by (auto simp: UpdateProfile_def SetUsername_def Account_SoftDelete_def intro!: update_user_ok)

lemma devices_update_ok:
  assumes "devices_ok us ds" and "\<And>d. P d \<Longrightarrow> dv_ID (f d) = dv_ID d \<and> dv_AuthKeyID (f d) = dv_AuthKeyID d
      \<and> dv_Platform (f d) = dv_Platform d \<and> dv_UserID (f d) = dv_UserID d"
  shows "devices_ok us (update_where P f ds)"
proof -
  have "keyed dv_ID (\<lambda>d d'. dv_AuthKeyID d \<noteq> dv_AuthKeyID d') (update_where P f ds)"
  proof (rule keyed_update)
    show k: "keyed dv_ID (\<lambda>d d'. dv_AuthKeyID d \<noteq> dv_AuthKeyID d') ds" using assms(1) by (simp add: devices_ok_def)
    show "dv_AuthKeyID (f v) \<noteq> dv_AuthKeyID (if P v' then f v' else v') \<and> dv_AuthKeyID (if P v' then f v' else v') \<noteq> dv_AuthKeyID (f v)"
      if "(k, v) \<in> set ds" "(k', v') \<in> set ds" "k \<noteq> k'" "P v" for k v k' v'
      using keyedD(3) [OF k that(1-3)] assms(2) that(4) by auto
  qed (use assms in simp)
  moreover have "dv_Platform d \<in> set platforms \<and> map_of us (dv_UserID d) \<noteq> None" if kd: "(k, d) \<in> set (update_where P f ds)" for k d
  proof -
    from kd obtain d0 where "(k, d0) \<in> set ds" "d = (if P d0 then f d0 else d0)" by (auto simp: set_update_where)
    then show ?thesis using assms by (auto simp: devices_ok_def)
  qed
  ultimately show ?thesis by (simp add: devices_ok_def)
qed

lemma device_updates_ok [keep_accounts]:
  assumes "accounts_ok t"
  shows "accounts_ok (SetPushToken now i tok t)" "accounts_ok (ClearPushToken i t)" "accounts_ok (snd (revoke_where now P t))"
    "accounts_ok (snd (Revoke now u i t))" "accounts_ok (snd (RevokeAllExcept now u i t))" "accounts_ok (Touch now i ip t)"
proof -
  have d: "devices_ok (ac_users t) (ac_devices t)" using assms by (simp add: accounts_ok_def)
  have r: "accounts_ok (snd (revoke_where now P t))" for P
    using assms devices_update_ok [OF d] by (simp add: revoke_where_def accounts_ok_def)
  show "accounts_ok (SetPushToken now i tok t)" "accounts_ok (ClearPushToken i t)" "accounts_ok (Touch now i ip t)"
    using assms devices_update_ok [OF d] by (simp_all add: SetPushToken_def ClearPushToken_def Touch_def accounts_ok_def)
  show "accounts_ok (snd (revoke_where now P t))" "accounts_ok (snd (RevokeAllExcept now u i t))" by (simp_all add: r RevokeAllExcept_def)
  show "accounts_ok (snd (Revoke now u i t))"
    using r [of "\<lambda>d. dv_ID d = i \<and> dv_UserID d = u"] by (simp add: Revoke_def split_beta)
qed

lemma Devices_Upsert_ok [keep_accounts]:
  assumes "accounts_ok t"
  shows "accounts_ok (snd (Devices_Upsert now i u key pf av dm ip t))"
proof (cases "rows_where (\<lambda>d. dv_AuthKeyID d = key) (ac_devices t)")
  case Nil
  have "devices_ok (ac_users t) (ac_devices t @ [(dv_ID d, d)])"
    if "map_of (ac_devices t) (dv_ID d) = None" "map_of (ac_users t) (dv_UserID d) \<noteq> None" "dv_AuthKeyID d = key" "dv_Platform d \<in> set platforms" for d
    using assms that Nil by (auto simp: accounts_ok_def devices_ok_def rows_where_Nil intro!: keyed_append)
  from this [of "\<lparr>dv_ID = i, dv_UserID = u, dv_AuthKeyID = key, dv_Platform = pf, dv_AppVersion = av, dv_DeviceModel = dm,
      dv_PushToken = None, dv_LastIP = ip, dv_CreatedAt = now, dv_LastSeenAt = now, dv_RevokedAt = None\<rparr>"]
  show ?thesis using assms Nil by (simp add: Devices_Upsert_def Let_def accounts_ok_def)
next
  case (Cons d ds)
  let ?d = "d\<lparr>dv_LastSeenAt := now, dv_LastIP := ip, dv_AppVersion := av, dv_RevokedAt := None\<rparr>"
  have ok: "devices_ok (ac_users t) (ac_devices t)" using assms by (simp add: accounts_ok_def)
  obtain k where k: "(k, d) \<in> set (ac_devices t)" "dv_AuthKeyID d = key" using rows_where_head [OF Cons] by auto
  have same: "x = d" if "(k', x) \<in> set (ac_devices t)" "dv_AuthKeyID x = key" for k' x
  proof -
    have ks: "keyed dv_ID (\<lambda>d d'. dv_AuthKeyID d \<noteq> dv_AuthKeyID d') (ac_devices t)" using ok by (simp add: devices_ok_def)
    then have "k' = k" using keyedD(3) [OF ks that(1) k(1)] that(2) k(2) by auto
    then show ?thesis using that(1) k(1) keyed_map_of [OF ks] by (metis option.inject)
  qed
  then have "update_where (\<lambda>x. dv_AuthKeyID x = key) (\<lambda>_. ?d) (ac_devices t)
      = update_where (\<lambda>x. dv_AuthKeyID x = key)
          (\<lambda>x. x\<lparr>dv_LastSeenAt := now, dv_LastIP := ip, dv_AppVersion := av, dv_RevokedAt := None\<rparr>) (ac_devices t)"
    by (auto simp: update_where_def)
  then have "devices_ok (ac_users t) (update_where (\<lambda>x. dv_AuthKeyID x = key) (\<lambda>_. ?d) (ac_devices t))"
    using devices_update_ok [OF ok] by simp
  then show ?thesis using assms Cons by (simp add: Devices_Upsert_def Let_def accounts_ok_def)
qed

lemma otp_ops_ok [keep_accounts]:
  assumes "accounts_ok t"
  shows "accounts_ok (snd (OTP_Create now i ph h ttl t))" "accounts_ok (snd (IncrementAttempts i t))"
    "accounts_ok (snd (Consume now i t))" "accounts_ok (snd (PurgeExpired now t))"
proof -
  have o: "otps_ok (ac_otps t)" using assms by (simp add: accounts_ok_def)
  then have k: "keyed ot_ID (\<lambda>_ _. True) (ac_otps t)" by (simp add: otps_ok_def)
  have add: "otps_ok (ac_otps t @ [(i, c)])" if "map_of (ac_otps t) i = None" "ot_ID c = i" "ot_Attempts c = 0" for i c
    using keyed_append [OF k, of c] that o by (auto simp: otps_ok_def)
  have put: "otps_ok (AList.update i c (ac_otps t))" if "ot_ID c = i" "0 \<le> ot_Attempts c" for i c
    using keyed_upsert [OF k that(1)] set_update_subset [of i c "ac_otps t"] o that(2) by (auto simp: otps_ok_def)
  have row: "ot_ID c = i \<and> 0 \<le> ot_Attempts c" if "map_of (ac_otps t) i = Some c" for i c
    using map_of_SomeD [OF that] o keyedD(2) [OF k] by (auto simp: otps_ok_def)
  show "accounts_ok (snd (OTP_Create now i ph h ttl t))"
    using assms add by (simp add: OTP_Create_def Let_def accounts_ok_def)
  have changed: "otps_ok (AList.update i (c\<lparr>ot_Attempts := ot_Attempts c + 1\<rparr>) (ac_otps t))"
    "otps_ok (AList.update i (c\<lparr>ot_ConsumedAt := Some now\<rparr>) (ac_otps t))" if "map_of (ac_otps t) i = Some c" for c
    using row [OF that] by (auto intro!: put)
  show "accounts_ok (snd (IncrementAttempts i t))" "accounts_ok (snd (Consume now i t))"
    using assms changed by (auto simp: IncrementAttempts_def Consume_def accounts_ok_def split: option.split)
  have "otps_ok (filter P (ac_otps t))" for P
    using keyed_filter [OF k, of P] o by (auto simp: otps_ok_def)
  then show "accounts_ok (snd (PurgeExpired now t))" using assms by (simp add: PurgeExpired_def Let_def accounts_ok_def)
qed

lemma put_contact_ok [keep_accounts]:
  assumes "accounts_ok t"
  shows "accounts_ok (snd (put_contact now a b fn ln t))"
proof -
  have c: "contacts_ok (ac_users t) (ac_contacts t)" using assms by (simp add: accounts_ok_def)
  then have k: "keyed (\<lambda>c. (co_OwnerID c, co_UserID c)) (\<lambda>_ _. True) (ac_contacts t)" by (simp add: contacts_ok_def)
  show ?thesis
  proof (cases "map_of (ac_contacts t) (a, b)")
    case None
    have "contacts_ok (ac_users t) (ac_contacts t @ [((a, b), x)])"
      if "co_OwnerID x = a" "co_UserID x = b" "a \<noteq> b" "map_of (ac_users t) a \<noteq> None" "map_of (ac_users t) b \<noteq> None" for x
      using keyed_append [OF k, of x] None c that by (auto simp: contacts_ok_def)
    then show ?thesis using assms None by (simp add: put_contact_def accounts_ok_def)
  next
    case (Some x)
    have x: "co_OwnerID x = a" "co_UserID x = b" "map_of (ac_users t) a \<noteq> None" "map_of (ac_users t) b \<noteq> None"
      using map_of_SomeD [OF Some] c keyedD(2) [OF k, of "(a, b)" x] by (auto simp: contacts_ok_def)
    have "contacts_ok (ac_users t) (AList.update (a, b) (x\<lparr>co_FirstName := fn, co_LastName := ln\<rparr>) (ac_contacts t))" if "a \<noteq> b"
      using keyed_upsert [OF k, of "x\<lparr>co_FirstName := fn, co_LastName := ln\<rparr>" "(a, b)"] x c that
        set_update_subset [of "(a, b)" "x\<lparr>co_FirstName := fn, co_LastName := ln\<rparr>" "ac_contacts t"]
      by (auto simp: contacts_ok_def)
    then show ?thesis using assms Some by (simp add: put_contact_def accounts_ok_def)
  qed
qed

lemma put_contacts_ok [keep_accounts]: "accounts_ok t \<Longrightarrow> accounts_ok (snd (put_contacts now a rows t))"
proof (induction now a rows t rule: put_contacts.induct)
  case (2 now a u e rows t)
  then show ?case
    using put_contact_ok [OF 2(2), of now a u "ie_FirstName e" "ie_LastName e"]
    by (cases "put_contact now a u (ie_FirstName e) (ie_LastName e) t"; cases "fst (put_contact now a u (ie_FirstName e) (ie_LastName e) t)") auto
qed simp

lemma contact_ops_ok [keep_accounts]:
  assumes "accounts_ok t"
  shows "accounts_ok (snd (Contacts_Add now a b fn ln t))" "accounts_ok (snd (Contacts_Import now a pepper es t))"
    "accounts_ok (snd (Contacts_Delete a b t))"
proof -
  show "accounts_ok (snd (Contacts_Add now a b fn ln t))" using assms put_contact_ok by (simp add: Contacts_Add_def)
  show "accounts_ok (snd (Contacts_Import now a pepper es t))"
    using assms put_contacts_ok [OF assms] by (auto simp: Contacts_Import_def Let_def split: prod.split sum.split) (metis snd_conv)
  show "accounts_ok (snd (Contacts_Delete a b t))"
    using assms keyed_delete set_delete_subset [of "(a, b)" "ac_contacts t"]
    by (auto simp: Contacts_Delete_def accounts_ok_def contacts_ok_def)
qed

lemma block_ops_ok [keep_accounts]:
  assumes "accounts_ok t"
  shows "accounts_ok (snd (Blocks_Block now a b t))" "accounts_ok (Blocks_Unblock a b t)"
proof -
  have bl: "blocks_ok (ac_users t) (ac_blocks t)" using assms by (simp add: accounts_ok_def)
  have "blocks_ok (ac_users t) (ac_blocks t @ [((a, b), now)])"
    if "a \<noteq> b" "map_of (ac_blocks t) (a, b) = None" "map_of (ac_users t) a \<noteq> None" "map_of (ac_users t) b \<noteq> None"
    using bl that by (auto simp: blocks_ok_def map_of_eq_None_iff)
  then show "accounts_ok (snd (Blocks_Block now a b t))" using assms by (simp add: Blocks_Block_def accounts_ok_def)
  have "blocks_ok (ac_users t) (AList.delete (a, b) (ac_blocks t))"
    using bl unfolding blocks_ok_def AList.delete_eq set_filter by (blast intro: distinct_map_filter)
  then show "accounts_ok (Blocks_Unblock a b t)" using assms by (simp add: Blocks_Unblock_def accounts_ok_def)
qed

section \<open>Hashes of numbers\<close>

lemma byte_small: "unat (b :: byte) < 256"
  using unsigned_less [of b] by simp

lemma sextet_bounds:
  fixes x y :: nat
  assumes "x < 256" and "y < 256"
  shows "x div 4 < 64" "x mod 4 * 16 < 64" "x mod 4 * 16 + y div 16 < 64" "x mod 16 * 4 < 64" "x mod 16 * 4 + y div 64 < 64" "x mod 64 < 64"
proof -
  have "x mod 4 < 4" "x mod 16 < 16" "y div 16 < 16" "y div 64 < 4" using assms by (simp_all add: less_mult_imp_div_less)
  then show "x div 4 < 64" "x mod 4 * 16 < 64" "x mod 4 * 16 + y div 16 < 64" "x mod 16 * 4 < 64" "x mod 16 * 4 + y div 64 < 64" "x mod 64 < 64"
    using assms by (simp_all add: less_mult_imp_div_less)
qed

lemma sextets_small: "list_all (\<lambda>d. d < 64) (sextets bs)"
  by (induction bs rule: sextets.induct) (simp_all add: sextet_bounds [OF byte_small byte_small])

lemma alphabets_agree: "list_all (\<lambda>d. translate ''+/='' ''-_'' [alphabet ''+/'' d] = [alphabet ''-_'' d]) [0..<64]"
  by code_simp

lemma translate_append: "translate a b (s @ s') = translate a b s @ translate a b s'"
  by (simp add: translate_def)

lemma translate_Cons: "translate a b (c # s) = translate a b [c] @ translate a b s"
  by (simp add: translate_def)

lemma translate_digits: "list_all (\<lambda>d. d < 64) ds \<Longrightarrow> translate ''+/='' ''-_'' (map (alphabet ''+/'') ds) = map (alphabet ''-_'') ds"
proof (induction ds)
  case (Cons d ds)
  then have "translate ''+/='' ''-_'' [alphabet ''+/'' d] = [alphabet ''-_'' d]"
    using bspec [OF alphabets_agree [unfolded list_all_iff], of d] by simp
  moreover have "translate ''+/='' ''-_'' (map (alphabet ''+/'') ds) = map (alphabet ''-_'') ds" using Cons by simp
  ultimately show ?case
    using translate_Cons [of "''+/=''" "''-_''" "alphabet ''+/'' d" "map (alphabet ''+/'') ds"] by simp
qed (simp add: translate_def)

text \<open>The address book matches: the hash the Go function computes of a number, which is what clients send, is the hash the
  import query computes of the stored number, for every pepper and number.\<close>

theorem PhoneHash_matches_query: "sql_phone_hash pepper phone = PhoneHash pepper phone"
proof -
  have "translate ''+/='' ''-_'' (replicate n (CHR ''='')) = []" for n by (induction n) (simp_all add: translate_def)
  then show ?thesis
    by (simp add: sql_phone_hash_def PhoneHash_def RawURLEncoding_def encode_base64_def translate_append translate_digits sextets_small)
qed

end
