(* ===== verification/Authn.thy ===== *)
theory Authn
  imports Accounts Httpx
begin

text \<open>
  Access and refresh tokens: \<^verbatim>\<open>pkg/authn/authn.go\<close>.  Signing and parsing of a JWT is the library golang-jwt; its two calls
  are the parameter \<open>jwt_lib\<close>, and \<open>jwt_ok\<close> states what its documentation promises of them and of ECDSA.  Times are
  milliseconds, the dates inside a token whole seconds.
\<close>

section \<open>Tokens\<close>

definition AccessToken :: string where "AccessToken = ''access''"

definition RefreshToken :: string where "RefreshToken = ''refresh''"

datatype authn_error = ErrNoToken | ErrInvalidToken | ErrExpired | ErrWrongType | ErrSign | ErrConfig

record Claims =
  tk_Issuer :: string
  tk_Audience :: "string list"
  tk_Subject :: string
  tk_IssuedAt :: "int option"
  tk_NotBefore :: "int option"
  tk_ExpiresAt :: "int option"
  tk_ID :: string
  tk_Type :: string
  tk_UserID :: int
  tk_DeviceID :: int
  tk_Scopes :: "string list"

definition HasScope :: "Claims \<Rightarrow> string \<Rightarrow> bool" where
  "HasScope c s = (tk_Scopes c = [] \<or> list_ex (\<lambda>have. have = s) (tk_Scopes c))"

record parser_options =
  po_Methods :: "string list"
  po_Issuer :: string
  po_Audience :: string
  po_Leeway :: int

datatype jwt_error = JwtExpired | JwtInvalid

text \<open>\<open>jl_sign\<close> signs claims under a private key and a key identifier, with some randomness; \<open>jl_parse\<close> validates a token
  against the options, the keys known and the time.\<close>

record jwt_lib =
  jl_public :: "string \<Rightarrow> string"
  jl_sign :: "string \<Rightarrow> string \<Rightarrow> Claims \<Rightarrow> nat \<Rightarrow> string option"
  jl_parse :: "parser_options \<Rightarrow> (string \<Rightarrow> string option) \<Rightarrow> int \<Rightarrow> string \<Rightarrow> jwt_error + Claims"

section \<open>The issuer\<close>

record Issuer =
  is_key :: string
  is_keyID :: string
  is_issuer :: string
  is_audience :: string
  is_accessTTL :: int
  is_refreshTTL :: int

definition or_default :: "string \<Rightarrow> string \<Rightarrow> string" where
  "or_default v def = (if v = '''' then def else v)"

definition or_default_dur :: "int \<Rightarrow> int \<Rightarrow> int" where
  "or_default_dur v def = (if v = 0 then def else v)"

text \<open>\<open>parseKey\<close> is the reading of a PEM file with a P-256 key.\<close>

definition NewIssuer :: "(string \<Rightarrow> string option) \<Rightarrow> string \<Rightarrow> string \<Rightarrow> string \<Rightarrow> string \<Rightarrow> int \<Rightarrow> int \<Rightarrow> authn_error + Issuer" where
  "NewIssuer parseKey privateKeyPEM keyID issuer audience accessTTL refreshTTL =
     (case parseKey privateKeyPEM of
        None \<Rightarrow> Inl ErrConfig
      | Some key \<Rightarrow>
          if keyID = '''' then Inl ErrConfig
          else Inr \<lparr>is_key = key, is_keyID = keyID, is_issuer = or_default issuer ''messaging'',
                    is_audience = or_default audience ''messaging-api'', is_accessTTL = or_default_dur accessTTL 900000,
                    is_refreshTTL = or_default_dur refreshTTL 5184000000\<rparr>)"

definition NumericDate :: "int \<Rightarrow> int" where
  "NumericDate t = t div 1000"

definition access_claims :: "Issuer \<Rightarrow> int \<Rightarrow> string \<Rightarrow> int \<Rightarrow> int \<Rightarrow> string list \<Rightarrow> Claims" where
  "access_claims i now jti userID deviceID scopes =
     \<lparr>tk_Issuer = is_issuer i, tk_Audience = [is_audience i], tk_Subject = itoa userID, tk_IssuedAt = Some (NumericDate now),
      tk_NotBefore = Some (NumericDate (now - 30000)), tk_ExpiresAt = Some (NumericDate (now + is_accessTTL i)), tk_ID = jti,
      tk_Type = AccessToken, tk_UserID = userID, tk_DeviceID = deviceID, tk_Scopes = scopes\<rparr>"

definition refresh_claims :: "Issuer \<Rightarrow> int \<Rightarrow> string \<Rightarrow> int \<Rightarrow> int \<Rightarrow> Claims" where
  "refresh_claims i now jti userID deviceID =
     \<lparr>tk_Issuer = is_issuer i, tk_Audience = [is_issuer i @ '':refresh''], tk_Subject = itoa userID,
      tk_IssuedAt = Some (NumericDate now), tk_NotBefore = None, tk_ExpiresAt = Some (NumericDate (now + is_refreshTTL i)),
      tk_ID = jti, tk_Type = RefreshToken, tk_UserID = userID, tk_DeviceID = deviceID, tk_Scopes = []\<rparr>"

definition sign_token :: "jwt_lib \<Rightarrow> Issuer \<Rightarrow> Claims \<Rightarrow> nat \<Rightarrow> authn_error + string" where
  "sign_token lib i c seed = (case jl_sign lib (is_key i) (is_keyID i) c seed of None \<Rightarrow> Inl ErrSign | Some s \<Rightarrow> Inr s)"

text \<open>The random identifiers and the randomness of the two signatures are drawn by the caller's environment.\<close>

record token_entropy =
  te_jti :: string
  te_jti' :: string
  te_seed :: nat
  te_seed' :: nat

definition Issue ::
  "jwt_lib \<Rightarrow> Issuer \<Rightarrow> int \<Rightarrow> token_entropy \<Rightarrow> int \<Rightarrow> int \<Rightarrow> string list \<Rightarrow> authn_error + (string \<times> string \<times> int)" where
  "Issue lib i now r userID deviceID scopes =
     (case sign_token lib i (access_claims i now (te_jti r) userID deviceID scopes) (te_seed r) of
        Inl err \<Rightarrow> Inl err
      | Inr access \<Rightarrow>
          (case sign_token lib i (refresh_claims i now (te_jti' r) userID deviceID) (te_seed' r) of
             Inl err \<Rightarrow> Inl err
           | Inr refresh \<Rightarrow> Inr (access, refresh, go_quot (is_accessTTL i) 1000)))"

section \<open>The verifier\<close>

record Verifier =
  vf_keys :: "(string \<times> string) list"
  vf_issuer :: string
  vf_audience :: string

record jwk =
  jk_Kid :: string
  jk_Crv :: string
  jk_X :: string
  jk_Y :: string

text \<open>\<open>point\<close> decodes the coordinates and checks that they are on the curve.\<close>

fun jwks_loop :: "(string \<Rightarrow> string \<Rightarrow> string option) \<Rightarrow> jwk list \<Rightarrow> (string \<times> string) list \<Rightarrow> authn_error + (string \<times> string) list" where
  "jwks_loop point [] keys = Inr keys"
| "jwks_loop point (k # ks) keys =
     (if jk_Crv k \<noteq> ''P-256'' then jwks_loop point ks keys
      else case point (jk_X k) (jk_Y k) of
        None \<Rightarrow> Inl ErrConfig | Some pub \<Rightarrow> jwks_loop point ks (AList.update (jk_Kid k) pub keys))"

definition NewVerifier :: "(string \<Rightarrow> string \<Rightarrow> string option) \<Rightarrow> jwk list option \<Rightarrow> string \<Rightarrow> string \<Rightarrow> authn_error + Verifier" where
  "NewVerifier point doc issuer audience =
     (case doc of
        None \<Rightarrow> Inl ErrConfig
      | Some ks \<Rightarrow>
          if ks = [] then Inl ErrConfig
          else case jwks_loop point ks [] of
            Inl err \<Rightarrow> Inl err
          | Inr keys \<Rightarrow>
              if keys = [] then Inl ErrConfig
              else Inr \<lparr>vf_keys = keys, vf_issuer = or_default issuer ''messaging'', vf_audience = or_default audience ''messaging-api''\<rparr>)"

definition Verify_token :: "jwt_lib \<Rightarrow> Verifier \<Rightarrow> int \<Rightarrow> string \<Rightarrow> string \<Rightarrow> authn_error + Claims" where
  "Verify_token lib v now raw want =
     (if raw = '''' then Inl ErrNoToken
      else
        let audience = (if want = RefreshToken then vf_issuer v @ '':refresh'' else vf_audience v)
        in case jl_parse lib \<lparr>po_Methods = [''ES256''], po_Issuer = vf_issuer v, po_Audience = audience, po_Leeway = 30\<rparr>
                  (map_of (vf_keys v)) now raw of
             Inl err \<Rightarrow> Inl (if err = JwtExpired then ErrExpired else ErrInvalidToken)
           | Inr claims \<Rightarrow>
               if tk_Type claims \<noteq> want then Inl ErrWrongType
               else if tk_UserID claims = 0 then Inl ErrInvalidToken else Inr claims)"

section \<open>The middleware\<close>

definition BearerToken :: "string \<Rightarrow> string" where
  "BearerToken h =
     (let scheme = takeWhile (\<lambda>c. c \<noteq> CHR '' '') h; rest = drop (length scheme) h
      in if rest = [] \<or> lower_username scheme \<noteq> ''bearer'' then '''' else TrimSpace (tl rest))"

definition authenticate :: "jwt_lib \<Rightarrow> Verifier \<Rightarrow> int \<Rightarrow> string \<Rightarrow> http_error + Claims" where
  "authenticate lib v now header =
     (case Verify_token lib v now (BearerToken header) AccessToken of Inl _ \<Rightarrow> Inl Unauthorized | Inr c \<Rightarrow> Inr c)"

section \<open>What is relied on\<close>

definition in_time :: "int \<Rightarrow> int \<Rightarrow> Claims \<Rightarrow> bool" where
  "in_time now leeway c =
     ((case tk_ExpiresAt c of None \<Rightarrow> True | Some x \<Rightarrow> now < (x + leeway) * 1000)
      \<and> (case tk_NotBefore c of None \<Rightarrow> True | Some x \<Rightarrow> (x - leeway) * 1000 \<le> now))"

text \<open>A token is accepted only if it was signed with the private key of a known key, names the issuer and the audience and is
  in time; such a token is accepted; one that is only too old is reported as expired; and a token determines its claims.\<close>

definition jwt_sound :: "jwt_lib \<Rightarrow> bool" where
  "jwt_sound lib \<longleftrightarrow>
     (\<forall>opts keys now raw c. jl_parse lib opts keys now raw = Inr c \<longrightarrow>
        tk_Issuer c = po_Issuer opts \<and> po_Audience opts \<in> set (tk_Audience c) \<and> in_time now (po_Leeway opts) c
        \<and> (\<exists>priv kid seed. keys kid = Some (jl_public lib priv) \<and> jl_sign lib priv kid c seed = Some raw))"

definition jwt_complete :: "jwt_lib \<Rightarrow> bool" where
  "jwt_complete lib \<longleftrightarrow>
     (\<forall>opts keys now raw c priv kid seed.
        jl_sign lib priv kid c seed = Some raw \<longrightarrow> keys kid = Some (jl_public lib priv) \<longrightarrow> ''ES256'' \<in> set (po_Methods opts) \<longrightarrow>
        tk_Issuer c = po_Issuer opts \<longrightarrow> po_Audience opts \<in> set (tk_Audience c) \<longrightarrow>
        (in_time now (po_Leeway opts) c \<longrightarrow> jl_parse lib opts keys now raw = Inr c)
        \<and> (\<forall>x. tk_ExpiresAt c = Some x \<longrightarrow> (x + po_Leeway opts) * 1000 \<le> now \<longrightarrow> jl_parse lib opts keys now raw = Inl JwtExpired))"

definition jwt_injective :: "jwt_lib \<Rightarrow> bool" where
  "jwt_injective lib \<longleftrightarrow>
     (\<forall>priv kid c seed priv' kid' c' seed' raw.
        jl_sign lib priv kid c seed = Some raw \<longrightarrow> jl_sign lib priv' kid' c' seed' = Some raw \<longrightarrow> raw \<noteq> '''' \<and> c = c')"

definition jwt_ok :: "jwt_lib \<Rightarrow> bool" where
  "jwt_ok lib \<longleftrightarrow> jwt_sound lib \<and> jwt_complete lib \<and> jwt_injective lib"

lemma jwt_okD:
  assumes "jwt_ok lib"
  shows "jl_parse lib opts keys now raw = Inr c \<Longrightarrow>
        tk_Issuer c = po_Issuer opts \<and> po_Audience opts \<in> set (tk_Audience c) \<and> in_time now (po_Leeway opts) c
        \<and> (\<exists>priv kid seed. keys kid = Some (jl_public lib priv) \<and> jl_sign lib priv kid c seed = Some raw)"
    and "jl_sign lib priv kid c seed = Some raw \<Longrightarrow> keys kid = Some (jl_public lib priv) \<Longrightarrow> ''ES256'' \<in> set (po_Methods opts) \<Longrightarrow>
        tk_Issuer c = po_Issuer opts \<Longrightarrow> po_Audience opts \<in> set (tk_Audience c) \<Longrightarrow>
        (in_time now (po_Leeway opts) c \<longrightarrow> jl_parse lib opts keys now raw = Inr c)
        \<and> (\<forall>x. tk_ExpiresAt c = Some x \<longrightarrow> (x + po_Leeway opts) * 1000 \<le> now \<longrightarrow> jl_parse lib opts keys now raw = Inl JwtExpired)"
    and "jl_sign lib priv kid c seed = Some raw \<Longrightarrow> jl_sign lib priv' kid' c' seed' = Some raw \<Longrightarrow> raw \<noteq> '''' \<and> c = c'"
proof -
  have parts: "jwt_sound lib" "jwt_complete lib" "jwt_injective lib" using assms by (simp_all add: jwt_ok_def)
  show "jl_parse lib opts keys now raw = Inr c \<Longrightarrow>
        tk_Issuer c = po_Issuer opts \<and> po_Audience opts \<in> set (tk_Audience c) \<and> in_time now (po_Leeway opts) c
        \<and> (\<exists>priv kid seed. keys kid = Some (jl_public lib priv) \<and> jl_sign lib priv kid c seed = Some raw)"
    by (rule parts(1) [unfolded jwt_sound_def, rule_format])
  show "jl_sign lib priv kid c seed = Some raw \<Longrightarrow> keys kid = Some (jl_public lib priv) \<Longrightarrow> ''ES256'' \<in> set (po_Methods opts) \<Longrightarrow>
        tk_Issuer c = po_Issuer opts \<Longrightarrow> po_Audience opts \<in> set (tk_Audience c) \<Longrightarrow>
        (in_time now (po_Leeway opts) c \<longrightarrow> jl_parse lib opts keys now raw = Inr c)
        \<and> (\<forall>x. tk_ExpiresAt c = Some x \<longrightarrow> (x + po_Leeway opts) * 1000 \<le> now \<longrightarrow> jl_parse lib opts keys now raw = Inl JwtExpired)"
    by (rule parts(2) [unfolded jwt_complete_def, rule_format])
  show "jl_sign lib priv kid c seed = Some raw \<Longrightarrow> jl_sign lib priv' kid' c' seed' = Some raw \<Longrightarrow> raw \<noteq> '''' \<and> c = c'"
    using parts(3) unfolding jwt_injective_def by blast
qed

text \<open>A library that keeps a book of the tokens it would sign, under one key.\<close>

definition book_lib :: "(string \<times> Claims) list \<Rightarrow> jwt_lib" where
  "book_lib book =
     \<lparr>jl_public = (\<lambda>_. ''pub''),
      jl_sign = (\<lambda>priv kid c seed. if kid = ''k1'' then map_option fst (find (\<lambda>(_, c'). c' = c) book) else None),
      jl_parse = (\<lambda>opts keys now raw.
        case map_of book raw of
          None \<Rightarrow> Inl JwtInvalid
        | Some c \<Rightarrow>
            if keys ''k1'' \<noteq> Some ''pub'' \<or> tk_Issuer c \<noteq> po_Issuer opts \<or> po_Audience opts \<notin> set (tk_Audience c) then Inl JwtInvalid
            else if (case tk_ExpiresAt c of None \<Rightarrow> False | Some x \<Rightarrow> (x + po_Leeway opts) * 1000 \<le> now) then Inl JwtExpired
            else if in_time now (po_Leeway opts) c then Inr c else Inl JwtInvalid)\<rparr>"

lemma find_Some_mem: "find P xs = Some x \<Longrightarrow> x \<in> set xs \<and> P x"
  by (metis find_Some_iff nth_mem)

lemma book_lib_ok:
  assumes "distinct (map fst book)" and "distinct (map snd book)" and "'''' \<notin> fst ` set book"
  shows "jwt_ok (book_lib book)"
proof -
  have sign: "jl_sign (book_lib book) priv kid c seed = Some raw \<longleftrightarrow> kid = ''k1'' \<and> (raw, c) \<in> set book" for priv kid c seed raw
  proof -
    have "find (\<lambda>(_, c'). c' = c) book = Some (raw, c)" if "(raw, c) \<in> set book"
    proof (cases "find (\<lambda>(_, c'). c' = c) book")
      case None
      then show ?thesis using that by (auto simp: find_None_iff)
    next
      case (Some x)
      then have "x \<in> set book" "snd x = c" using find_Some_mem by fastforce+
      then show ?thesis using that assms(2) Some by (metis distinct_map inj_onD snd_conv)
    qed
    moreover have "(raw, c) \<in> set book" if "find (\<lambda>(_, c'). c' = c) book = Some x" "fst x = raw" for x
      using find_Some_mem [OF that(1)] that(2) by auto
    ultimately show ?thesis by (auto simp: book_lib_def)
  qed
  have pub: "jl_public (book_lib book) priv = ''pub''" for priv by (simp add: book_lib_def)
  have mem: "(raw, c) \<in> set book \<longleftrightarrow> map_of book raw = Some c" for raw c using mem_iff_map_of [OF assms(1)] .
  have accept: "map_of book raw = Some c \<and> keys ''k1'' = Some ''pub'' \<and> tk_Issuer c = po_Issuer opts
      \<and> po_Audience opts \<in> set (tk_Audience c) \<and> in_time now (po_Leeway opts) c"
    if "jl_parse (book_lib book) opts keys now raw = Inr c" for opts keys now raw c
    using that by (simp add: book_lib_def split: option.splits if_splits)
  have parse: "jl_parse (book_lib book) opts keys now raw
      = (if (case tk_ExpiresAt c of None \<Rightarrow> False | Some x \<Rightarrow> (x + po_Leeway opts) * 1000 \<le> now) then Inl JwtExpired
         else if in_time now (po_Leeway opts) c then Inr c else Inl JwtInvalid)"
    if "map_of book raw = Some c" "keys ''k1'' = Some ''pub''" "tk_Issuer c = po_Issuer opts" "po_Audience opts \<in> set (tk_Audience c)"
    for opts keys now raw c
    using that by (simp add: book_lib_def)
  show ?thesis
    unfolding jwt_ok_def jwt_sound_def jwt_complete_def jwt_injective_def
  proof (intro conjI allI impI, goal_cases)
    case (4 opts keys now raw c)
    then show ?case using accept [OF 4] sign pub mem by metis
  next
    case (5 opts keys now raw c priv kid seed)
    then have "map_of book raw = Some c" "keys ''k1'' = Some ''pub''" by (simp_all add: sign mem pub)
    then show ?case using parse [OF _ _ 5(4,5)] 5(6) by (auto simp: in_time_def split: option.splits)
  next
    case (6 opts keys now raw c priv kid seed x)
    then have "map_of book raw = Some c" "keys ''k1'' = Some ''pub''" by (simp_all add: sign mem pub)
    then show ?case using parse [OF _ _ 6(4,5)] 6(6,7) by simp
  next
    case (7 priv kid c seed priv' kid' c' seed' raw)
    then show ?case using assms(3) by (auto simp: sign image_iff)
  next
    case (8 priv kid c seed priv' kid' c' seed' raw)
    then show ?case by (simp add: sign mem)
  qed (use accept in blast)+
qed

section \<open>Properties\<close>

definition issues_for :: "jwt_lib \<Rightarrow> Issuer \<Rightarrow> Verifier \<Rightarrow> bool" where
  "issues_for lib i v \<longleftrightarrow>
     map_of (vf_keys v) (is_keyID i) = Some (jl_public lib (is_key i)) \<and> vf_issuer v = is_issuer i \<and> vf_audience v = is_audience i"

lemma issued_signed:
  assumes "Issue lib i now r u d scopes = Inr (access, refresh, n)"
  shows "jl_sign lib (is_key i) (is_keyID i) (access_claims i now (te_jti r) u d scopes) (te_seed r) = Some access"
    and "jl_sign lib (is_key i) (is_keyID i) (refresh_claims i now (te_jti' r) u d) (te_seed' r) = Some refresh"
  using assms by (auto simp: Issue_def sign_token_def split: sum.splits option.splits)

text \<open>What \<open>Verify_token\<close> accepts, and that it accepts what is in time.\<close>

lemma Verify_token_InrD:
  assumes "jwt_ok lib" and "Verify_token lib v now raw want = Inr c"
  shows "raw \<noteq> ''''" "tk_Type c = want" "tk_UserID c \<noteq> 0" "tk_Issuer c = vf_issuer v"
    "(if want = RefreshToken then vf_issuer v @ '':refresh'' else vf_audience v) \<in> set (tk_Audience c)" "in_time now 30 c"
    "\<exists>priv kid seed. map_of (vf_keys v) kid = Some (jl_public lib priv) \<and> jl_sign lib priv kid c seed = Some raw"
proof -
  let ?opts = "\<lparr>po_Methods = [''ES256''], po_Issuer = vf_issuer v,
    po_Audience = (if want = RefreshToken then vf_issuer v @ '':refresh'' else vf_audience v), po_Leeway = 30\<rparr>"
  have p: "jl_parse lib ?opts (map_of (vf_keys v)) now raw = Inr c" "raw \<noteq> ''''" "tk_Type c = want" "tk_UserID c \<noteq> 0"
    using assms(2) by (auto simp: Verify_token_def Let_def split: sum.splits if_splits)
  then show "raw \<noteq> ''''" "tk_Type c = want" "tk_UserID c \<noteq> 0" by simp_all
  have "tk_Issuer c = po_Issuer ?opts \<and> po_Audience ?opts \<in> set (tk_Audience c) \<and> in_time now (po_Leeway ?opts) c
        \<and> (\<exists>priv kid seed. map_of (vf_keys v) kid = Some (jl_public lib priv) \<and> jl_sign lib priv kid c seed = Some raw)"
    by (rule jwt_okD(1) [OF assms(1) p(1)])
  then show "tk_Issuer c = vf_issuer v" "in_time now 30 c"
    "(if want = RefreshToken then vf_issuer v @ '':refresh'' else vf_audience v) \<in> set (tk_Audience c)"
    "\<exists>priv kid seed. map_of (vf_keys v) kid = Some (jl_public lib priv) \<and> jl_sign lib priv kid c seed = Some raw" by simp_all
qed

lemma jwt_unique: "jwt_ok lib \<Longrightarrow> jl_sign lib p k c s = Some raw \<Longrightarrow> jl_sign lib p' k' c' s' = Some raw \<Longrightarrow> c = c' \<and> raw \<noteq> ''''"
  using jwt_okD(3) by blast

lemma Verify_token_signed:
  assumes "jwt_ok lib" and "jl_sign lib priv kid c seed = Some raw" and "map_of (vf_keys v) kid = Some (jl_public lib priv)"
    and "tk_Issuer c = vf_issuer v" and "(if want = RefreshToken then vf_issuer v @ '':refresh'' else vf_audience v) \<in> set (tk_Audience c)"
    and "tk_Type c = want" and "tk_UserID c \<noteq> 0"
  shows "in_time now 30 c \<Longrightarrow> Verify_token lib v now raw want = Inr c"
    and "tk_ExpiresAt c = Some x \<Longrightarrow> (x + 30) * 1000 \<le> now \<Longrightarrow> Verify_token lib v now raw want = Inl ErrExpired"
proof -
  let ?opts = "\<lparr>po_Methods = [''ES256''], po_Issuer = vf_issuer v,
    po_Audience = (if want = RefreshToken then vf_issuer v @ '':refresh'' else vf_audience v), po_Leeway = 30\<rparr>"
  have r: "raw \<noteq> ''''" using jwt_unique [OF assms(1) assms(2,2)] by simp
  have c: "''ES256'' \<in> set (po_Methods ?opts)" "tk_Issuer c = po_Issuer ?opts" "po_Audience ?opts \<in> set (tk_Audience c)" using assms(4,5) by simp_all
  have p: "(in_time now (po_Leeway ?opts) c \<longrightarrow> jl_parse lib ?opts (map_of (vf_keys v)) now raw = Inr c)
      \<and> (\<forall>x. tk_ExpiresAt c = Some x \<longrightarrow> (x + po_Leeway ?opts) * 1000 \<le> now \<longrightarrow> jl_parse lib ?opts (map_of (vf_keys v)) now raw = Inl JwtExpired)"
    by (rule jwt_okD(2) [where keys = "map_of (vf_keys v)" and opts = ?opts, OF assms(1-3) c])
  show "in_time now 30 c \<Longrightarrow> Verify_token lib v now raw want = Inr c"
    using p r assms(6,7) by (simp add: Verify_token_def Let_def)
  show "tk_ExpiresAt c = Some x \<Longrightarrow> (x + 30) * 1000 \<le> now \<Longrightarrow> Verify_token lib v now raw want = Inl ErrExpired"
    using p r by (simp add: Verify_token_def Let_def)
qed


definition sample_issuer :: Issuer where
  "sample_issuer = \<lparr>is_key = ''priv'', is_keyID = ''k1'', is_issuer = ''messaging'', is_audience = ''messaging-api'', is_accessTTL = 900000,
     is_refreshTTL = 5184000000\<rparr>"

definition sample_verifier :: Verifier where
  "sample_verifier = \<lparr>vf_keys = [(''k1'', ''pub'')], vf_issuer = ''messaging'', vf_audience = ''messaging-api''\<rparr>"

definition sample_entropy :: token_entropy where
  "sample_entropy = \<lparr>te_jti = ''j1'', te_jti' = ''j2'', te_seed = 0, te_seed' = 0\<rparr>"

definition sample_lib :: jwt_lib where
  "sample_lib = book_lib [(''A'', access_claims sample_issuer 0 ''j1'' 7 1 []), (''R'', refresh_claims sample_issuer 0 ''j2'' 7 1)]"

lemma sample_lib_ok: "jwt_ok sample_lib"
  unfolding sample_lib_def by (rule book_lib_ok) (simp_all add: access_claims_def refresh_claims_def AccessToken_def RefreshToken_def)


end
