(* ===== verification/Auth_Service.thy ===== *)
theory Auth_Service
  imports Authn Chat_World Snowflake_Ids
begin

text \<open>
  The auth service, \<^verbatim>\<open>services/auth-service/internal\<close>: codes and sign-in, sessions and devices, the profile
  (\<^verbatim>\<open>service.go\<close>), contacts and blocks (\<^verbatim>\<open>contacts.go\<close>), its audit entries (\<^verbatim>\<open>audit.go\<close>).

  The state is the account tables, the limiter's buckets, the cache of block decisions it shares with the chat service, the
  topic of user events, the codes sent and the audit logger.  An environment says what one request meets: the time, the calls
  that fail, the caller's address and what is drawn at random.  bcrypt and the JWT library are parameters of the
  configuration.  A request body is the decoded record or the decoder's error.
\<close>

section \<open>State, environment, configuration\<close>

datatype UserEventKind = UserCreated | UserUpdated | UserDeleted | UserBanned | DeviceAdded | DeviceRevoke

record UserEvent =
  ue_Kind :: UserEventKind
  ue_UserID :: int
  ue_DeviceID :: int
  ue_At :: int

record auth_world =
  au_tables :: accounts
  au_buckets :: buckets
  au_cache :: "(string \<times> (bool \<times> int)) list"
  au_events :: "UserEvent list"
  au_sent :: "(string \<times> string) list"
  au_audit :: "Logger option"

datatype auth_call =
  ALimit string | AReset | AOTPCreate | ASend | AUserByPhone | AUserByPhoneAgain | AOTPGet | AOTPIncrement | AOTPConsume
| AUserCreate | ADeviceUpsert | ADeviceList | AUserByID | AUpdateProfile | ASetUsername | ARevokeAll | ASoftDelete | ARevoke
| APushToken | AEvent | AAudit | AContactImport | AContactList | AUserMany | AContactAdd | AContactDelete | ABlock | AUnblock
| ABlockList | ABlockCheck | ABlockAmong | AMutual | ACacheDel

record auth_env =
  ax_now :: int
  ax_down :: "auth_call \<Rightarrow> bool"
  ax_ip :: string
  ax_uuid :: string
  ax_key_uuid :: string
  ax_user_id :: int
  ax_device_id :: int
  ax_random :: bytes
  ax_salt :: nat
  ax_tokens :: token_entropy

record auth_cfg =
  ag_CodeLength :: int
  ag_CodeTTL :: int
  ag_MaxCodeAttempts :: int
  ag_TestPhonePrefix :: string
  ag_TestPhoneCode :: string
  ag_ContactPepper :: bytes
  ag_lib :: jwt_lib
  ag_issuer :: Issuer
  ag_verifier :: Verifier
  ag_hash :: "string \<Rightarrow> nat \<Rightarrow> string option"
  ag_compare :: "string \<Rightarrow> string \<Rightarrow> bool"
  ag_order :: "Contact list \<Rightarrow> Contact list"
  ag_marshal :: "Entry \<Rightarrow> bytes option"

text \<open>A statement against the tables, and a query: the error is turned into the one the handler answers with.\<close>

definition statement ::
  "auth_env \<Rightarrow> auth_call \<Rightarrow> (pg_error \<Rightarrow> http_error) \<Rightarrow> (accounts \<Rightarrow> (pg_error + 'a) \<times> accounts) \<Rightarrow> auth_world \<Rightarrow> (http_error + 'a) \<times> auth_world" where
  "statement e call f op' w =
     (if ax_down e call then (Inl (f PgUnavailable), w)
      else case op' (au_tables w) of (r, t) \<Rightarrow> (map_sum f id r, w\<lparr>au_tables := t\<rparr>))"

definition query :: "auth_env \<Rightarrow> auth_call \<Rightarrow> (pg_error \<Rightarrow> http_error) \<Rightarrow> (accounts \<Rightarrow> pg_error + 'a) \<Rightarrow> auth_world \<Rightarrow> (http_error + 'a) \<times> auth_world" where
  "query e call f q w = (if ax_down e call then Inl (f PgUnavailable) else map_sum f id (q (au_tables w)), w)"

section \<open>Helpers\<close>

text \<open>The limiter of this service fails closed.\<close>

definition auth_checkLimit :: "auth_env \<Rightarrow> string \<Rightarrow> Limit \<Rightarrow> auth_world \<Rightarrow> (http_error + unit) \<times> auth_world" where
  "auth_checkLimit e key l w =
     (case AllowN False (ax_down e (ALimit key)) (ax_now e) key l 1 (au_buckets w) of
        (d, err, b) \<Rightarrow>
          (if err \<noteq> None then Inl Unavailable
           else if \<not> Allowed d then Inl (FloodWait (go_quot (RetryAfterMS d) 1000 + 1)) else Inr (),
           w\<lparr>au_buckets := b\<rparr>))"

definition isTestPhone :: "auth_cfg \<Rightarrow> string \<Rightarrow> bool" where
  "isTestPhone cfg phone = (ag_TestPhonePrefix cfg \<noteq> '''' \<and> ag_TestPhoneCode cfg \<noteq> '''' \<and> HasPrefix phone (ag_TestPhonePrefix cfg))"

definition codeFor :: "auth_cfg \<Rightarrow> auth_env \<Rightarrow> string \<Rightarrow> string option" where
  "codeFor cfg e phone =
     (if isTestPhone cfg phone then Some (ag_TestPhoneCode cfg)
      else case NumericCode (ag_CodeLength cfg) (ax_random e) of Inl _ \<Rightarrow> None | Inr code \<Rightarrow> Some code)"

text \<open>Runes of more than one byte are dropped, so the loop may look at bytes.\<close>

definition normalisePhone :: "string \<Rightarrow> string" where
  "normalisePhone raw =
     (let s = TrimSpace raw;
          b = (case s of
                 [] \<Rightarrow> []
               | c # cs \<Rightarrow> (if is_digit c \<or> c = CHR ''+'' then [c] else []) @ filter is_digit cs)
      in if HasPrefix b ''00'' then CHR ''+'' # drop 2 b
         else if \<not> HasPrefix b ''+'' \<and> b \<noteq> [] then CHR ''+'' # b else b)"

definition orGenerated :: "auth_env \<Rightarrow> string \<Rightarrow> string" where
  "orGenerated e authKeyID = (if authKeyID \<noteq> '''' then authKeyID else ''rest:'' @ ax_key_uuid e)"

definition publishUserEvent :: "auth_env \<Rightarrow> UserEventKind \<Rightarrow> int \<Rightarrow> int \<Rightarrow> auth_world \<Rightarrow> auth_world" where
  "publishUserEvent e kind userID deviceID w =
     (if ax_down e AEvent then w
      else w\<lparr>au_events := au_events w @ [\<lparr>ue_Kind = kind, ue_UserID = userID, ue_DeviceID = deviceID, ue_At = ax_now e\<rparr>]\<rparr>)"

definition auth_audit :: "auth_cfg \<Rightarrow> auth_env \<Rightarrow> Entry \<Rightarrow> auth_world \<Rightarrow> auth_world" where
  "auth_audit cfg e a w =
     (case au_audit w of
        None \<Rightarrow> w
      | Some l \<Rightarrow>
          let a' = a\<lparr>ae_ActorIP := ax_ip e, ae_ActorType := (if ae_ActorType a = '''' then ''user'' else ae_ActorType a)\<rparr>
          in w\<lparr>au_audit := Some (snd (Record (ag_marshal cfg) (ax_down e AAudit) (ax_now e) a' l))\<rparr>)"

definition invalidateBlockCache :: "auth_env \<Rightarrow> int \<Rightarrow> int \<Rightarrow> auth_world \<Rightarrow> auth_world" where
  "invalidateBlockCache e a b w =
     (if ax_down e ACacheDel then w else w\<lparr>au_cache := AList.delete (blockCacheKey a b) (au_cache w)\<rparr>)"

section \<open>Codes\<close>

record sendCodeResponse =
  sc_ChallengeID :: string
  sc_CodeLength :: int
  sc_ExpiresIn :: int
  sc_Registered :: bool

definition handleSendCode :: "auth_cfg \<Rightarrow> auth_env \<Rightarrow> http_error + string \<Rightarrow> auth_world \<Rightarrow> (http_error + sendCodeResponse) \<times> auth_world" where
  "handleSendCode cfg e body w =
     (case body of
        Inl err \<Rightarrow> (Inl err, w)
      | Inr rawPhone \<Rightarrow>
          let phone = normalisePhone rawPhone
          in if \<not> is_e164 phone then (Inl BadRequest, w)
             else
               and_then (auth_checkLimit e (KeyIP ''otp_send'' (ax_ip e)) OTPRequestPerIP w) (\<lambda>_ w.
               and_then (auth_checkLimit e (KeyPhone ''otp_send'' phone) OTPRequestPerPhone w) (\<lambda>_ w.
               case codeFor cfg e phone of
                 None \<Rightarrow> (Inl Internal, w)
               | Some code \<Rightarrow>
                   (case ag_hash cfg code (ax_salt e) of
                      None \<Rightarrow> (Inl Internal, w)
                    | Some hash \<Rightarrow>
                        and_then (statement e AOTPCreate (\<lambda>_. Internal) (OTP_Create (ax_now e) (ax_uuid e) phone hash (ag_CodeTTL cfg)) w) (\<lambda>_ w.
                        and_then (if isTestPhone cfg phone then (Inr (), w)
                                  else if ax_down e ASend then (Inl Unavailable, w)
                                  else (Inr (), w\<lparr>au_sent := au_sent w @ [(phone, code)]\<rparr>)) (\<lambda>_ w.
                        if ax_down e AUserByPhone then (Inl Internal, w)
                        else (Inr \<lparr>sc_ChallengeID = ax_uuid e, sc_CodeLength = ag_CodeLength cfg,
                                  sc_ExpiresIn = go_quot (ag_CodeTTL cfg) 1000,
                                  sc_Registered = (case Account_GetByPhone (au_tables w) phone of Inl _ \<Rightarrow> False | Inr _ \<Rightarrow> True)\<rparr>, w)))))))"

section \<open>Signing in\<close>

record signInRequest =
  si_ChallengeID :: string
  si_Code :: string
  si_DisplayName :: string
  si_Platform :: string
  si_AppVersion :: string
  si_DeviceModel :: string
  si_LangCode :: string
  si_AuthKeyID :: string

record signInResponse =
  sn_AccessToken :: string
  sn_RefreshToken :: string
  sn_ExpiresIn :: int
  sn_User :: User
  sn_DeviceID :: int
  sn_Created :: bool

text \<open>The part of the handler that reads the challenge and compares the code.\<close>

definition sign_in_check :: "auth_cfg \<Rightarrow> auth_env \<Rightarrow> signInRequest \<Rightarrow> auth_world \<Rightarrow> (http_error + OTPChallenge) \<times> auth_world" where
  "sign_in_check cfg e req w =
     (if si_ChallengeID req = '''' \<or> si_Code req = '''' then (Inl BadRequest, w)
      else
        and_then (auth_checkLimit e (KeyIP ''login'' (ax_ip e)) LoginPerIP w) (\<lambda>_ w.
        and_then (query e AOTPGet (\<lambda>err. if err = PgNotFound then Unauthorized else Internal) (\<lambda>t. OTP_Get t (si_ChallengeID req)) w) (\<lambda>challenge w.
        and_then (auth_checkLimit e (KeyPhone ''otp_verify'' (ot_Phone challenge)) OTPVerifyPerPhone w) (\<lambda>_ w.
        if ot_ConsumedAt challenge \<noteq> None then (Inl Unauthorized, w)
        else if ot_ExpiresAt challenge < ax_now e then (Inl Unauthorized, w)
        else if ag_MaxCodeAttempts cfg \<le> ot_Attempts challenge then (Inl Unauthorized, w)
        else if \<not> ag_compare cfg (ot_CodeHash challenge) (TrimSpace (si_Code req)) then
          (Inl Unauthorized,
           if ax_down e AOTPIncrement then w else w\<lparr>au_tables := snd (IncrementAttempts (ot_ID challenge) (au_tables w))\<rparr>)
        else (Inr challenge, w)))))"

definition findOrCreateUser ::
  "auth_env \<Rightarrow> string \<Rightarrow> string \<Rightarrow> string \<Rightarrow> auth_world \<Rightarrow> (http_error + (User \<times> bool)) \<times> auth_world" where
  "findOrCreateUser e phone displayName langCode w =
     (if ax_down e AUserByPhone then (Inl Internal, w)
      else case Account_GetByPhone (au_tables w) phone of
        Inr user \<Rightarrow> (Inr (user, False), w)
      | Inl _ \<Rightarrow>
          let name = TrimSpace displayName
          in if name = '''' then (Inl BadRequest, w)
             else if 64 < rune_count name then (Inl BadRequest, w)
             else if ax_down e AUserCreate then (Inl Internal, w)
             else case Account_Create (ax_now e) (ax_user_id e) phone name (orDefault langCode ''en'') (au_tables w) of
               (Inr user, t) \<Rightarrow> (Inr (user, True), w\<lparr>au_tables := t\<rparr>)
             | (Inl err, _) \<Rightarrow>
                 if err = PgConflict then
                   if ax_down e AUserByPhoneAgain then (Inl Internal, w)
                   else case Account_GetByPhone (au_tables w) phone of
                     Inl _ \<Rightarrow> (Inl Internal, w) | Inr user \<Rightarrow> (Inr (user, False), w)
                 else (Inl Internal, w))"

definition resetLogin :: "auth_env \<Rightarrow> auth_world \<Rightarrow> auth_world" where
  "resetLogin e w = w\<lparr>au_buckets := snd (Limiter_Reset (ax_down e AReset) (KeyIP ''login'' (ax_ip e)) (au_buckets w))\<rparr>"

definition register_session ::
  "auth_cfg \<Rightarrow> auth_env \<Rightarrow> signInRequest \<Rightarrow> User \<Rightarrow> bool \<Rightarrow> auth_world \<Rightarrow> (http_error + signInResponse) \<times> auth_world" where
  "register_session cfg e req user created w =
     (if us_Banned user then (Inl Forbidden, w)
      else
        and_then (statement e ADeviceUpsert (\<lambda>_. Internal)
          (Devices_Upsert (ax_now e) (ax_device_id e) (us_ID user) (orGenerated e (si_AuthKeyID req)) (orDefault (si_Platform req) ''unknown'')
             (si_AppVersion req) (si_DeviceModel req) (ax_ip e)) w) (\<lambda>device w.
        case Issue (ag_lib cfg) (ag_issuer cfg) (ax_now e) (ax_tokens e) (us_ID user) (dv_ID device) [] of
          Inl _ \<Rightarrow> (Inl Internal, w)
        | Inr (access, refresh, expiresIn) \<Rightarrow>
            (Inr \<lparr>sn_AccessToken = access, sn_RefreshToken = refresh, sn_ExpiresIn = expiresIn, sn_User = user,
                 sn_DeviceID = dv_ID device, sn_Created = created\<rparr>,
             publishUserEvent e (if created then UserCreated else DeviceAdded) (us_ID user) (dv_ID device) (resetLogin e w))))"

text \<open>The part from \<^verbatim>\<open>Consume\<close> on; other requests may have run since the check.\<close>

definition sign_in_finish ::
  "auth_cfg \<Rightarrow> auth_env \<Rightarrow> signInRequest \<Rightarrow> OTPChallenge \<Rightarrow> auth_world \<Rightarrow> (http_error + signInResponse) \<times> auth_world" where
  "sign_in_finish cfg e req challenge w =
     and_then (statement e AOTPConsume (\<lambda>err. if err = PgNotFound then Unauthorized else Internal) (Consume (ax_now e) (ot_ID challenge)) w) (\<lambda>_ w.
     and_then (findOrCreateUser e (ot_Phone challenge) (si_DisplayName req) (si_LangCode req) w) (\<lambda>(user, created) w.
     register_session cfg e req user created w))"

definition handleSignIn :: "auth_cfg \<Rightarrow> auth_env \<Rightarrow> http_error + signInRequest \<Rightarrow> auth_world \<Rightarrow> (http_error + signInResponse) \<times> auth_world" where
  "handleSignIn cfg e body w =
     (case body of
        Inl err \<Rightarrow> (Inl err, w)
      | Inr req \<Rightarrow> and_then (sign_in_check cfg e req w) (\<lambda>challenge w. sign_in_finish cfg e req challenge w))"

definition handleRefresh :: "auth_cfg \<Rightarrow> auth_env \<Rightarrow> http_error + string \<Rightarrow> auth_world \<Rightarrow> (http_error + signInResponse) \<times> auth_world" where
  "handleRefresh cfg e body w =
     (case body of
        Inl err \<Rightarrow> (Inl err, w)
      | Inr token \<Rightarrow>
          (case Verify_token (ag_lib cfg) (ag_verifier cfg) (ax_now e) token RefreshToken of
             Inl _ \<Rightarrow> (Inl Unauthorized, w)
           | Inr claims \<Rightarrow>
               and_then (query e ADeviceList (\<lambda>_. Internal) (\<lambda>t. Inr (ListForUser t (tk_UserID claims))) w) (\<lambda>devices w.
               if \<not> list_ex (\<lambda>d. dv_ID d = tk_DeviceID claims) devices then (Inl Unauthorized, w)
               else and_then (query e AUserByID (\<lambda>_. Unauthorized) (\<lambda>t. Account_GetByID t (tk_UserID claims)) w) (\<lambda>user w.
                 if us_Banned user then (Inl Forbidden, w)
                 else case Issue (ag_lib cfg) (ag_issuer cfg) (ax_now e) (ax_tokens e) (tk_UserID claims) (tk_DeviceID claims) (tk_Scopes claims) of
                   Inl _ \<Rightarrow> (Inl Internal, w)
                 | Inr (access, refresh, expiresIn) \<Rightarrow>
                     (Inr \<lparr>sn_AccessToken = access, sn_RefreshToken = refresh, sn_ExpiresIn = expiresIn, sn_User = user,
                          sn_DeviceID = tk_DeviceID claims, sn_Created = False\<rparr>, w)))))"

section \<open>Account and sessions\<close>

definition handleMe :: "auth_env \<Rightarrow> Claims \<Rightarrow> auth_world \<Rightarrow> (http_error + User) \<times> auth_world" where
  "handleMe e claims w = query e AUserByID (\<lambda>_. NotFound) (\<lambda>t. Account_GetByID t (tk_UserID claims)) w"

record updateProfileRequest =
  uq_DisplayName :: "string option"
  uq_About :: "string option"
  uq_AvatarObj :: "string option"
  uq_LangCode :: "string option"

definition handleUpdateProfile ::
  "auth_env \<Rightarrow> Claims \<Rightarrow> http_error + updateProfileRequest \<Rightarrow> auth_world \<Rightarrow> (http_error + User) \<times> auth_world" where
  "handleUpdateProfile e claims body w =
     (case body of
        Inl err \<Rightarrow> (Inl err, w)
      | Inr req \<Rightarrow>
          let name = map_option TrimSpace (uq_DisplayName req)
          in if (case name of None \<Rightarrow> False | Some n \<Rightarrow> n = '''' \<or> 64 < rune_count n) then (Inl BadRequest, w)
             else if (case uq_About req of None \<Rightarrow> False | Some a \<Rightarrow> 280 < rune_count a) then (Inl BadRequest, w)
             else and_then (statement e AUpdateProfile (\<lambda>_. Internal)
                    (UpdateProfile (ax_now e) (tk_UserID claims) name (uq_About req) (uq_AvatarObj req) (uq_LangCode req)) w) (\<lambda>user w.
                  (Inr user, publishUserEvent e UserUpdated (tk_UserID claims) 0 w)))"

definition is_letter :: "char \<Rightarrow> bool" where
  "is_letter c = (byte_in 65 90 c \<or> byte_in 97 122 c)"

definition username_ok :: "string \<Rightarrow> bool" where
  "username_ok s =
     (case s of
        [] \<Rightarrow> False
      | c # cs \<Rightarrow> is_letter c \<and> list_all (\<lambda>x. is_letter x \<or> is_digit x \<or> x = CHR ''_'') cs \<and> 4 \<le> length cs \<and> length cs \<le> 31)"

definition handleSetUsername :: "auth_env \<Rightarrow> Claims \<Rightarrow> http_error + string \<Rightarrow> auth_world \<Rightarrow> (http_error + string) \<times> auth_world" where
  "handleSetUsername e claims body w =
     (case body of
        Inl err \<Rightarrow> (Inl err, w)
      | Inr raw \<Rightarrow>
          let username = TrimSpace raw
          in if username \<noteq> '''' \<and> \<not> username_ok username then (Inl BadRequest, w)
             else and_then (statement e ASetUsername (\<lambda>err. if err = PgConflict then Conflict else Internal)
                    (SetUsername (ax_now e) (tk_UserID claims) username) w) (\<lambda>_ w. (Inr username, w)))"

definition handleDeleteAccount :: "auth_cfg \<Rightarrow> auth_env \<Rightarrow> Claims \<Rightarrow> auth_world \<Rightarrow> (http_error + unit) \<times> auth_world" where
  "handleDeleteAccount cfg e claims w =
     and_then (statement e ARevokeAll (\<lambda>_. Internal) (\<lambda>t. map_prod Inr id (RevokeAllExcept (ax_now e) (tk_UserID claims) 0 t)) w) (\<lambda>_ w.
     and_then (statement e ASoftDelete (\<lambda>_. Internal) (Account_SoftDelete (ax_now e) (tk_UserID claims)) w) (\<lambda>_ w.
     (Inr (), auth_audit cfg e (entry_of ActionAccountDeleted (tk_UserID claims) ''user'' (tk_UserID claims) [])
                (publishUserEvent e UserDeleted (tk_UserID claims) 0 w))))"

definition handleListDevices :: "auth_env \<Rightarrow> Claims \<Rightarrow> auth_world \<Rightarrow> (http_error + Device list) \<times> auth_world" where
  "handleListDevices e claims w =
     query e ADeviceList (\<lambda>_. Internal) (\<lambda>t. Inr (map (\<lambda>d. d\<lparr>dv_PushToken := None\<rparr>) (ListForUser t (tk_UserID claims)))) w"

definition handleRevokeDevice :: "auth_cfg \<Rightarrow> auth_env \<Rightarrow> Claims \<Rightarrow> string \<Rightarrow> auth_world \<Rightarrow> (http_error + unit) \<times> auth_world" where
  "handleRevokeDevice cfg e claims rawID w =
     (case PathInt64 rawID of
        Inl err \<Rightarrow> (Inl err, w)
      | Inr deviceID \<Rightarrow>
          and_then (statement e ARevoke (\<lambda>err. if err = PgNotFound then NotFound else Internal)
            (Revoke (ax_now e) (tk_UserID claims) deviceID) w) (\<lambda>_ w.
          (Inr (), auth_audit cfg e (entry_of ActionDeviceRevoked (tk_UserID claims) ''device'' deviceID [])
                     (publishUserEvent e DeviceRevoke (tk_UserID claims) deviceID w))))"

definition handleRevokeOthers :: "auth_cfg \<Rightarrow> auth_env \<Rightarrow> Claims \<Rightarrow> auth_world \<Rightarrow> (http_error + int) \<times> auth_world" where
  "handleRevokeOthers cfg e claims w =
     and_then (statement e ARevokeAll (\<lambda>_. Internal)
       (\<lambda>t. map_prod Inr id (RevokeAllExcept (ax_now e) (tk_UserID claims) (tk_DeviceID claims) t)) w) (\<lambda>n w.
     (Inr n, auth_audit cfg e (entry_of ActionDeviceRevoked (tk_UserID claims) ''user'' (tk_UserID claims)
               [(''scope'', ''all_other_sessions''), (''count'', itoa n)]) w))"

definition handleSetPushToken :: "auth_env \<Rightarrow> Claims \<Rightarrow> http_error + string \<Rightarrow> auth_world \<Rightarrow> (http_error + unit) \<times> auth_world" where
  "handleSetPushToken e claims body w =
     (case body of
        Inl err \<Rightarrow> (Inl err, w)
      | Inr token \<Rightarrow>
          if 4096 < length token then (Inl BadRequest, w)
          else statement e APushToken (\<lambda>_. Internal) (\<lambda>t. (Inr (), SetPushToken (ax_now e) (tk_DeviceID claims) token t)) w)"

record resolveTokenRequest =
  rt_AccessToken :: string
  rt_AuthKeyID :: string
  rt_Platform :: string
  rt_AppVersion :: string
  rt_DeviceModel :: string
  rt_IP :: string

record resolveTokenResponse =
  rr_UserID :: int
  rr_DeviceID :: int
  rr_DisplayName :: string
  rr_LangCode :: string

definition handleResolveToken ::
  "auth_cfg \<Rightarrow> auth_env \<Rightarrow> http_error + resolveTokenRequest \<Rightarrow> auth_world \<Rightarrow> (http_error + resolveTokenResponse) \<times> auth_world" where
  "handleResolveToken cfg e body w =
     (case body of
        Inl err \<Rightarrow> (Inl err, w)
      | Inr req \<Rightarrow>
          (case Verify_token (ag_lib cfg) (ag_verifier cfg) (ax_now e) (rt_AccessToken req) AccessToken of
             Inl _ \<Rightarrow> (Inl Unauthorized, w)
           | Inr claims \<Rightarrow>
               and_then (query e AUserByID (\<lambda>_. Unauthorized) (\<lambda>t. Account_GetByID t (tk_UserID claims)) w) (\<lambda>user w.
               if us_Banned user then (Inl Forbidden, w)
               else
                 and_then (if rt_AuthKeyID req = '''' then (Inr (tk_DeviceID claims), w)
                           else and_then (statement e ADeviceUpsert (\<lambda>_. Internal)
                                  (Devices_Upsert (ax_now e) (ax_device_id e) (us_ID user) (rt_AuthKeyID req)
                                     (orDefault (rt_Platform req) ''unknown'') (rt_AppVersion req) (rt_DeviceModel req) (rt_IP req)) w)
                                (\<lambda>device w. (Inr (dv_ID device), w))) (\<lambda>deviceID w.
                 (Inr \<lparr>rr_UserID = us_ID user, rr_DeviceID = deviceID, rr_DisplayName = us_DisplayName user,
                      rr_LangCode = us_LangCode user\<rparr>, w)))))"

section \<open>Contacts and blocks\<close>

definition contactImportLimit :: Limit where
  "contactImportLimit = \<lparr>lim_Burst = 3, lim_Rate = 1 / 600\<rparr>"

definition maxImportEntries :: nat where "maxImportEntries = 2000"

definition handleImportContacts ::
  "auth_cfg \<Rightarrow> auth_env \<Rightarrow> Claims \<Rightarrow> http_error + ImportEntry list \<Rightarrow> auth_world \<Rightarrow> (http_error + User list) \<times> auth_world" where
  "handleImportContacts cfg e claims body w =
     (case body of
        Inl err \<Rightarrow> (Inl err, w)
      | Inr entries \<Rightarrow>
          if entries = [] then (Inr [], w)
          else if maxImportEntries < length entries then (Inl BadRequest, w)
          else
            and_then (auth_checkLimit e (KeyUser ''contact_import'' (tk_UserID claims)) contactImportLimit w) (\<lambda>_ w.
            statement e AContactImport (\<lambda>_. Internal) (Contacts_Import (ax_now e) (tk_UserID claims) (ag_ContactPepper cfg) entries) w))"

record contact_entry =
  cy_UserID :: int
  cy_FirstName :: string
  cy_LastName :: string
  cy_DisplayName :: string
  cy_Username :: "string option"
  cy_AvatarObj :: "string option"

definition hydrate :: "(int \<times> User) list \<Rightarrow> Contact \<Rightarrow> contact_entry option" where
  "hydrate users c =
     map_option (\<lambda>u. \<lparr>cy_UserID = co_UserID c, cy_FirstName = co_FirstName c, cy_LastName = co_LastName c,
        cy_DisplayName = us_DisplayName u, cy_Username = us_Username u, cy_AvatarObj = us_AvatarObj u\<rparr>) (map_of users (co_UserID c))"

definition handleListContacts ::
  "auth_cfg \<Rightarrow> auth_env \<Rightarrow> Claims \<Rightarrow> string \<Rightarrow> string \<Rightarrow> auth_world \<Rightarrow> (http_error + contact_entry list) \<times> auth_world" where
  "handleListContacts cfg e claims limit offset w =
     and_then (query e AContactList (\<lambda>_. Internal)
       (\<lambda>t. Inr (Contacts_List (ag_order cfg) t (tk_UserID claims) (QueryInt limit 200 1 1000) (QueryInt offset 0 0 100000))) w) (\<lambda>contacts w.
     and_then (query e AUserMany (\<lambda>_. Internal) (\<lambda>t. Inr (Account_GetMany t (map co_UserID contacts))) w) (\<lambda>users w.
     (Inr (List.map_filter (hydrate users) contacts), w)))"

record addContactRequest =
  aq_UserID :: int
  aq_FirstName :: string
  aq_LastName :: string

definition handleAddContact :: "auth_env \<Rightarrow> Claims \<Rightarrow> http_error + addContactRequest \<Rightarrow> auth_world \<Rightarrow> (http_error + unit) \<times> auth_world" where
  "handleAddContact e claims body w =
     (case body of
        Inl err \<Rightarrow> (Inl err, w)
      | Inr req \<Rightarrow>
          if aq_UserID req = 0 then (Inl BadRequest, w)
          else if TrimSpace (aq_FirstName req) = '''' then (Inl BadRequest, w)
          else
            and_then (query e AUserByID (\<lambda>_. NotFound) (\<lambda>t. Account_GetByID t (aq_UserID req)) w) (\<lambda>_ w.
            statement e AContactAdd (\<lambda>err. if err = PgConflict then BadRequest else Internal)
              (Contacts_Add (ax_now e) (tk_UserID claims) (aq_UserID req) (TrimSpace (aq_FirstName req)) (TrimSpace (aq_LastName req))) w))"

definition handleDeleteContact :: "auth_env \<Rightarrow> Claims \<Rightarrow> string \<Rightarrow> auth_world \<Rightarrow> (http_error + unit) \<times> auth_world" where
  "handleDeleteContact e claims rawID w =
     (case PathInt64 rawID of
        Inl err \<Rightarrow> (Inl err, w)
      | Inr contactID \<Rightarrow>
          statement e AContactDelete (\<lambda>err. if err = PgNotFound then NotFound else Internal) (Contacts_Delete (tk_UserID claims) contactID) w)"

definition handleBlock :: "auth_env \<Rightarrow> Claims \<Rightarrow> http_error + int \<Rightarrow> auth_world \<Rightarrow> (http_error + unit) \<times> auth_world" where
  "handleBlock e claims body w =
     (case body of
        Inl err \<Rightarrow> (Inl err, w)
      | Inr userID \<Rightarrow>
          if userID = 0 then (Inl BadRequest, w)
          else
            and_then (statement e ABlock (\<lambda>err. if err = PgConflict then BadRequest else Internal)
              (Blocks_Block (ax_now e) (tk_UserID claims) userID) w) (\<lambda>_ w.
            (Inr (), invalidateBlockCache e (tk_UserID claims) userID w)))"

definition handleUnblock :: "auth_env \<Rightarrow> Claims \<Rightarrow> string \<Rightarrow> auth_world \<Rightarrow> (http_error + unit) \<times> auth_world" where
  "handleUnblock e claims rawID w =
     (case PathInt64 rawID of
        Inl err \<Rightarrow> (Inl err, w)
      | Inr blockedID \<Rightarrow>
          and_then (statement e AUnblock (\<lambda>_. Internal) (\<lambda>t. (Inr (), Blocks_Unblock (tk_UserID claims) blockedID t)) w) (\<lambda>_ w.
          (Inr (), invalidateBlockCache e (tk_UserID claims) blockedID w)))"

definition handleListBlocks :: "auth_env \<Rightarrow> Claims \<Rightarrow> auth_world \<Rightarrow> (http_error + (int \<times> string \<times> string option) list) \<times> auth_world" where
  "handleListBlocks e claims w =
     and_then (query e ABlockList (\<lambda>_. Internal) (\<lambda>t. Inr (Blocks_List t (tk_UserID claims))) w) (\<lambda>is w.
     and_then (query e AUserMany (\<lambda>_. Internal) (\<lambda>t. Inr (Account_GetMany t is)) w) (\<lambda>users w.
     (Inr (List.map_filter (\<lambda>i. map_option (\<lambda>u. (i, us_DisplayName u, us_Username u)) (map_of users i)) is), w)))"

definition handleBlockCheck :: "auth_env \<Rightarrow> string \<Rightarrow> string \<Rightarrow> auth_world \<Rightarrow> (http_error + bool) \<times> auth_world" where
  "handleBlockCheck e rawA rawB w =
     (let a = QueryInt64 rawA 0; b = QueryInt64 rawB 0
      in if a = 0 \<or> b = 0 then (Inl BadRequest, w)
         else query e ABlockCheck (\<lambda>_. Unavailable) (\<lambda>t. Inr (IsBlockedBetween t a b)) w)"

definition handleBlockedAmong :: "auth_env \<Rightarrow> http_error + int \<times> int list \<Rightarrow> auth_world \<Rightarrow> (http_error + int list) \<times> auth_world" where
  "handleBlockedAmong e body w =
     (case body of
        Inl err \<Rightarrow> (Inl err, w)
      | Inr (senderID, candidates) \<Rightarrow>
          if senderID = 0 then (Inl BadRequest, w)
          else if 10000 < length candidates then (Inl BadRequest, w)
          else query e ABlockAmong (\<lambda>_. Unavailable) (\<lambda>t. Inr (Blocks_BlockedAmong t senderID candidates)) w)"

definition handleMutualContacts :: "auth_env \<Rightarrow> string \<Rightarrow> auth_world \<Rightarrow> (http_error + int list) \<times> auth_world" where
  "handleMutualContacts e rawID w =
     (case PathInt64 rawID of
        Inl err \<Rightarrow> (Inl err, w)
      | Inr userID \<Rightarrow> query e AMutual (\<lambda>_. Internal) (\<lambda>t. Inr (MutualIDs t userID)) w)"

section \<open>Routes\<close>

datatype authed_request =
  Me | PatchMe "http_error + updateProfileRequest" | DeleteMe | GetDevices | DeleteDevice string | RevokeOthers
| PutPushToken "http_error + string" | PutUsername "http_error + string" | ImportContacts "http_error + ImportEntry list"
| GetContacts string string | PostContact "http_error + addContactRequest" | DeleteContact string
| GetBlocks | PostBlock "http_error + int" | DeleteBlock string

datatype auth_request =
  SendCode "http_error + string" | SignIn "http_error + signInRequest" | RefreshSession "http_error + string"
| Authed string authed_request
| ResolveToken "http_error + resolveTokenRequest" | BlockCheck string string
| BlockedAmong "http_error + int \<times> int list" | MutualContacts string

datatype auth_response =
  CodeSent sendCodeResponse | SignedIn signInResponse | Profile User | AccountDone | DeviceList "Device list" | Revoked int
| UsernameSet string | Imported "User list" | ContactList "contact_entry list" | BlockList "(int \<times> string \<times> string option) list"
| Resolved resolveTokenResponse | IsBlockedReply bool | UserIDs "int list"

definition respond :: "('a \<Rightarrow> auth_response) \<Rightarrow> (http_error + 'a) \<times> auth_world \<Rightarrow> (http_error + auth_response) \<times> auth_world" where
  "respond f r = map_prod (map_sum id f) id r"

definition authed_route :: "auth_cfg \<Rightarrow> auth_env \<Rightarrow> Claims \<Rightarrow> authed_request \<Rightarrow> auth_world \<Rightarrow> (http_error + auth_response) \<times> auth_world" where
  "authed_route cfg e c r w =
     (case r of
        Me \<Rightarrow> respond Profile (handleMe e c w)
      | PatchMe body \<Rightarrow> respond Profile (handleUpdateProfile e c body w)
      | DeleteMe \<Rightarrow> respond (\<lambda>_. AccountDone) (handleDeleteAccount cfg e c w)
      | GetDevices \<Rightarrow> respond DeviceList (handleListDevices e c w)
      | DeleteDevice i \<Rightarrow> respond (\<lambda>_. AccountDone) (handleRevokeDevice cfg e c i w)
      | RevokeOthers \<Rightarrow> respond Revoked (handleRevokeOthers cfg e c w)
      | PutPushToken body \<Rightarrow> respond (\<lambda>_. AccountDone) (handleSetPushToken e c body w)
      | PutUsername body \<Rightarrow> respond UsernameSet (handleSetUsername e c body w)
      | ImportContacts body \<Rightarrow> respond Imported (handleImportContacts cfg e c body w)
      | GetContacts limit offset \<Rightarrow> respond ContactList (handleListContacts cfg e c limit offset w)
      | PostContact body \<Rightarrow> respond (\<lambda>_. AccountDone) (handleAddContact e c body w)
      | DeleteContact i \<Rightarrow> respond (\<lambda>_. AccountDone) (handleDeleteContact e c i w)
      | GetBlocks \<Rightarrow> respond BlockList (handleListBlocks e c w)
      | PostBlock body \<Rightarrow> respond (\<lambda>_. AccountDone) (handleBlock e c body w)
      | DeleteBlock i \<Rightarrow> respond (\<lambda>_. AccountDone) (handleUnblock e c i w))"

definition auth_serve :: "auth_cfg \<Rightarrow> auth_env \<Rightarrow> auth_request \<Rightarrow> auth_world \<Rightarrow> (http_error + auth_response) \<times> auth_world" where
  "auth_serve cfg e r w =
     (case r of
        SendCode body \<Rightarrow> respond CodeSent (handleSendCode cfg e body w)
      | SignIn body \<Rightarrow> respond SignedIn (handleSignIn cfg e body w)
      | RefreshSession body \<Rightarrow> respond SignedIn (handleRefresh cfg e body w)
      | Authed header r' \<Rightarrow>
          (case authenticate (ag_lib cfg) (ag_verifier cfg) (ax_now e) header of
             Inl err \<Rightarrow> (Inl err, w) | Inr c \<Rightarrow> authed_route cfg e c r' w)
      | ResolveToken body \<Rightarrow> respond Resolved (handleResolveToken cfg e body w)
      | BlockCheck a b \<Rightarrow> respond IsBlockedReply (handleBlockCheck e a b w)
      | BlockedAmong body \<Rightarrow> respond UserIDs (handleBlockedAmong e body w)
      | MutualContacts i \<Rightarrow> respond UserIDs (handleMutualContacts e i w))"

text \<open>A step of the running service: a whole request; or the two halves of a sign-in, between which others run.\<close>

datatype auth_event = Whole auth_env auth_request | SignInCheck auth_env signInRequest | SignInFinish nat auth_env

text \<open>The sign-ins whose code was accepted and which have not gone on yet, and the sessions issued so far: the challenge, the user
  and the device.\<close>

record auth_state =
  ar_world :: auth_world
  ar_pending :: "(signInRequest \<times> OTPChallenge) list"
  ar_issued :: "(string \<times> int \<times> int) list"

definition issued_by :: "string \<Rightarrow> http_error + signInResponse \<Rightarrow> (string \<times> int \<times> int) list" where
  "issued_by c r = (case r of Inl _ \<Rightarrow> [] | Inr s \<Rightarrow> [(c, us_ID (sn_User s), sn_DeviceID s)])"

definition auth_step :: "auth_cfg \<Rightarrow> auth_event \<Rightarrow> auth_state \<Rightarrow> auth_state" where
  "auth_step cfg s a =
     (case s of
        Whole e r \<Rightarrow>
          (case r of
             SignIn (Inr req) \<Rightarrow>
               (case handleSignIn cfg e (Inr req) (ar_world a) of
                  (res, w) \<Rightarrow> a\<lparr>ar_world := w, ar_issued := ar_issued a @ issued_by (si_ChallengeID req) res\<rparr>)
           | _ \<Rightarrow> a\<lparr>ar_world := snd (auth_serve cfg e r (ar_world a))\<rparr>)
      | SignInCheck e req \<Rightarrow>
          (case sign_in_check cfg e req (ar_world a) of
             (Inl _, w) \<Rightarrow> a\<lparr>ar_world := w\<rparr>
           | (Inr c, w) \<Rightarrow> a\<lparr>ar_world := w, ar_pending := ar_pending a @ [(req, c)]\<rparr>)
      | SignInFinish i e \<Rightarrow>
          if length (ar_pending a) \<le> i then a
          else
            (case ar_pending a ! i of
               (req, c) \<Rightarrow>
                 (case sign_in_finish cfg e req c (ar_world a) of
                    (res, w) \<Rightarrow>
                      a\<lparr>ar_world := w, ar_pending := take i (ar_pending a) @ drop (Suc i) (ar_pending a),
                        ar_issued := ar_issued a @ issued_by (si_ChallengeID req) res\<rparr>)))"

definition new_auth :: auth_state where
  "new_auth = \<lparr>ar_world = \<lparr>au_tables = empty_accounts, au_buckets = [], au_cache = [], au_events = [], au_sent = [], au_audit = None\<rparr>,
     ar_pending = [], ar_issued = []\<rparr>"

definition auth_run :: "auth_cfg \<Rightarrow> auth_event list \<Rightarrow> auth_state" where
  "auth_run cfg steps = fold (auth_step cfg) steps new_auth"

section \<open>How handlers change the tables\<close>

lemma and_then_keeps:
  "P (snd r) \<Longrightarrow> (\<And>x w. P w \<Longrightarrow> P (snd (k x w))) \<Longrightarrow> P (snd (and_then r k))"
  by (cases r; cases "fst r") (auto simp: and_then_def)

lemma frames [simp]:
  "au_tables (snd (auth_checkLimit e key l w)) = au_tables w" "au_tables (resetLogin e w) = au_tables w"
  "au_tables (publishUserEvent e kind u d w) = au_tables w" "au_tables (auth_audit cfg e a w) = au_tables w"
  "au_tables (invalidateBlockCache e x y w) = au_tables w" "snd (query e c f q w) = w" "snd (respond g r) = snd r"
  by (auto simp: auth_checkLimit_def resetLogin_def publishUserEvent_def auth_audit_def invalidateBlockCache_def query_def
        respond_def Let_def split: prod.split option.split)

lemma statement_keeps:
  "P (au_tables w) \<Longrightarrow> (P (au_tables w) \<Longrightarrow> P (snd (op' (au_tables w)))) \<Longrightarrow> P (au_tables (snd (statement e c f op' w)))"
  by (auto simp: statement_def split: prod.split)

text \<open>A property of the tables that every statement keeps, except perhaps the registration of a device and the removal of a
  block, is kept by the handlers.\<close>

locale table_property =
  fixes P :: "accounts \<Rightarrow> bool" and cfg :: auth_cfg and e :: auth_env
  assumes otp: "P t \<Longrightarrow> P (snd (OTP_Create (ax_now e) i ph h ttl t))" "P t \<Longrightarrow> P (snd (IncrementAttempts i t))"
      "P t \<Longrightarrow> P (snd (Consume (ax_now e) i t))"
    and user: "P t \<Longrightarrow> P (snd (Account_Create (ax_now e) u ph nm lc t))" "P t \<Longrightarrow> P (snd (UpdateProfile (ax_now e) u dn ab av la t))"
      "P t \<Longrightarrow> P (snd (SetUsername (ax_now e) u un t))" "P t \<Longrightarrow> P (snd (Account_SoftDelete (ax_now e) u t))"
    and contact: "P t \<Longrightarrow> P (snd (Contacts_Add (ax_now e) u v fn sn t))" "P t \<Longrightarrow> P (snd (Contacts_Import (ax_now e) u pp es t))"
      "P t \<Longrightarrow> P (snd (Contacts_Delete u v t))"
    and block: "P t \<Longrightarrow> P (snd (Blocks_Block (ax_now e) u v t))"
    and device: "P t \<Longrightarrow> P (snd (Revoke (ax_now e) u d t))" "P t \<Longrightarrow> P (snd (RevokeAllExcept (ax_now e) u d t))"
      "P t \<Longrightarrow> P (SetPushToken (ax_now e) d tok t)"
begin

lemma send_code: "P (au_tables w) \<Longrightarrow> P (au_tables (snd (handleSendCode cfg e body w)))"
  unfolding handleSendCode_def Let_def
  by (auto split: sum.split option.split intro!: and_then_keeps [where P = "\<lambda>w. P (au_tables w)"] statement_keeps [where P = P] otp)

lemma sign_in_check: "P (au_tables w) \<Longrightarrow> P (au_tables (snd (sign_in_check cfg e req w)))"
  unfolding sign_in_check_def by (auto intro!: and_then_keeps [where P = "\<lambda>w. P (au_tables w)"] otp)

lemma find_or_create: "P (au_tables w) \<Longrightarrow> P (au_tables (snd (findOrCreateUser e ph dn lc w)))"
  using user(1) [of "au_tables w" "ax_user_id e" ph "TrimSpace dn" "orDefault lc ''en''"]
  by (auto simp: findOrCreateUser_def Let_def split: sum.split prod.split)

lemma sign_in_finish:
  assumes "P (au_tables w)"
    and up: "\<And>t u k pf. P t \<Longrightarrow> k = orGenerated e (si_AuthKeyID req) \<Longrightarrow>
      P (snd (Devices_Upsert (ax_now e) (ax_device_id e) u k pf (si_AppVersion req) (si_DeviceModel req) (ax_ip e) t))"
  shows "P (au_tables (snd (sign_in_finish cfg e req c w)))"
  unfolding sign_in_finish_def register_session_def
  using assms(1)
  by (auto split: sum.split prod.split intro!: and_then_keeps [where P = "\<lambda>w. P (au_tables w)"] statement_keeps [where P = P] otp
        find_or_create up)

lemma resolve_token:
  assumes "P (au_tables w)"
    and up: "\<And>t u k pf av dm ip. P t \<Longrightarrow> body = Inr req \<Longrightarrow> k = rt_AuthKeyID req \<Longrightarrow> k \<noteq> '''' \<Longrightarrow>
      P (snd (Devices_Upsert (ax_now e) (ax_device_id e) u k pf av dm ip t))"
    and "\<forall>req'. body = Inr req' \<longrightarrow> req' = req"
  shows "P (au_tables (snd (handleResolveToken cfg e body w)))"
proof (cases body)
  case (Inr r)
  then have Inr: "body = Inr req" using assms(3) by simp
  have "P (au_tables (snd (statement e ADeviceUpsert f (Devices_Upsert (ax_now e) (ax_device_id e) u (rt_AuthKeyID req) pf av dm ip) w)))"
    if "P (au_tables w)" "rt_AuthKeyID req \<noteq> ''''" for f u pf av dm ip w
    by (rule statement_keeps [where P = P]) (use that up Inr in auto)
  then show ?thesis
    using assms(1) Inr unfolding handleResolveToken_def
    by (auto split: sum.split intro!: and_then_keeps [where P = "\<lambda>w. P (au_tables w)"])
qed (simp add: handleResolveToken_def assms)

lemma sessions:
  assumes "P (au_tables w)"
  shows "P (au_tables (snd (handleUpdateProfile e c b1 w)))" "P (au_tables (snd (handleSetUsername e c b2 w)))"
    "P (au_tables (snd (handleDeleteAccount cfg e c w)))" "P (au_tables (snd (handleRevokeDevice cfg e c i w)))"
    "P (au_tables (snd (handleRevokeOthers cfg e c w)))" "P (au_tables (snd (handleSetPushToken e c b2 w)))"
proof -
  have rev: "P t \<Longrightarrow> P (snd (map_prod Inr id (RevokeAllExcept (ax_now e) u d t)))" for t u d using device(2) by simp
  show "P (au_tables (snd (handleUpdateProfile e c b1 w)))" "P (au_tables (snd (handleSetUsername e c b2 w)))"
    "P (au_tables (snd (handleRevokeDevice cfg e c i w)))" "P (au_tables (snd (handleSetPushToken e c b2 w)))"
    using assms unfolding handleUpdateProfile_def handleSetUsername_def handleRevokeDevice_def handleSetPushToken_def Let_def
    by (auto split: sum.split option.split intro!: and_then_keeps [where P = "\<lambda>w. P (au_tables w)"] statement_keeps [where P = P] user device)
  show "P (au_tables (snd (handleDeleteAccount cfg e c w)))" "P (au_tables (snd (handleRevokeOthers cfg e c w)))"
    using assms unfolding handleDeleteAccount_def handleRevokeOthers_def
    by (auto intro!: and_then_keeps [where P = "\<lambda>w. P (au_tables w)"] statement_keeps [where P = P] user rev)
qed

lemma social:
  assumes "P (au_tables w)"
  shows "P (au_tables (snd (handleImportContacts cfg e c b1 w)))" "P (au_tables (snd (handleAddContact e c b2 w)))"
    "P (au_tables (snd (handleDeleteContact e c i w)))" "P (au_tables (snd (handleBlock e c b3 w)))"
  using assms unfolding handleImportContacts_def handleAddContact_def handleDeleteContact_def handleBlock_def
  by (auto split: sum.split intro!: and_then_keeps [where P = "\<lambda>w. P (au_tables w)"] statement_keeps [where P = P] contact block)

lemma unblock:
  assumes "P (au_tables w)" and "\<And>t b. P t \<Longrightarrow> PathInt64 i = Inr b \<Longrightarrow> P (Blocks_Unblock (tk_UserID c) b t)"
  shows "P (au_tables (snd (handleUnblock e c i w)))"
  using assms unfolding handleUnblock_def
  by (auto split: sum.split intro!: and_then_keeps [where P = "\<lambda>w. P (au_tables w)"] statement_keeps [where P = P])

lemma sign_in:
  assumes "P (au_tables w)"
    and up: "\<And>t u k pf av dm ip. P t \<Longrightarrow> k = orGenerated e (si_AuthKeyID req) \<Longrightarrow>
      P (snd (Devices_Upsert (ax_now e) (ax_device_id e) u k pf av dm ip t))"
  shows "P (au_tables (snd (handleSignIn cfg e (Inr req) w)))"
  unfolding handleSignIn_def
  using assms(1) by (auto intro!: and_then_keeps [where P = "\<lambda>w. P (au_tables w)"] sign_in_check sign_in_finish up)

end

text \<open>The auth key a request may register, and the block it may remove.\<close>

definition request_key :: "auth_env \<Rightarrow> auth_request \<Rightarrow> string option" where
  "request_key e r =
     (case r of
        SignIn (Inr req) \<Rightarrow> Some (orGenerated e (si_AuthKeyID req))
      | ResolveToken (Inr req) \<Rightarrow> if rt_AuthKeyID req = '''' then None else Some (rt_AuthKeyID req)
      | _ \<Rightarrow> None)"

definition unblocks :: "auth_cfg \<Rightarrow> auth_env \<Rightarrow> auth_request \<Rightarrow> (int \<times> int) option" where
  "unblocks cfg e r =
     (case r of
        Authed h (DeleteBlock i) \<Rightarrow>
          (case (authenticate (ag_lib cfg) (ag_verifier cfg) (ax_now e) h, PathInt64 i) of
             (Inr c, Inr b) \<Rightarrow> Some (tk_UserID c, b) | _ \<Rightarrow> None)
      | _ \<Rightarrow> None)"

lemma refresh_state [simp]: "snd (handleRefresh cfg e body w) = w"
  unfolding handleRefresh_def and_then_def query_def by (simp split: sum.split prod.split)

context table_property
begin

lemma authed:
  assumes "P (au_tables w)"
    and "\<And>t i b. P t \<Longrightarrow> r = DeleteBlock i \<Longrightarrow> PathInt64 i = Inr b \<Longrightarrow> P (Blocks_Unblock (tk_UserID c) b t)"
  shows "P (au_tables (snd (authed_route cfg e c r w)))"
proof (cases r)
  case (DeleteBlock i)
  then show ?thesis using unblock [OF assms(1)] assms(2) by (simp add: authed_route_def)
next
  case (GetContacts limit offset)
  have "P (au_tables (snd (handleListContacts cfg e c limit offset w)))"
    unfolding handleListContacts_def using assms(1) by (auto intro!: and_then_keeps [where P = "\<lambda>w. P (au_tables w)"])
  then show ?thesis using GetContacts by (simp add: authed_route_def)
next
  case GetBlocks
  have "P (au_tables (snd (handleListBlocks e c w)))"
    unfolding handleListBlocks_def using assms(1) by (auto intro!: and_then_keeps [where P = "\<lambda>w. P (au_tables w)"])
  then show ?thesis using GetBlocks by (simp add: authed_route_def)
qed (use sessions [OF assms(1)] social [OF assms(1)] assms(1) in \<open>simp_all add: authed_route_def handleMe_def handleListDevices_def\<close>)

lemma request:
  assumes "P (au_tables w)"
    and up: "\<And>t u k pf av dm ip. P t \<Longrightarrow> request_key e r = Some k \<Longrightarrow> P (snd (Devices_Upsert (ax_now e) (ax_device_id e) u k pf av dm ip t))"
    and ub: "\<And>t a b. P t \<Longrightarrow> unblocks cfg e r = Some (a, b) \<Longrightarrow> P (Blocks_Unblock a b t)"
  shows "P (au_tables (snd (auth_serve cfg e r w)))"
proof (cases r)
  case (SignIn body)
  show ?thesis
  proof (cases body)
    case (Inr req)
    then show ?thesis using SignIn sign_in [OF assms(1)] up by (simp add: auth_serve_def request_key_def)
  qed (use SignIn assms(1) in \<open>simp add: auth_serve_def handleSignIn_def\<close>)
next
  case (ResolveToken body)
  show ?thesis
  proof (cases body)
    case (Inr req)
    have "P (au_tables (snd (handleResolveToken cfg e body w)))"
      by (rule resolve_token [OF assms(1), where req = req]) (use ResolveToken Inr up in \<open>auto simp: request_key_def\<close>)
    then show ?thesis using ResolveToken by (simp add: auth_serve_def)
  qed (use ResolveToken assms(1) in \<open>simp add: auth_serve_def handleResolveToken_def\<close>)
next
  case (Authed h r')
  show ?thesis
  proof (cases "authenticate (ag_lib cfg) (ag_verifier cfg) (ax_now e) h")
    case (Inr c)
    have "P (au_tables (snd (authed_route cfg e c r' w)))"
      by (rule authed [OF assms(1)]) (use Authed Inr ub in \<open>auto simp: unblocks_def\<close>)
    then show ?thesis using Authed Inr by (simp add: auth_serve_def)
  qed (use Authed assms(1) in \<open>simp add: auth_serve_def\<close>)
next
  case (BlockedAmong body)
  then show ?thesis using assms(1) by (auto simp: auth_serve_def handleBlockedAmong_def split: sum.split)
qed (use assms(1) send_code in
      \<open>auto simp: auth_serve_def handleBlockCheck_def handleMutualContacts_def Let_def split: sum.split\<close>)

end

section \<open>Properties of the tables over requests\<close>

interpretation tables_ok: table_property accounts_ok cfg e for cfg e
  by unfold_locales (simp_all add: keep_accounts)

lemma update_user_frame [simp]:
  "ac_otps (snd (update_user now i f t)) = ac_otps t" "ac_devices (snd (update_user now i f t)) = ac_devices t"
  "ac_blocks (snd (update_user now i f t)) = ac_blocks t"
  by (simp_all add: update_user_def Let_def split: sum.split)

lemma put_contact_frame [simp]:
  "ac_otps (snd (put_contact now a b fn la t)) = ac_otps t" "ac_devices (snd (put_contact now a b fn la t)) = ac_devices t"
  "ac_blocks (snd (put_contact now a b fn la t)) = ac_blocks t"
  by (simp_all add: put_contact_def split: option.split)

lemma put_contacts_frame [simp]:
  "ac_otps (snd (put_contacts now a rows t)) = ac_otps t \<and> ac_devices (snd (put_contacts now a rows t)) = ac_devices t
     \<and> ac_blocks (snd (put_contacts now a rows t)) = ac_blocks t"
proof (induction now a rows t rule: put_contacts.induct)
  case (2 now a u e rows t)
  then show ?case
    using put_contact_frame [of now a u "ie_FirstName e" "ie_LastName e" t]
    by (cases "put_contact now a u (ie_FirstName e) (ie_LastName e) t"; cases "fst (put_contact now a u (ie_FirstName e) (ie_LastName e) t)") auto
qed simp

lemma table_frames [simp]:
  "ac_otps (snd (Account_Create now u ph nm lc t)) = ac_otps t" "ac_devices (snd (Account_Create now u ph nm lc t)) = ac_devices t"
  "ac_blocks (snd (Account_Create now u ph nm lc t)) = ac_blocks t"
  "ac_otps (snd (UpdateProfile now u dn ab av la t)) = ac_otps t" "ac_devices (snd (UpdateProfile now u dn ab av la t)) = ac_devices t"
  "ac_blocks (snd (UpdateProfile now u dn ab av la t)) = ac_blocks t"
  "ac_otps (snd (SetUsername now u un t)) = ac_otps t" "ac_devices (snd (SetUsername now u un t)) = ac_devices t"
  "ac_blocks (snd (SetUsername now u un t)) = ac_blocks t"
  "ac_otps (snd (Account_SoftDelete now u t)) = ac_otps t" "ac_devices (snd (Account_SoftDelete now u t)) = ac_devices t"
  "ac_blocks (snd (Account_SoftDelete now u t)) = ac_blocks t"
  by (simp_all add: Account_Create_def UpdateProfile_def SetUsername_def Account_SoftDelete_def Let_def)

lemma contact_frames [simp]:
  "ac_otps (snd (Contacts_Add now a b fn la t)) = ac_otps t" "ac_devices (snd (Contacts_Add now a b fn la t)) = ac_devices t"
  "ac_blocks (snd (Contacts_Add now a b fn la t)) = ac_blocks t"
  "ac_otps (snd (Contacts_Delete a b t)) = ac_otps t" "ac_devices (snd (Contacts_Delete a b t)) = ac_devices t"
  "ac_blocks (snd (Contacts_Delete a b t)) = ac_blocks t"
  by (simp_all add: Contacts_Add_def Contacts_Delete_def)

lemma import_frame [simp]:
  "ac_otps (snd (Contacts_Import now a pp es t)) = ac_otps t" "ac_devices (snd (Contacts_Import now a pp es t)) = ac_devices t"
  "ac_blocks (snd (Contacts_Import now a pp es t)) = ac_blocks t"
proof -
  let ?rows = "map (\<lambda>u. (us_ID u, the (map_of (by_hash es []) (sql_phone_hash pp (us_Phone u))))) (import_matches pp a (by_hash es []) t)"
  obtain r t' where p: "put_contacts now a ?rows t = (r, t')" by (cases "put_contacts now a ?rows t")
  have "ac_otps t' = ac_otps t \<and> ac_devices t' = ac_devices t \<and> ac_blocks t' = ac_blocks t"
    using put_contacts_frame [of now a ?rows t] p by (simp only: snd_conv)
  then show "ac_otps (snd (Contacts_Import now a pp es t)) = ac_otps t" "ac_devices (snd (Contacts_Import now a pp es t)) = ac_devices t"
    "ac_blocks (snd (Contacts_Import now a pp es t)) = ac_blocks t"
    using p by (cases r; simp add: Contacts_Import_def Let_def)+
qed

lemma otp_frames [simp]:
  "ac_devices (snd (OTP_Create now i ph h ttl t)) = ac_devices t" "ac_blocks (snd (OTP_Create now i ph h ttl t)) = ac_blocks t"
  "ac_devices (snd (IncrementAttempts i t)) = ac_devices t" "ac_blocks (snd (IncrementAttempts i t)) = ac_blocks t"
  "ac_devices (snd (Consume now i t)) = ac_devices t" "ac_blocks (snd (Consume now i t)) = ac_blocks t"
  by (simp_all add: OTP_Create_def IncrementAttempts_def Consume_def Let_def split: option.split)

lemma device_frames [simp]:
  "ac_otps (snd (Revoke now u d t)) = ac_otps t" "ac_blocks (snd (Revoke now u d t)) = ac_blocks t"
  "ac_otps (snd (RevokeAllExcept now u d t)) = ac_otps t" "ac_blocks (snd (RevokeAllExcept now u d t)) = ac_blocks t"
  "ac_otps (SetPushToken now d tok t) = ac_otps t" "ac_blocks (SetPushToken now d tok t) = ac_blocks t"
  "ac_otps (snd (Devices_Upsert now i u k pf av dm ip t)) = ac_otps t" "ac_blocks (snd (Devices_Upsert now i u k pf av dm ip t)) = ac_blocks t"
  by (simp_all add: Revoke_def RevokeAllExcept_def revoke_where_def SetPushToken_def Devices_Upsert_def Let_def split: list.split)

lemma block_frames [simp]:
  "ac_otps (snd (Blocks_Block now a b t)) = ac_otps t" "ac_devices (snd (Blocks_Block now a b t)) = ac_devices t"
  "ac_otps (Blocks_Unblock a b t) = ac_otps t" "ac_devices (Blocks_Unblock a b t) = ac_devices t"
  by (simp_all add: Blocks_Block_def Blocks_Unblock_def)

text \<open>A challenge only ever changes by counting attempts and by being consumed, once.\<close>

definition challenge_later :: "OTPChallenge \<Rightarrow> OTPChallenge \<Rightarrow> bool" where
  "challenge_later c c' \<longleftrightarrow>
     ot_ID c' = ot_ID c \<and> ot_Phone c' = ot_Phone c \<and> ot_CodeHash c' = ot_CodeHash c \<and> ot_ExpiresAt c' = ot_ExpiresAt c
     \<and> ot_Attempts c \<le> ot_Attempts c' \<and> (ot_ConsumedAt c \<noteq> None \<longrightarrow> ot_ConsumedAt c' = ot_ConsumedAt c)"

definition challenges_later :: "accounts \<Rightarrow> accounts \<Rightarrow> bool" where
  "challenges_later t0 t \<longleftrightarrow>
     (\<forall>i c. map_of (ac_otps t0) i = Some c \<longrightarrow> (\<exists>c'. map_of (ac_otps t) i = Some c' \<and> challenge_later c c'))"

lemma challenge_later_refl [simp]: "challenge_later c c"
  by (simp add: challenge_later_def)

lemma challenge_later_trans: "challenge_later a b \<Longrightarrow> challenge_later b c \<Longrightarrow> challenge_later a c"
  by (auto simp: challenge_later_def)

lemma challenges_later_refl [simp]: "challenges_later t t"
  by (simp add: challenges_later_def)

lemma challenges_later_step:
  assumes "challenges_later t0 t"
    and "\<And>i c. map_of (ac_otps t) i = Some c \<Longrightarrow> \<exists>c'. map_of (ac_otps t') i = Some c' \<and> challenge_later c c'"
  shows "challenges_later t0 t'"
  unfolding challenges_later_def using assms challenge_later_trans unfolding challenges_later_def by meson

lemma challenges_later_otp:
  assumes "challenges_later t0 t"
  shows "challenges_later t0 (snd (OTP_Create now i ph h ttl t))" "challenges_later t0 (snd (IncrementAttempts i t))"
    "challenges_later t0 (snd (Consume now i t))"
proof -
  show "challenges_later t0 (snd (OTP_Create now i ph h ttl t))"
    by (rule challenges_later_step [OF assms]) (auto simp: OTP_Create_def Let_def map_add_def)
  show "challenges_later t0 (snd (IncrementAttempts i t))"
    by (rule challenges_later_step [OF assms])
      (auto simp: IncrementAttempts_def update_conv challenge_later_def split: option.split)
  show "challenges_later t0 (snd (Consume now i t))"
    by (rule challenges_later_step [OF assms]) (auto simp: Consume_def update_conv challenge_later_def split: option.split)
qed

lemma challenges_later_same: "challenges_later t0 t \<Longrightarrow> ac_otps t' = ac_otps t \<Longrightarrow> challenges_later t0 t'"
  by (simp add: challenges_later_def)

interpretation challenge_history: table_property "challenges_later t0" cfg e for t0 cfg e
  by unfold_locales (erule challenges_later_otp | (erule challenges_later_same, simp))+

text \<open>A revoked device stays revoked until its auth key is registered again.\<close>

definition revoked_device :: "int \<Rightarrow> int \<Rightarrow> string \<Rightarrow> accounts \<Rightarrow> bool" where
  "revoked_device i u k t \<longleftrightarrow>
     (\<exists>d. map_of (ac_devices t) i = Some d \<and> dv_RevokedAt d \<noteq> None \<and> dv_UserID d = u \<and> dv_AuthKeyID d = k)"

lemma revoked_device_same: "revoked_device i u k t \<Longrightarrow> ac_devices t' = ac_devices t \<Longrightarrow> revoked_device i u k t'"
  by (simp add: revoked_device_def)

lemma revoked_device_update:
  assumes "revoked_device i u k t" and "\<And>d. dv_RevokedAt d \<noteq> None \<Longrightarrow> dv_AuthKeyID d = k \<Longrightarrow> Q d \<Longrightarrow>
      dv_RevokedAt (f d) \<noteq> None \<and> dv_UserID (f d) = dv_UserID d \<and> dv_AuthKeyID (f d) = dv_AuthKeyID d"
  shows "revoked_device i u k (t\<lparr>ac_devices := update_where Q f (ac_devices t)\<rparr>)"
proof -
  from assms(1) obtain d where d: "map_of (ac_devices t) i = Some d" "dv_RevokedAt d \<noteq> None" "dv_UserID d = u" "dv_AuthKeyID d = k"
    by (auto simp: revoked_device_def)
  then show ?thesis
    using assms(2) [OF d(2,4)] by (cases "Q d") (simp_all add: revoked_device_def map_of_update_where)
qed

lemma revoked_device_ops:
  assumes "revoked_device i u k t"
  shows "revoked_device i u k (snd (Revoke now u' d t))" "revoked_device i u k (snd (RevokeAllExcept now u' d t))"
    "revoked_device i u k (SetPushToken now d tok t)"
    "k' \<noteq> k \<Longrightarrow> revoked_device i u k (snd (Devices_Upsert now j u' k' pf av dm ip t))"
proof -
  show "revoked_device i u k (snd (Revoke now u' d t))" "revoked_device i u k (snd (RevokeAllExcept now u' d t))"
    "revoked_device i u k (SetPushToken now d tok t)"
    using assms by (auto simp: Revoke_def RevokeAllExcept_def revoke_where_def SetPushToken_def live_device_def intro!: revoked_device_update)
  show "revoked_device i u k (snd (Devices_Upsert now j u' k' pf av dm ip t))" if "k' \<noteq> k"
  proof (cases "rows_where (\<lambda>d. dv_AuthKeyID d = k') (ac_devices t)")
    case Nil
    then show ?thesis using assms by (auto simp: Devices_Upsert_def Let_def revoked_device_def map_add_def)
  next
    case (Cons x xs)
    then show ?thesis
      using assms that by (auto simp: Devices_Upsert_def Let_def intro!: revoked_device_update)
  qed
qed

interpretation device_history: table_property "revoked_device i u k" cfg e for i u k cfg e
  by unfold_locales (erule revoked_device_ops(1-3) | (erule revoked_device_same, simp))+

text \<open>A block stays until its owner removes it.\<close>

definition has_block :: "int \<Rightarrow> int \<Rightarrow> accounts \<Rightarrow> bool" where
  "has_block a b t \<longleftrightarrow> map_of (ac_blocks t) (a, b) \<noteq> None"

lemma has_block_same: "has_block a b t \<Longrightarrow> ac_blocks t' = ac_blocks t \<Longrightarrow> has_block a b t'"
  by (simp add: has_block_def)

lemma has_block_ops:
  "has_block a b t \<Longrightarrow> has_block a b (snd (Blocks_Block now x y t))"
  "has_block a b t \<Longrightarrow> (x, y) \<noteq> (a, b) \<Longrightarrow> has_block a b (Blocks_Unblock x y t)"
  by (auto simp: has_block_def Blocks_Block_def Blocks_Unblock_def map_add_def delete_conv split: option.split)

interpretation block_history: table_property "has_block a b" cfg e for a b cfg e
  by unfold_locales (erule has_block_ops(1) | (erule has_block_same, simp))+

end
