(* ===== verification/Auth_Sessions.thy ===== *)
theory Auth_Sessions
  imports Auth_Service
begin

text \<open>
  What the auth service guarantees of sessions: who gets one, for which code, and until when; and two runs in which the
  identity of a device, its auth key, gives more than it should.  The theorems on runs hold for any requests, any failing
  calls and any interleaving of the two halves of a sign-in.
\<close>

section \<open>Signing in\<close>

lemma and_then_Inr: "and_then r k = (Inr y, w') \<Longrightarrow> \<exists>x w. r = (Inr x, w) \<and> k x w = (Inr y, w')"
  by (cases r; cases "fst r") (auto simp: and_then_def)

lemma statement_Inr:
  "statement e c f op' w = (Inr x, w') \<Longrightarrow> \<exists>t. op' (au_tables w) = (Inr x, t) \<and> w' = w\<lparr>au_tables := t\<rparr> \<and> \<not> ax_down e c"
  by (cases "op' (au_tables w)"; cases "fst (op' (au_tables w))") (auto simp: statement_def split: if_splits)

lemma query_Inr: "query e c f q w = (Inr x, w') \<Longrightarrow> q (au_tables w) = Inr x \<and> w' = w"
  by (cases "q (au_tables w)") (auto simp: query_def split: if_splits)

lemma Consume_Inr:
  "Consume now i t = (Inr (), t') \<Longrightarrow>
    \<exists>c. map_of (ac_otps t) i = Some c \<and> ot_ConsumedAt c = None \<and> now < ot_ExpiresAt c
      \<and> t' = t\<lparr>ac_otps := AList.update i (c\<lparr>ot_ConsumedAt := Some now\<rparr>) (ac_otps t)\<rparr>"
  by (auto simp: Consume_def split: option.splits if_splits)

lemma findOrCreateUser_Inr:
  assumes "findOrCreateUser e ph dn lc w = (Inr (user, created), w')"
  shows "(\<exists>i. (i, user) \<in> set (ac_users (au_tables w'))) \<and> us_Phone user = ph \<and> live_user user
    \<and> ac_otps (au_tables w') = ac_otps (au_tables w) \<and> ac_devices (au_tables w') = ac_devices (au_tables w)"
proof -
  have down: "\<not> ax_down e AUserByPhone" using assms by (auto simp: findOrCreateUser_def)
  have old: ?thesis if "Account_GetByPhone (au_tables w) ph = Inr user" "w' = w"
    using find_user_Inr [OF that(1) [unfolded Account_GetByPhone_def]] that(2) by auto
  show ?thesis
  proof (cases "Account_GetByPhone (au_tables w) ph")
    case (Inr u)
    then show ?thesis using old assms down by (simp add: findOrCreateUser_def)
  next
    case (Inl err)
    let ?create = "Account_Create (ax_now e) (ax_user_id e) ph (TrimSpace dn) (orDefault lc ''en'') (au_tables w)"
    obtain r t where c: "?create = (r, t)" by (cases ?create)
    show ?thesis
    proof (cases r)
      case (Inl err')
      then show ?thesis using assms down c \<open>Account_GetByPhone (au_tables w) ph = Inl err\<close> by (auto simp: findOrCreateUser_def Let_def split: if_splits)
    next
      case (Inr u)
      then have u: "user = u" "w' = w\<lparr>au_tables := t\<rparr>"
        using assms down c \<open>Account_GetByPhone (au_tables w) ph = Inl err\<close> by (auto simp: findOrCreateUser_def Let_def split: if_splits)
      have "(ax_user_id e, u) \<in> set (ac_users t) \<and> us_Phone u = ph \<and> live_user u \<and> ac_otps t = ac_otps (au_tables w) \<and> ac_devices t = ac_devices (au_tables w)"
        using c Inr by (auto simp: Account_Create_def Let_def new_user_def live_user_def split: if_splits)
      then show ?thesis using u by auto
    qed
  qed
qed

lemma Upsert_users [simp]: "ac_users (snd (Devices_Upsert now i u k pf av dm ip t)) = ac_users t"
  by (simp add: Devices_Upsert_def Let_def split: list.split)

text \<open>What a sign-in that was issued a session found and left.\<close>

lemma sign_in_finish_Inr:
  assumes "sign_in_finish cfg e req c w = (Inr s, w')"
  shows "\<exists>row t u. map_of (ac_otps (au_tables w)) (ot_ID c) = Some row \<and> ot_ConsumedAt row = None \<and> ax_now e < ot_ExpiresAt row
    \<and> map_of (ac_otps (au_tables w')) (ot_ID c) = Some (row\<lparr>ot_ConsumedAt := Some (ax_now e)\<rparr>)
    \<and> (\<exists>i. (i, sn_User s) \<in> set (ac_users (au_tables w'))) \<and> us_Phone (sn_User s) = ot_Phone c \<and> live_user (sn_User s) \<and> \<not> us_Banned (sn_User s)
    \<and> ac_devices t = ac_devices (au_tables w)
    \<and> Devices_Upsert (ax_now e) (ax_device_id e) (us_ID (sn_User s)) (orGenerated e (si_AuthKeyID req)) (orDefault (si_Platform req) ''unknown'')
         (si_AppVersion req) (si_DeviceModel req) (ax_ip e) t = (Inr u, au_tables w')
    \<and> sn_DeviceID s = dv_ID u
    \<and> Issue (ag_lib cfg) (ag_issuer cfg) (ax_now e) (ax_tokens e) (us_ID (sn_User s)) (sn_DeviceID s) [] = Inr (sn_AccessToken s, sn_RefreshToken s, sn_ExpiresIn s)"
proof -
  from and_then_Inr [OF assms [unfolded sign_in_finish_def]] obtain x w1 where
    1: "statement e AOTPConsume (\<lambda>err. if err = PgNotFound then Unauthorized else Internal) (Consume (ax_now e) (ot_ID c)) w = (Inr x, w1)" and
    k: "and_then (findOrCreateUser e (ot_Phone c) (si_DisplayName req) (si_LangCode req) w1) (\<lambda>(user, created) w.
          register_session cfg e req user created w) = (Inr s, w')"
    by blast
  from statement_Inr [OF 1] obtain t1 where "Consume (ax_now e) (ot_ID c) (au_tables w) = (Inr (), t1)" "w1 = w\<lparr>au_tables := t1\<rparr>" by auto
  with Consume_Inr obtain row where row: "map_of (ac_otps (au_tables w)) (ot_ID c) = Some row" "ot_ConsumedAt row = None" "ax_now e < ot_ExpiresAt row"
    "map_of (ac_otps (au_tables w1)) (ot_ID c) = Some (row\<lparr>ot_ConsumedAt := Some (ax_now e)\<rparr>)" "ac_devices (au_tables w1) = ac_devices (au_tables w)"
    by (fastforce simp: update_conv)
  from and_then_Inr [OF k] obtain user created w2 where
    2: "findOrCreateUser e (ot_Phone c) (si_DisplayName req) (si_LangCode req) w1 = (Inr (user, created), w2)" and
    k2: "register_session cfg e req user created w2 = (Inr s, w')" by auto
  note f = findOrCreateUser_Inr [OF 2]
  have banned: "\<not> us_Banned user" using k2 by (auto simp: register_session_def)
  from and_then_Inr [OF k2 [unfolded register_session_def if_not_P [OF banned]]] obtain d w3 where
    3: "statement e ADeviceUpsert (\<lambda>_. Internal)
         (Devices_Upsert (ax_now e) (ax_device_id e) (us_ID user) (orGenerated e (si_AuthKeyID req)) (orDefault (si_Platform req) ''unknown'')
            (si_AppVersion req) (si_DeviceModel req) (ax_ip e)) w2 = (Inr d, w3)" and
    k3: "(case Issue (ag_lib cfg) (ag_issuer cfg) (ax_now e) (ax_tokens e) (us_ID user) (dv_ID d) [] of
          Inl _ \<Rightarrow> (Inl Internal, w3)
        | Inr (access, refresh, expiresIn) \<Rightarrow>
            (Inr \<lparr>sn_AccessToken = access, sn_RefreshToken = refresh, sn_ExpiresIn = expiresIn, sn_User = user,
                 sn_DeviceID = dv_ID d, sn_Created = created\<rparr>,
             publishUserEvent e (if created then UserCreated else DeviceAdded) (us_ID user) (dv_ID d) (resetLogin e w3))) = (Inr s, w')"
    by blast
  obtain a b n where iss: "Issue (ag_lib cfg) (ag_issuer cfg) (ax_now e) (ax_tokens e) (us_ID user) (dv_ID d) [] = Inr (a, b, n)"
    using k3 by (cases "Issue (ag_lib cfg) (ag_issuer cfg) (ax_now e) (ax_tokens e) (us_ID user) (dv_ID d) []") auto
  have s: "sn_User s = user" "sn_DeviceID s = dv_ID d" "au_tables w' = au_tables w3"
      "Issue (ag_lib cfg) (ag_issuer cfg) (ax_now e) (ax_tokens e) (us_ID user) (dv_ID d) [] = Inr (sn_AccessToken s, sn_RefreshToken s, sn_ExpiresIn s)"
    using k3 iss by auto
  from statement_Inr [OF 3] have up: "Devices_Upsert (ax_now e) (ax_device_id e) (us_ID user) (orGenerated e (si_AuthKeyID req)) (orDefault (si_Platform req) ''unknown'')
         (si_AppVersion req) (si_DeviceModel req) (ax_ip e) (au_tables w2) = (Inr d, au_tables w3)" by auto
  then have "ac_otps (au_tables w3) = ac_otps (au_tables w2)" "ac_users (au_tables w3) = ac_users (au_tables w2)"
    using device_frames(7) Upsert_users by (metis snd_conv)+
  then show ?thesis using row f banned up s by (intro exI [of _ row] exI [of _ "au_tables w2"] exI [of _ d]) auto
qed

lemma sign_in_check_Inr:
  assumes "sign_in_check cfg e req w = (Inr c, w')"
  shows "map_of (ac_otps (au_tables w)) (si_ChallengeID req) = Some c \<and> ot_ConsumedAt c = None \<and> ax_now e \<le> ot_ExpiresAt c
    \<and> ot_Attempts c < ag_MaxCodeAttempts cfg \<and> ag_compare cfg (ot_CodeHash c) (TrimSpace (si_Code req)) \<and> au_tables w' = au_tables w"
proof -
  have l: "au_tables w2 = au_tables w1" if "auth_checkLimit e key lm w1 = (r, w2)" for key lm r w1 w2
    using frames(1) [of e key lm w1] that by simp
  show ?thesis
    using assms unfolding sign_in_check_def
    by (auto split: if_splits dest!: and_then_Inr query_Inr l simp: OTP_Get_def split: option.splits)
qed

section \<open>Runs\<close>

text \<open>Pending sign-ins hold the row they read; every session issued has its own challenge, which is used up.\<close>

definition used_up :: "accounts \<Rightarrow> string \<Rightarrow> bool" where
  "used_up t c = (case map_of (ac_otps t) c of None \<Rightarrow> False | Some row \<Rightarrow> ot_ConsumedAt row \<noteq> None)"

definition run_ok :: "auth_state \<Rightarrow> bool" where
  "run_ok a \<longleftrightarrow>
     accounts_ok (au_tables (ar_world a))
     \<and> (\<forall>req c. (req, c) \<in> set (ar_pending a) \<longrightarrow> ot_ID c = si_ChallengeID req)
     \<and> distinct (map fst (ar_issued a)) \<and> (\<forall>x \<in> set (ar_issued a). used_up (au_tables (ar_world a)) (fst x))"

lemma used_up_later:
  assumes "used_up t c" and "challenges_later t t'"
  shows "used_up t' c"
proof -
  from assms(1) obtain x where x: "map_of (ac_otps t) c = Some x" "ot_ConsumedAt x \<noteq> None" by (auto simp: used_up_def split: option.splits)
  with assms(2) obtain x' where "map_of (ac_otps t') c = Some x'" "challenge_later x x'" unfolding challenges_later_def by blast
  then show ?thesis using x(2) by (simp add: used_up_def challenge_later_def)
qed

lemma otp_id: "accounts_ok t \<Longrightarrow> map_of (ac_otps t) i = Some c \<Longrightarrow> ot_ID c = i"
  using keyedD(2) [of ot_ID "\<lambda>_ _. True" "ac_otps t" i c] map_of_SomeD [of "ac_otps t" i c] by (auto simp: accounts_ok_def otps_ok_def)

lemma finish_keeps:
  shows "accounts_ok (au_tables w) \<Longrightarrow> accounts_ok (au_tables (snd (sign_in_finish cfg e req c w)))"
    and "challenges_later (au_tables w) (au_tables (snd (sign_in_finish cfg e req c w)))"
proof -
  show "accounts_ok (au_tables w) \<Longrightarrow> accounts_ok (au_tables (snd (sign_in_finish cfg e req c w)))"
    by (rule tables_ok.sign_in_finish) (simp_all add: Devices_Upsert_ok)
  show "challenges_later (au_tables w) (au_tables (snd (sign_in_finish cfg e req c w)))"
    by (rule challenge_history.sign_in_finish) (simp, erule challenges_later_same, simp)
qed

lemma request_keeps:
  shows "accounts_ok (au_tables w) \<Longrightarrow> accounts_ok (au_tables (snd (auth_serve cfg e r w)))"
    and "challenges_later (au_tables w) (au_tables (snd (auth_serve cfg e r w)))"
proof -
  show "accounts_ok (au_tables w) \<Longrightarrow> accounts_ok (au_tables (snd (auth_serve cfg e r w)))"
    by (rule tables_ok.request) (simp_all add: Devices_Upsert_ok block_ops_ok)
  show "challenges_later (au_tables w) (au_tables (snd (auth_serve cfg e r w)))"
    by (rule challenge_history.request) (simp, erule challenges_later_same, simp, erule challenges_later_same, simp)
qed

text \<open>A session that is issued uses up a challenge that was not used up before.\<close>

lemma issue_fresh:
  assumes "sign_in_finish cfg e req c w = (res, w')" and "ot_ID c = si_ChallengeID req" and "distinct (map fst xs)"
    and "\<forall>x \<in> set xs. used_up (au_tables w) (fst x)"
  shows "distinct (map fst (xs @ issued_by (si_ChallengeID req) res))"
    and "\<forall>x \<in> set (xs @ issued_by (si_ChallengeID req) res). used_up (au_tables w') (fst x)"
proof -
  have later: "challenges_later (au_tables w) (au_tables w')" using finish_keeps(2) [of w cfg e req c] assms(1) by simp
  have old: "\<forall>x \<in> set xs. used_up (au_tables w') (fst x)" using assms(4) later used_up_later by blast
  have "distinct (map fst (xs @ issued_by (si_ChallengeID req) res)) \<and> (\<forall>x \<in> set (issued_by (si_ChallengeID req) res). used_up (au_tables w') (fst x))"
  proof (cases res)
    case (Inr s)
    from sign_in_finish_Inr [OF assms(1) [unfolded Inr]] obtain row where
      row: "map_of (ac_otps (au_tables w)) (si_ChallengeID req) = Some row" "ot_ConsumedAt row = None"
        "map_of (ac_otps (au_tables w')) (si_ChallengeID req) = Some (row\<lparr>ot_ConsumedAt := Some (ax_now e)\<rparr>)"
      unfolding assms(2) by blast
    then have "\<not> used_up (au_tables w) (si_ChallengeID req)" "used_up (au_tables w') (si_ChallengeID req)" by (simp_all add: used_up_def)
    then show ?thesis using assms(3,4) Inr by (auto simp: issued_by_def)
  qed (simp add: issued_by_def assms(3))
  then show "distinct (map fst (xs @ issued_by (si_ChallengeID req) res))"
    "\<forall>x \<in> set (xs @ issued_by (si_ChallengeID req) res). used_up (au_tables w') (fst x)" using old by auto
qed

lemma check_keeps:
  shows "accounts_ok (au_tables w) \<Longrightarrow> accounts_ok (au_tables (snd (sign_in_check cfg e req w)))"
    and "challenges_later (au_tables w) (au_tables (snd (sign_in_check cfg e req w)))"
  by (rule tables_ok.sign_in_check, assumption) (rule challenge_history.sign_in_check, simp)

lemma sign_in_keeps:
  assumes "run_ok a" and "handleSignIn cfg e (Inr req) (ar_world a) = (res, w')"
  shows "run_ok (a\<lparr>ar_world := w', ar_issued := ar_issued a @ issued_by (si_ChallengeID req) res\<rparr>)"
proof -
  let ?w = "ar_world a"
  obtain r1 w1 where c: "sign_in_check cfg e req ?w = (r1, w1)" by (cases "sign_in_check cfg e req ?w")
  have ok: "accounts_ok (au_tables w1)" "challenges_later (au_tables ?w) (au_tables w1)" and used: "\<forall>x \<in> set (ar_issued a). used_up (au_tables w1) (fst x)"
    using check_keeps [of ?w cfg e req] assms(1) c used_up_later by (auto simp: run_ok_def)
  show ?thesis
  proof (cases r1)
    case (Inl err)
    then show ?thesis using assms ok(1) used c by (auto simp: handleSignIn_def and_then_def issued_by_def run_ok_def)
  next
    case (Inr ch)
    then have f: "sign_in_finish cfg e req ch w1 = (res, w')" using assms(2) c by (simp add: handleSignIn_def and_then_def)
    have "accounts_ok (au_tables ?w)" using assms(1) by (simp add: run_ok_def)
    then have "ot_ID ch = si_ChallengeID req" using otp_id sign_in_check_Inr [OF c [unfolded Inr]] by blast
    moreover have "accounts_ok (au_tables w')" using finish_keeps(1) [OF ok(1), of cfg e req ch] f by simp
    ultimately show ?thesis using assms(1) issue_fresh [OF f _ _ used] by (simp add: run_ok_def)
  qed
qed

lemma request_run_ok: "run_ok a \<Longrightarrow> run_ok (a\<lparr>ar_world := snd (auth_serve cfg e r (ar_world a))\<rparr>)"
  using request_keeps [of "ar_world a" cfg e r] used_up_later by (auto simp: run_ok_def)

lemma auth_step_ok:
  assumes "run_ok a"
  shows "run_ok (auth_step cfg s a)"
proof (cases s)
  case (Whole e r)
  show ?thesis
  proof (cases "\<exists>req. r = SignIn (Inr req)")
    case True
    then obtain req where "r = SignIn (Inr req)" by blast
    then show ?thesis using sign_in_keeps [OF assms] Whole by (auto simp: auth_step_def split: prod.split)
  next
    case False
    then have "auth_step cfg s a = a\<lparr>ar_world := snd (auth_serve cfg e r (ar_world a))\<rparr>"
      using Whole by (auto simp: auth_step_def split: auth_request.split sum.split)
    then show ?thesis using request_run_ok [OF assms] by simp
  qed
next
  case (SignInCheck e req)
  obtain r1 w1 where c: "sign_in_check cfg e req (ar_world a) = (r1, w1)" by (cases "sign_in_check cfg e req (ar_world a)")
  have "accounts_ok (au_tables w1)" "challenges_later (au_tables (ar_world a)) (au_tables w1)"
    using check_keeps [of "ar_world a" cfg e req] assms c by (auto simp: run_ok_def)
  then have "run_ok (a\<lparr>ar_world := w1\<rparr>)" using assms used_up_later by (auto simp: run_ok_def)
  moreover have "ot_ID ch = si_ChallengeID req" if "r1 = Inr ch" for ch
    using otp_id sign_in_check_Inr [OF c [unfolded that]] assms by (auto simp: run_ok_def)
  ultimately show ?thesis using SignInCheck c by (cases r1) (auto simp: auth_step_def run_ok_def)
next
  case (SignInFinish i e)
  show ?thesis
  proof (cases "i < length (ar_pending a)")
    case True
    obtain req ch where p: "ar_pending a ! i = (req, ch)" by (cases "ar_pending a ! i")
    then have pid: "ot_ID ch = si_ChallengeID req" using True assms nth_mem [OF True] by (auto simp: run_ok_def)
    obtain res w' where f: "sign_in_finish cfg e req ch (ar_world a) = (res, w')" by (cases "sign_in_finish cfg e req ch (ar_world a)")
    have "accounts_ok (au_tables w')" using finish_keeps(1) [of "ar_world a" cfg e req ch] assms f by (simp add: run_ok_def)
    moreover have "distinct (map fst (ar_issued a @ issued_by (si_ChallengeID req) res))"
      "\<forall>x \<in> set (ar_issued a @ issued_by (si_ChallengeID req) res). used_up (au_tables w') (fst x)"
      using issue_fresh [OF f pid, of "ar_issued a"] assms by (simp_all add: run_ok_def)
    moreover have "\<forall>req c. (req, c) \<in> set (take i (ar_pending a) @ drop (Suc i) (ar_pending a)) \<longrightarrow> ot_ID c = si_ChallengeID req"
    proof (intro allI impI)
      fix req c
      assume "(req, c) \<in> set (take i (ar_pending a) @ drop (Suc i) (ar_pending a))"
      then have "(req, c) \<in> set (ar_pending a)" by (auto dest: in_set_takeD in_set_dropD)
      then show "ot_ID c = si_ChallengeID req" using assms unfolding run_ok_def by blast
    qed
    moreover have "auth_step cfg s a = a\<lparr>ar_world := w', ar_pending := take i (ar_pending a) @ drop (Suc i) (ar_pending a),
        ar_issued := ar_issued a @ issued_by (si_ChallengeID req) res\<rparr>"
      using SignInFinish True p f by (simp add: auth_step_def)
    ultimately show ?thesis unfolding run_ok_def by simp
  qed (use SignInFinish assms in \<open>simp add: auth_step_def\<close>)
qed

lemma auth_run_ok: "run_ok (auth_run cfg steps)"
proof -
  have "run_ok (fold (auth_step cfg) steps a)" if "run_ok a" for a
    using that by (induction steps arbitrary: a) (simp_all add: auth_step_ok)
  moreover have "run_ok new_auth" by (simp add: new_auth_def run_ok_def)
  ultimately show ?thesis unfolding auth_run_def by blast
qed

text \<open>C20. The account tables stay consistent, after any steps of the service: one live account per phone number and per username
  (letters compared without case), one device per auth key, every device, contact and block of an existing account,
  nobody their own contact or blocked by themselves.\<close>

theorem accounts_consistent: "accounts_ok (au_tables (ar_world (auth_run cfg steps)))"
  using auth_run_ok by (simp add: run_ok_def)

text \<open>C3. A code buys one session: after any steps, in which any number of sign-ins with the same code may have been checked before
  the first of them went on, no challenge has two sessions, and the challenge of every session is used up.\<close>

theorem codes_used_once:
  "distinct (map fst (ar_issued (auth_run cfg steps)))
   \<and> list_all (\<lambda>(c, user, device). used_up (au_tables (ar_world (auth_run cfg steps))) c) (ar_issued (auth_run cfg steps))"
  using auth_run_ok [of cfg steps] by (auto simp: run_ok_def list_all_iff)

text \<open>C4. A session takes the code: when a sign-in is answered with tokens, the challenge it names was there, unused, unexpired and
  below its attempts, and its hash matches the code given; afterwards it is used; and the tokens are for a live account
  that is not suspended and has the phone number the code was sent to.\<close>

theorem sign_in_needs_code:
  assumes "w = ar_world (auth_run cfg steps)" and "handleSignIn cfg e (Inr req) w = (Inr s, w')"
  shows "\<exists>c i. map_of (ac_otps (au_tables w)) (si_ChallengeID req) = Some c \<and> ot_ConsumedAt c = None \<and> ax_now e < ot_ExpiresAt c
    \<and> ot_Attempts c < ag_MaxCodeAttempts cfg \<and> ag_compare cfg (ot_CodeHash c) (TrimSpace (si_Code req))
    \<and> used_up (au_tables w') (si_ChallengeID req)
    \<and> (i, sn_User s) \<in> set (ac_users (au_tables w')) \<and> us_Phone (sn_User s) = ot_Phone c \<and> live_user (sn_User s) \<and> \<not> us_Banned (sn_User s)
    \<and> Issue (ag_lib cfg) (ag_issuer cfg) (ax_now e) (ax_tokens e) (us_ID (sn_User s)) (sn_DeviceID s) []
        = Inr (sn_AccessToken s, sn_RefreshToken s, sn_ExpiresIn s)"
proof -
  from assms(2) obtain c w1 where c: "sign_in_check cfg e req w = (Inr c, w1)" and f: "sign_in_finish cfg e req c w1 = (Inr s, w')"
    unfolding handleSignIn_def by (auto dest: and_then_Inr)
  note c' = sign_in_check_Inr [OF c]
  have i: "ot_ID c = si_ChallengeID req" using otp_id c' auth_run_ok [of cfg steps] assms(1) by (auto simp: run_ok_def)
  from sign_in_finish_Inr [OF f] obtain row where
    "map_of (ac_otps (au_tables w1)) (si_ChallengeID req) = Some row" "ax_now e < ot_ExpiresAt row"
    "map_of (ac_otps (au_tables w')) (si_ChallengeID req) = Some (row\<lparr>ot_ConsumedAt := Some (ax_now e)\<rparr>)"
    "\<exists>i. (i, sn_User s) \<in> set (ac_users (au_tables w'))" "us_Phone (sn_User s) = ot_Phone c" "live_user (sn_User s)" "\<not> us_Banned (sn_User s)"
    "Issue (ag_lib cfg) (ag_issuer cfg) (ax_now e) (ax_tokens e) (us_ID (sn_User s)) (sn_DeviceID s) []
        = Inr (sn_AccessToken s, sn_RefreshToken s, sn_ExpiresIn s)" unfolding i by blast
  then show ?thesis using c' by (auto simp: used_up_def)
qed

section \<open>An example\<close>

text \<open>A test number signs in: the hash of a code is the code behind a letter.\<close>

definition sample_cfg :: auth_cfg where
  "sample_cfg = \<lparr>ag_CodeLength = 5, ag_CodeTTL = 300000, ag_MaxCodeAttempts = 5, ag_TestPhonePrefix = ''+1555'', ag_TestPhoneCode = ''12345'',
     ag_ContactPepper = [], ag_lib = sample_lib, ag_issuer = sample_issuer, ag_verifier = sample_verifier,
     ag_hash = (\<lambda>code salt. Some (CHR ''h'' # code)), ag_compare = (\<lambda>hash code. hash = CHR ''h'' # code), ag_order = (\<lambda>xs. xs), ag_marshal = (\<lambda>a. None)\<rparr>"

definition sample_env :: "string \<Rightarrow> int \<Rightarrow> int \<Rightarrow> auth_env" where
  "sample_env uuid u d = \<lparr>ax_now = 0, ax_down = (\<lambda>c. False), ax_ip = ''10.0.0.1'', ax_uuid = uuid, ax_key_uuid = uuid, ax_user_id = u,
     ax_device_id = d, ax_random = [], ax_salt = 0, ax_tokens = sample_entropy\<rparr>"

definition sample_sign_in :: "string \<Rightarrow> string \<Rightarrow> string \<Rightarrow> signInRequest" where
  "sample_sign_in c code k = \<lparr>si_ChallengeID = c, si_Code = code, si_DisplayName = ''Ann'', si_Platform = ''ios'', si_AppVersion = ''1.0'', si_DeviceModel = ''Phone'',
     si_LangCode = '''', si_AuthKeyID = k\<rparr>"

definition sample_phone :: string where "sample_phone = ''+15551234567''"

definition sample_codes :: "auth_event list" where
  "sample_codes = [Whole (sample_env ''c1'' 7 1) (SendCode (Inr sample_phone))]"

theorem sign_in_needs_code_witness:
  "\<exists>s w' c i. handleSignIn sample_cfg (sample_env ''k'' 7 1) (Inr (sample_sign_in ''c1'' ''12345'' '''')) (ar_world (auth_run sample_cfg sample_codes)) = (Inr s, w')
     \<and> map_of (ac_otps (au_tables (ar_world (auth_run sample_cfg sample_codes)))) ''c1'' = Some c \<and> used_up (au_tables w') ''c1''
     \<and> (i, sn_User s) \<in> set (ac_users (au_tables w')) \<and> us_Phone (sn_User s) = ot_Phone c"
proof -
  let ?e = "sample_env ''k'' 7 1" and ?r = "sample_sign_in ''c1'' ''12345'' ''''" and ?w = "ar_world (auth_run sample_cfg sample_codes)"
  have "\<not> isl (fst (handleSignIn sample_cfg ?e (Inr ?r) ?w))" by code_simp
  then obtain s w' where "handleSignIn sample_cfg ?e (Inr ?r) ?w = (Inr s, w')"
    by (cases "handleSignIn sample_cfg ?e (Inr ?r) ?w"; cases "fst (handleSignIn sample_cfg ?e (Inr ?r) ?w)") auto
  with sign_in_needs_code [OF refl this] show ?thesis by (auto simp: sample_sign_in_def)
qed

section \<open>Guesses\<close>

text \<open>A request that has its code compared with the one of challenge \<open>c\<close>, and is wrong.\<close>

definition wrong_guess :: "auth_cfg \<Rightarrow> auth_env \<Rightarrow> string \<Rightarrow> auth_request \<Rightarrow> auth_world \<Rightarrow> bool" where
  "wrong_guess cfg e c r w =
     (case r of
        SignIn (Inr req) \<Rightarrow>
          si_ChallengeID req = c \<and> \<not> isl (fst (sign_in_check (cfg\<lparr>ag_compare := \<lambda>_ _. True\<rparr>) e req w)) \<and> isl (fst (sign_in_check cfg e req w))
      | _ \<Rightarrow> False)"

fun wrong_guesses :: "auth_cfg \<Rightarrow> string \<Rightarrow> (auth_env \<times> auth_request) list \<Rightarrow> auth_world \<Rightarrow> nat" where
  "wrong_guesses cfg c [] w = 0"
| "wrong_guesses cfg c ((e, r) # rs) w =
     (if wrong_guess cfg e c r w then 1 else 0) + wrong_guesses cfg c rs (snd (auth_serve cfg e r w))"

text \<open>The guesses that are left.\<close>

definition guesses_left :: "auth_cfg \<Rightarrow> string \<Rightarrow> accounts \<Rightarrow> nat" where
  "guesses_left cfg c t = nat (ag_MaxCodeAttempts cfg - (case map_of (ac_otps t) c of None \<Rightarrow> 0 | Some x \<Rightarrow> ot_Attempts x))"

lemma guesses_left_later:
  assumes "accounts_ok t'" and "challenges_later t t'"
  shows "guesses_left cfg c t' \<le> guesses_left cfg c t"
proof (cases "map_of (ac_otps t) c")
  case None
  have "0 \<le> ot_Attempts x" if "map_of (ac_otps t') c = Some x" for x
    using assms(1) map_of_SomeD [OF that] by (auto simp: accounts_ok_def otps_ok_def)
  then show ?thesis using None by (auto simp: guesses_left_def split: option.split)
next
  case (Some x)
  then obtain x' where "map_of (ac_otps t') c = Some x'" "challenge_later x x'" using assms(2) unfolding challenges_later_def by blast
  then show ?thesis using Some by (simp add: guesses_left_def challenge_later_def nat_mono)
qed

lemma wrong_guess_counts:
  assumes "accounts_ok (au_tables w)" and "wrong_guess cfg e c r w" and "\<not> ax_down e AOTPIncrement"
  shows "Suc (guesses_left cfg c (au_tables (snd (auth_serve cfg e r w)))) = guesses_left cfg c (au_tables w)"
proof -
  let ?cfg = "cfg\<lparr>ag_compare := \<lambda>_ _. True\<rparr>"
  from assms(2) obtain req where r: "r = SignIn (Inr req)" "si_ChallengeID req = c" "\<not> isl (fst (sign_in_check ?cfg e req w))" "isl (fst (sign_in_check cfg e req w))"
    by (auto simp: wrong_guess_def split: auth_request.splits sum.splits)
  from r(3) obtain ch w1 where k: "sign_in_check ?cfg e req w = (Inr ch, w1)"
    by (cases "sign_in_check ?cfg e req w"; cases "fst (sign_in_check ?cfg e req w)") auto
  note ch = sign_in_check_Inr [OF k]
  have i: "ot_ID ch = c" using otp_id [OF assms(1)] ch r(2) by blast
  have refused: "sign_in_check cfg e req w = (Inl Unauthorized, w1\<lparr>au_tables := snd (IncrementAttempts (ot_ID ch) (au_tables w1))\<rparr>)"
    using k r(4) assms(3) by (auto simp: sign_in_check_def and_then_def split: if_splits sum.splits prod.splits)
  then have "au_tables (snd (auth_serve cfg e r w)) = snd (IncrementAttempts c (au_tables w))"
    using r(1) ch i by (simp add: auth_serve_def handleSignIn_def and_then_def)
  moreover have "map_of (ac_otps (snd (IncrementAttempts c (au_tables w)))) c = Some (ch\<lparr>ot_Attempts := ot_Attempts ch + 1\<rparr>)"
    using ch r(2) by (simp add: IncrementAttempts_def update_conv)
  moreover have "ot_Attempts ch < ag_MaxCodeAttempts cfg" using ch by simp
  ultimately show ?thesis using ch r(2) by (simp add: guesses_left_def)
qed

text \<open>C18. Guessing is bounded: however many requests are made, one after the other, no more wrong codes are compared with the code
  of a challenge than the configured number of attempts, as long as the counter is written.\<close>

theorem guess_budget:
  assumes "\<forall>(e, r) \<in> set rs. \<not> ax_down e AOTPIncrement"
  shows "wrong_guesses cfg c rs (ar_world new_auth) \<le> nat (ag_MaxCodeAttempts cfg)"
proof -
  have "accounts_ok (au_tables w) \<Longrightarrow> wrong_guesses cfg c rs w \<le> guesses_left cfg c (au_tables w)" for w
    using assms
  proof (induction rs arbitrary: w)
    case (Cons x rs)
    obtain e r where x: "x = (e, r)" by (cases x)
    let ?w = "snd (auth_serve cfg e r w)"
    have "wrong_guesses cfg c rs ?w \<le> guesses_left cfg c (au_tables ?w)"
      using Cons request_keeps(1) by simp
    moreover have "guesses_left cfg c (au_tables ?w) \<le> guesses_left cfg c (au_tables w)"
      by (rule guesses_left_later) (use request_keeps Cons.prems(1) in simp_all)
    ultimately show ?case using wrong_guess_counts [OF Cons.prems(1), of cfg e c r] Cons.prems(2) x by auto
  qed simp
  moreover have "accounts_ok (au_tables (ar_world new_auth))" "guesses_left cfg c (au_tables (ar_world new_auth)) = nat (ag_MaxCodeAttempts cfg)"
    by (simp_all add: new_auth_def) (simp add: guesses_left_def empty_accounts_def)
  ultimately show ?thesis by metis
qed

theorem guess_budget_witness:
  "wrong_guesses sample_cfg ''c1''
     ((sample_env ''c1'' 7 1, SendCode (Inr sample_phone)) # replicate 3 (sample_env ''k'' 7 1, SignIn (Inr (sample_sign_in ''c1'' ''54321'' '''')))) (ar_world new_auth) \<le> 5
   \<and> wrong_guesses sample_cfg ''c1''
     ((sample_env ''c1'' 7 1, SendCode (Inr sample_phone)) # replicate 3 (sample_env ''k'' 7 1, SignIn (Inr (sample_sign_in ''c1'' ''54321'' '''')))) (ar_world new_auth) = 3"
  (is "?n \<le> 5 \<and> ?n = 3")
proof -
  have "?n \<le> nat (ag_MaxCodeAttempts sample_cfg)" by (rule guess_budget) (simp add: sample_env_def)
  moreover have "?n = 3" by code_simp
  ultimately show ?thesis by (simp add: sample_cfg_def)
qed

section \<open>Revoking a session\<close>

definition auth_serve_all :: "auth_cfg \<Rightarrow> (auth_env \<times> auth_request) list \<Rightarrow> auth_world \<Rightarrow> auth_world" where
  "auth_serve_all cfg rs w = fold (\<lambda>(e, r) w. snd (auth_serve cfg e r w)) rs w"

lemma auth_serve_all_revoked:
  assumes "accounts_ok (au_tables w)" and "revoked_device i u k (au_tables w)" and "\<forall>(e, r) \<in> set rs. request_key e r \<noteq> Some k"
  shows "accounts_ok (au_tables (auth_serve_all cfg rs w)) \<and> revoked_device i u k (au_tables (auth_serve_all cfg rs w))"
  using assms
proof (induction rs arbitrary: w)
  case (Cons x rs)
  obtain e r where x: "x = (e, r)" by (cases x)
  have "revoked_device i u k (au_tables (snd (auth_serve cfg e r w)))"
  proof (rule device_history.request [OF Cons.prems(2)])
    show "request_key e r = Some k' \<Longrightarrow> revoked_device i u k t \<Longrightarrow> revoked_device i u k (snd (Devices_Upsert (ax_now e) (ax_device_id e) u' k' pf av dm ip t))"
      for t u' k' pf av dm ip using revoked_device_ops(4) Cons.prems(3) x by fastforce
    show "revoked_device i u k t \<Longrightarrow> revoked_device i u k (Blocks_Unblock a b t)" for t a b by (erule revoked_device_same) simp
  qed
  then show ?case using Cons request_keeps(1) [OF Cons.prems(1)] x by (simp add: auth_serve_all_def)
qed (simp add: auth_serve_all_def)

lemma device_row:
  assumes "accounts_ok t" and "(j, d) \<in> set (ac_devices t)"
  shows "map_of (ac_devices t) (dv_ID d) = Some d"
proof -
  have "distinct (map fst (ac_devices t))" "dv_ID d = j" using assms by (auto simp: accounts_ok_def devices_ok_def keyed_def)
  then show ?thesis using map_of_is_SomeI assms(2) by fast
qed

lemma revoked_not_listed:
  assumes "accounts_ok t" and "revoked_device i u k t"
  shows "\<not> list_ex (\<lambda>d. dv_ID d = i) (ListForUser t u')"
proof -
  have "\<not> live_device d" if "(j, d) \<in> set (ac_devices t)" "dv_ID d = i" for j d
    using assms(2) that(2) device_row [OF assms(1) that(1)] by (auto simp: revoked_device_def live_device_def)
  then show ?thesis by (auto simp: ListForUser_def list_ex_iff rows_where_def)
qed

lemma refresh_Inr:
  assumes "handleRefresh cfg e body w = (Inr s, w')"
  shows "\<exists>u. list_ex (\<lambda>d. dv_ID d = sn_DeviceID s) (ListForUser (au_tables w) u)"
  using assms by (auto simp: handleRefresh_def query_def and_then_def split: sum.splits if_splits prod.splits)

lemma revoked_by:
  assumes "accounts_ok (au_tables w)" and "handleRevokeDevice cfg e claims rawID w = (Inr (), w')" and "PathInt64 rawID = Inr i"
    and "map_of (ac_devices (au_tables w)) i = Some d"
  shows "dv_UserID d = tk_UserID claims \<and> revoked_device i (tk_UserID claims) (dv_AuthKeyID d) (au_tables w')"
proof -
  let ?P = "\<lambda>x. (dv_ID x = i \<and> dv_UserID x = tk_UserID claims) \<and> live_device x"
  from and_then_Inr [OF assms(2) [unfolded handleRevokeDevice_def assms(3) sum.case]] obtain t1 w1 where
    s: "Revoke (ax_now e) (tk_UserID claims) i (au_tables w) = (Inr (), t1)" "au_tables w' = t1"
    by (auto dest!: statement_Inr)
  then have n: "rows_where ?P (ac_devices (au_tables w)) \<noteq> []"
    and t: "t1 = (au_tables w)\<lparr>ac_devices := update_where ?P (\<lambda>d. d\<lparr>dv_RevokedAt := Some (ax_now e), dv_PushToken := None\<rparr>) (ac_devices (au_tables w))\<rparr>"
    by (auto simp: Revoke_def revoke_where_def split: if_splits)
  from n obtain j x where x: "(j, x) \<in> set (ac_devices (au_tables w))" "?P x" by (auto simp: rows_where_def filter_empty_conv)
  have "x = d" using device_row [OF assms(1) x(1)] x(2) assms(4) by simp
  then show ?thesis using x(2) assms(4) s(2) t by (simp add: revoked_device_def map_of_update_where)
qed

text \<open>C17. Logging a device out takes effect at once and lasts: after its owner revoked it, whatever requests follow, a refresh is
  never answered with a session of that device, as long as its auth key is not registered again.\<close>

theorem revoked_stays_out:
  assumes "w = ar_world (auth_run cfg steps)" and "handleRevokeDevice cfg e claims rawID w = (Inr (), w')" and "PathInt64 rawID = Inr i"
    and "map_of (ac_devices (au_tables w)) i = Some d" and "\<forall>(e, r) \<in> set rs. request_key e r \<noteq> Some (dv_AuthKeyID d)"
    and "handleRefresh cfg e' body (auth_serve_all cfg rs w') = (Inr s, w'')"
  shows "sn_DeviceID s \<noteq> i"
proof -
  have ok: "accounts_ok (au_tables w)" using auth_run_ok [of cfg steps] assms(1) by (simp add: run_ok_def)
  have "snd (handleRevokeDevice cfg e claims rawID w) = w'" using assms(2) by simp
  then have "accounts_ok (au_tables w')" using tables_ok.sessions [OF ok] by metis
  with auth_serve_all_revoked [OF this _ assms(5)] revoked_by [OF ok assms(2-4)]
  have "\<not> list_ex (\<lambda>d. dv_ID d = i) (ListForUser (au_tables (auth_serve_all cfg rs w')) u)" for u
    using revoked_not_listed by blast
  then show ?thesis using refresh_Inr [OF assms(6)] by blast
qed

text \<open>Ann signs in on two devices, with the auth keys \<open>K1\<close> and \<open>K2\<close>.  The library signs what is asked for in the examples.\<close>

definition session_cfg :: auth_cfg where
  "session_cfg = sample_cfg\<lparr>ag_lib := book_lib
     [(''A'', access_claims sample_issuer 0 ''j1'' 7 1 []), (''R'', refresh_claims sample_issuer 0 ''j2'' 7 1),
      (''B'', access_claims sample_issuer 0 ''j1'' 7 2 []), (''S'', refresh_claims sample_issuer 0 ''j2'' 7 2),
      (''E'', access_claims sample_issuer 0 ''j1'' 8 1 []), (''F'', refresh_claims sample_issuer 0 ''j2'' 8 1)]\<rparr>"

definition two_sessions :: "auth_event list" where
  "two_sessions =
     [Whole (sample_env ''c1'' 7 1) (SendCode (Inr sample_phone)), Whole (sample_env ''k'' 7 1) (SignIn (Inr (sample_sign_in ''c1'' ''12345'' ''K1''))),
      Whole (sample_env ''c2'' 7 2) (SendCode (Inr sample_phone)), Whole (sample_env ''k'' 7 2) (SignIn (Inr (sample_sign_in ''c2'' ''12345'' ''K2'')))]"

definition with_revocation :: auth_world where
  "with_revocation =
     snd (handleRevokeDevice session_cfg (sample_env ''k'' 0 0) (access_claims sample_issuer 0 ''j1'' 7 2 []) ''1'' (ar_world (auth_run session_cfg two_sessions)))"

theorem revoked_stays_out_witness:
  "\<exists>s w. handleRefresh session_cfg (sample_env ''k'' 0 0) (Inr ''S'') (auth_serve_all session_cfg [(sample_env ''k'' 0 0, Authed ''Bearer B'' GetDevices)] with_revocation) = (Inr s, w)
     \<and> sn_DeviceID s \<noteq> 1"
proof -
  let ?e = "sample_env ''k'' 0 0" and ?w = "ar_world (auth_run session_cfg two_sessions)" and ?c = "access_claims sample_issuer 0 ''j1'' 7 2 []"
  let ?rs = "[(?e, Authed ''Bearer B'' GetDevices)]"
  have f: "fst (handleRevokeDevice session_cfg ?e ?c ''1'' ?w) = Inr () \<and> map_option dv_AuthKeyID (map_of (ac_devices (au_tables ?w)) 1) = Some ''K1''
      \<and> \<not> isl (fst (handleRefresh session_cfg ?e (Inr ''S'') (auth_serve_all session_cfg ?rs with_revocation)))" by code_simp
  then obtain d where d: "map_of (ac_devices (au_tables ?w)) 1 = Some d" by blast
  have r: "handleRevokeDevice session_cfg ?e ?c ''1'' ?w = (Inr (), with_revocation)" using f unfolding with_revocation_def by (metis prod.collapse)
  obtain s w where s: "handleRefresh session_cfg ?e (Inr ''S'') (auth_serve_all session_cfg ?rs with_revocation) = (Inr s, w)"
    using f by (cases "handleRefresh session_cfg ?e (Inr ''S'') (auth_serve_all session_cfg ?rs with_revocation)";
      cases "fst (handleRefresh session_cfg ?e (Inr ''S'') (auth_serve_all session_cfg ?rs with_revocation))") auto
  have i: "PathInt64 ''1'' = Inr 1" by code_simp
  have "sn_DeviceID s \<noteq> 1"
    by (rule revoked_stays_out [OF refl r i d _ s]) (simp add: request_key_def)
  then show ?thesis using s by blast
qed

section \<open>What an auth key gives\<close>

text \<open>The access token of a revoked device is good for a quarter of an hour more.  Resolving it with the revoked auth key,
  which the gateway does for a client that connects, clears the revocation: the refresh token works again.\<close>

theorem revocation_undone:
  "isl (fst (handleRefresh session_cfg (sample_env ''k'' 0 0) (Inr ''R'') with_revocation))
   \<and> \<not> isl (fst (handleRefresh session_cfg (sample_env ''k'' 0 0) (Inr ''R'')
       (auth_serve_all session_cfg
         [(sample_env ''k'' 7 3, ResolveToken (Inr \<lparr>rt_AccessToken = ''A'', rt_AuthKeyID = ''K1'', rt_Platform = ''ios'', rt_AppVersion = '''',
            rt_DeviceModel = '''', rt_IP = ''''\<rparr>))] with_revocation)))"
  by code_simp

text \<open>Eve signs in to her own account with the auth key of Ann's device.  The device row is found by the key and stays Ann's, the
  session is Eve's: the push token she sets is stored on Ann's device, where Ann's notifications go.\<close>

definition eve_signs_in :: "(auth_env \<times> auth_request) list" where
  "eve_signs_in =
     [(sample_env ''c3'' 8 9, SendCode (Inr ''+15557654321'')), (sample_env ''k'' 8 9, SignIn (Inr (sample_sign_in ''c3'' ''12345'' ''K1''))),
      (sample_env ''k'' 0 0, Authed ''Bearer E'' (PutPushToken (Inr ''eve'')))]"

theorem push_token_of_other_user:
  "map_option dv_UserID (map_of (ac_devices (au_tables (auth_serve_all session_cfg eve_signs_in (ar_world (auth_run session_cfg two_sessions))))) 1) = Some 7
   \<and> PushTargetsFor (au_tables (auth_serve_all session_cfg eve_signs_in (ar_world (auth_run session_cfg two_sessions)))) [7] 7
       = [\<lparr>pt_DeviceID = 1, pt_Token = ''eve'', pt_Platform = ''ios''\<rparr>]"
  by code_simp

end
