(* ===== verification/Blocking.thy ===== *)
theory Blocking
  imports Auth_Sessions Chat_Service
begin

text \<open>
  The auth and the chat service together, where blocks are concerned: the auth service has the table
  (\<^verbatim>\<open>auth-service/internal/contacts.go\<close>), the chat service asks it and caches the answer
  (\<^verbatim>\<open>chat-service/internal/blocks.go\<close>), and the auth service deletes the cached answer when a block changes.  The cache is
  one Redis for both.
\<close>

section \<open>The two services on one cache\<close>

record block_world =
  bw_auth :: auth_world
  bw_chat :: chat_world

text \<open>The request of the chat service, served by the auth service.\<close>

definition auth_answer :: "auth_env \<Rightarrow> auth_world \<Rightarrow> int \<Rightarrow> int \<Rightarrow> bool option" where
  "auth_answer ea w a b = (case fst (handleBlockCheck ea (itoa a) (itoa b) w) of Inl _ \<Rightarrow> None | Inr v \<Rightarrow> Some v)"

definition chat_view :: "block_world \<Rightarrow> chat_world" where
  "chat_view w = (bw_chat w)\<lparr>w_blocks := au_cache (bw_auth w)\<rparr>"

definition look_up :: "chat_env \<Rightarrow> auth_env \<Rightarrow> int \<Rightarrow> int \<Rightarrow> block_world \<Rightarrow> bool \<times> block_world" where
  "look_up e ea a b w =
     (case isBlocked (e\<lparr>e_blocked := auth_answer ea (bw_auth w)\<rparr>) a b (chat_view w) of
        (v, c) \<Rightarrow> (v, \<lparr>bw_auth = (bw_auth w)\<lparr>au_cache := w_blocks c\<rparr>, bw_chat = c\<rparr>))"

datatype block_event = AuthServes auth_env auth_request | ChatAsks chat_env auth_env int int

definition block_step :: "auth_cfg \<Rightarrow> block_event \<Rightarrow> block_world \<Rightarrow> block_world" where
  "block_step cfg s w =
     (case s of
        AuthServes e r \<Rightarrow> w\<lparr>bw_auth := snd (auth_serve cfg e r (bw_auth w))\<rparr>
      | ChatAsks e ea a b \<Rightarrow> snd (look_up e ea a b w))"

definition removes :: "auth_cfg \<Rightarrow> int \<Rightarrow> int \<Rightarrow> block_event \<Rightarrow> bool" where
  "removes cfg a b s = (case s of AuthServes e r \<Rightarrow> unblocks cfg e r = Some (a, b) | ChatAsks _ _ _ _ \<Rightarrow> False)"

section \<open>Keys\<close>

lemma itoa_no_colon: "CHR '':'' \<notin> set (itoa i)"
proof -
  have d: "digit_char d \<noteq> CHR '':''" if "d < 10" for d using of_digit_char [OF that] that by auto
  have "CHR '':'' \<notin> set (itoa_nat n)" for n
  proof
    assume "CHR '':'' \<in> set (itoa_nat n)"
    then obtain k where "k < 10" "CHR '':'' = digit_char k" using itoa_nat_digits by blast
    then show False using d by metis
  qed
  then show ?thesis by (simp add: itoa_def)
qed

lemma colon_split: "CHR '':'' \<notin> set xs \<Longrightarrow> CHR '':'' \<notin> set xs' \<Longrightarrow> xs @ CHR '':'' # ys = xs' @ CHR '':'' # ys' \<longleftrightarrow> xs = xs' \<and> ys = ys'"
  by (auto simp: append_eq_append_conv2 append_eq_Cons_conv Cons_eq_append_conv)

lemma blockCacheKey_eq: "blockCacheKey a b = blockCacheKey x y \<longleftrightarrow> (x, y) = (a, b) \<or> (x, y) = (b, a)"
  by (auto simp: blockCacheKey_def colon_split itoa_no_colon itoa_inject split: if_splits)

section \<open>What a request does to the cache\<close>

text \<open>The auth service only ever deletes.\<close>

definition cache_within :: "(string \<times> (bool \<times> int)) list \<Rightarrow> auth_world \<Rightarrow> bool" where
  "cache_within c w \<longleftrightarrow> map_of (au_cache w) \<subseteq>\<^sub>m map_of c"

lemma cache_frames [simp]:
  "au_cache (snd (auth_checkLimit e key l w)) = au_cache w" "au_cache (resetLogin e w) = au_cache w"
  "au_cache (publishUserEvent e kind u d w) = au_cache w" "au_cache (auth_audit cfg e a w) = au_cache w"
  "au_cache (snd (statement e c f op' w)) = au_cache w"
  by (auto simp: auth_checkLimit_def resetLogin_def publishUserEvent_def auth_audit_def statement_def Let_def split: prod.split option.split)

lemma cache_within_simps [simp]:
  "cache_within (au_cache w) w" "cache_within c (w\<lparr>au_tables := t\<rparr>) = cache_within c w" "cache_within c (w\<lparr>au_sent := s\<rparr>) = cache_within c w"
  "cache_within c (snd (auth_checkLimit e key l w)) = cache_within c w" "cache_within c (resetLogin e w) = cache_within c w"
  "cache_within c (publishUserEvent e kind u d w) = cache_within c w" "cache_within c (auth_audit cfg e a w) = cache_within c w"
  "cache_within c (snd (statement e cl f op' w)) = cache_within c w"
  by (simp_all add: cache_within_def)

lemma cache_within_delete [simp]: "cache_within c w \<Longrightarrow> cache_within c (invalidateBlockCache e a b w)"
  by (auto simp: cache_within_def invalidateBlockCache_def map_le_def delete_conv)

lemma cache_sign_in: "cache_within c w \<Longrightarrow> cache_within c (snd (handleSignIn cfg e body w))"
  unfolding handleSignIn_def sign_in_check_def sign_in_finish_def register_session_def findOrCreateUser_def Let_def
  by (auto split: sum.split prod.split intro!: and_then_keeps [where P = "cache_within c"])

lemma cache_send_code: "cache_within c w \<Longrightarrow> cache_within c (snd (handleSendCode cfg e body w))"
  unfolding handleSendCode_def Let_def by (auto split: sum.split option.split intro!: and_then_keeps [where P = "cache_within c"])

lemma cache_resolve: "cache_within c w \<Longrightarrow> cache_within c (snd (handleResolveToken cfg e body w))"
  unfolding handleResolveToken_def by (auto split: sum.split intro!: and_then_keeps [where P = "cache_within c"])

lemma cache_authed:
  assumes "cache_within c w"
  shows "cache_within c (snd (authed_route cfg e cl r w))"
  using assms
  unfolding authed_route_def handleMe_def handleUpdateProfile_def handleDeleteAccount_def handleListDevices_def handleRevokeDevice_def
    handleRevokeOthers_def handleSetPushToken_def handleSetUsername_def handleImportContacts_def handleListContacts_def handleAddContact_def
    handleDeleteContact_def handleListBlocks_def handleBlock_def handleUnblock_def Let_def
  by (cases r) (auto split: sum.split option.split intro!: and_then_keeps [where P = "cache_within c"])

lemma cache_request: "cache_within (au_cache w) (snd (auth_serve cfg e r w))"
  by (cases r)
    (auto simp: auth_serve_def cache_sign_in cache_send_code cache_resolve cache_authed handleBlockCheck_def handleBlockedAmong_def
       handleMutualContacts_def Let_def split: sum.split)

section \<open>Blocks hold\<close>

text \<open>The block is in the table, and the cache has no other answer.\<close>

definition block_in_force :: "int \<Rightarrow> int \<Rightarrow> block_world \<Rightarrow> bool" where
  "block_in_force a b w \<longleftrightarrow>
     has_block a b (au_tables (bw_auth w)) \<and> (\<forall>v x. map_of (au_cache (bw_auth w)) (blockCacheKey a b) = Some (v, x) \<longrightarrow> v)"

definition int64 :: "int \<Rightarrow> bool" where
  "int64 i \<longleftrightarrow> - (2 ^ 63) \<le> i \<and> i < 2 ^ 63"

lemma QueryInt64_itoa: "int64 i \<Longrightarrow> QueryInt64 (itoa i) d = i"
  using PathInt64_round_trip [of i] by (auto simp: QueryInt64_def PathInt64_def int64_def itoa_def split: option.splits if_splits)

lemma auth_answer_eq:
  assumes "int64 a" and "int64 b" and "a \<noteq> 0" and "b \<noteq> 0"
  shows "auth_answer ea w a b = (if ax_down ea ABlockCheck then None else Some (IsBlockedBetween (au_tables w) a b))"
  using assms by (simp add: auth_answer_def handleBlockCheck_def QueryInt64_itoa query_def)

lemma auth_answer_only:
  assumes "auth_answer ea w x y = Some v" and "has_block a b (au_tables w)" and "(x, y) = (a, b) \<or> (x, y) = (b, a)"
    and "int64 a" and "int64 b"
  shows v
  using assms
  by (auto simp: auth_answer_def handleBlockCheck_def QueryInt64_itoa query_def has_block_def IsBlockedBetween_def Let_def
      split: if_splits)

lemma look_up_keeps:
  assumes "block_in_force a b w" and "int64 a" and "int64 b"
  shows "block_in_force a b (snd (look_up e ea x y w))"
proof -
  let ?e = "e\<lparr>e_blocked := auth_answer ea (bw_auth w)\<rparr>"
  have t: "au_tables (bw_auth (snd (look_up e ea x y w))) = au_tables (bw_auth w)" by (simp add: look_up_def split: prod.split)
  have v: "v" if "auth_answer ea (bw_auth w) x y = Some v" "blockCacheKey x y = blockCacheKey a b" for v
    using auth_answer_only [OF that(1) _ _ assms(2,3)] assms(1) that(2) [symmetric] by (auto simp: block_in_force_def blockCacheKey_eq)
  have "au_cache (bw_auth (snd (look_up e ea x y w))) = au_cache (bw_auth w)
      \<or> (\<exists>v. auth_answer ea (bw_auth w) x y = Some v
         \<and> au_cache (bw_auth (snd (look_up e ea x y w))) = AList.update (blockCacheKey x y) (v, e_now e + blockCacheTTL) (au_cache (bw_auth w)))"
    by (auto simp: look_up_def isBlocked_def chat_view_def Let_def split: option.split)
  then show ?thesis
    using assms(1) v unfolding block_in_force_def t by (fastforce simp: update_conv split: if_splits)
qed

lemma serve_keeps:
  assumes "block_in_force a b w" and "unblocks cfg e r \<noteq> Some (a, b)"
  shows "block_in_force a b (w\<lparr>bw_auth := snd (auth_serve cfg e r (bw_auth w))\<rparr>)"
proof -
  have "has_block a b (au_tables (bw_auth w))" using assms(1) by (simp add: block_in_force_def)
  then have "has_block a b (au_tables (snd (auth_serve cfg e r (bw_auth w))))"
  proof (rule block_history.request)
    show "has_block a b t \<Longrightarrow> has_block a b (snd (Devices_Upsert (ax_now e) (ax_device_id e) u k pf av dm ip t))" for t u k pf av dm ip
      by (erule has_block_same) simp
    show "has_block a b t \<Longrightarrow> unblocks cfg e r = Some (x, y) \<Longrightarrow> has_block a b (Blocks_Unblock x y t)" for t x y
      using assms(2) by (auto intro: has_block_ops(2))
  qed
  moreover have "map_of (au_cache (snd (auth_serve cfg e r (bw_auth w)))) \<subseteq>\<^sub>m map_of (au_cache (bw_auth w))"
    using cache_request [of "bw_auth w" cfg e r] by (simp add: cache_within_def)
  ultimately show ?thesis using assms(1) unfolding block_in_force_def map_le_def by (auto simp: dom_def)
qed

lemma block_step_keeps:
  "block_in_force a b w \<Longrightarrow> int64 a \<Longrightarrow> int64 b \<Longrightarrow> \<not> removes cfg a b s \<Longrightarrow> block_in_force a b (block_step cfg s w)"
  by (cases s) (simp_all add: block_step_def removes_def look_up_keeps serve_keeps)

lemma block_starts:
  assumes "handleBlock ea claims (Inr b) (bw_auth w) = (Inr (), aw)" and "\<not> ax_down ea ACacheDel"
  shows "block_in_force (tk_UserID claims) b (w\<lparr>bw_auth := aw\<rparr>) \<and> b \<noteq> 0"
proof -
  have b: "b \<noteq> 0" using assms(1) by (auto simp: handleBlock_def)
  from and_then_Inr [OF assms(1) [unfolded handleBlock_def sum.case if_not_P [OF b]]] obtain t where
    t: "Blocks_Block (ax_now ea) (tk_UserID claims) b (au_tables (bw_auth w)) = (Inr (), t)"
    "aw = invalidateBlockCache ea (tk_UserID claims) b ((bw_auth w)\<lparr>au_tables := t\<rparr>)" by (auto dest!: statement_Inr)
  have "has_block (tk_UserID claims) b t" using t(1) by (auto simp: Blocks_Block_def has_block_def map_add_def split: if_splits option.splits)
  then show ?thesis using assms(2) b t(2) by (simp add: block_in_force_def invalidateBlockCache_def delete_conv)
qed


section \<open>Examples\<close>

text \<open>Ann, user 7, and Eve, user 8, have accounts; Ann blocks Eve.\<close>

definition ann_and_eve :: auth_world where
  "ann_and_eve = auth_serve_all session_cfg eve_signs_in (ar_world (auth_run session_cfg two_sessions))"

definition ann_blocks :: "auth_world \<Rightarrow> (http_error + unit) \<times> auth_world" where
  "ann_blocks w = handleBlock (sample_env ''k'' 0 0) (access_claims sample_issuer 0 ''j1'' 7 1 []) (Inr 8) w"

definition private_chat :: Chat where
  "private_chat = \<lparr>ch_ID = 500, ch_Type = ChatPrivate, ch_Title = '''', ch_Username = None, ch_PhotoObj = None, ch_Description = '''',
     ch_CreatedBy = 7, ch_CreatedAt = 0, ch_UpdatedAt = 0, ch_DeletedAt = None, ch_MemberCount = 2, ch_HomeRegion = '''',
     ch_PairKey = Some ''7:8''\<rparr>"

definition asks :: block_event where
  "asks = ChatAsks (calm 1000 ''u'' 0) (sample_env ''k'' 0 0) 8 7"


text \<open>A lookup asks the auth service and stores the answer afterwards.  When Ann blocks Eve in between, the answer from before is
  stored after the cache was cleared, and for ten minutes it is what the chat service goes by.\<close>

definition late_answer :: block_world where
  "late_answer =
     (let after = \<lparr>bw_auth = snd (ann_blocks ann_and_eve), bw_chat = empty_world []\<rparr>
      in case isBlocked ((calm 1000 ''u'' 0)\<lparr>e_blocked := auth_answer (sample_env ''k'' 0 0) ann_and_eve\<rparr>) 8 7 (chat_view after) of
           (_, c) \<Rightarrow> \<lparr>bw_auth = (bw_auth after)\<lparr>au_cache := w_blocks c\<rparr>, bw_chat = c\<rparr>)"

theorem late_answer_hides_block:
  "fst (ann_blocks ann_and_eve) = Inr () \<and> IsBlockedBetween (au_tables (bw_auth late_answer)) 8 7
   \<and> fst (look_up (calm 500000 ''u'' 0) (sample_env ''k'' 0 0) 8 7 late_answer) = False"
  by code_simp

end
