(* ===== verification/Presence.thy ===== *)
theory Presence
  imports Tables Go_Prelude
begin

text \<open>
  Presence in Redis, \<^verbatim>\<open>pkg/redisx/presence.go\<close>: per user a hash from devices to the second they were last seen and a hash
  from devices to the pod that holds their connection, both with one expiry for the whole hash.  Times are in milliseconds.
\<close>

section \<open>Hashes with an expiry\<close>

type_synonym 'v expiring_hash = "(int \<times> 'v) list \<times> int"

record DeviceRoute =
  ro_DeviceID :: int
  ro_Pod :: string
  ro_Region :: string
  ro_Since :: int
  ro_Platform :: string

record presence =
  pr_seen :: "(int \<times> int expiring_hash) list"
  pr_route :: "(int \<times> DeviceRoute expiring_hash) list"

definition live_hash :: "int \<Rightarrow> (int \<times> 'v expiring_hash) list \<Rightarrow> int \<Rightarrow> (int \<times> 'v) list" where
  "live_hash now h u = (case map_of h u of None \<Rightarrow> [] | Some (fs, expires) \<Rightarrow> if now < expires then fs else [])"

text \<open>\<^verbatim>\<open>HSET\<close> and then \<^verbatim>\<open>EXPIRE\<close>; \<^verbatim>\<open>EXPIRE\<close> alone, which does nothing for a key that is gone; \<^verbatim>\<open>HDEL\<close>, which keeps the expiry and
  removes an empty hash.\<close>

definition hset_expire :: "int \<Rightarrow> int \<Rightarrow> int \<Rightarrow> int \<Rightarrow> 'v \<Rightarrow> (int \<times> 'v expiring_hash) list \<Rightarrow> (int \<times> 'v expiring_hash) list" where
  "hset_expire now ttl u field v h = AList.update u (AList.update field v (live_hash now h u), now + ttl) h"

definition expire :: "int \<Rightarrow> int \<Rightarrow> int \<Rightarrow> (int \<times> 'v expiring_hash) list \<Rightarrow> (int \<times> 'v expiring_hash) list" where
  "expire now ttl u h = (if live_hash now h u = [] then h else AList.update u (live_hash now h u, now + ttl) h)"

definition hdel :: "int \<Rightarrow> int \<Rightarrow> int \<Rightarrow> (int \<times> 'v expiring_hash) list \<Rightarrow> (int \<times> 'v expiring_hash) list" where
  "hdel now u field h =
     (case map_of h u of
        None \<Rightarrow> h
      | Some (fs, expires) \<Rightarrow>
          let rest = AList.delete field (live_hash now h u) in if rest = [] then AList.delete u h else AList.update u (rest, expires) h)"

section \<open>Operations\<close>

definition PresenceOf :: "int \<Rightarrow> int" where
  "PresenceOf ttl = (if ttl = 0 then 90000 else ttl)"

definition Online :: "bool \<Rightarrow> int \<Rightarrow> int \<Rightarrow> int \<Rightarrow> DeviceRoute \<Rightarrow> presence \<Rightarrow> bool \<times> presence" where
  "Online down ttl now userID r p =
     (if down then (False, p)
      else
        (True, p\<lparr>pr_seen := hset_expire now ttl userID (ro_DeviceID r) (now div 1000) (pr_seen p),
                 pr_route := hset_expire now ttl userID (ro_DeviceID r) (r\<lparr>ro_Since := now div 1000\<rparr>) (pr_route p)\<rparr>))"

definition Heartbeat :: "bool \<Rightarrow> int \<Rightarrow> int \<Rightarrow> int \<Rightarrow> int \<Rightarrow> presence \<Rightarrow> bool \<times> presence" where
  "Heartbeat down ttl now userID deviceID p =
     (if down then (False, p)
      else
        (True, p\<lparr>pr_seen := hset_expire now ttl userID deviceID (now div 1000) (pr_seen p),
                 pr_route := expire now ttl userID (pr_route p)\<rparr>))"

definition Offline :: "bool \<Rightarrow> int \<Rightarrow> int \<Rightarrow> int \<Rightarrow> presence \<Rightarrow> bool \<times> presence" where
  "Offline down now userID deviceID p =
     (if down then (False, p)
      else (True, p\<lparr>pr_seen := hdel now userID deviceID (pr_seen p), pr_route := hdel now userID deviceID (pr_route p)\<rparr>))"

definition IsOnline :: "bool \<Rightarrow> int \<Rightarrow> int \<Rightarrow> presence \<Rightarrow> bool option" where
  "IsOnline down now userID p = (if down then None else Some (live_hash now (pr_seen p) userID \<noteq> []))"

text \<open>In the bulk query a single command may fail; such a user counts as offline.\<close>

definition OnlineMany :: "bool \<Rightarrow> (int \<Rightarrow> bool) \<Rightarrow> int \<Rightarrow> int list \<Rightarrow> presence \<Rightarrow> (int \<times> bool) list option" where
  "OnlineMany down bad now userIDs p =
     (if userIDs = [] then Some []
      else if down then None
      else Some (map (\<lambda>u. (u, \<not> bad u \<and> live_hash now (pr_seen p) u \<noteq> [])) userIDs))"

definition LastSeen :: "int \<Rightarrow> int \<Rightarrow> presence \<Rightarrow> int option" where
  "LastSeen now userID p =
     (case live_hash now (pr_seen p) userID of [] \<Rightarrow> None | fs \<Rightarrow> Some (foldl max 0 (map snd fs)))"

definition Routes :: "int \<Rightarrow> int \<Rightarrow> presence \<Rightarrow> DeviceRoute list" where
  "Routes now userID p = map snd (live_hash now (pr_route p) userID)"

section \<open>Events\<close>

datatype PresenceState = PresenceOnline | PresenceOffline | PresenceTyping

record PresenceEvent =
  pe_UserID :: int
  pe_DeviceID :: int
  pe_State :: PresenceState
  pe_At :: int

section \<open>Properties\<close>

datatype presence_op = POnline int DeviceRoute | PHeartbeat int int | POffline int int

definition presence_step :: "int \<Rightarrow> (int \<times> bool \<times> presence_op) \<Rightarrow> presence \<Rightarrow> presence" where
  "presence_step ttl s p =
     (case s of (now, down, op') \<Rightarrow>
        (case op' of
           POnline u r \<Rightarrow> snd (Online down ttl now u r p)
         | PHeartbeat u d \<Rightarrow> snd (Heartbeat down ttl now u d p)
         | POffline u d \<Rightarrow> snd (Offline down now u d p)))"

definition op_user :: "presence_op \<Rightarrow> int" where
  "op_user op' = (case op' of POnline u _ \<Rightarrow> u | PHeartbeat u _ \<Rightarrow> u | POffline u _ \<Rightarrow> u)"

definition keeps_alive :: "presence_op \<Rightarrow> bool" where
  "keeps_alive op' = (case op' of POffline _ _ \<Rightarrow> False | _ \<Rightarrow> True)"

definition expiry :: "presence \<Rightarrow> int \<Rightarrow> int" where
  "expiry p u = (case map_of (pr_seen p) u of None \<Rightarrow> 0 | Some (_, x) \<Rightarrow> x)"

lemma map_of_step:
  "map_of (pr_seen (presence_step ttl (now, down, op') p)) u =
     (if down \<or> op_user op' \<noteq> u then map_of (pr_seen p) u
      else case op' of
        POnline _ r \<Rightarrow> Some (AList.update (ro_DeviceID r) (now div 1000) (live_hash now (pr_seen p) u), now + ttl)
      | PHeartbeat _ d \<Rightarrow> Some (AList.update d (now div 1000) (live_hash now (pr_seen p) u), now + ttl)
      | POffline _ d \<Rightarrow>
          (case map_of (pr_seen p) u of
             None \<Rightarrow> None
           | Some (_, x) \<Rightarrow> let rest = AList.delete d (live_hash now (pr_seen p) u) in if rest = [] then None else Some (rest, x)))"
  by (cases op')
    (auto simp: presence_step_def op_user_def Online_def Heartbeat_def Offline_def hset_expire_def hdel_def Let_def update_conv delete_conv
      split: option.split)

text \<open>The entry of a user expires at the latest the given time after the last refresh.\<close>

lemma expiry_bound:
  assumes "\<forall>(now, down, op') \<in> set ops. op_user op' = u \<longrightarrow> keeps_alive op' \<longrightarrow> \<not> down \<longrightarrow> now \<le> t" and "expiry p u \<le> t + ttl" and "0 \<le> t + ttl"
  shows "expiry (fold (presence_step ttl) ops p) u \<le> t + ttl"
  using assms
proof (induction ops arbitrary: p)
  case (Cons s ops)
  obtain now down op' where s: "s = (now, down, op')" by (cases s) auto
  have "expiry (presence_step ttl s p) u \<le> t + ttl"
    using Cons.prems s by (cases op') (auto simp: expiry_def map_of_step op_user_def keeps_alive_def Let_def split: option.split)
  then show ?case using Cons by simp
qed simp

text \<open>Presence heals itself: whatever connections did before, and whatever calls failed, a user whose last refresh was at
  \<open>t\<close> is offline for everyone from \<open>t\<close> plus the time to live on, even when the pod that held the connection never said so.\<close>

theorem presence_self_heals:
  assumes "\<forall>(now, down, op') \<in> set ops. op_user op' = u \<longrightarrow> keeps_alive op' \<longrightarrow> \<not> down \<longrightarrow> now \<le> t" and "0 \<le> t + ttl" and "t + ttl \<le> later"
  shows "IsOnline False later u (fold (presence_step ttl) ops \<lparr>pr_seen = [], pr_route = []\<rparr>) = Some False
    \<and> LastSeen later u (fold (presence_step ttl) ops \<lparr>pr_seen = [], pr_route = []\<rparr>) = None"
proof -
  let ?p = "fold (presence_step ttl) ops \<lparr>pr_seen = [], pr_route = []\<rparr>"
  have "expiry ?p u \<le> t + ttl" by (rule expiry_bound [OF assms(1)]) (use assms(2) in \<open>simp_all add: expiry_def\<close>)
  then have "live_hash later (pr_seen ?p) u = []"
    using assms(3) by (auto simp: expiry_def live_hash_def split: option.splits)
  then show ?thesis by (simp add: IsOnline_def LastSeen_def)
qed

definition sample_route :: DeviceRoute where
  "sample_route = \<lparr>ro_DeviceID = 1, ro_Pod = ''gateway-0'', ro_Region = ''eu'', ro_Since = 0, ro_Platform = ''ios''\<rparr>"

theorem presence_self_heals_witness:
  "IsOnline False 30000 7 (fold (presence_step 90000) [(0, False, POnline 7 sample_route), (20000, False, PHeartbeat 7 1)] \<lparr>pr_seen = [], pr_route = []\<rparr>) = Some True
   \<and> IsOnline False 110000 7 (fold (presence_step 90000) [(0, False, POnline 7 sample_route), (20000, False, PHeartbeat 7 1)] \<lparr>pr_seen = [], pr_route = []\<rparr>) = Some False"
proof -
  let ?ops = "[(0, False, POnline 7 sample_route), (20000, False, PHeartbeat 7 1)]"
  have "IsOnline False 30000 7 (fold (presence_step 90000) ?ops \<lparr>pr_seen = [], pr_route = []\<rparr>) = Some True" by code_simp
  moreover have "IsOnline False 110000 7 (fold (presence_step 90000) ?ops \<lparr>pr_seen = [], pr_route = []\<rparr>) = Some False"
    using presence_self_heals [of ?ops 7 20000 90000 110000] by simp
  ultimately show ?thesis by blast
qed

end
