(* ===== verification/Auth_Key.thy ===== *)
theory Auth_Key
  imports Ige
begin

unbundle bit_operations_syntax

text \<open>
  Auth keys and the MTProto 2.0 key schedule, \<^verbatim>\<open>pkg/mtproto/keys.go\<close>.  A key is 256 bytes of
  shared secret with the 64-bit identifier derived from it; the invariant \<open>authkey_wf\<close> says so,
  \<open>NewAuthKey\<close> establishes it and \<open>Zero\<close> gives it up.  Each direction of a connection reads its
  own slices of the secret.
\<close>

definition AuthKeySize :: nat where
  "AuthKeySize = 256"

datatype Direction = ClientToServer | ServerToClient

definition dir_x :: "Direction \<Rightarrow> nat" where
  "dir_x d = (case d of ClientToServer \<Rightarrow> 0 | ServerToClient \<Rightarrow> 8)"

definition Opposite :: "Direction \<Rightarrow> Direction" where
  "Opposite d = (if d = ClientToServer then ServerToClient else ClientToServer)"

record AuthKey =
  ak_raw :: bytes
  ak_id :: u64

definition deriveKeyID :: "bytes \<Rightarrow> u64" where
  "deriveKeyID key = get_le (bslice (sha1 key) 12 20)"

definition NewAuthKey :: "bytes \<Rightarrow> mt_error + AuthKey" where
  "NewAuthKey raw =
     (if length raw \<noteq> AuthKeySize then Inl (ErrAuthKeySize (length raw))
      else Inr \<lparr>ak_raw = raw, ak_id = deriveKeyID raw\<rparr>)"

text \<open>\<^verbatim>\<open>hex.EncodeToString\<close>, and the identifier as the database keys spell it.\<close>

definition hex_digit :: "nat \<Rightarrow> char" where
  "hex_digit n = ''0123456789abcdef'' ! n"

definition hex_encode :: "bytes \<Rightarrow> string" where
  "hex_encode b = concat (map (\<lambda>x. [hex_digit (unat x div 16), hex_digit (unat x mod 16)]) b)"

definition AuthKeyIDHex :: "u64 \<Rightarrow> string" where
  "AuthKeyIDHex w = hex_encode (put_le 8 w)"

definition IDHex :: "AuthKey \<Rightarrow> string" where
  "IDHex k = hex_encode (put_le 8 (ak_id k))"

definition MsgKey :: "AuthKey \<Rightarrow> bytes \<Rightarrow> Direction \<Rightarrow> bytes" where
  "MsgKey k plaintext d =
     (let x = dir_x d; sum = sha256 (bslice (ak_raw k) (88 + x) (88 + x + 32) @ plaintext)
      in bslice sum 8 24)"

definition DeriveAESKeyIV :: "AuthKey \<Rightarrow> bytes \<Rightarrow> Direction \<Rightarrow> mt_error + (bytes \<times> bytes)" where
  "DeriveAESKeyIV k msgKey d =
     (if length msgKey \<noteq> 16 then Inl (ErrMsgKeySize (length msgKey))
      else
        let x = dir_x d;
            a = sha256 (msgKey @ bslice (ak_raw k) x (x + 36));
            b = sha256 (bslice (ak_raw k) (40 + x) (40 + x + 36) @ msgKey);
            key = bslice a 0 8 @ bslice b 8 24 @ bslice a 24 32;
            iv = bslice b 0 8 @ bslice a 8 24 @ bslice b 24 32
        in Inr (key, iv))"

definition VerifyMsgKey :: "AuthKey \<Rightarrow> bytes \<Rightarrow> bytes \<Rightarrow> Direction \<Rightarrow> mt_error + unit" where
  "VerifyMsgKey k plaintext msgKey d =
     (if \<not> constantTimeEqual (MsgKey k plaintext d) msgKey then Inl ErrBadMsgKey else Inr ())"

definition Zero :: "AuthKey \<Rightarrow> AuthKey" where
  "Zero k = k\<lparr>ak_raw := map (\<lambda>_. 0) (ak_raw k), ak_id := 0\<rparr>"

definition authkey_wf :: "AuthKey \<Rightarrow> bool" where
  "authkey_wf k \<longleftrightarrow> length (ak_raw k) = 256 \<and> ak_id k = deriveKeyID (ak_raw k)"

section \<open>Properties\<close>

lemma NewAuthKey_Inr_iff:
  "NewAuthKey raw = Inr k \<longleftrightarrow> length raw = 256 \<and> k = \<lparr>ak_raw = raw, ak_id = deriveKeyID raw\<rparr>"
  by (auto simp: NewAuthKey_def AuthKeySize_def)

lemma NewAuthKey_wf: "NewAuthKey raw = Inr k \<Longrightarrow> authkey_wf k"
  by (auto simp: NewAuthKey_Inr_iff authkey_wf_def)

lemma length_MsgKey [bytes_simps, simp]: "length (MsgKey k p d) = 16"
  by (simp add: MsgKey_def Let_def)

lemma DeriveAESKeyIV_ok:
  assumes "length mk = 16"
  obtains key iv where "DeriveAESKeyIV k mk d = Inr (key, iv)" and "length key = 32" and "length iv = 32"
  using assms by (simp add: DeriveAESKeyIV_def Let_def)

lemma DeriveAESKeyIV_lengths:
  "DeriveAESKeyIV k mk d = Inr (key, iv) \<Longrightarrow> length mk = 16 \<and> length key = 32 \<and> length iv = 32"
  by (auto simp: DeriveAESKeyIV_def Let_def split: if_splits)

lemma VerifyMsgKey_Inr_iff [simp]: "VerifyMsgKey k p mk d = Inr u \<longleftrightarrow> MsgKey k p d = mk"
  by (simp add: VerifyMsgKey_def constantTimeEqual_def)

lemma Opposite_Opposite [simp]: "Opposite (Opposite d) = d"
  by (cases d) (simp_all add: Opposite_def)

lemma dir_x_Opposite: "dir_x (Opposite d) = 8 - dir_x d"
  by (cases d) (simp_all add: Opposite_def dir_x_def)

lemma length_hex_encode: "length (hex_encode b) = 2 * length b"
  by (induction b) (simp_all add: hex_encode_def)

lemma IDHex_eq: "IDHex k = AuthKeyIDHex (ak_id k)"
  by (simp add: IDHex_def AuthKeyIDHex_def)

lemma hex_digit_inject: "m < 16 \<Longrightarrow> n < 16 \<Longrightarrow> hex_digit m = hex_digit n \<longleftrightarrow> m = n"
proof -
  assume mn: "m < 16" "n < 16"
  have "distinct ''0123456789abcdef''" by simp
  with mn show ?thesis unfolding hex_digit_def by (subst nth_eq_iff_index_eq) simp_all
qed

lemma hex_encode_inject: "hex_encode a = hex_encode b \<longleftrightarrow> a = b"
proof (induction a arbitrary: b)
  case Nil
  show ?case by (cases b) (simp_all add: hex_encode_def)
next
  case (Cons x a)
  show ?case
  proof (cases b)
    case Nil
    then show ?thesis by (simp add: hex_encode_def)
  next
    case (Cons y c)
    have u: "unat z < 256" for z :: byte
      using unsigned_less [of z] by simp
    have "unat x div 16 = unat y div 16 \<and> unat x mod 16 = unat y mod 16 \<longleftrightarrow> x = y"
      by (metis div_mult_mod_eq unsigned_word_eqI)
    with Cons Cons.IH [of c] u show ?thesis
      by (auto simp: hex_encode_def hex_digit_inject less_mult_imp_div_less)
  qed
qed

text \<open>Distinct identifiers have distinct names in the session store.\<close>

lemma AuthKeyIDHex_inject: "AuthKeyIDHex v = AuthKeyIDHex w \<longleftrightarrow> v = w"
  by (simp add: AuthKeyIDHex_def hex_encode_inject put_le_inject)

end
