(* ===== verification/Handshake.thy ===== *)
theory Handshake
  imports Auth_Key Proof_Of_Work
begin

unbundle bit_operations_syntax

text \<open>
  The auth-key handshake: \<^verbatim>\<open>pkg/mtproto/handshake.go\<close> (the server), \<^verbatim>\<open>handshake_types.go\<close> and
  \<^verbatim>\<open>handshake_client.go\<close>.  Each side is a record, each message handler a function from the record
  to a result and the new record.  The random draws of a handler and the clock are its arguments.
  RSA-OAEP and the JSON rendering of the two inner structures are the fields of \<open>hs_lib\<close>, passed
  to the handlers that call them; \<open>lib_ok\<close> names what the protocol needs of them.
\<close>

section \<open>Integers of package math/big\<close>

function big_bytes :: "nat \<Rightarrow> bytes" where
  "big_bytes n = (if n = 0 then [] else big_bytes (n div 256) @ [of_nat (n mod 256)])"
  by pat_completeness auto
termination
  by (relation "measure (\<lambda>n. n)") auto

declare big_bytes.simps [simp del]

definition big_of :: "bytes \<Rightarrow> nat" where
  "big_of bs = foldl (\<lambda>a b. a * 256 + unat b) 0 bs"

section \<open>The group\<close>

definition dhPrime :: nat where
  "dhPrime = 0xFFFFFFFFFFFFFFFFC90FDAA22168C234C4C6628B80DC1CD129024E088A67CC74020BBEA63B139B22514A08798E3404DDEF9519B3CD3A431B302B0A6DF25F14374FE1356D6D51C245E485B576625E7EC6F44C42E9A637ED6B0BFF5CB6F406B7EDEE386BFB5A899FA5AE9F24117C4B1FE649286651ECE45B3DC2007CB8A163BF0598DA48361C55D39A69163FA8FD24CF5F83655D23DCA3AD961C62F356208552BB9ED529077096966D670C354E4ABC9804F1746C08CA18217C32905E462E36CE3BE39E772C180E86039B2783A2EC07A28FB5C55DF06F4C52C9DE2BCBF6955817183995497CEA956AE515D2261898FA051015728E5A8AACAA68FFFFFFFFFFFFFFFF"

definition dhG :: nat where
  "dhG = 2"

definition dhPrimeQ :: nat where
  "dhPrimeQ = (dhPrime - 1) div 2"

definition big_exp :: "nat \<Rightarrow> nat \<Rightarrow> nat" where
  "big_exp g e = g ^ e mod dhPrime"

definition validateDHValue :: "nat \<Rightarrow> mt_error + unit" where
  "validateDHValue v =
     (if v \<le> 1 \<or> dhPrime - 1 \<le> v then Inl ErrBadDHValue
      else if v < 2 ^ (2048 - 64) then Inl ErrBadDHValue
      else if dhPrime - 2 ^ (2048 - 64) < v then Inl ErrBadDHValue
      else Inr ())"

section \<open>Messages\<close>

record ResPQ =
  rp_Nonce :: bytes
  rp_ServerNonce :: bytes
  rp_PQ :: u64
  RSAFingerprints :: "u64 list"

record ReqDHParams =
  rq_Nonce :: bytes
  rq_ServerNonce :: bytes
  rq_P :: u64
  rq_Q :: u64
  RSAFingerprint :: u64
  rq_EncryptedData :: bytes

record PQInnerData =
  in_PQ :: u64
  in_P :: u64
  in_Q :: u64
  in_Nonce :: bytes
  in_ServerNonce :: bytes
  in_NewNonce :: bytes

record ServerDHParams =
  sp_Nonce :: bytes
  sp_ServerNonce :: bytes
  EncryptedAnswer :: bytes

record ServerDHInnerData =
  si_Nonce :: bytes
  si_ServerNonce :: bytes
  si_G :: int
  si_DHPrime :: bytes
  si_GA :: bytes
  si_ServerTime :: int

record SetClientDHParams =
  sc_Nonce :: bytes
  sc_ServerNonce :: bytes
  sc_EncryptedData :: bytes

record ClientDHInnerData =
  ci_Nonce :: bytes
  ci_ServerNonce :: bytes
  ci_RetryID :: int
  ci_GB :: bytes

record DHGenOK =
  ok_Nonce :: bytes
  ok_ServerNonce :: bytes
  NewNonceHash :: bytes

definition pqInnerDataSize :: nat where
  "pqInnerDataSize = 8 + 8 + 8 + 16 + 16 + 32"

definition PQInner_MarshalBinary :: "PQInnerData \<Rightarrow> bytes" where
  "PQInner_MarshalBinary d =
     put_be 8 (in_PQ d) @ put_be 8 (in_P d) @ put_be 8 (in_Q d)
     @ in_Nonce d @ in_ServerNonce d @ in_NewNonce d"

definition PQInner_UnmarshalBinary :: "bytes \<Rightarrow> mt_error + PQInnerData" where
  "PQInner_UnmarshalBinary b =
     (if length b \<noteq> pqInnerDataSize then Inl (ErrInnerSize (length b))
      else Inr \<lparr>in_PQ = get_be (bslice b 0 8), in_P = get_be (bslice b 8 16), in_Q = get_be (bslice b 16 24),
                in_Nonce = bslice b 24 40, in_ServerNonce = bslice b 40 56, in_NewNonce = bslice b 56 88\<rparr>)"

text \<open>The library calls of the handshake.  \<open>None\<close> is the error return.\<close>

record hs_lib =
  EncryptOAEP :: "bytes \<Rightarrow> bytes option"
  DecryptOAEP :: "bytes \<Rightarrow> bytes option"
  marshal_server_inner :: "ServerDHInnerData \<Rightarrow> bytes option"
  unmarshal_server_inner :: "bytes \<Rightarrow> ServerDHInnerData option"
  marshal_client_inner :: "ClientDHInnerData \<Rightarrow> bytes option"
  unmarshal_client_inner :: "bytes \<Rightarrow> ClientDHInnerData option"

definition encodeInner :: "('v \<Rightarrow> bytes option) \<Rightarrow> 'v \<Rightarrow> mt_error + bytes" where
  "encodeInner marshal v = (case marshal v of None \<Rightarrow> Inl ErrJSON | Some b \<Rightarrow> Inr b)"

definition decodeInner :: "(bytes \<Rightarrow> 'v option) \<Rightarrow> bytes \<Rightarrow> mt_error + 'v" where
  "decodeInner unmarshal b = (case unmarshal b of None \<Rightarrow> Inl ErrJSON | Some v \<Rightarrow> Inr v)"

section \<open>Shared helpers\<close>

definition tmpAESKeyIV :: "bytes \<Rightarrow> bytes \<Rightarrow> bytes \<times> bytes" where
  "tmpAESKeyIV newNonce serverNonce =
     (let ns = sha1 (newNonce @ serverNonce); sn = sha1 (serverNonce @ newNonce); nn = sha1 (newNonce @ newNonce)
      in (ns @ bslice sn 0 12, bslice sn 12 20 @ nn @ bslice newNonce 0 4))"

definition newNonceHash :: "bytes \<Rightarrow> byte \<Rightarrow> AuthKey \<Rightarrow> bytes" where
  "newNonceHash newNonce tag key =
     bslice (sha1 (newNonce @ [tag] @ bslice (sha1 (ak_raw key)) 0 8)) 4 20"

definition igeSeal :: "bytes \<Rightarrow> bytes \<Rightarrow> bytes \<Rightarrow> bytes \<Rightarrow> mt_error + bytes" where
  "igeSeal entropy key iv data =
     (let buf = sha1 data @ data; pad = (16 - length buf mod 16) mod 16
      in case read_full pad entropy of
           None \<Rightarrow> Inl ErrRandRead
         | Some (padding, _) \<Rightarrow> IGEEncrypt key iv (buf @ padding))"

text \<open>The scan of \<^verbatim>\<open>igeOpen\<close>: candidate lengths from the longest down, at most 17 of them.\<close>

fun open_scan :: "bytes \<Rightarrow> bytes \<Rightarrow> nat \<Rightarrow> nat \<Rightarrow> mt_error + bytes" where
  "open_scan digest body k 0 = Inl ErrInnerIntegrity"
| "open_scan digest body k (Suc tries) =
     (if constantTimeEqual (sha1 (take k body)) digest then Inr (take k body)
      else if k = 0 then Inl ErrInnerIntegrity
      else open_scan digest body (k - 1) tries)"

definition igeOpen :: "bytes \<Rightarrow> bytes \<Rightarrow> bytes \<Rightarrow> mt_error + bytes" where
  "igeOpen key iv sealed =
     (case IGEDecrypt key iv sealed of
        Inl e \<Rightarrow> Inl e
      | Inr plain \<Rightarrow>
          if length plain < 20 then Inl ErrShortFrame
          else open_scan (take 20 plain) (drop 20 plain) (length plain - 20) 17)"

definition leftPad :: "bytes \<Rightarrow> nat \<Rightarrow> bytes" where
  "leftPad b n = (if n \<le> length b then drop (length b - n) b else replicate (n - length b) 0 @ b)"

section \<open>The server\<close>

record ServerHandshake =
  sh_fingerprint :: u64
  sh_nonce :: bytes
  sh_serverNonce :: bytes
  sh_newNonce :: bytes
  sh_pq :: u64
  sh_p :: u64
  sh_q :: u64
  sh_a :: nat
  sh_gA :: nat
  sh_gB :: nat
  sh_step :: nat
  sh_deadline :: int

definition NewServerHandshake :: "u64 \<Rightarrow> int \<Rightarrow> int \<Rightarrow> ServerHandshake" where
  "NewServerHandshake fp now timeout =
     (let timeout' = (if timeout = 0 then 30 * 1000000000 else timeout)
      in \<lparr>sh_fingerprint = fp, sh_nonce = replicate 16 0, sh_serverNonce = replicate 16 0,
          sh_newNonce = replicate 32 0, sh_pq = 0, sh_p = 0, sh_q = 0, sh_a = 0, sh_gA = 0, sh_gB = 0,
          sh_step = 0, sh_deadline = now + timeout'\<rparr>)"

text \<open>\<open>None\<close>: the semiprime generator has not returned for the draws it was given.\<close>

definition Server_ReqPQ ::
  "int \<Rightarrow> bytes \<Rightarrow> nat option list \<Rightarrow> bytes \<Rightarrow> ServerHandshake \<Rightarrow> ((mt_error + ResPQ) \<times> ServerHandshake) option" where
  "Server_ReqPQ now entropy primes clientNonce h =
     (if sh_step h \<noteq> 0 then Some (Inl ErrHandshakeState, h)
      else if sh_deadline h < now then Some (Inl ErrHandshakeExpired, h)
      else
        let h1 = h\<lparr>sh_nonce := clientNonce\<rparr>
        in case read_full 16 entropy of
             None \<Rightarrow> Some (Inl ErrRandRead, h1)
           | Some (serverNonce, _) \<Rightarrow>
               let h2 = h1\<lparr>sh_serverNonce := serverNonce\<rparr>
               in case GeneratePQ primes of
                    None \<Rightarrow> None
                  | Some (Inl e) \<Rightarrow> Some (Inl e, h2)
                  | Some (Inr (pq, p, q)) \<Rightarrow>
                      Some (Inr \<lparr>rp_Nonce = clientNonce, rp_ServerNonce = serverNonce, rp_PQ = pq,
                                 RSAFingerprints = [sh_fingerprint h]\<rparr>,
                            h2\<lparr>sh_pq := pq, sh_p := p, sh_q := q, sh_step := 1\<rparr>))"

definition Server_ReqDHParams ::
  "hs_lib \<Rightarrow> int \<Rightarrow> nat option \<Rightarrow> bytes \<Rightarrow> ReqDHParams \<Rightarrow> ServerHandshake \<Rightarrow> (mt_error + ServerDHParams) \<times> ServerHandshake" where
  "Server_ReqDHParams lib now draw entropy req h =
     (if sh_step h \<noteq> 1 then (Inl ErrHandshakeState, h)
      else if sh_deadline h < now then (Inl ErrHandshakeExpired, h)
      else if rq_Nonce req \<noteq> sh_nonce h \<or> rq_ServerNonce req \<noteq> sh_serverNonce h then (Inl ErrNonceMismatch, h)
      else if RSAFingerprint req \<noteq> sh_fingerprint h then (Inl ErrUnknownRSAKey, h)
      else case VerifyPQ (sh_pq h) (rq_P req) (rq_Q req) of
        Inl e \<Rightarrow> (Inl e, h)
      | Inr _ \<Rightarrow>
        (case DecryptOAEP lib (rq_EncryptedData req) of
           None \<Rightarrow> (Inl ErrRSADecrypt, h)
         | Some inner \<Rightarrow>
        (case PQInner_UnmarshalBinary inner of
           Inl e \<Rightarrow> (Inl e, h)
         | Inr d \<Rightarrow>
             if in_Nonce d \<noteq> sh_nonce h \<or> in_ServerNonce d \<noteq> sh_serverNonce h then (Inl ErrNonceMismatch, h)
             else if in_PQ d \<noteq> sh_pq h \<or> in_P d \<noteq> rq_P req \<or> in_Q d \<noteq> rq_Q req then (Inl ErrInnerMismatch, h)
             else
               let h1 = h\<lparr>sh_newNonce := in_NewNonce d\<rparr>
               in case draw of
                    None \<Rightarrow> (Inl ErrRandRead, h1)
                  | Some r \<Rightarrow>
                      let a = r mod dhPrimeQ + 2 ^ 20;
                          gA = big_exp dhG a;
                          h2 = h1\<lparr>sh_a := a, sh_gA := gA\<rparr>;
                          answer = \<lparr>si_Nonce = sh_nonce h, si_ServerNonce = sh_serverNonce h, si_G = 2,
                                    si_DHPrime = big_bytes dhPrime, si_GA = big_bytes gA, si_ServerTime = now div 1000000000\<rparr>
                      in case encodeInner (marshal_server_inner lib) answer of
                           Inl e \<Rightarrow> (Inl e, h2)
                         | Inr plain \<Rightarrow>
                             (case tmpAESKeyIV (in_NewNonce d) (sh_serverNonce h) of (tmpKey, tmpIV) \<Rightarrow>
                               (case igeSeal entropy tmpKey tmpIV plain of
                                  Inl e \<Rightarrow> (Inl e, h2)
                                | Inr sealed \<Rightarrow>
                                    (Inr \<lparr>sp_Nonce = sh_nonce h, sp_ServerNonce = sh_serverNonce h, EncryptedAnswer = sealed\<rparr>,
                                     h2\<lparr>sh_step := 2\<rparr>))))))"

definition Server_SetClientDHParams ::
  "hs_lib \<Rightarrow> int \<Rightarrow> SetClientDHParams \<Rightarrow> ServerHandshake \<Rightarrow> (mt_error + (AuthKey \<times> DHGenOK)) \<times> ServerHandshake" where
  "Server_SetClientDHParams lib now req h =
     (if sh_step h \<noteq> 2 then (Inl ErrHandshakeState, h)
      else if sh_deadline h < now then (Inl ErrHandshakeExpired, h)
      else if sc_Nonce req \<noteq> sh_nonce h \<or> sc_ServerNonce req \<noteq> sh_serverNonce h then (Inl ErrNonceMismatch, h)
      else case tmpAESKeyIV (sh_newNonce h) (sh_serverNonce h) of (tmpKey, tmpIV) \<Rightarrow>
        (case igeOpen tmpKey tmpIV (sc_EncryptedData req) of
           Inl e \<Rightarrow> (Inl e, h)
         | Inr plain \<Rightarrow>
        (case decodeInner (unmarshal_client_inner lib) plain of
           Inl e \<Rightarrow> (Inl e, h)
         | Inr inner \<Rightarrow>
             if ci_Nonce inner \<noteq> sh_nonce h \<or> ci_ServerNonce inner \<noteq> sh_serverNonce h then (Inl ErrNonceMismatch, h)
             else
               let gB = big_of (ci_GB inner)
               in case validateDHValue gB of
                    Inl e \<Rightarrow> (Inl e, h)
                  | Inr _ \<Rightarrow>
                      let h1 = h\<lparr>sh_gB := gB\<rparr>;
                          authKeyBytes = leftPad (big_bytes (big_exp gB (sh_a h))) AuthKeySize
                      in case NewAuthKey authKeyBytes of
                           Inl e \<Rightarrow> (Inl e, h1)
                         | Inr key \<Rightarrow>
                             (Inr (key, \<lparr>ok_Nonce = sh_nonce h, ok_ServerNonce = sh_serverNonce h,
                                         NewNonceHash = newNonceHash (sh_newNonce h) 1 key\<rparr>),
                              h1\<lparr>sh_step := 3\<rparr>))))"

definition Done :: "ServerHandshake \<Rightarrow> bool" where
  "Done h \<longleftrightarrow> sh_step h = 3"

section \<open>The client\<close>

record ClientHandshake =
  ch_fp :: u64
  ch_nonce :: bytes
  ch_serverNonce :: bytes
  ch_newNonce :: bytes
  ch_b :: "nat option"
  ch_gA :: "nat option"

definition NewClientHandshake :: "u64 \<Rightarrow> ClientHandshake" where
  "NewClientHandshake fp =
     \<lparr>ch_fp = fp, ch_nonce = replicate 16 0, ch_serverNonce = replicate 16 0, ch_newNonce = replicate 32 0,
      ch_b = None, ch_gA = None\<rparr>"

definition Client_Start :: "bytes \<Rightarrow> ClientHandshake \<Rightarrow> (mt_error + bytes) \<times> ClientHandshake" where
  "Client_Start entropy c =
     (case read_full 16 entropy of
        None \<Rightarrow> (Inl ErrRandRead, c)
      | Some (nonce, _) \<Rightarrow> (Inr nonce, c\<lparr>ch_nonce := nonce\<rparr>))"

definition Client_OnResPQ ::
  "hs_lib \<Rightarrow> bytes \<Rightarrow> ResPQ \<Rightarrow> ClientHandshake \<Rightarrow> (mt_error + ReqDHParams) \<times> ClientHandshake" where
  "Client_OnResPQ lib entropy res c =
     (if rp_Nonce res \<noteq> ch_nonce c then (Inl ErrNonceMismatch, c)
      else
        let c1 = c\<lparr>ch_serverNonce := rp_ServerNonce res\<rparr>
        in if ch_fp c \<notin> set (RSAFingerprints res) then (Inl ErrUnknownRSAKey, c1)
           else case FactorPQ (rp_PQ res) of
             Inl e \<Rightarrow> (Inl e, c1)
           | Inr (p, q) \<Rightarrow>
               (case read_full 32 entropy of
                  None \<Rightarrow> (Inl ErrRandRead, c1)
                | Some (newNonce, _) \<Rightarrow>
                    let c2 = c1\<lparr>ch_newNonce := newNonce\<rparr>;
                        inner = PQInner_MarshalBinary \<lparr>in_PQ = rp_PQ res, in_P = p, in_Q = q, in_Nonce = ch_nonce c,
                                  in_ServerNonce = rp_ServerNonce res, in_NewNonce = newNonce\<rparr>
                    in case EncryptOAEP lib inner of
                         None \<Rightarrow> (Inl ErrRSAEncrypt, c2)
                       | Some sealed \<Rightarrow>
                           (Inr \<lparr>rq_Nonce = ch_nonce c, rq_ServerNonce = rp_ServerNonce res, rq_P = p, rq_Q = q,
                                 RSAFingerprint = ch_fp c, rq_EncryptedData = sealed\<rparr>, c2)))"

definition Client_OnServerDHParams ::
  "hs_lib \<Rightarrow> nat option \<Rightarrow> bytes \<Rightarrow> ServerDHParams \<Rightarrow> ClientHandshake \<Rightarrow> (mt_error + SetClientDHParams) \<times> ClientHandshake" where
  "Client_OnServerDHParams lib draw entropy res c =
     (if sp_Nonce res \<noteq> ch_nonce c \<or> sp_ServerNonce res \<noteq> ch_serverNonce c then (Inl ErrNonceMismatch, c)
      else case tmpAESKeyIV (ch_newNonce c) (ch_serverNonce c) of (key, iv) \<Rightarrow>
        (case igeOpen key iv (EncryptedAnswer res) of
           Inl e \<Rightarrow> (Inl e, c)
         | Inr plain \<Rightarrow>
        (case decodeInner (unmarshal_server_inner lib) plain of
           Inl e \<Rightarrow> (Inl e, c)
         | Inr inner \<Rightarrow>
             if si_Nonce inner \<noteq> ch_nonce c \<or> si_ServerNonce inner \<noteq> ch_serverNonce c then (Inl ErrNonceMismatch, c)
             else if big_of (si_DHPrime inner) \<noteq> dhPrime then (Inl ErrBadDHValue, c)
             else if si_G inner \<noteq> 2 then (Inl ErrBadDHValue, c)
             else
               let gA = big_of (si_GA inner)
               in case validateDHValue gA of
                    Inl e \<Rightarrow> (Inl e, c)
                  | Inr _ \<Rightarrow>
                      let c1 = c\<lparr>ch_gA := Some gA\<rparr>
                      in case draw of
                           None \<Rightarrow> (Inl ErrRandRead, c1)
                         | Some r \<Rightarrow>
                             let b = r mod dhPrimeQ + 2 ^ 20;
                                 c2 = c1\<lparr>ch_b := Some b\<rparr>
                             in case encodeInner (marshal_client_inner lib)
                                       \<lparr>ci_Nonce = ch_nonce c, ci_ServerNonce = ch_serverNonce c, ci_RetryID = 0,
                                        ci_GB = big_bytes (big_exp dhG b)\<rparr> of
                                  Inl e \<Rightarrow> (Inl e, c2)
                                | Inr innerOut \<Rightarrow>
                                    (case igeSeal entropy key iv innerOut of
                                       Inl e \<Rightarrow> (Inl e, c2)
                                     | Inr sealed \<Rightarrow>
                                         (Inr \<lparr>sc_Nonce = ch_nonce c, sc_ServerNonce = ch_serverNonce c,
                                               sc_EncryptedData = sealed\<rparr>, c2)))))"

definition Client_OnDHGenOK :: "DHGenOK \<Rightarrow> ClientHandshake \<Rightarrow> mt_error + AuthKey" where
  "Client_OnDHGenOK res c =
     (if ok_Nonce res \<noteq> ch_nonce c \<or> ok_ServerNonce res \<noteq> ch_serverNonce c then Inl ErrNonceMismatch
      else case (ch_gA c, ch_b c) of
        (Some gA, Some b) \<Rightarrow>
          (case NewAuthKey (leftPad (big_bytes (big_exp gA b)) AuthKeySize) of
             Inl e \<Rightarrow> Inl e
           | Inr key \<Rightarrow>
               if \<not> constantTimeEqual (newNonceHash (ch_newNonce c) 1 key) (NewNonceHash res)
               then Inl ErrNewNonceHash
               else Inr key)
      | _ \<Rightarrow> Inl ErrHandshakeState)"

section \<open>Lemmas on integers and the inner data\<close>

lemma foldl_big: "foldl (\<lambda>a b. a * 256 + unat b) x (bs :: bytes) = x * 256 ^ length bs + big_of bs"
proof (induction bs rule: rev_induct)
  case (snoc b bs)
  then show ?case by (simp add: big_of_def algebra_simps)
qed (simp add: big_of_def)

lemma big_of_append: "big_of (a @ b) = big_of a * 256 ^ length b + big_of b"
proof -
  have "big_of (a @ b) = foldl (\<lambda>x y. x * 256 + unat y) (big_of a) b" by (simp add: big_of_def)
  then show ?thesis by (simp only: foldl_big)
qed

lemma big_of_big_bytes [simp]: "big_of (big_bytes n) = n"
proof (induction n rule: big_bytes.induct)
  case (1 n)
  have "unat (of_nat (n mod 256) :: byte) = n mod 256" by (rule unat_of_nat_small) simp
  with 1 show ?case
    by (subst big_bytes.simps) (auto simp: big_of_append, simp_all add: big_of_def)
qed

lemma length_big_bytes: "n < 256 ^ k \<Longrightarrow> length (big_bytes n) \<le> k"
proof (induction n arbitrary: k rule: big_bytes.induct)
  case (1 n)
  show ?case
  proof (cases "n = 0")
    case True
    then show ?thesis by (simp add: big_bytes.simps)
  next
    case False
    with "1.prems" obtain j where j: "k = Suc j" by (cases k) auto
    with "1.prems" have "n div 256 < 256 ^ j" by (simp add: less_mult_imp_div_less mult.commute)
    with 1 False j show ?thesis by (subst big_bytes.simps) simp
  qed
qed

lemma length_leftPad [simp]: "length (leftPad b n) = n"
  by (simp add: leftPad_def)

lemma big_of_replicate_0: "big_of (replicate n 0) = 0"
  by (induction n) (simp_all add: big_of_def)

lemma big_of_leftPad: "length b \<le> n \<Longrightarrow> big_of (leftPad b n) = big_of b"
  by (auto simp: leftPad_def big_of_append big_of_replicate_0)

lemma dhPrime_bounds: "1 < dhPrime" "dhPrime < 256 ^ 256" "odd dhPrime" "2 ^ 1986 < dhPrime" "2 ^ 40 < dhPrimeQ"
  by (simp_all add: dhPrime_def dhPrimeQ_def)

lemma big_exp_less: "big_exp g e < dhPrime"
  using dhPrime_bounds(1) by (simp add: big_exp_def)

lemma big_exp_commute: "big_exp (big_exp g a) b = big_exp (big_exp g b) a"
  by (simp add: big_exp_def power_mod mult.commute flip: power_mult)

definition inner_wf :: "PQInnerData \<Rightarrow> bool" where
  "inner_wf d \<longleftrightarrow> length (in_Nonce d) = 16 \<and> length (in_ServerNonce d) = 16 \<and> length (in_NewNonce d) = 32"

lemma bslice_inner:
  assumes "length a = 8" "length b = 8" "length c = 8" "length d = 16" "length e = 16" "length f = 32"
  shows "bslice (a @ b @ c @ d @ e @ f) 0 8 = a" "bslice (a @ b @ c @ d @ e @ f) 8 16 = b"
    "bslice (a @ b @ c @ d @ e @ f) 16 24 = c" "bslice (a @ b @ c @ d @ e @ f) 24 40 = d"
    "bslice (a @ b @ c @ d @ e @ f) 40 56 = e" "bslice (a @ b @ c @ d @ e @ f) 56 88 = f"
  using assms by (simp_all add: bslice_def)

lemma PQInner_round_trip:
  "inner_wf d \<Longrightarrow> PQInner_UnmarshalBinary (PQInner_MarshalBinary d) = Inr d"
  by (simp add: inner_wf_def PQInner_UnmarshalBinary_def PQInner_MarshalBinary_def pqInnerDataSize_def
      bslice_inner get_put_be)

lemma PQInner_Unmarshal_Inr:
  assumes "PQInner_UnmarshalBinary b = Inr d"
  shows "inner_wf d \<and> PQInner_MarshalBinary d = b"
proof -
  from assms have l: "length b = 88"
    and d: "d = \<lparr>in_PQ = get_be (bslice b 0 8), in_P = get_be (bslice b 8 16), in_Q = get_be (bslice b 16 24),
                in_Nonce = bslice b 24 40, in_ServerNonce = bslice b 40 56, in_NewNonce = bslice b 56 88\<rparr>"
    by (auto simp: PQInner_UnmarshalBinary_def pqInnerDataSize_def split: if_splits)
  have put: "put_be 8 (get_be (bslice b i j) :: u64) = bslice b i j" if "j = i + 8" "j \<le> 88" for i j
    using put_get_be [of "bslice b i j", where 'a = 64] that l by simp
  have "PQInner_MarshalBinary d = bslice b 0 8 @ bslice b 8 16 @ bslice b 16 24 @ bslice b 24 40 @ bslice b 40 56 @ bslice b 56 88"
    by (simp add: PQInner_MarshalBinary_def d put del: bslice_0)
  also have "\<dots> = b" using l by (simp add: bslice_join take_bslice)
  finally show ?thesis using l by (simp add: inner_wf_def d)
qed

section \<open>Lemmas on the sealed inner payloads\<close>

lemma tmpAESKeyIV_lengths:
  assumes "tmpAESKeyIV nn sn = (key, iv)" and "length nn = 32"
  shows "length key = 32" "length iv = 32"
  using assms by (auto simp: tmpAESKeyIV_def Let_def)

definition seal_pad :: "bytes \<Rightarrow> nat" where
  "seal_pad data = (16 - (20 + length data) mod 16) mod 16"

text \<open>The receiver finds the end of the data by its digest: no longer prefix of the padded data may
  have the same one.\<close>

definition unambiguous :: "bytes \<Rightarrow> bytes \<Rightarrow> bool" where
  "unambiguous entropy data \<longleftrightarrow>
     (\<forall>k \<in> {1..seal_pad data}. sha1 (data @ take k entropy) \<noteq> sha1 data)"

lemma open_scan_finds:
  assumes "n \<le> length body" and "n + extra < n + tries" and "n + extra \<le> length body"
    and "\<And>k. n < k \<Longrightarrow> k \<le> n + extra \<Longrightarrow> sha1 (take k body) \<noteq> sha1 (take n body)"
  shows "open_scan (sha1 (take n body)) body (n + extra) tries = Inr (take n body)"
  using assms
proof (induction tries arbitrary: extra)
  case 0
  then show ?case by simp
next
  case (Suc tries)
  show ?case
  proof (cases extra)
    case 0
    then show ?thesis by (simp add: constantTimeEqual_def)
  next
    case (Suc e)
    with Suc.prems(4) [of "n + extra"] have "sha1 (take (n + extra) body) \<noteq> sha1 (take n body)" by simp
    moreover have "open_scan (sha1 (take n body)) body (n + e) tries = Inr (take n body)"
      using Suc.prems Suc by (intro Suc.IH) auto
    ultimately show ?thesis using Suc by (simp add: constantTimeEqual_def)
  qed
qed

lemma pad_to_16: "16 dvd n + (16 - n mod 16) mod (16 :: nat)"
proof (cases "n mod 16 = 0")
  case False
  then have "(16 - n mod 16) mod 16 = 16 - n mod 16" by simp
  moreover have "16 dvd n + (16 - n mod 16)" by presburger
  ultimately show ?thesis by simp
qed (simp add: mod_eq_0_iff_dvd)

lemma igeOpen_igeSeal:
  assumes "length key = 32" and "length iv = 32" and "seal_pad data \<le> length entropy" and "unambiguous entropy data"
  shows "\<exists>sealed. igeSeal entropy key iv data = Inr sealed \<and> igeOpen key iv sealed = Inr data"
proof -
  let ?p = "seal_pad data"
  let ?plain = "sha1 data @ data @ take ?p entropy"
  have p: "?p < 16" "16 dvd 20 + length data + ?p"
    unfolding seal_pad_def by (simp, rule pad_to_16)
  have len: "length ?plain = 20 + length data + ?p" using assms(3) by simp
  obtain c where c: "IGEEncrypt key iv ?plain = Inr c"
    using IGEEncrypt_total_iff [of key iv ?plain] assms(1,2) p len by (auto simp: aes_key_ok_def add.assoc)
  then have d: "IGEDecrypt key iv c = Inr ?plain" by (rule IGE_round_trip)
  have "igeSeal entropy key iv data = Inr c"
    using c assms(3) by (simp add: igeSeal_def Let_def read_full_def seal_pad_def)
  moreover have "igeOpen key iv c = Inr data"
  proof -
    let ?b = "data @ take ?p entropy"
    have "open_scan (sha1 (take (length data) ?b)) ?b (length data + ?p) 17 = Inr (take (length data) ?b)"
    proof (rule open_scan_finds)
      fix k assume "length data < k" "k \<le> length data + ?p"
      then have "k - length data \<in> {1..?p}" by auto
      then have "sha1 (data @ take (k - length data) entropy) \<noteq> sha1 data"
        using assms(4) by (simp add: unambiguous_def)
      moreover have "take k ?b = data @ take (k - length data) entropy"
        using \<open>length data < k\<close> \<open>k \<le> length data + ?p\<close> by (auto simp: min_def le_diff_conv)
      ultimately show "sha1 (take k ?b) \<noteq> sha1 (take (length data) ?b)" by simp
    qed (use assms(3) p(1) in auto)
    then have "open_scan (sha1 data) ?b (length data + ?p) 17 = Inr data" by simp
    then show ?thesis using d len by (simp add: igeOpen_def)
  qed
  ultimately show ?thesis by blast
qed

lemma open_scan_InrD:
  "open_scan digest body k tries = Inr data \<Longrightarrow> k \<le> length body \<Longrightarrow>
     \<exists>n \<le> k. data = take n body \<and> sha1 data = digest \<and> k - n < tries"
proof (induction tries arbitrary: k)
  case (Suc tries)
  show ?case
  proof (cases "sha1 (take k body) = digest")
    case True
    with Suc.prems show ?thesis by (auto simp: constantTimeEqual_def intro!: exI [of _ k])
  next
    case False
    with Suc.prems have k: "k \<noteq> 0" "open_scan digest body (k - 1) tries = Inr data"
      by (auto simp: constantTimeEqual_def split: if_splits)
    from Suc.prems(2) have "k - 1 \<le> length body" by simp
    from Suc.IH [OF k(2) this] obtain n where
      n: "n \<le> k - 1" "data = take n body" "sha1 data = digest" "k - 1 - n < tries" by blast
    with k(1) have "n \<le> k" "k - n < Suc tries" by linarith+
    with n(2,3) show ?thesis by blast
  qed
qed simp

text \<open>Whatever \<^verbatim>\<open>igeOpen\<close> accepts was sealed under that key with a digest of the data in front.\<close>

lemma igeOpen_InrD:
  assumes "igeOpen key iv sealed = Inr data"
  obtains pad where "IGEEncrypt key iv (sha1 data @ data @ pad) = Inr sealed" and "length pad \<le> 16"
proof -
  from assms obtain plain where p: "IGEDecrypt key iv sealed = Inr plain" "20 \<le> length plain"
    and scan: "open_scan (take 20 plain) (drop 20 plain) (length plain - 20) 17 = Inr data"
    by (auto simp: igeOpen_def split: sum.splits if_splits)
  from open_scan_InrD [OF scan] p(2) obtain n where n: "n \<le> length plain - 20" "data = take n (drop 20 plain)"
    "sha1 data = take 20 plain" "length plain - 20 - n < 17" by auto
  let ?pad = "drop n (drop 20 plain)"
  have "sha1 data @ data @ ?pad = plain" using n by (metis append_take_drop_id)
  then have "IGEEncrypt key iv (sha1 data @ data @ ?pad) = Inr sealed"
    using IGE_round_trip_dec [OF p(1)] by simp
  then show ?thesis using n by (intro that [of ?pad]) auto
qed

section \<open>A complete exchange\<close>

text \<open>The random draws of one exchange.\<close>

record hs_draws =
  dr_nonce :: bytes
  dr_server_nonce :: bytes
  dr_primes :: "nat option list"
  dr_new_nonce :: bytes
  dr_a :: nat
  dr_b :: nat
  dr_pad_server :: bytes
  dr_pad_client :: bytes

text \<open>The five messages between a fresh server and a fresh client that pinned its key, and the key
  each of them ends with, the server's first.\<close>

definition handshake_run ::
  "hs_lib \<Rightarrow> hs_draws \<Rightarrow> int \<Rightarrow> u64 \<Rightarrow> (AuthKey \<times> AuthKey \<times> ServerHandshake) option" where
  "handshake_run lib dr now fp =
     (case Client_Start (dr_nonce dr) (NewClientHandshake fp) of (r1, c1) \<Rightarrow>
      case r1 of Inl _ \<Rightarrow> None | Inr nonce \<Rightarrow>
     (case Server_ReqPQ now (dr_server_nonce dr) (dr_primes dr) nonce (NewServerHandshake fp now 0) of
        None \<Rightarrow> None | Some (Inl _, _) \<Rightarrow> None | Some (Inr resPQ, s1) \<Rightarrow>
     (case Client_OnResPQ lib (dr_new_nonce dr) resPQ c1 of (r2, c2) \<Rightarrow>
      case r2 of Inl _ \<Rightarrow> None | Inr reqDH \<Rightarrow>
     (case Server_ReqDHParams lib now (Some (dr_a dr)) (dr_pad_server dr) reqDH s1 of (r3, s2) \<Rightarrow>
      case r3 of Inl _ \<Rightarrow> None | Inr serverDH \<Rightarrow>
     (case Client_OnServerDHParams lib (Some (dr_b dr)) (dr_pad_client dr) serverDH c2 of (r4, c3) \<Rightarrow>
      case r4 of Inl _ \<Rightarrow> None | Inr setDH \<Rightarrow>
     (case Server_SetClientDHParams lib now setDH s2 of (r5, s3) \<Rightarrow>
      case r5 of Inl _ \<Rightarrow> None | Inr (serverKey, genOK) \<Rightarrow>
     (case Client_OnDHGenOK genOK c3 of
        Inl _ \<Rightarrow> None | Inr clientKey \<Rightarrow> Some (serverKey, clientKey, s3))))))))"

text \<open>What the exchange relies on: RSA-OAEP decrypts what it encrypted of at most 190 bytes, and the
  JSON text of the inner structures reads back as the structure.\<close>

definition lib_ok :: "hs_lib \<Rightarrow> bool" where
  "lib_ok lib \<longleftrightarrow>
     (\<forall>m. length m \<le> 190 \<longrightarrow> (\<exists>c. EncryptOAEP lib m = Some c \<and> DecryptOAEP lib c = Some m))
     \<and> (\<forall>v. length (si_Nonce v) = 16 \<longrightarrow> length (si_ServerNonce v) = 16 \<longrightarrow>
          (\<exists>t. marshal_server_inner lib v = Some t \<and> unmarshal_server_inner lib t = Some v))
     \<and> (\<forall>v. length (ci_Nonce v) = 16 \<longrightarrow> length (ci_ServerNonce v) = 16 \<longrightarrow>
          (\<exists>t. marshal_client_inner lib v = Some t \<and> unmarshal_client_inner lib t = Some v))"

definition server_answer :: "hs_draws \<Rightarrow> int \<Rightarrow> ServerDHInnerData" where
  "server_answer dr now =
     \<lparr>si_Nonce = dr_nonce dr, si_ServerNonce = dr_server_nonce dr, si_G = 2, si_DHPrime = big_bytes dhPrime,
      si_GA = big_bytes (big_exp dhG (dr_a dr mod dhPrimeQ + 2 ^ 20)), si_ServerTime = now div 1000000000\<rparr>"

definition client_answer :: "hs_draws \<Rightarrow> ClientDHInnerData" where
  "client_answer dr =
     \<lparr>ci_Nonce = dr_nonce dr, ci_ServerNonce = dr_server_nonce dr, ci_RetryID = 0,
      ci_GB = big_bytes (big_exp dhG (dr_b dr mod dhPrimeQ + 2 ^ 20))\<rparr>"

text \<open>Draws under which nothing is rejected: the arrays have their sizes, the client can factor the
  challenge, both public values are in the safe range, and neither sealed payload is ambiguous.\<close>

definition draws_ok :: "hs_lib \<Rightarrow> hs_draws \<Rightarrow> int \<Rightarrow> bool" where
  "draws_ok lib dr now \<longleftrightarrow>
     length (dr_nonce dr) = 16 \<and> length (dr_server_nonce dr) = 16 \<and> length (dr_new_nonce dr) = 32
     \<and> (\<exists>pq p q p' q'. GeneratePQ (dr_primes dr) = Some (Inr (pq, p, q)) \<and> FactorPQ pq = Inr (p', q'))
     \<and> validateDHValue (big_exp dhG (dr_a dr mod dhPrimeQ + 2 ^ 20)) = Inr ()
     \<and> validateDHValue (big_exp dhG (dr_b dr mod dhPrimeQ + 2 ^ 20)) = Inr ()
     \<and> 16 \<le> length (dr_pad_server dr) \<and> 16 \<le> length (dr_pad_client dr)
     \<and> (\<forall>t. marshal_server_inner lib (server_answer dr now) = Some t \<longrightarrow> unambiguous (dr_pad_server dr) t)
     \<and> (\<forall>t. marshal_client_inner lib (client_answer dr) = Some t \<longrightarrow> unambiguous (dr_pad_client dr) t)"

definition agreed_key :: "hs_draws \<Rightarrow> AuthKey" where
  "agreed_key dr =
     (let raw = leftPad (big_bytes (big_exp (big_exp dhG (dr_b dr mod dhPrimeQ + 2 ^ 20)) (dr_a dr mod dhPrimeQ + 2 ^ 20))) 256
      in \<lparr>ak_raw = raw, ak_id = deriveKeyID raw\<rparr>)"

lemma NewAuthKey_leftPad:
  "NewAuthKey (leftPad b AuthKeySize) = Inr \<lparr>ak_raw = leftPad b 256, ak_id = deriveKeyID (leftPad b 256)\<rparr>"
  by (simp add: NewAuthKey_def AuthKeySize_def)

lemma seal_pad_le: "seal_pad data \<le> 16"
  by (simp add: seal_pad_def)

lemma run_pq_phase:
  assumes ok: "lib_ok lib" "draws_ok lib dr now"
  obtains pq p q p' q' sealed where
    "GeneratePQ (dr_primes dr) = Some (Inr (pq, p, q))"
    "FactorPQ pq = Inr (p', q')" "VerifyPQ pq p' q' = Inr ()"
    "EncryptOAEP lib (PQInner_MarshalBinary \<lparr>in_PQ = pq, in_P = p', in_Q = q', in_Nonce = dr_nonce dr,
        in_ServerNonce = dr_server_nonce dr, in_NewNonce = dr_new_nonce dr\<rparr>) = Some sealed"
    "DecryptOAEP lib sealed = Some (PQInner_MarshalBinary \<lparr>in_PQ = pq, in_P = p', in_Q = q', in_Nonce = dr_nonce dr,
        in_ServerNonce = dr_server_nonce dr, in_NewNonce = dr_new_nonce dr\<rparr>)"
proof -
  from ok(2) obtain pq p q p' q' where g: "GeneratePQ (dr_primes dr) = Some (Inr (pq, p, q))"
    and f: "FactorPQ pq = Inr (p', q')" by (auto simp: draws_ok_def)
  let ?d = "\<lparr>in_PQ = pq, in_P = p', in_Q = q', in_Nonce = dr_nonce dr,
        in_ServerNonce = dr_server_nonce dr, in_NewNonce = dr_new_nonce dr\<rparr>"
  have "VerifyPQ pq p' q' = Inr ()"
    using FactorPQ_proper [OF f] by (intro VerifyPQ_genuine) (auto simp: proper_factors_def)
  moreover have "length (PQInner_MarshalBinary ?d) \<le> 190"
    using ok(2) by (simp add: PQInner_MarshalBinary_def draws_ok_def)
  then obtain c where "EncryptOAEP lib (PQInner_MarshalBinary ?d) = Some c"
    "DecryptOAEP lib c = Some (PQInner_MarshalBinary ?d)"
    using ok(1) unfolding lib_ok_def by blast
  ultimately show ?thesis using g f that by blast
qed

lemma sealed_exchange:
  assumes "length nn = 32" and "16 \<le> length e" and "unambiguous e data" and "tmpAESKeyIV nn sn = (key, iv)"
  obtains c where "igeSeal e key iv data = Inr c" "igeOpen key iv c = Inr data"
  using igeOpen_igeSeal [OF tmpAESKeyIV_lengths [OF assms(4,1)], of data e] assms seal_pad_le [of data]
  by auto

lemma run_dh_phase:
  assumes ok: "lib_ok lib" "draws_ok lib dr now"
  obtains key iv t sealed t' sealed' where
    "tmpAESKeyIV (dr_new_nonce dr) (dr_server_nonce dr) = (key, iv)"
    "marshal_server_inner lib (server_answer dr now) = Some t"
    "igeSeal (dr_pad_server dr) key iv t = Inr sealed" "igeOpen key iv sealed = Inr t"
    "unmarshal_server_inner lib t = Some (server_answer dr now)"
    "marshal_client_inner lib (client_answer dr) = Some t'"
    "igeSeal (dr_pad_client dr) key iv t' = Inr sealed'" "igeOpen key iv sealed' = Inr t'"
    "unmarshal_client_inner lib t' = Some (client_answer dr)"
proof -
  obtain key iv where k: "tmpAESKeyIV (dr_new_nonce dr) (dr_server_nonce dr) = (key, iv)" by fastforce
  have l: "length (dr_nonce dr) = 16" "length (dr_server_nonce dr) = 16" "length (dr_new_nonce dr) = 32"
    "16 \<le> length (dr_pad_server dr)" "16 \<le> length (dr_pad_client dr)"
    using ok(2) by (simp_all add: draws_ok_def)
  have sl: "length (si_Nonce (server_answer dr now)) = 16" "length (si_ServerNonce (server_answer dr now)) = 16"
    "length (ci_Nonce (client_answer dr)) = 16" "length (ci_ServerNonce (client_answer dr)) = 16"
    using l by (simp_all add: server_answer_def client_answer_def)
  obtain t where t: "marshal_server_inner lib (server_answer dr now) = Some t"
    "unmarshal_server_inner lib t = Some (server_answer dr now)"
    using ok(1) sl unfolding lib_ok_def by blast
  obtain t' where t': "marshal_client_inner lib (client_answer dr) = Some t'"
    "unmarshal_client_inner lib t' = Some (client_answer dr)"
    using ok(1) sl unfolding lib_ok_def by blast
  have u: "unambiguous (dr_pad_server dr) t" "unambiguous (dr_pad_client dr) t'"
    using ok(2) t(1) t'(1) by (simp_all add: draws_ok_def)
  obtain c c' where "igeSeal (dr_pad_server dr) key iv t = Inr c" "igeOpen key iv c = Inr t"
    "igeSeal (dr_pad_client dr) key iv t' = Inr c'" "igeOpen key iv c' = Inr t'"
    using sealed_exchange [OF l(3,4) u(1) k] sealed_exchange [OF l(3,5) u(2) k] by metis
  with k t t' that show ?thesis by blast
qed

lemma handshake_run_completes:
  assumes ok: "lib_ok lib" "draws_ok lib dr now"
  shows "\<exists>s. handshake_run lib dr now fp = Some (agreed_key dr, agreed_key dr, s) \<and> Done s"
proof -
  obtain pq p q p' q' sealed where pq: "GeneratePQ (dr_primes dr) = Some (Inr (pq, p, q))"
    "FactorPQ pq = Inr (p', q')" "VerifyPQ pq p' q' = Inr ()"
    "EncryptOAEP lib (PQInner_MarshalBinary \<lparr>in_PQ = pq, in_P = p', in_Q = q', in_Nonce = dr_nonce dr,
        in_ServerNonce = dr_server_nonce dr, in_NewNonce = dr_new_nonce dr\<rparr>) = Some sealed"
    "DecryptOAEP lib sealed = Some (PQInner_MarshalBinary \<lparr>in_PQ = pq, in_P = p', in_Q = q', in_Nonce = dr_nonce dr,
        in_ServerNonce = dr_server_nonce dr, in_NewNonce = dr_new_nonce dr\<rparr>)"
    using run_pq_phase [OF ok] .
  obtain key iv t c t' c' where dh: "tmpAESKeyIV (dr_new_nonce dr) (dr_server_nonce dr) = (key, iv)"
    "marshal_server_inner lib (server_answer dr now) = Some t"
    "igeSeal (dr_pad_server dr) key iv t = Inr c" "igeOpen key iv c = Inr t"
    "unmarshal_server_inner lib t = Some (server_answer dr now)"
    "marshal_client_inner lib (client_answer dr) = Some t'"
    "igeSeal (dr_pad_client dr) key iv t' = Inr c'" "igeOpen key iv c' = Inr t'"
    "unmarshal_client_inner lib t' = Some (client_answer dr)"
    using run_dh_phase [OF ok] .
  have l: "length (dr_nonce dr) = 16" "length (dr_server_nonce dr) = 16" "length (dr_new_nonce dr) = 32"
    and v: "validateDHValue (big_exp dhG (dr_a dr mod dhPrimeQ + 2 ^ 20)) = Inr ()"
     "validateDHValue (big_exp dhG (dr_b dr mod dhPrimeQ + 2 ^ 20)) = Inr ()"
    using ok(2) by (simp_all add: draws_ok_def)
  have rf: "length x = n \<Longrightarrow> read_full n x = Some (x, [])" for x n by (simp add: read_full_def)
  let ?c1 = "(NewClientHandshake fp)\<lparr>ch_nonce := dr_nonce dr\<rparr>"
  let ?s1 = "(NewServerHandshake fp now 0)\<lparr>sh_nonce := dr_nonce dr, sh_serverNonce := dr_server_nonce dr,
      sh_pq := pq, sh_p := p, sh_q := q, sh_step := 1\<rparr>"
  let ?c2 = "?c1\<lparr>ch_serverNonce := dr_server_nonce dr, ch_newNonce := dr_new_nonce dr\<rparr>"
  let ?ea = "dr_a dr mod dhPrimeQ + 2 ^ 20" and ?eb = "dr_b dr mod dhPrimeQ + 2 ^ 20"
  let ?s2 = "?s1\<lparr>sh_newNonce := dr_new_nonce dr, sh_a := ?ea, sh_gA := big_exp dhG ?ea, sh_step := 2\<rparr>"
  let ?c3 = "?c2\<lparr>ch_gA := Some (big_exp dhG ?ea), ch_b := Some ?eb\<rparr>"
  let ?s3 = "?s2\<lparr>sh_gB := big_exp dhG ?eb, sh_step := 3\<rparr>"
  have 1: "Client_Start (dr_nonce dr) (NewClientHandshake fp) = (Inr (dr_nonce dr), ?c1)"
    by (simp add: Client_Start_def rf l)
  have 2: "Server_ReqPQ now (dr_server_nonce dr) (dr_primes dr) (dr_nonce dr) (NewServerHandshake fp now 0)
     = Some (Inr \<lparr>rp_Nonce = dr_nonce dr, rp_ServerNonce = dr_server_nonce dr, rp_PQ = pq, RSAFingerprints = [fp]\<rparr>, ?s1)"
    by (simp add: Server_ReqPQ_def NewServerHandshake_def rf l pq(1))
  let ?req = "\<lparr>rq_Nonce = dr_nonce dr, rq_ServerNonce = dr_server_nonce dr, rq_P = p', rq_Q = q',
     RSAFingerprint = fp, rq_EncryptedData = sealed\<rparr>"
  have 3: "Client_OnResPQ lib (dr_new_nonce dr) \<lparr>rp_Nonce = dr_nonce dr, rp_ServerNonce = dr_server_nonce dr, rp_PQ = pq, RSAFingerprints = [fp]\<rparr> ?c1
     = (Inr ?req, ?c2)"
    by (simp add: Client_OnResPQ_def NewClientHandshake_def rf l pq)
  have 4: "Server_ReqDHParams lib now (Some (dr_a dr)) (dr_pad_server dr) ?req ?s1
     = (Inr \<lparr>sp_Nonce = dr_nonce dr, sp_ServerNonce = dr_server_nonce dr, EncryptedAnswer = c\<rparr>, ?s2)"
    using l dh(1-3) pq
    by (simp add: Server_ReqDHParams_def NewServerHandshake_def PQInner_round_trip inner_wf_def encodeInner_def
        server_answer_def Let_def)
  have 5: "Client_OnServerDHParams lib (Some (dr_b dr)) (dr_pad_client dr)
      \<lparr>sp_Nonce = dr_nonce dr, sp_ServerNonce = dr_server_nonce dr, EncryptedAnswer = c\<rparr> ?c2
     = (Inr \<lparr>sc_Nonce = dr_nonce dr, sc_ServerNonce = dr_server_nonce dr, sc_EncryptedData = c'\<rparr>, ?c3)"
    using dh v by (simp add: Client_OnServerDHParams_def NewClientHandshake_def decodeInner_def encodeInner_def
        server_answer_def client_answer_def Let_def)
  let ?ok = "\<lparr>ok_Nonce = dr_nonce dr, ok_ServerNonce = dr_server_nonce dr,
      NewNonceHash = newNonceHash (dr_new_nonce dr) 1 (agreed_key dr)\<rparr>"
  have 6: "Server_SetClientDHParams lib now
      \<lparr>sc_Nonce = dr_nonce dr, sc_ServerNonce = dr_server_nonce dr, sc_EncryptedData = c'\<rparr> ?s2
     = (Inr (agreed_key dr, ?ok), ?s3)"
    using dh v by (simp add: Server_SetClientDHParams_def NewServerHandshake_def decodeInner_def
        client_answer_def Let_def NewAuthKey_leftPad agreed_key_def)
  have 7: "Client_OnDHGenOK ?ok ?c3 = Inr (agreed_key dr)"
    using big_exp_commute [of dhG ?ea ?eb]
    by (simp add: Client_OnDHGenOK_def NewClientHandshake_def NewAuthKey_leftPad agreed_key_def Let_def
        constantTimeEqual_def)
  show ?thesis
    unfolding handshake_run_def 1 prod.case sum.case 2 option.case 3 4 5 6 7 by (simp add: Done_def)
qed

section \<open>Safe exponents exist\<close>

lemma validateDHValue_Inr_iff:
  "validateDHValue v = Inr u \<longleftrightarrow> 2 ^ 1984 \<le> v \<and> v \<le> dhPrime - 2 ^ 1984"
proof -
  have "v \<le> 1 \<Longrightarrow> v < 2 ^ 1984" by (erule le_less_trans) simp
  moreover have "dhPrime - 1 \<le> v \<Longrightarrow> dhPrime - 2 ^ 1984 < v"
    using dhPrime_bounds(4) by (simp add: less_le_trans [of _ "dhPrime - 1"])
  ultimately show ?thesis by (auto simp: validateDHValue_def not_less simp del: power_numeral)
qed

lemma doubling_reaches:
  assumes "0 < (y :: nat)" and "y < 2 ^ n"
  shows "\<exists>k \<le> n. 2 ^ n \<le> 2 ^ k * y \<and> 2 ^ k * y < 2 ^ (n + 1)"
proof -
  let ?P = "\<lambda>k. 2 ^ n \<le> 2 ^ k * y"
  have "?P n" using assms(1) by simp
  define k where "k = (LEAST k. ?P k)"
  have pk: "?P k" using \<open>?P n\<close> unfolding k_def by (rule LeastI)
  have kn: "k \<le> n" using \<open>?P n\<close> unfolding k_def by (rule Least_le)
  have "k \<noteq> 0" using pk assms(2) by (cases k) auto
  then have "k - 1 < (LEAST k. ?P k)" by (simp add: k_def [symmetric])
  then have "\<not> ?P (k - 1)" by (rule not_less_Least)
  then have "2 ^ (k - 1) * y < 2 ^ n" by simp
  then have "2 * (2 ^ (k - 1) * y) < 2 * 2 ^ n" by simp
  moreover have "2 * (2 ^ (k - 1) * y) = 2 ^ k * y" using \<open>k \<noteq> 0\<close> by (cases k) auto
  ultimately have "2 ^ k * y < 2 * 2 ^ n" by linarith
  then have "2 ^ k * y < 2 ^ (n + 1)" by (simp only: power_add power_one_right mult.commute)
  with pk kn show ?thesis by blast
qed

lemma power_2_not_0: "0 < 2 ^ N mod dhPrime"
proof (rule ccontr)
  assume "\<not> 0 < 2 ^ N mod dhPrime"
  then have "dhPrime dvd 2 ^ N" by (simp add: dvd_eq_mod_eq_0)
  moreover have "coprime dhPrime (2 ^ N)" using dhPrime_bounds(3) by simp
  ultimately have "dhPrime dvd 1" by (metis coprime_absorb_left dvd_refl)
  then show False using dhPrime_bounds(1) by simp
qed

lemma safe_exponent_exists: "\<exists>k < 2000. validateDHValue (big_exp dhG (k + N)) = Inr ()"
proof -
  define M :: nat where "M = 2 ^ 1984"
  have M: "0 < M" "2 ^ (1984 + 1) = 2 * M" "4 * M < dhPrime"
    using dhPrime_bounds(4) unfolding M_def by (simp_all add: power_add [symmetric] flip: power_Suc)
  define x where "x = 2 ^ N mod dhPrime"
  have x: "0 < x" "x < dhPrime" using power_2_not_0 dhPrime_bounds(1) by (simp_all add: x_def)
  have e: "big_exp dhG (k + N) = 2 ^ k * x mod dhPrime" for k
    by (simp add: big_exp_def dhG_def x_def power_add mod_mult_right_eq)
  have ok: "validateDHValue (big_exp dhG (k + N)) = Inr () \<longleftrightarrow>
      M \<le> 2 ^ k * x mod dhPrime \<and> 2 ^ k * x mod dhPrime \<le> dhPrime - M" for k
    unfolding validateDHValue_Inr_iff e M_def by simp
  consider "x < M" | "M \<le> x" "x \<le> dhPrime - M" | "dhPrime - M < x" by linarith
  then show ?thesis
  proof cases
    case 1
    then obtain k where k: "k \<le> 1984" "M \<le> 2 ^ k * x" "2 ^ k * x < 2 * M"
      using doubling_reaches [of x 1984] x M unfolding M_def by auto
    then have "2 ^ k * x mod dhPrime = 2 ^ k * x" using M(3) by simp
    with k M(3) show ?thesis by (intro exI [of _ k]) (simp add: ok)
  next
    case 2
    with x ok [of 0] show ?thesis by (intro exI [of _ 0]) simp
  next
    case 3
    define y where "y = dhPrime - x"
    have y: "0 < y" "y < M" "x + y = dhPrime" using 3 x M(3) by (auto simp: y_def)
    then obtain k where k: "k \<le> 1984" "M \<le> 2 ^ k * y" "2 ^ k * y < 2 * M"
      using doubling_reaches [of y 1984] M unfolding M_def by auto
    have "2 ^ k * x + 2 ^ k * y = 2 ^ k * dhPrime" using y(3) by (metis add_mult_distrib2)
    moreover have "dhPrime \<le> 2 ^ k * dhPrime" by simp
    ultimately have "2 ^ k * x = (2 ^ k - 1) * dhPrime + (dhPrime - 2 ^ k * y)"
      using k M(3) by (simp add: diff_mult_distrib)
    then have "2 ^ k * x mod dhPrime = (dhPrime - 2 ^ k * y) mod dhPrime" by (simp only: mod_mult_self3)
    also have "\<dots> = dhPrime - 2 ^ k * y" using k M(1,3) y(1) by (intro mod_less) simp
    finally have r: "2 ^ k * x mod dhPrime = dhPrime - 2 ^ k * y" .
    have "M \<le> dhPrime - 2 ^ k * y" "dhPrime - 2 ^ k * y \<le> dhPrime - M" using k M(3) by linarith+
    with k(1) r show ?thesis by (intro exI [of _ k]) (simp add: ok)
  qed
qed

section \<open>The order of the server's steps\<close>

datatype server_msg =
    MReqPQ bytes "nat option list" bytes
  | MReqDHParams "nat option" bytes ReqDHParams
  | MSetClientDHParams SetClientDHParams

datatype hs_event = EvResPQ | EvServerDH | EvAuthKey AuthKey

text \<open>What a server accepts of an arbitrary sequence of messages, each with its arrival time.\<close>

fun server_log :: "hs_lib \<Rightarrow> (int \<times> server_msg) list \<Rightarrow> ServerHandshake \<Rightarrow> hs_event list" where
  "server_log lib [] h = []"
| "server_log lib ((now, MReqPQ e ps nonce) # ms) h =
     (case Server_ReqPQ now e ps nonce h of
        None \<Rightarrow> []
      | Some (Inl _, h') \<Rightarrow> server_log lib ms h'
      | Some (Inr _, h') \<Rightarrow> EvResPQ # server_log lib ms h')"
| "server_log lib ((now, MReqDHParams draw e req) # ms) h =
     (case Server_ReqDHParams lib now draw e req h of
        (Inl _, h') \<Rightarrow> server_log lib ms h'
      | (Inr _, h') \<Rightarrow> EvServerDH # server_log lib ms h')"
| "server_log lib ((now, MSetClientDHParams req) # ms) h =
     (case Server_SetClientDHParams lib now req h of
        (Inl _, h') \<Rightarrow> server_log lib ms h'
      | (Inr (k, _), h') \<Rightarrow> EvAuthKey k # server_log lib ms h')"

fun ev_step :: "hs_event \<Rightarrow> nat" where
  "ev_step EvResPQ = 0" | "ev_step EvServerDH = 1" | "ev_step (EvAuthKey _) = 2"

lemma Server_ReqPQ_step:
  "Server_ReqPQ now e ps nonce h = Some (Inr r, h') \<Longrightarrow> sh_step h = 0 \<and> sh_step h' = 1"
  "Server_ReqPQ now e ps nonce h = Some (Inl err, h') \<Longrightarrow> sh_step h' = sh_step h"
  by (auto simp: Server_ReqPQ_def Let_def split: if_splits option.splits sum.splits prod.splits)

lemma Server_ReqDHParams_step:
  "Server_ReqDHParams lib now draw e req h = (Inr r, h') \<Longrightarrow> sh_step h = 1 \<and> sh_step h' = 2"
  "Server_ReqDHParams lib now draw e req h = (Inl err, h') \<Longrightarrow> sh_step h' = sh_step h"
  by (auto simp: Server_ReqDHParams_def Let_def split: if_splits option.splits sum.splits prod.splits)

lemma Server_SetClientDHParams_step:
  "Server_SetClientDHParams lib now req h = (Inr (k, ok), h') \<Longrightarrow>
     sh_step h = 2 \<and> sh_step h' = 3 \<and> authkey_wf k \<and> validateDHValue (sh_gB h') = Inr ()"
  "Server_SetClientDHParams lib now req h = (Inl err, h') \<Longrightarrow> sh_step h' = sh_step h"
  by (auto simp: Server_SetClientDHParams_def Let_def dest: NewAuthKey_wf
      split: if_splits option.splits sum.splits prod.splits)

text \<open>A log that starts at step \<open>n\<close> accepts consecutive steps, at most up to the third, and only
  well-formed keys.\<close>

definition log_ok :: "nat \<Rightarrow> hs_event list \<Rightarrow> bool" where
  "log_ok n es \<longleftrightarrow> map ev_step es = [n ..< n + length es] \<and> n + length es \<le> 3
     \<and> (\<forall>k. EvAuthKey k \<in> set es \<longrightarrow> authkey_wf k)"

lemma log_ok_Cons:
  "log_ok (Suc n) es \<Longrightarrow> ev_step e = n \<Longrightarrow> (\<And>k. e = EvAuthKey k \<Longrightarrow> authkey_wf k) \<Longrightarrow> log_ok n (e # es)"
  by (auto simp: log_ok_def upt_conv_Cons simp del: upt_Suc)

lemma server_log_ok: "sh_step h \<le> 3 \<Longrightarrow> log_ok (sh_step h) (server_log lib ms h)"
proof (induction ms arbitrary: h)
  case Nil
  then show ?case by (simp add: log_ok_def)
next
  case (Cons m ms)
  obtain now msg where m: "m = (now, msg)" by fastforce
  show ?case
  proof (cases msg)
    case (MReqPQ e ps nonce)
    show ?thesis
    proof (cases "Server_ReqPQ now e ps nonce h")
      case None
      with m MReqPQ Cons.prems show ?thesis by (simp add: log_ok_def)
    next
      case (Some rh)
      then obtain r h' where "Server_ReqPQ now e ps nonce h = Some (r, h')" by (cases rh) auto
      with m MReqPQ Cons.IH [of h'] Cons.prems Server_ReqPQ_step [of now e ps nonce h _ h'] show ?thesis
        by (cases r) (auto intro!: log_ok_Cons)
    qed
  next
    case (MReqDHParams draw e req)
    obtain r h' where "Server_ReqDHParams lib now draw e req h = (r, h')" by fastforce
    with m MReqDHParams Cons.IH [of h'] Cons.prems Server_ReqDHParams_step [of lib now draw e req h _ h'] show ?thesis
      by (cases r) (auto intro!: log_ok_Cons simp: numeral_2_eq_2)
  next
    case (MSetClientDHParams req)
    obtain r h' where "Server_SetClientDHParams lib now req h = (r, h')" by fastforce
    with m MSetClientDHParams Cons.IH [of h'] Cons.prems Server_SetClientDHParams_step(1) [of lib now req h _ _ h']
      Server_SetClientDHParams_step(2) [of lib now req h _ h'] show ?thesis
      by (cases r) (auto intro!: log_ok_Cons simp: numeral_3_eq_3)
  qed
qed

section \<open>A concrete library\<close>

text \<open>A self-delimiting rendering of the inner structures: every byte of a field follows a 1, a 0
  ends the field, and zeros after the last field bring the length to 12 modulo 16.\<close>

fun esc :: "bytes \<Rightarrow> bytes" where
  "esc [] = [0]"
| "esc (x # xs) = 1 # x # esc xs"

fun unesc :: "bytes \<Rightarrow> (bytes \<times> bytes) option" where
  "unesc [] = None"
| "unesc [b] = (if b = 0 then Some ([], []) else None)"
| "unesc (b # x # r) =
     (if b = 0 then Some ([], x # r)
      else case unesc r of None \<Rightarrow> None | Some (xs, r') \<Rightarrow> Some (x # xs, r'))"

fun unesc_n :: "nat \<Rightarrow> bytes \<Rightarrow> bytes list option" where
  "unesc_n 0 r = Some []"
| "unesc_n (Suc n) r =
     (case unesc r of None \<Rightarrow> None
      | Some (f, r') \<Rightarrow> (case unesc_n n r' of None \<Rightarrow> None | Some fs \<Rightarrow> Some (f # fs)))"

definition int_field :: "int \<Rightarrow> bytes" where
  "int_field i = (if i < 0 then 1 else 0) # big_bytes (nat \<bar>i\<bar>)"

definition field_int :: "bytes \<Rightarrow> int" where
  "field_int f = (if hd f = 1 then - int (big_of (tl f)) else int (big_of (tl f)))"

definition render :: "bytes list \<Rightarrow> bytes" where
  "render fs = (let t = concat (map esc fs) in t @ replicate ((16 - (20 + length t) mod 16) mod 16) 0)"

definition sample_lib :: hs_lib where
  "sample_lib = \<lparr>EncryptOAEP = Some, DecryptOAEP = Some,
     marshal_server_inner = (\<lambda>v. Some (render [si_Nonce v, si_ServerNonce v, int_field (si_G v), si_DHPrime v, si_GA v,
        int_field (si_ServerTime v)])),
     unmarshal_server_inner = (\<lambda>t. case unesc_n 6 t of None \<Rightarrow> None | Some fs \<Rightarrow>
        Some \<lparr>si_Nonce = fs ! 0, si_ServerNonce = fs ! 1, si_G = field_int (fs ! 2), si_DHPrime = fs ! 3,
              si_GA = fs ! 4, si_ServerTime = field_int (fs ! 5)\<rparr>),
     marshal_client_inner = (\<lambda>v. Some (render [ci_Nonce v, ci_ServerNonce v, int_field (ci_RetryID v), ci_GB v])),
     unmarshal_client_inner = (\<lambda>t. case unesc_n 4 t of None \<Rightarrow> None | Some fs \<Rightarrow>
        Some \<lparr>ci_Nonce = fs ! 0, ci_ServerNonce = fs ! 1, ci_RetryID = field_int (fs ! 2), ci_GB = fs ! 3\<rparr>)\<rparr>"

lemma unesc_esc [simp]: "unesc (esc f @ r) = Some (f, r)"
  by (induction f) (simp, cases r, simp_all)

lemma unesc_n_concat: "unesc_n (length fs) (concat (map esc fs) @ r) = Some fs"
  by (induction fs) simp_all

lemma unesc_render: "length fs = n \<Longrightarrow> unesc_n n (render fs) = Some fs"
  using unesc_n_concat [of fs] by (simp add: render_def Let_def)

lemma field_int_int_field [simp]: "field_int (int_field i) = i"
  by (simp add: field_int_def int_field_def)

lemma seal_pad_render: "seal_pad (render fs) = 0"
  using pad_to_16 [of "20 + length (concat (map esc fs))"]
  by (simp add: seal_pad_def render_def Let_def mod_eq_0_iff_dvd add.assoc)

lemma lib_ok_sample: "lib_ok sample_lib"
  by (simp add: lib_ok_def sample_lib_def unesc_render)

text \<open>Two 31-bit primes whose product falls to the client's search in five steps.\<close>

definition sample_primes :: "nat option list" where
  "sample_primes = [Some 1571825191, Some 2147483647]"

lemma sample_primes_run:
  "GeneratePQ sample_primes = Some (Inr (3375468893615151577, 1571825191, 2147483647))"
  "FactorPQ 3375468893615151577 = Inr (1571825191, 2147483647)"
proof -
  have sixty_four: "generate_attempts 64 ds = generate_attempts (Suc 63) ds" for ds by simp
  show "GeneratePQ sample_primes = Some (Inr (3375468893615151577, 1571825191, 2147483647))"
    unfolding GeneratePQ_def sixty_four generate_attempts.simps(2) by (simp add: sample_primes_def Let_def)
  show "FactorPQ 3375468893615151577 = Inr (1571825191, 2147483647)"
    by (simp add: FactorPQ_def brent_def maxSteps_def brent_loop.simps brent_f_def gcd_nat.simps Let_def upt_conv_Cons)
qed

lemma sample_draws_exist: "\<exists>dr. draws_ok sample_lib dr 0 \<and> dr_primes dr = sample_primes"
proof -
  obtain k where k: "k < 2000" "validateDHValue (big_exp dhG (k + 2 ^ 20)) = Inr ()"
    using safe_exponent_exists [of "2 ^ 20"] by blast
  have "k < dhPrimeQ" using k(1) dhPrime_bounds(5) by simp
  then have v: "validateDHValue (big_exp dhG (k mod dhPrimeQ + 2 ^ 20)) = Inr ()" using k(2) by simp
  define dr where "dr = \<lparr>dr_nonce = replicate 16 1, dr_server_nonce = replicate 16 2, dr_primes = sample_primes,
    dr_new_nonce = replicate 32 3, dr_a = k, dr_b = k, dr_pad_server = replicate 16 0, dr_pad_client = replicate 16 0\<rparr>"
  have "draws_ok sample_lib dr 0"
    using v sample_primes_run
    by (simp add: draws_ok_def dr_def unambiguous_def sample_lib_def seal_pad_render)
  then show ?thesis by (auto simp: dr_def)
qed

section \<open>Properties\<close>

text \<open>C23. A handshake between a fresh server and a client that pinned its key completes, and leaves
  both with the same well-formed auth key, the padded \<open>g\<^bsup>ab\<^esup> mod p\<close>; it needs of the libraries that
  RSA-OAEP and JSON read back what they wrote, and of the draws that both public values lie in the
  safe range, that the challenge is factored, and that no digest collides.\<close>

theorem handshake_agrees:
  assumes "lib_ok lib" and "draws_ok lib dr now"
  shows "\<exists>s. handshake_run lib dr now fp = Some (agreed_key dr, agreed_key dr, s) \<and> Done s
    \<and> authkey_wf (agreed_key dr)
    \<and> big_of (ak_raw (agreed_key dr))
        = dhG ^ ((dr_a dr mod dhPrimeQ + 2 ^ 20) * (dr_b dr mod dhPrimeQ + 2 ^ 20)) mod dhPrime"
proof -
  let ?ea = "dr_a dr mod dhPrimeQ + 2 ^ 20" and ?eb = "dr_b dr mod dhPrimeQ + 2 ^ 20"
  have "length (big_bytes (big_exp (big_exp dhG ?eb) ?ea)) \<le> 256"
    by (rule length_big_bytes, rule less_trans [OF big_exp_less dhPrime_bounds(2)])
  then have "big_of (ak_raw (agreed_key dr)) = big_exp (big_exp dhG ?eb) ?ea"
    by (simp only: agreed_key_def Let_def AuthKey.simps big_of_leftPad big_of_big_bytes)
  also have "\<dots> = dhG ^ (?ea * ?eb) mod dhPrime"
    by (simp only: big_exp_def power_mod power_mult [symmetric] mult.commute)
  finally have "big_of (ak_raw (agreed_key dr)) = dhG ^ (?ea * ?eb) mod dhPrime" .
  moreover have "authkey_wf (agreed_key dr)" by (simp add: authkey_wf_def agreed_key_def Let_def)
  ultimately show ?thesis using handshake_run_completes [OF assms, of fp] by blast
qed

theorem handshake_agrees_witness:
  "\<exists>dr s. draws_ok sample_lib dr 0 \<and> dr_primes dr = sample_primes
     \<and> handshake_run sample_lib dr 0 77 = Some (agreed_key dr, agreed_key dr, s) \<and> Done s"
proof -
  obtain dr where "draws_ok sample_lib dr 0" "dr_primes dr = sample_primes"
    using sample_draws_exist by blast
  then show ?thesis using handshake_agrees [OF lib_ok_sample, of dr 0 77] by blast
qed

text \<open>C33. Whatever messages arrive in whatever order, a server's handshake accepts at most the three
  steps in their order, so it hands out at most one auth key, which is well formed.\<close>

theorem server_accepts_in_order:
  "map ev_step (server_log lib ms (NewServerHandshake fp now timeout))
     = [0 ..< length (server_log lib ms (NewServerHandshake fp now timeout))]
   \<and> length (server_log lib ms (NewServerHandshake fp now timeout)) \<le> 3
   \<and> list_all (\<lambda>e. case e of EvAuthKey k \<Rightarrow> authkey_wf k | _ \<Rightarrow> True) (server_log lib ms (NewServerHandshake fp now timeout))"
  using server_log_ok [of "NewServerHandshake fp now timeout" lib ms]
  by (auto simp: log_ok_def NewServerHandshake_def Let_def list_all_iff split: hs_event.split)

text \<open>A server never derives a key from a public value of 0, 1, \<open>p - 1\<close> or within \<open>2^1984\<close> of
  either end of the group: a key comes only from a value in the safe range, sent under the nonces
  of this handshake by someone who holds the temporary key.\<close>

theorem Server_key_only_from_safe_value:
  assumes "Server_SetClientDHParams lib now req h = (Inr (key, ok), h')"
  shows "2 ^ 1984 \<le> sh_gB h' \<and> sh_gB h' \<le> dhPrime - 2 ^ 1984
    \<and> ak_raw key = leftPad (big_bytes (big_exp (sh_gB h') (sh_a h))) 256
    \<and> sc_Nonce req = sh_nonce h \<and> sc_ServerNonce req = sh_serverNonce h
    \<and> (\<exists>data pad. IGEEncrypt (fst (tmpAESKeyIV (sh_newNonce h) (sh_serverNonce h)))
          (snd (tmpAESKeyIV (sh_newNonce h) (sh_serverNonce h))) (sha1 data @ data @ pad) = Inr (sc_EncryptedData req))"
proof -
  obtain tmpKey tmpIV where t: "tmpAESKeyIV (sh_newNonce h) (sh_serverNonce h) = (tmpKey, tmpIV)" by fastforce
  have n: "sc_Nonce req = sh_nonce h" "sc_ServerNonce req = sh_serverNonce h"
    using assms by (auto simp: Server_SetClientDHParams_def split: if_splits)
  obtain plain where p: "igeOpen tmpKey tmpIV (sc_EncryptedData req) = Inr plain"
    using assms t by (cases "igeOpen tmpKey tmpIV (sc_EncryptedData req)")
      (auto simp: Server_SetClientDHParams_def split: if_splits)
  obtain inner where d: "decodeInner (unmarshal_client_inner lib) plain = Inr inner"
    using assms t p by (cases "decodeInner (unmarshal_client_inner lib) plain")
      (auto simp: Server_SetClientDHParams_def split: if_splits)
  have r: "validateDHValue (big_of (ci_GB inner)) = Inr ()" "sh_gB h' = big_of (ci_GB inner)"
      "NewAuthKey (leftPad (big_bytes (big_exp (big_of (ci_GB inner)) (sh_a h))) AuthKeySize) = Inr key"
    using assms t p d by (auto simp: Server_SetClientDHParams_def Let_def split: if_splits sum.splits)
  then have "ak_raw key = leftPad (big_bytes (big_exp (sh_gB h') (sh_a h))) 256"
    by (auto simp: NewAuthKey_leftPad)
  moreover obtain pad where "IGEEncrypt tmpKey tmpIV (sha1 plain @ plain @ pad) = Inr (sc_EncryptedData req)"
    using igeOpen_InrD [OF p] by blast
  ultimately show ?thesis using r(1,2) n unfolding t validateDHValue_Inr_iff by auto
qed

theorem Server_key_only_from_safe_value_witness:
  "\<exists>lib req h key ok h'. Server_SetClientDHParams lib 0 req h = (Inr (key, ok), h') \<and> 2 ^ 1984 \<le> sh_gB h'"
proof -
  obtain dr where dr: "draws_ok sample_lib dr 0" using sample_draws_exist by blast
  obtain s where "handshake_run sample_lib dr 0 77 = Some (agreed_key dr, agreed_key dr, s)"
    using handshake_run_completes [OF lib_ok_sample dr] by blast
  then obtain req h key ok h' where "Server_SetClientDHParams sample_lib 0 req h = (Inr (key, ok), h')"
    by (auto simp: handshake_run_def split: prod.splits sum.splits option.splits)
  with Server_key_only_from_safe_value [OF this] show ?thesis by blast
qed

end
