(* ===== verification/Payload.thy ===== *)
theory Payload
  imports Ige
begin

text \<open>
  The payload encoding of \<^verbatim>\<open>pkg/mtproto/tl.go\<close>: a 32-bit constructor identifier followed by the
  JSON text of the value, with the constructors and the service messages of the protocol.
  \<^verbatim>\<open>encoding/json\<close> enters as the argument \<open>marshal\<close> or \<open>unmarshal\<close> of the operations that call it.
\<close>

type_synonym ConstructorID = u32

datatype ConstructorName =
    CReqPQ | CResPQ | CReqDHParams | CServerDHParams
  | CSetClientDHParams | CDHGenOK | CHandshakeError | CPing
  | CPong | CMsgsAck | CBadMsgNotify | CBadServerSalt
  | CNewSessionReset | CMsgContainer | CRPCError | CRPCResult
  | CDestroySession | CAuthBind | CAuthBindResult | CSendMessage
  | CSendMessageResp | CGetHistory | CGetHistoryResp | CGetDifference
  | CDifferenceResp | CReadHistory | CReadHistoryResp | CSetTyping
  | CGetDialogs | CGetDialogsResp | CUpdate | COK
  | CSearchMessages | CSearchResp | CRequestEncryption | CAcceptEncryption
  | CDiscardEncryption | CSecretChatState | CSendEncrypted | CSetSecretTTL
  | CRequestCall | CAcceptCall | CDiscardCall | CCallSignal
  | CGetTURNCreds | CCallState

fun constructor_id :: "ConstructorName \<Rightarrow> ConstructorID" where
  "constructor_id CReqPQ = 0x60469778"
| "constructor_id CResPQ = 0x05162463"
| "constructor_id CReqDHParams = 0xd712e4be"
| "constructor_id CServerDHParams = 0xd0e8075c"
| "constructor_id CSetClientDHParams = 0xf5045f1f"
| "constructor_id CDHGenOK = 0x3bcbf734"
| "constructor_id CHandshakeError = 0x0a1b2c3d"
| "constructor_id CPing = 0x7abe77ec"
| "constructor_id CPong = 0x347773c5"
| "constructor_id CMsgsAck = 0x62d6b459"
| "constructor_id CBadMsgNotify = 0xa7eff811"
| "constructor_id CBadServerSalt = 0xedab447b"
| "constructor_id CNewSessionReset = 0x9ec20908"
| "constructor_id CMsgContainer = 0x73f1f8dc"
| "constructor_id CRPCError = 0x2144ca19"
| "constructor_id CRPCResult = 0xf35c6d01"
| "constructor_id CDestroySession = 0xe7512126"
| "constructor_id CAuthBind = 0x10000001"
| "constructor_id CAuthBindResult = 0x10000002"
| "constructor_id CSendMessage = 0x10000010"
| "constructor_id CSendMessageResp = 0x10000011"
| "constructor_id CGetHistory = 0x10000012"
| "constructor_id CGetHistoryResp = 0x10000013"
| "constructor_id CGetDifference = 0x10000014"
| "constructor_id CDifferenceResp = 0x10000015"
| "constructor_id CReadHistory = 0x10000016"
| "constructor_id CReadHistoryResp = 0x10000017"
| "constructor_id CSetTyping = 0x10000018"
| "constructor_id CGetDialogs = 0x10000019"
| "constructor_id CGetDialogsResp = 0x1000001a"
| "constructor_id CUpdate = 0x10000030"
| "constructor_id COK = 0x10000031"
| "constructor_id CSearchMessages = 0x10000032"
| "constructor_id CSearchResp = 0x10000033"
| "constructor_id CRequestEncryption = 0x10000040"
| "constructor_id CAcceptEncryption = 0x10000041"
| "constructor_id CDiscardEncryption = 0x10000042"
| "constructor_id CSecretChatState = 0x10000043"
| "constructor_id CSendEncrypted = 0x10000044"
| "constructor_id CSetSecretTTL = 0x10000045"
| "constructor_id CRequestCall = 0x10000050"
| "constructor_id CAcceptCall = 0x10000051"
| "constructor_id CDiscardCall = 0x10000052"
| "constructor_id CCallSignal = 0x10000053"
| "constructor_id CGetTURNCreds = 0x10000054"
| "constructor_id CCallState = 0x10000055"

definition all_constructors :: "ConstructorName list" where
  "all_constructors = [
    CReqPQ, CResPQ, CReqDHParams, CServerDHParams, CSetClientDHParams,
    CDHGenOK, CHandshakeError, CPing, CPong, CMsgsAck,
    CBadMsgNotify, CBadServerSalt, CNewSessionReset, CMsgContainer, CRPCError,
    CRPCResult, CDestroySession, CAuthBind, CAuthBindResult, CSendMessage,
    CSendMessageResp, CGetHistory, CGetHistoryResp, CGetDifference, CDifferenceResp,
    CReadHistory, CReadHistoryResp, CSetTyping, CGetDialogs, CGetDialogsResp,
    CUpdate, COK, CSearchMessages, CSearchResp, CRequestEncryption,
    CAcceptEncryption, CDiscardEncryption, CSecretChatState, CSendEncrypted, CSetSecretTTL,
    CRequestCall, CAcceptCall, CDiscardCall, CCallSignal, CGetTURNCreds,
    CCallState]"

text \<open>\<^verbatim>\<open>json.Marshal\<close> yields the text or fails; \<^verbatim>\<open>json.Unmarshal\<close> yields the value or fails.\<close>

definition Encode :: "('v \<Rightarrow> bytes option) \<Rightarrow> ConstructorID \<Rightarrow> 'v \<Rightarrow> mt_error + bytes" where
  "Encode marshal cid v =
     (case marshal v of None \<Rightarrow> Inl ErrJSON | Some body \<Rightarrow> Inr (put_le 4 cid @ body))"

definition PeekConstructor :: "bytes \<Rightarrow> mt_error + ConstructorID" where
  "PeekConstructor payload =
     (if length payload < 4 then Inl ErrShortPayload else Inr (get_le (take 4 payload)))"

definition Decode :: "(bytes \<Rightarrow> 'v option) \<Rightarrow> bytes \<Rightarrow> mt_error + 'v" where
  "Decode unmarshal payload =
     (if length payload < 4 then Inl ErrShortPayload
      else case unmarshal (drop 4 payload) of None \<Rightarrow> Inl ErrJSON | Some v \<Rightarrow> Inr v)"

section \<open>Service messages\<close>

record Ping =
  ping_PingID :: u64
  DisconnectAfter :: u32

record Pong =
  pong_MsgID :: u64
  pong_PingID :: u64
  ServerTime :: u64

record BadMsgNotification =
  bmn_BadMsgID :: u64
  bmn_BadSeqNo :: u32
  bmn_ErrorCode :: u32

record BadServerSalt =
  bss_BadMsgID :: u64
  bss_BadSeqNo :: u32
  bss_ErrorCode :: u32
  bss_NewSalt :: u64

record RPCError =
  rpc_ReqMsgID :: u64
  rpc_Code :: u32
  rpc_Message :: string

definition BadMsgIDTooLow :: u32 where "BadMsgIDTooLow = 16"
definition BadMsgIDTooHigh :: u32 where "BadMsgIDTooHigh = 17"
definition BadMsgIDEvenOdd :: u32 where "BadMsgIDEvenOdd = 18"
definition BadMsgIDDuplicate :: u32 where "BadMsgIDDuplicate = 19"
definition BadSaltInvalid :: u32 where "BadSaltInvalid = 48"

definition FloodWait :: "int \<Rightarrow> RPCError" where
  "FloodWait seconds =
     \<lparr>rpc_ReqMsgID = 0, rpc_Code = 420, rpc_Message = ''FLOOD_WAIT_'' @ itoa seconds\<rparr>"

record ContainedMessage =
  cm_MsgID :: u64
  cm_SeqNo :: u32
  cm_Payload :: bytes

section \<open>Lemmas\<close>

lemma all_constructors_UNIV: "set all_constructors = UNIV"
proof -
  have "c \<in> set all_constructors" for c
    by (cases c) (simp_all add: all_constructors_def)
  then show ?thesis by blast
qed

lemma distinct_constructor_ids: "distinct (map constructor_id all_constructors)"
  by code_simp

lemma constructor_id_inject: "constructor_id c = constructor_id d \<longleftrightarrow> c = d"
  using distinct_constructor_ids all_constructors_UNIV by (metis UNIV_I distinct_map inj_on_eq_iff)

lemma Encode_Inr_iff: "Encode marshal i v = Inr p \<longleftrightarrow> (\<exists>body. marshal v = Some body \<and> p = put_le 4 i @ body)"
  by (auto simp: Encode_def split: option.splits)

lemma PeekConstructor_put [simp]: "PeekConstructor (put_le 4 i @ body) = Inr i"
  by (simp add: PeekConstructor_def get_put_le)

lemma Decode_put [simp]:
  "Decode unmarshal (put_le 4 (i :: ConstructorID) @ body) = (case unmarshal body of None \<Rightarrow> Inl ErrJSON | Some v \<Rightarrow> Inr v)"
  by (simp add: Decode_def)

section \<open>Properties\<close>

text \<open>No two constructors of the protocol share an identifier, and a payload routes to the
  constructor it was encoded with and to no other: two payloads, whatever their bodies, have the
  same routing prefix only if they were built with the same constructor.\<close>

theorem constructors_route_uniquely:
  assumes "Encode marshal (constructor_id c) v = Inr p" and "Encode marshal' (constructor_id d) w = Inr q"
  shows "PeekConstructor p = Inr (constructor_id c) \<and> (PeekConstructor p = PeekConstructor q \<longleftrightarrow> c = d)"
  using assms by (auto simp: Encode_Inr_iff constructor_id_inject)

theorem constructors_route_uniquely_witness:
  "PeekConstructor (put_le 4 (constructor_id CPing) @ [123, 125]) = Inr 0x7abe77ec
   \<and> PeekConstructor (put_le 4 (constructor_id CPing) @ [123, 125])
       \<noteq> PeekConstructor (put_le 4 (constructor_id CPong) @ [123, 125])"
  using constructors_route_uniquely
    [of "\<lambda>_. Some [123, 125]" CPing "()" "put_le 4 (constructor_id CPing) @ [123, 125]"
        "\<lambda>_. Some [123, 125]" CPong "()" "put_le 4 (constructor_id CPong) @ [123, 125]"]
  by (simp add: Encode_def)

text \<open>Whenever the JSON package reads back the text it wrote for a value, a payload decodes to
  the value it was encoded from.\<close>

theorem Decode_Encode:
  assumes "marshal v = Some body" and "unmarshal body = Some v"
  shows "\<exists>p. Encode marshal i v = Inr p \<and> Decode unmarshal p = Inr v \<and> PeekConstructor p = Inr i"
  using assms by (simp add: Encode_def)

theorem Decode_Encode_witness:
  "\<exists>p. Encode (\<lambda>b. Some [if b then 49 else 48]) (constructor_id CPing) True = Inr p
     \<and> Decode (\<lambda>t. if t = [49] then Some True else if t = [48] then Some False else None) p = Inr True
     \<and> PeekConstructor p = Inr (constructor_id CPing)"
  by (rule Decode_Encode [where body = "[49]"]) simp_all

text \<open>The delay of a flood-wait error can be read off its message: two delays render alike only
  if they are equal.\<close>

theorem FloodWait_inject: "FloodWait a = FloodWait b \<longleftrightarrow> a = b"
  by (simp add: FloodWait_def itoa_inject)

end
