(* ===== verification/Envelope.thy ===== *)
theory Envelope
  imports Auth_Key
begin

unbundle bit_operations_syntax

text \<open>
  The encrypted envelope and the plain handshake frames, the first half of
  \<^verbatim>\<open>pkg/mtproto/message.go\<close>, and the payload encoding of \<^verbatim>\<open>pkg/mtproto/tl.go\<close>.  A frame is
  \<open>auth_key_id(8) || msg_key(16) || AES-IGE(header(32) || body || padding)\<close>.  The random
  padding comes out of an explicit supply of entropy.
\<close>

definition authKeyIDSize :: nat where "authKeyIDSize = 8"
definition msgKeySize :: nat where "msgKeySize = 16"
definition headerSize :: nat where "headerSize = 32"
definition minPadding :: nat where "minPadding = 12"
definition maxPadding :: nat where "maxPadding = 1024"
definition MaxMessageSize :: nat where "MaxMessageSize = 16777216"

lemmas envelope_sizes =
  authKeyIDSize_def msgKeySize_def headerSize_def minPadding_def maxPadding_def MaxMessageSize_def

text \<open>\<^verbatim>\<open>Message\<close>.  The signed fields are kept as the bit patterns the wire carries.\<close>

record Message =
  Salt :: u64
  SessionID :: u64
  MsgID :: u64
  SeqNo :: u32
  Body :: bytes

text \<open>\<^verbatim>\<open>Time\<close>: the arithmetic shift of the signed identifier, as unix seconds.\<close>

definition Time :: "Message \<Rightarrow> int" where
  "Time m = sint (MsgID m) div 2 ^ 32"

definition IsContentRelated :: "Message \<Rightarrow> bool" where
  "IsContentRelated m \<longleftrightarrow> go_rem (sint (SeqNo m)) 2 = 1"

definition pad_length :: "nat \<Rightarrow> nat" where
  "pad_length unpadded =
     (let pad = minPadding + (16 - (unpadded + minPadding) mod 16)
      in if pad < minPadding then pad + 16 else pad)"

definition header_bytes :: "Message \<Rightarrow> bytes" where
  "header_bytes m =
     put_le 8 (Salt m) @ put_le 8 (SessionID m) @ put_le 8 (MsgID m) @ put_le 4 (SeqNo m)
     @ put_le 4 (of_nat (length (Body m)) :: u32)"

definition Encrypt :: "AuthKey \<Rightarrow> Message \<Rightarrow> Direction \<Rightarrow> bytes \<Rightarrow> mt_error + bytes" where
  "Encrypt k m d entropy =
     (if MaxMessageSize < length (Body m) then Inl (ErrBodyTooLarge (length (Body m)))
      else
        let pad = pad_length (headerSize + length (Body m))
        in case read_full pad entropy of
             None \<Rightarrow> Inl ErrRandRead
           | Some (padding, _) \<Rightarrow>
               let plaintext = header_bytes m @ Body m @ padding;
                   msgKey = MsgKey k plaintext d
               in case DeriveAESKeyIV k msgKey d of
                    Inl e \<Rightarrow> Inl e
                  | Inr (aesKey, aesIV) \<Rightarrow>
                      (case IGEEncrypt aesKey aesIV plaintext of
                         Inl e \<Rightarrow> Inl e
                       | Inr ciphertext \<Rightarrow> Inr (put_le 8 (ak_id k) @ msgKey @ ciphertext)))"

definition PeekAuthKeyID :: "bytes \<Rightarrow> mt_error + u64" where
  "PeekAuthKeyID frame =
     (if length frame < authKeyIDSize then Inl ErrShortFrame
      else Inr (get_le (take authKeyIDSize frame)))"

text \<open>The part of \<^verbatim>\<open>Decrypt\<close> after the \<open>msg_key\<close> check: the parse of an authenticated plaintext.\<close>

definition parse_plaintext :: "bytes \<Rightarrow> mt_error + Message" where
  "parse_plaintext plaintext =
     (let bodyLen = unat (get_le (bslice plaintext 28 32) :: u32)
      in if MaxMessageSize < bodyLen \<or> length plaintext < headerSize + bodyLen
         then Inl (ErrBadLength bodyLen (length plaintext))
         else
           let pad = length plaintext - headerSize - bodyLen
           in if pad < minPadding \<or> maxPadding < pad then Inl (ErrBadPadding pad)
              else Inr \<lparr>Salt = get_le (bslice plaintext 0 8),
                        SessionID = get_le (bslice plaintext 8 16),
                        MsgID = get_le (bslice plaintext 16 24),
                        SeqNo = get_le (bslice plaintext 24 28),
                        Body = bslice plaintext headerSize (headerSize + bodyLen)\<rparr>)"

definition Decrypt :: "AuthKey \<Rightarrow> bytes \<Rightarrow> Direction \<Rightarrow> mt_error + Message" where
  "Decrypt k frame d =
     (if length frame < authKeyIDSize + msgKeySize + headerSize + minPadding then Inl ErrShortFrame
      else
        let gotID = get_le (take authKeyIDSize frame)
        in if gotID \<noteq> ak_id k then Inl (ErrUnknownAuthKey gotID)
           else
             let msgKey = bslice frame authKeyIDSize (authKeyIDSize + msgKeySize);
                 ciphertext = drop (authKeyIDSize + msgKeySize) frame
             in if length ciphertext mod blockSize \<noteq> 0 then Inl (ErrBlockSize (length ciphertext))
                else case DeriveAESKeyIV k msgKey d of
                  Inl e \<Rightarrow> Inl e
                | Inr (aesKey, aesIV) \<Rightarrow>
                    (case IGEDecrypt aesKey aesIV ciphertext of
                       Inl e \<Rightarrow> Inl e
                     | Inr plaintext \<Rightarrow>
                         (case VerifyMsgKey k plaintext msgKey d of
                            Inl e \<Rightarrow> Inl e
                          | Inr _ \<Rightarrow> parse_plaintext plaintext)))"

section \<open>Plain frames\<close>

definition EncodePlain :: "u64 \<Rightarrow> bytes \<Rightarrow> bytes" where
  "EncodePlain msgID body =
     put_le 8 (0 :: u64) @ put_le 8 msgID @ put_le 4 (of_nat (length body) :: u32) @ body"

definition DecodePlain :: "bytes \<Rightarrow> mt_error + (u64 \<times> bytes)" where
  "DecodePlain frame =
     (if length frame < 20 then Inl ErrShortFrame
      else if (get_le (bslice frame 0 8) :: u64) \<noteq> 0 then Inl (ErrNotPlain (get_le (bslice frame 0 8)))
      else
        let msgID = get_le (bslice frame 8 16);
            n = unat (get_le (bslice frame 16 20) :: u32)
        in if MaxMessageSize < n \<or> length frame < 20 + n then Inl (ErrBadLength n (length frame))
           else Inr (msgID, bslice frame 20 (20 + n)))"

section \<open>The envelope as a format\<close>

text \<open>
  What a frame is, apart from how it is built: the identifier of the key, the \<open>msg_key\<close> of a
  plaintext, and the encryption of that plaintext under the keys the \<open>msg_key\<close> selects.
\<close>

definition sealed_as :: "AuthKey \<Rightarrow> Direction \<Rightarrow> bytes \<Rightarrow> bytes \<Rightarrow> bool" where
  "sealed_as k d plaintext frame \<longleftrightarrow>
     (\<exists>key iv c. DeriveAESKeyIV k (MsgKey k plaintext d) d = Inr (key, iv)
        \<and> IGEEncrypt key iv plaintext = Inr c
        \<and> frame = put_le 8 (ak_id k) @ MsgKey k plaintext d @ c)"

lemma length_header_bytes [bytes_simps, simp]: "length (header_bytes m) = 32"
  by (simp add: header_bytes_def)

lemma pad_length_eq: "pad_length n = 28 - (n + 12) mod 16"
proof -
  have "(n + 12) mod 16 < 16" by simp
  then show ?thesis by (simp add: pad_length_def minPadding_def Let_def)
qed

lemma pad_length_bounds: "13 \<le> pad_length n" "pad_length n \<le> 28"
proof -
  have "(n + 12) mod 16 < 16" by simp
  then show "13 \<le> pad_length n" unfolding pad_length_eq by linarith
  show "pad_length n \<le> 28" by (simp add: pad_length_eq)
qed

lemma pad_length_aligns: "16 dvd n + pad_length n"
  unfolding pad_length_eq by presburger

text \<open>Reading back the header of a plaintext.\<close>

lemma bslice_header:
  assumes "length a = 8" "length b = 8" "length c = 8" "length d = 4" "length e = 4"
  shows "bslice (a @ b @ c @ d @ e @ r) 0 8 = a"
    and "bslice (a @ b @ c @ d @ e @ r) 8 16 = b"
    and "bslice (a @ b @ c @ d @ e @ r) 16 24 = c"
    and "bslice (a @ b @ c @ d @ e @ r) 24 28 = d"
    and "bslice (a @ b @ c @ d @ e @ r) 28 32 = e"
    and "bslice (a @ b @ c @ d @ e @ r) 32 n = take (n - 32) r"
  using assms by (simp_all add: bslice_def)

lemma parse_plaintext_format:
  assumes "length (Body m) \<le> MaxMessageSize" and "12 \<le> length pad" and "length pad \<le> 1024"
  shows "parse_plaintext (header_bytes m @ Body m @ pad) = Inr m"
proof -
  have u: "unat (of_nat (length (Body m)) :: u32) = length (Body m)"
    using assms(1) by (intro unat_of_nat_small) (simp add: MaxMessageSize_def)
  show ?thesis
    using assms
    by (simp add: parse_plaintext_def header_bytes_def bslice_header get_put_le u Let_def envelope_sizes)
qed

lemma parse_plaintext_Inr_iff:
  "parse_plaintext p = Inr m \<longleftrightarrow>
     (\<exists>pad. p = header_bytes m @ Body m @ pad \<and> length (Body m) \<le> MaxMessageSize
        \<and> 12 \<le> length pad \<and> length pad \<le> 1024)"
proof
  assume r: "parse_plaintext p = Inr m"
  define n where "n = unat (get_le (bslice p 28 32) :: u32)"
  from r have n: "n \<le> MaxMessageSize" "32 + n \<le> length p"
    and pad: "12 \<le> length p - 32 - n" "length p - 32 - n \<le> 1024"
    and m: "m = \<lparr>Salt = get_le (bslice p 0 8), SessionID = get_le (bslice p 8 16),
                 MsgID = get_le (bslice p 16 24), SeqNo = get_le (bslice p 24 28),
                 Body = bslice p 32 (32 + n)\<rparr>"
    by (auto simp: parse_plaintext_def Let_def n_def envelope_sizes split: if_splits)
  have body: "length (Body m) = n" using n m by simp
  have put: "put_le 8 (get_le (bslice p i j) :: u64) = bslice p i j" if "j = i + 8" "j \<le> 24" for i j
    using put_get_le [of "bslice p i j", where 'a = 64] that n by simp
  have put4: "put_le 4 (get_le (bslice p i j) :: u32) = bslice p i j" if "j = i + 4" "j \<le> 32" for i j
    using put_get_le [of "bslice p i j", where 'a = 32] that n by simp
  have len4: "put_le 4 (of_nat n :: u32) = bslice p 28 32"
    using put4 [of 32 28] by (simp add: n_def)
  have "header_bytes m = bslice p 0 8 @ bslice p 8 16 @ bslice p 16 24 @ bslice p 24 28 @ bslice p 28 32"
    unfolding header_bytes_def body len4 by (simp add: m put put4 del: bslice_0)
  also have "\<dots> = take 32 p"
    by (simp add: bslice_join take_bslice)
  finally have "p = header_bytes m @ Body m @ drop (32 + n) p"
    by (simp add: m bslice_drop)
  with n pad body
  show "\<exists>pad. p = header_bytes m @ Body m @ pad \<and> length (Body m) \<le> MaxMessageSize
          \<and> 12 \<le> length pad \<and> length pad \<le> 1024"
    by (intro exI [of _ "drop (32 + n) p"]) simp
next
  assume "\<exists>pad. p = header_bytes m @ Body m @ pad \<and> length (Body m) \<le> MaxMessageSize
            \<and> 12 \<le> length pad \<and> length pad \<le> 1024"
  then show "parse_plaintext p = Inr m" by (auto intro: parse_plaintext_format)
qed

lemma Decrypt_sealed:
  assumes "sealed_as k d p frame" and "44 \<le> length p"
  shows "Decrypt k frame d = parse_plaintext p"
proof -
  from assms(1) obtain key iv c where k: "DeriveAESKeyIV k (MsgKey k p d) d = Inr (key, iv)"
    and c: "IGEEncrypt key iv p = Inr c" and f: "frame = put_le 8 (ak_id k) @ MsgKey k p d @ c"
    by (auto simp: sealed_as_def)
  from c have "length c = length p" by (rule IGEEncrypt_length)
  moreover from c have "IGEDecrypt key iv c = Inr p" by (rule IGE_round_trip)
  moreover from c have "16 dvd length p" by (simp add: IGEEncrypt_Inr_iff)
  moreover from f have "take 8 frame = put_le 8 (ak_id k)" and "bslice frame 8 24 = MsgKey k p d"
    and "drop 24 frame = c" and "length frame = 24 + length c"
    by (simp_all add: bslice_def)
  ultimately show ?thesis using k assms(2)
    by (simp add: Decrypt_def Let_def envelope_sizes blockSize_def get_put_le
        VerifyMsgKey_def constantTimeEqual_def mod_eq_0_iff_dvd)
qed

lemma Decrypt_InrD:
  assumes "Decrypt k frame d = Inr m"
  obtains p where "sealed_as k d p frame" and "parse_plaintext p = Inr m"
proof -
  let ?mk = "bslice frame 8 24" and ?c = "drop 24 frame"
  from assms have len: "68 \<le> length frame" and gid: "get_le (take 8 frame) = ak_id k"
    by (auto simp: Decrypt_def Let_def envelope_sizes split: if_splits)
  from assms obtain key iv p where kv: "DeriveAESKeyIV k ?mk d = Inr (key, iv)"
    and p: "IGEDecrypt key iv ?c = Inr p" and mk: "MsgKey k p d = ?mk" and r: "parse_plaintext p = Inr m"
    by (auto simp: Decrypt_def Let_def envelope_sizes VerifyMsgKey_def constantTimeEqual_def
        split: if_splits sum.splits)
  have "put_le 8 (ak_id k) = take 8 frame"
    using put_get_le [of "take 8 frame", where 'a = 64] len gid by simp
  then have "frame = put_le 8 (ak_id k) @ MsgKey k p d @ ?c"
    by (simp add: mk bslice_drop)
  with kv p mk have "sealed_as k d p frame"
    by (auto simp: sealed_as_def dest: IGE_round_trip_dec)
  then show ?thesis using r by (rule that)
qed

lemma Encrypt_Inr_iff:
  "Encrypt k m d entropy = Inr frame \<longleftrightarrow>
     length (Body m) \<le> MaxMessageSize
     \<and> pad_length (32 + length (Body m)) \<le> length entropy
     \<and> sealed_as k d (header_bytes m @ Body m @ take (pad_length (32 + length (Body m))) entropy) frame"
  by (auto simp: Encrypt_def Let_def read_full_def sealed_as_def headerSize_def split: sum.splits)

lemma sealed_as_exists:
  assumes "16 dvd length p" and "p \<noteq> []"
  shows "\<exists>frame. sealed_as k d p frame"
proof -
  obtain key iv where "DeriveAESKeyIV k (MsgKey k p d) d = Inr (key, iv)" "length key = 32" "length iv = 32"
    by (rule DeriveAESKeyIV_ok [of "MsgKey k p d" k d]) simp_all
  moreover from this assms obtain c where "IGEEncrypt key iv p = Inr c"
    using IGEEncrypt_total_iff [of key iv p] by (auto simp: aes_key_ok_def)
  ultimately show ?thesis by (auto simp: sealed_as_def)
qed

section \<open>Properties\<close>

lemma Encrypt_succeeds:
  assumes "length (Body m) \<le> MaxMessageSize" and "28 \<le> length entropy"
  obtains frame where "Encrypt k m d entropy = Inr frame"
proof -
  let ?n = "pad_length (32 + length (Body m))"
  let ?p = "header_bytes m @ Body m @ take ?n entropy"
  have n: "?n \<le> length entropy"
    using pad_length_bounds(2) [of "32 + length (Body m)"] assms(2) by simp
  then have "length ?p = 32 + length (Body m) + ?n" by simp
  then have "16 dvd length ?p" and "?p \<noteq> []"
    using pad_length_aligns [of "32 + length (Body m)"] by (simp_all only: length_0_conv [symmetric])
  then obtain frame where "sealed_as k d ?p frame" using sealed_as_exists by blast
  with n assms(1) have "Encrypt k m d entropy = Inr frame" by (simp add: Encrypt_Inr_iff)
  then show ?thesis by (rule that)
qed

lemma Encrypt_recovered:
  assumes "length (Body m) \<le> MaxMessageSize" and "28 \<le> length entropy"
  shows "\<exists>frame. Encrypt k m d entropy = Inr frame \<and> Decrypt k frame d = Inr m"
proof -
  obtain frame where f: "Encrypt k m d entropy = Inr frame" using Encrypt_succeeds [OF assms] .
  let ?pad = "take (pad_length (32 + length (Body m))) entropy"
  have pad: "12 \<le> length ?pad" "length ?pad \<le> 1024" using pad_length_bounds [of "32 + length (Body m)"] assms(2) by simp_all
  have "Decrypt k frame d = parse_plaintext (header_bytes m @ Body m @ ?pad)"
    using f pad by (intro Decrypt_sealed) (simp_all add: Encrypt_Inr_iff)
  then show ?thesis using f parse_plaintext_format [OF assms(1) pad] by auto
qed

text \<open>C8. Every message whose body is at most 16 MiB is encrypted, and the receiver holding the
  same key and direction recovers exactly that message.\<close>

theorem Encrypt_Decrypt_round_trip:
  assumes "length (Body m) \<le> MaxMessageSize" and "28 \<le> length entropy"
  shows "\<exists>frame. Encrypt k m d entropy = Inr frame \<and> Decrypt k frame d = Inr m"
  by (rule Encrypt_recovered [OF assms])

theorem Encrypt_Decrypt_round_trip_witness:
  "\<exists>frame. Encrypt \<lparr>ak_raw = replicate 256 7, ak_id = 9\<rparr>
       \<lparr>Salt = 1, SessionID = 2, MsgID = 4, SeqNo = 1, Body = [104, 105]\<rparr> ClientToServer (replicate 28 0) = Inr frame
     \<and> Decrypt \<lparr>ak_raw = replicate 256 7, ak_id = 9\<rparr> frame ClientToServer
         = Inr \<lparr>Salt = 1, SessionID = 2, MsgID = 4, SeqNo = 1, Body = [104, 105]\<rparr>"
  by (rule Encrypt_Decrypt_round_trip) (simp_all add: MaxMessageSize_def)

text \<open>C22. \<^verbatim>\<open>Decrypt\<close> accepts a frame exactly when it is the sealing, under this key and direction, of
  a header and body of at most 16 MiB followed by 12 to 1024 bytes of padding; nothing else is
  parsed, and what it returns is the message sealed.\<close>

theorem Decrypt_accepts_exactly_sealed:
  "Decrypt k frame d = Inr m \<longleftrightarrow>
     (\<exists>pad. sealed_as k d (header_bytes m @ Body m @ pad) frame
        \<and> length (Body m) \<le> MaxMessageSize \<and> 12 \<le> length pad \<and> length pad \<le> 1024)"
    (is "?l \<longleftrightarrow> ?r")
proof
  assume ?l
  then obtain p where "sealed_as k d p frame" "parse_plaintext p = Inr m" by (rule Decrypt_InrD)
  then show ?r by (auto simp: parse_plaintext_Inr_iff)
next
  assume ?r
  then obtain pad where p: "sealed_as k d (header_bytes m @ Body m @ pad) frame"
    "length (Body m) \<le> MaxMessageSize" "12 \<le> length pad" "length pad \<le> 1024" by blast
  then have "Decrypt k frame d = parse_plaintext (header_bytes m @ Body m @ pad)"
    by (intro Decrypt_sealed) simp_all
  with p show ?l by (simp add: parse_plaintext_format)
qed

text \<open>The length of a frame reveals the body's length up to the block: the padding is between
  13 and 28 bytes and is determined by the length of the body, never by the entropy.\<close>

theorem Encrypt_frame_length:
  assumes "Encrypt k m d entropy = Inr frame"
  shows "length frame = 24 + 32 + length (Body m) + pad_length (32 + length (Body m))
    \<and> length frame mod 16 = 8
    \<and> 13 \<le> pad_length (32 + length (Body m)) \<and> pad_length (32 + length (Body m)) \<le> 28"
proof -
  let ?n = "pad_length (32 + length (Body m))"
  from assms have "?n \<le> length entropy"
    and "sealed_as k d (header_bytes m @ Body m @ take ?n entropy) frame"
    by (simp_all add: Encrypt_Inr_iff)
  then have len: "length frame = 24 + 32 + length (Body m) + ?n"
    by (auto simp: sealed_as_def dest!: IGEEncrypt_length)
  have "16 dvd 32 + length (Body m) + ?n" by (rule pad_length_aligns)
  with len have "length frame mod 16 = 8" by presburger
  with len pad_length_bounds [of "32 + length (Body m)"] show ?thesis by blast
qed

theorem Encrypt_frame_length_witness:
  "\<exists>frame. Encrypt \<lparr>ak_raw = replicate 256 7, ak_id = 9\<rparr>
       \<lparr>Salt = 1, SessionID = 2, MsgID = 4, SeqNo = 1, Body = [104, 105]\<rparr> ClientToServer (replicate 28 0) = Inr frame
     \<and> length frame = 72"
proof -
  let ?k = "\<lparr>ak_raw = replicate 256 7, ak_id = 9\<rparr>"
    and ?m = "\<lparr>Salt = 1, SessionID = 2, MsgID = 4, SeqNo = 1, Body = [104, 105]\<rparr>"
  obtain frame where f: "Encrypt ?k ?m ClientToServer (replicate 28 0) = Inr frame"
    by (rule Encrypt_succeeds [of ?m "replicate 28 0"]) (simp_all add: MaxMessageSize_def)
  with Encrypt_frame_length [OF f] show ?thesis by (simp add: pad_length_eq)
qed

lemma bslice_plain:
  assumes "length a = 8" "length b = 8" "length c = 4"
  shows "bslice (a @ b @ c @ r) 0 8 = a" and "bslice (a @ b @ c @ r) 8 16 = b"
    and "bslice (a @ b @ c @ r) 16 20 = c" and "bslice (a @ b @ c @ r) 20 n = take (n - 20) r"
  using assms by (simp_all add: bslice_def)

text \<open>A plain frame gives back the identifier and the body it was built from, whatever bytes
  the transport appends after it, and its first eight bytes read as auth key 0.\<close>

theorem DecodePlain_EncodePlain:
  assumes "length body \<le> MaxMessageSize"
  shows "DecodePlain (EncodePlain msgID body @ trailing) = Inr (msgID, body)
    \<and> PeekAuthKeyID (EncodePlain msgID body @ trailing) = Inr 0"
proof -
  have u: "unat (of_nat (length body) :: u32) = length body"
    using assms by (intro unat_of_nat_small) (simp add: MaxMessageSize_def)
  show ?thesis
    using assms
    by (simp add: DecodePlain_def EncodePlain_def PeekAuthKeyID_def bslice_plain get_put_le u Let_def authKeyIDSize_def)
qed

theorem DecodePlain_EncodePlain_witness:
  "DecodePlain (EncodePlain 4 [1, 2, 3] @ [0]) = Inr (4, [1, 2, 3])"
  using DecodePlain_EncodePlain [of "[1, 2, 3]" 4 "[0]"] by (simp add: MaxMessageSize_def)

end
