(* ===== verification/Msg_Ids.thy ===== *)
theory Msg_Ids
  imports Envelope "HOL-Library.Multiset"
begin

unbundle bit_operations_syntax

text \<open>
  Message identifiers, the second half of \<^verbatim>\<open>pkg/mtproto/message.go\<close>: the generator of
  strictly increasing identifiers (\<open>MsgIDGenerator_Next\<close>, and its compare-and-swap loop under
  any interleaving of threads as \<open>gen_step\<close>), the validator that enforces the time window and
  rejects replays (\<open>Check\<close>), and the session's sequence numbers (\<open>SeqNo_Next\<close>).

  Identifiers are \<^verbatim>\<open>int64\<close>: 64-bit words compared through \<open>sint\<close>.  Clock readings are
  arguments: seconds for the generator, nanoseconds for the validator.
\<close>

section \<open>MsgIDGenerator\<close>

record MsgIDGenerator =
  gen_last :: u64
  gen_offset :: u64

definition KindFromClient :: u64 where "KindFromClient = 0"
definition KindFromServerResponse :: u64 where "KindFromServerResponse = 1"
definition KindFromServerPush :: u64 where "KindFromServerPush = 3"

text \<open>The identifier one pass of the loop proposes, from the clock and the value it loaded.\<close>

definition with_kind :: "u64 \<Rightarrow> u64 \<Rightarrow> u64" where
  "with_kind c kind = (c AND NOT 3) OR (kind AND 3)"

definition next_candidate :: "u64 \<Rightarrow> u64 \<Rightarrow> u64 \<Rightarrow> u64" where
  "next_candidate now prev kind =
     (let c0 = push_bit 32 now;
          c1 = (if sint c0 \<le> sint prev then prev + 4 else c0);
          c2 = with_kind c1 kind
      in if sint c2 \<le> sint prev then with_kind (prev + 4) kind else c2)"

text \<open>\<^verbatim>\<open>Next\<close> when no other caller intervenes: the first compare-and-swap succeeds.\<close>

definition MsgIDGenerator_Next :: "u64 \<Rightarrow> u64 \<Rightarrow> MsgIDGenerator \<Rightarrow> u64 \<times> MsgIDGenerator" where
  "MsgIDGenerator_Next now kind g =
     (let c = next_candidate (now + gen_offset g) (gen_last g) kind
      in (c, g\<lparr>gen_last := c\<rparr>))"

definition AdoptPeerTime :: "u64 \<Rightarrow> u64 \<Rightarrow> MsgIDGenerator \<Rightarrow> MsgIDGenerator" where
  "AdoptPeerTime now peerMsgID g =
     (let delta = signed_drop_bit 32 peerMsgID - now
      in if 0 < sint delta then g\<lparr>gen_offset := delta\<rparr> else g)"

text \<open>
  The loop under contention.  A caller loads \<open>last\<close> and proposes a candidate; the
  compare-and-swap then either installs it, if \<open>last\<close> is still the value loaded, and the call
  returns, or sends the caller round the loop.  \<open>issued\<close> records the returned identifiers,
  newest first.
\<close>

datatype gen_pc = Looping | Loaded u64 u64

record gen_sys =
  sys_last :: u64
  sys_pc :: "nat \<Rightarrow> gen_pc"
  issued :: "u64 list"

inductive gen_step :: "gen_sys \<Rightarrow> gen_sys \<Rightarrow> bool" where
  load: "sys_pc s t = Looping \<Longrightarrow>
     gen_step s (s\<lparr>sys_pc := (sys_pc s)(t := Loaded (sys_last s) (next_candidate now (sys_last s) kind))\<rparr>)"
| cas_ok: "sys_pc s t = Loaded prev c \<Longrightarrow> sys_last s = prev \<Longrightarrow>
     gen_step s (s\<lparr>sys_last := c, sys_pc := (sys_pc s)(t := Looping), issued := c # issued s\<rparr>)"
| cas_fail: "sys_pc s t = Loaded prev c \<Longrightarrow> sys_last s \<noteq> prev \<Longrightarrow>
     gen_step s (s\<lparr>sys_pc := (sys_pc s)(t := Looping)\<rparr>)"

text \<open>The runs in which the identifier has not reached the top of the \<^verbatim>\<open>int64\<close> range.\<close>

inductive gen_reach :: "gen_sys \<Rightarrow> bool" where
  start: "gen_reach \<lparr>sys_last = 0, sys_pc = (\<lambda>_. Looping), issued = []\<rparr>"
| step: "gen_reach s \<Longrightarrow> gen_step s s' \<Longrightarrow> sint (sys_last s) \<le> 2 ^ 63 - 8 \<Longrightarrow> gen_reach s'"

section \<open>MsgIDValidator\<close>

datatype id_error = ErrMsgIDParity | ErrMsgIDTooOld | ErrMsgIDTooNew | ErrMsgIDReplay

text \<open>\<^verbatim>\<open>seen\<close> is a Go map: an association list with distinct keys, in no particular order.\<close>

record MsgIDValidator =
  Behind :: int
  Ahead :: int
  seen :: "(u64 \<times> int) list"
  maxSeen :: nat

definition second_ns :: int where
  "second_ns = 1000000000"

definition NewMsgIDValidator :: MsgIDValidator where
  "NewMsgIDValidator =
     \<lparr>Behind = 300 * second_ns, Ahead = 30 * second_ns, seen = [], maxSeen = 8192\<rparr>"

definition id_time :: "u64 \<Rightarrow> int" where
  "id_time msgID = sint msgID div 2 ^ 32 * second_ns"

text \<open>
  The eviction of \<^verbatim>\<open>Check\<close>, on a full table: entries recorded before the window are swept, and
  if that frees nothing, half of the table is deleted in the order a Go \<^verbatim>\<open>range\<close> visits it.
  That order is unspecified by the language: it is the argument \<open>iter\<close>.
\<close>

definition evict :: "((u64 \<times> int) list \<Rightarrow> (u64 \<times> int) list) \<Rightarrow> int \<Rightarrow> MsgIDValidator \<Rightarrow> (u64 \<times> int) list" where
  "evict iter now v =
     (if length (seen v) < maxSeen v then seen v
      else
        let swept = filter (\<lambda>(_, at). \<not> at < now - Behind v) (seen v)
        in if length swept < maxSeen v then swept
           else drop (max 1 (length swept div 2)) (iter swept))"

definition Check ::
  "((u64 \<times> int) list \<Rightarrow> (u64 \<times> int) list) \<Rightarrow> int \<Rightarrow> u64 \<Rightarrow> MsgIDValidator \<Rightarrow> id_error option \<times> MsgIDValidator" where
  "Check iter now msgID v =
     (if msgID AND 1 \<noteq> 0 then (Some ErrMsgIDParity, v)
      else if Behind v < now - id_time msgID then (Some ErrMsgIDTooOld, v)
      else if Ahead v < id_time msgID - now then (Some ErrMsgIDTooNew, v)
      else if msgID \<in> fst ` set (seen v) then (Some ErrMsgIDReplay, v)
      else (None, v\<lparr>seen := (msgID, now) # evict iter now v\<rparr>))"

text \<open>
  A run of checks, each with its iteration order and clock reading, and the identifiers it
  accepted with the time of acceptance, oldest first.
\<close>

fun Check_run ::
  "(((u64 \<times> int) list \<Rightarrow> (u64 \<times> int) list) \<times> int \<times> u64) list \<Rightarrow> MsgIDValidator
     \<Rightarrow> (u64 \<times> int) list \<times> MsgIDValidator" where
  "Check_run [] v = ([], v)"
| "Check_run ((iter, now, i) # rest) v =
     (case Check iter now i v of
        (None, v') \<Rightarrow> (let (acc, v'') = Check_run rest v' in ((i, now) # acc, v''))
      | (Some _, v') \<Rightarrow> Check_run rest v')"

text \<open>An iteration order visits each entry of the map once.\<close>

definition map_order :: "('a list \<Rightarrow> 'a list) \<Rightarrow> bool" where
  "map_order iter \<longleftrightarrow> (\<forall>xs. mset (iter xs) = mset xs)"

definition validator_wf :: "MsgIDValidator \<Rightarrow> bool" where
  "validator_wf v \<longleftrightarrow> distinct (map fst (seen v)) \<and> length (seen v) \<le> maxSeen v \<and> 2 \<le> maxSeen v"

section \<open>SeqNoCounter and salts\<close>

definition SeqNo_Next :: "bool \<Rightarrow> u32 \<Rightarrow> u32 \<times> u32" where
  "SeqNo_Next contentRelated n =
     (if \<not> contentRelated then (n * 2, n) else (let v = n + 1 in (v * 2 - 1, v)))"

text \<open>\<^verbatim>\<open>rand.Int(rand.Reader, 1<<62)\<close>: a value below \<open>2^62\<close>, or the reader's error.\<close>

definition NewSalt :: "u64 option \<Rightarrow> mt_error + u64" where
  "NewSalt r = (case r of None \<Rightarrow> Inl ErrRandRead | Some n \<Rightarrow> Inr (n mod 2 ^ 62))"

section \<open>Lemmas: the generator\<close>

lemma int_with_kind: "(c AND NOT 3) OR (k AND 3) = 4 * (c div 4) + k mod (4 :: int)"
proof -
  have m3: "3 = (mask 2 :: int)" by (simp add: mask_eq_exp_minus_1)
  have "c AND NOT (mask 2) OR (k AND mask 2) = concat_bit 2 k (drop_bit 2 c)"
    by (rule bit_eqI) (auto simp: bit_simps bit_concat_bit_iff not_less numeral_2_eq_2 Suc_diff_Suc Suc_le_eq)
  also have "\<dots> = k mod 4 + 4 * (c div 4)"
    by (simp add: concat_bit_eq take_bit_eq_mod push_bit_eq_mult drop_bit_eq_div)
  finally show ?thesis unfolding m3 by (simp add: ac_simps)
qed

lemma sint_with_kind: "sint (with_kind c k) = 4 * (sint c div 4) + sint k mod 4"
proof -
  have "signed_take_bit LENGTH(64) (NOT 3) = (NOT 3 :: int)" and "sint (3 :: u64) = 3" by simp_all
  then show ?thesis
    unfolding with_kind_def signed_or_eq signed_and_eq signed_not_eq by (simp only: int_with_kind)
qed

lemma sint_plus_4:
  fixes prev :: u64
  assumes "sint prev \<le> 2 ^ 63 - 8"
  shows "sint (prev + 4) = sint prev + 4"
proof -
  have "- (2 ^ 63) \<le> sint prev" using sint_greater_eq [of prev] by simp
  with assms show ?thesis
    by (subst sint_word_ariths(1)) (simp add: signed_take_bit_int_eq_self_iff)
qed

lemma next_candidate_greater:
  assumes "sint prev \<le> 2 ^ 63 - 8"
  shows "sint prev < sint (next_candidate now prev kind)"
  using sint_plus_4 [OF assms]
  by (auto simp: next_candidate_def Let_def sint_with_kind)

lemma next_candidate_kind: "sint (next_candidate now prev kind) mod 4 = sint kind mod 4"
  by (auto simp: next_candidate_def Let_def sint_with_kind)

inductive_cases gen_stepE: "gen_step s s'"

definition gen_inv :: "gen_sys \<Rightarrow> bool" where
  "gen_inv s \<longleftrightarrow> sorted_wrt (\<lambda>a b. sint b < sint a) (issued s)
     \<and> (\<forall>i \<in> set (issued s). sint i \<le> sint (sys_last s))
     \<and> (\<forall>t p c. sys_pc s t = Loaded p c \<longrightarrow> sint p < sint c)"

lemma gen_inv_step:
  assumes "gen_step s s'" and "gen_inv s" and "sint (sys_last s) \<le> 2 ^ 63 - 8"
  shows "gen_inv s'"
  using assms
proof (cases rule: gen_step.cases)
  case (load t now kind)
  with assms show ?thesis
    using next_candidate_greater [OF assms(3)] by (auto simp: gen_inv_def)
next
  case (cas_ok t prev c)
  with assms(2) have "sint (sys_last s) < sint c" by (auto simp: gen_inv_def)
  with cas_ok assms(2) show ?thesis by (fastforce simp: gen_inv_def)
next
  case (cas_fail t prev c)
  with assms(2) show ?thesis by (auto simp: gen_inv_def)
qed

lemma gen_reach_inv: "gen_reach s \<Longrightarrow> gen_inv s"
  by (induction rule: gen_reach.induct) (auto simp: gen_inv_def [of "\<lparr>sys_last = _, sys_pc = _, issued = _\<rparr>"] intro: gen_inv_step)

lemma sorted_wrt_sint_distinct:
  "sorted_wrt (\<lambda>a b. sint b < sint a) (xs :: u64 list) \<Longrightarrow> distinct xs"
  by (induction xs) auto

section \<open>Lemmas: the validator\<close>

lemma map_order_set: "map_order iter \<Longrightarrow> set (iter xs) = set xs"
  by (metis map_order_def set_mset_mset)

lemma map_order_length: "map_order iter \<Longrightarrow> length (iter xs) = length xs"
  by (metis map_order_def size_mset)

lemma map_order_distinct: "map_order iter \<Longrightarrow> distinct (map fst (iter xs)) \<longleftrightarrow> distinct (map fst xs)"
  by (metis map_order_def mset_map mset_eq_imp_distinct_iff)

lemma map_order_id: "map_order id" and map_order_rev: "map_order rev"
  by (simp_all add: map_order_def)

lemma set_evict_subset: "map_order iter \<Longrightarrow> set (evict iter now v) \<subseteq> set (seen v)"
  by (auto simp: evict_def Let_def map_order_set dest!: in_set_dropD)

lemma distinct_evict:
  "map_order iter \<Longrightarrow> distinct (map fst (seen v)) \<Longrightarrow> distinct (map fst (evict iter now v))"
  by (simp add: evict_def Let_def drop_map [symmetric] map_order_distinct distinct_map_filter)

lemma length_evict_less:
  assumes "map_order iter" and "validator_wf v"
  shows "length (evict iter now v) < maxSeen v"
proof -
  let ?sw = "filter (\<lambda>(_, at). \<not> at < now - Behind v) (seen v)"
  have "length ?sw \<le> length (seen v)" by (rule length_filter_le)
  then have le: "length ?sw \<le> maxSeen v" and two: "2 \<le> maxSeen v"
    using assms(2) unfolding validator_wf_def by linarith+
  from two le have "length ?sw - max 1 (length ?sw div 2) < maxSeen v" by simp
  then show ?thesis using assms(1) by (simp add: evict_def Let_def map_order_length)
qed

lemma evict_room: "length (seen v) < maxSeen v \<Longrightarrow> evict iter now v = seen v"
  by (simp add: evict_def)

lemma Check_wf:
  assumes "map_order iter" and "validator_wf v"
  shows "validator_wf (snd (Check iter now i v))"
proof -
  have "distinct (map fst (evict iter now v))" "length (evict iter now v) < maxSeen v" "2 \<le> maxSeen v"
    using assms distinct_evict length_evict_less by (auto simp: validator_wf_def)
  moreover have "i \<notin> fst ` set (seen v) \<Longrightarrow> i \<notin> fst ` set (evict iter now v)"
    using set_evict_subset [OF assms(1)] by auto
  ultimately show ?thesis using assms(2) by (auto simp: Check_def validator_wf_def)
qed

lemma Check_NoneD:
  assumes "Check iter now i v = (None, v')"
  shows "\<not> bit i 0" "- Ahead v \<le> now - id_time i" "now - id_time i \<le> Behind v"
    "i \<notin> fst ` set (seen v)" "v' = v\<lparr>seen := (i, now) # evict iter now v\<rparr>"
  using assms by (auto simp: Check_def bit_iff_odd and_one_eq odd_iff_mod_2_eq_one split: if_splits)

lemma Check_frame:
  "Ahead (snd (Check iter now i v)) = Ahead v" "Behind (snd (Check iter now i v)) = Behind v"
  "maxSeen (snd (Check iter now i v)) = maxSeen v"
  by (simp_all add: Check_def)

lemma Check_Some_unchanged: "Check iter now i v = (Some e, v') \<Longrightarrow> v' = v"
  by (auto simp: Check_def split: if_splits)

lemma Check_run_wf:
  "\<forall>(iter, _, _) \<in> set run. map_order iter \<Longrightarrow> validator_wf v \<Longrightarrow>
     validator_wf (snd (Check_run run v)) \<and> maxSeen (snd (Check_run run v)) = maxSeen v"
proof (induction run v rule: Check_run.induct)
  case (2 iter now i rest v)
  have "validator_wf (snd (Check iter now i v))" using 2(3,4) by (auto intro!: Check_wf)
  moreover have "maxSeen (snd (Check iter now i v)) = maxSeen v" by (rule Check_frame)
  ultimately show ?case using 2
    by (cases "Check iter now i v") (auto split: option.splits prod.splits)
qed simp

lemma Check_run_accepted:
  "(i, t) \<in> set (fst (Check_run run v)) \<Longrightarrow>
     \<not> bit i 0 \<and> - Ahead v \<le> t - id_time i \<and> t - id_time i \<le> Behind v"
proof (induction run v rule: Check_run.induct)
  case (2 iter now j rest v)
  obtain r v' where c: "Check iter now j v = (r, v')" by fastforce
  have "Ahead v' = Ahead v" "Behind v' = Behind v"
    using Check_frame [of iter now j v] c by simp_all
  then show ?case using 2 c Check_NoneD [of iter now j v v']
    by (cases r) (auto split: prod.splits)
qed simp

text \<open>While the table has room nothing is evicted, so nothing accepted is accepted again.\<close>

lemma Check_run_fresh:
  "length (seen v) + length run \<le> maxSeen v \<Longrightarrow>
     distinct (map fst (fst (Check_run run v)))
     \<and> fst ` set (fst (Check_run run v)) \<inter> fst ` set (seen v) = {}"
proof (induction run v rule: Check_run.induct)
  case (2 iter now i rest v)
  obtain r v' where c: "Check iter now i v = (r, v')" by fastforce
  show ?case
  proof (cases r)
    case None
    with c have i: "i \<notin> fst ` set (seen v)" and v': "seen v' = (i, now) # seen v"
      using Check_NoneD [of iter now i v v'] 2(3) by (auto simp: evict_room)
    have "maxSeen v' = maxSeen v" using Check_frame(3) [of iter now i v] c by simp
    with 2(3) v' have "length (seen v') + length rest \<le> maxSeen v'" by simp
    with 2(1) [OF c [symmetric] None] c None i v' show ?thesis
      by (auto split: prod.splits) (metis IntI emptyE fst_conv image_eqI)
  next
    case (Some e)
    with c have "v' = v" using Check_Some_unchanged by blast
    with 2 c Some show ?thesis by auto
  qed
qed simp

section \<open>Properties\<close>

text \<open>C26. However many threads call \<^verbatim>\<open>Next\<close> at once, and whatever their clocks read, the
  identifiers it returns, in the order of the successful compare-and-swaps, are strictly
  increasing as \<^verbatim>\<open>int64\<close> values, and so are never issued twice.\<close>

theorem Next_increasing_under_contention:
  assumes "gen_reach s"
  shows "sorted_wrt (\<lambda>newer older. sint older < sint newer) (issued s) \<and> distinct (issued s)"
  using gen_reach_inv [OF assms] by (auto simp: gen_inv_def sorted_wrt_sint_distinct)

text \<open>A single \<^verbatim>\<open>Next\<close> returns an identifier above the previous one that carries the kind in
  its two low bits, and leaves it as the last one issued.\<close>

theorem Next_greater_and_kind:
  assumes "sint (gen_last g) \<le> 2 ^ 63 - 8"
  shows "case MsgIDGenerator_Next now kind g of (c, g') \<Rightarrow>
           sint (gen_last g) < sint c \<and> sint c mod 4 = sint kind mod 4
           \<and> gen_last g' = c \<and> gen_offset g' = gen_offset g"
  using assms by (simp add: MsgIDGenerator_Next_def Let_def next_candidate_greater next_candidate_kind)

theorem Next_greater_and_kind_witness:
  "MsgIDGenerator_Next 7 3 \<lparr>gen_last = 0x700000000, gen_offset = 0\<rparr>
     = (0x700000007, \<lparr>gen_last = 0x700000007, gen_offset = 0\<rparr>)
   \<and> sint (0x700000000 :: u64) < sint (0x700000007 :: u64)"
proof -
  have e: "MsgIDGenerator_Next 7 3 \<lparr>gen_last = 0x700000000, gen_offset = 0\<rparr>
     = (0x700000007, \<lparr>gen_last = 0x700000007, gen_offset = 0\<rparr>)"
    by (simp add: MsgIDGenerator_Next_def next_candidate_def with_kind_def push_bit_eq_mult)
  show ?thesis
    using Next_greater_and_kind [of "\<lparr>gen_last = 0x700000000, gen_offset = 0\<rparr>" 7 3] e by simp
qed

theorem Next_increasing_under_contention_witness:
  "\<exists>s. gen_reach s \<and> length (issued s) = 1 \<and> distinct (issued s)"
proof -
  let ?s0 = "\<lparr>sys_last = 0, sys_pc = (\<lambda>_. Looping), issued = []\<rparr>"
  let ?c = "next_candidate 7 0 1"
  let ?s1 = "?s0\<lparr>sys_pc := (sys_pc ?s0)(2 := Loaded (sys_last ?s0) (next_candidate 7 (sys_last ?s0) 1))\<rparr>"
  let ?s2 = "?s1\<lparr>sys_last := ?c, sys_pc := (sys_pc ?s1)(2 := Looping), issued := ?c # issued ?s1\<rparr>"
  have "gen_step ?s0 ?s1" by (rule gen_step.load) simp
  then have r1: "gen_reach ?s1" by (rule gen_reach.step [OF gen_reach.start]) simp
  have "gen_step ?s1 ?s2" by (rule gen_step.cas_ok [where prev = 0]) simp_all
  then have "gen_reach ?s2" by (rule gen_reach.step [OF r1]) simp
  with Next_increasing_under_contention [of ?s2] show ?thesis by (intro exI [of _ ?s2]) simp
qed

text \<open>Whatever identifiers a client sends, at whatever times, the validator's replay table
  keeps distinct identifiers and never holds more than 8192 of them, and every identifier it
  accepted was even and at most 300 seconds behind or 30 seconds ahead of the clock.\<close>

theorem Check_bounded_and_windowed:
  assumes "\<forall>(iter, _, _) \<in> set run. map_order iter"
  shows "case Check_run run NewMsgIDValidator of (accepted, v) \<Rightarrow>
           distinct (map fst (seen v)) \<and> length (seen v) \<le> 8192
           \<and> (\<forall>(i, t) \<in> set accepted. \<not> bit i 0
                \<and> t - id_time i \<le> 300 * second_ns \<and> id_time i - t \<le> 30 * second_ns)"
proof -
  have "validator_wf NewMsgIDValidator" by (simp add: validator_wf_def NewMsgIDValidator_def)
  from Check_run_wf [OF assms this]
  show ?thesis
    using Check_run_accepted [of _ _ run NewMsgIDValidator]
    by (fastforce simp: validator_wf_def NewMsgIDValidator_def split: prod.splits)
qed

theorem Check_bounded_and_windowed_witness:
  "case Check_run [(id, 10 * second_ns, 40), (rev, 10 * second_ns, 41), (rev, 10 * second_ns, 40)] NewMsgIDValidator
     of (accepted, v) \<Rightarrow> accepted = [(40, 10 * second_ns)] \<and> length (seen v) \<le> 8192"
proof -
  let ?run = "[(id, 10 * second_ns, 40), (rev, 10 * second_ns, 41), (rev, 10 * second_ns, 40)]"
  have "fst (Check_run ?run NewMsgIDValidator) = [(40, 10 * second_ns)]"
    by (simp add: Check_def NewMsgIDValidator_def id_time_def second_ns_def evict_def)
  then show ?thesis
    using Check_bounded_and_windowed [of ?run] by (auto simp: map_order_def split: prod.splits)
qed

text \<open>C27. The first 8192 checks of a session never accept the same identifier twice.\<close>

theorem Check_no_replay:
  assumes "length run \<le> 8192"
  shows "distinct (map fst (fst (Check_run run NewMsgIDValidator)))"
  using Check_run_fresh [of NewMsgIDValidator run] assms by (simp add: NewMsgIDValidator_def)

theorem Check_no_replay_witness:
  "fst (Check_run [(id, 10 * second_ns, 40), (id, 10 * second_ns, 40)] NewMsgIDValidator) = [(40, 10 * second_ns)]
   \<and> distinct (map fst (fst (Check_run [(id, 10 * second_ns, 40), (id, 10 * second_ns, 40)] NewMsgIDValidator)))"
  using Check_no_replay [of "[(id, 10 * second_ns, 40), (id, 10 * second_ns, 40)]"]
  by (simp add: Check_def NewMsgIDValidator_def id_time_def second_ns_def evict_def)

text \<open>Past the table's capacity the protection ends: when the table is full of entries
  younger than the window, accepting one more identifier deletes half of them in map order, and
  the first of them, though still inside the time window, is then accepted a second time.\<close>

theorem Check_replay_after_eviction:
  assumes "map_order iter" and "validator_wf v" and "length (seen v) = maxSeen v"
    and "\<forall>(_, at) \<in> set (seen v). now - Behind v \<le> at"
    and "iter (seen v) = (x, t) # rest"
    and "fst (Check iter now y v) = None"
    and "\<not> bit x 0" and "now - id_time x \<le> Behind v" and "id_time x - now \<le> Ahead v"
  shows "fst (Check iter now x (snd (Check iter now y v))) = None"
proof -
  have wf: "distinct (map fst (seen v))" and two: "2 \<le> length (seen v)"
    using assms(2,3) by (simp_all add: validator_wf_def)
  have y: "y \<notin> fst ` set (seen v)"
    and v': "snd (Check iter now y v) = v\<lparr>seen := (y, now) # evict iter now v\<rparr>"
    using assms(6) Check_NoneD [of iter now y v "snd (Check iter now y v)"]
    by (metis prod.collapse)+
  have sw: "filter (\<lambda>(_, at). \<not> at < now - Behind v) (seen v) = seen v"
    using assms(4) by (auto simp: filter_id_conv)
  have ev: "evict iter now v = drop (length (seen v) div 2 - 1) rest"
    using two assms(3,5) by (cases "length (seen v) div 2") (auto simp: evict_def sw drop_Cons')
  have "distinct (map fst ((x, t) # rest))"
    using map_order_distinct [OF assms(1), of "seen v"] wf assms(5) by metis
  then have "x \<notin> fst ` set (evict iter now v)" unfolding ev by (auto dest: in_set_dropD)
  moreover have "x \<noteq> y" using y map_order_set [OF assms(1), of "seen v"] assms(5) by force
  ultimately show ?thesis using assms(7-9) unfolding v'
    by (simp add: Check_def bit_iff_odd and_one_eq odd_iff_mod_2_eq_one)
qed

text \<open>A table of the deployed size, filled by 8192 identifiers of one second.\<close>

definition full_table :: "(u64 \<times> int) list" where
  "full_table = map (\<lambda>n. (of_nat (2 * n), 0)) [0..<8192]"

theorem Check_replay_after_eviction_witness:
  "fst (Check id 0 16384 (NewMsgIDValidator\<lparr>seen := full_table\<rparr>)) = None
   \<and> fst (Check id 0 0 (snd (Check id 0 16384 (NewMsgIDValidator\<lparr>seen := full_table\<rparr>)))) = None"
proof -
  let ?v = "NewMsgIDValidator\<lparr>seen := full_table\<rparr>"
  have inj: "(of_nat (2 * m) :: u64) = of_nat (2 * n) \<longleftrightarrow> m = n" if "m \<le> 8192" "n \<le> 8192" for m n
  proof -
    have "unat (of_nat (2 * k) :: u64) = 2 * k" if "k \<le> 8192" for k
      using that by (intro unat_of_nat_small) simp
    from this [of m] this [of n] that show ?thesis by (metis mult_cancel1 zero_neq_numeral)
  qed
  have d: "distinct (map fst full_table)" "length full_table = 8192"
    using inj by (auto simp: full_table_def distinct_map inj_on_def)
  have c: "full_table = (0, 0) # tl full_table"
    unfolding full_table_def by (subst (1 2) upt_conv_Cons) (simp_all only: list.map list.sel, simp_all)
  have y: "16384 \<notin> fst ` set full_table"
    using inj [of 8192] by (force simp: full_table_def)
  have "fst (Check id 0 16384 ?v) = None"
    using y by (simp add: Check_def NewMsgIDValidator_def id_time_def second_ns_def)
  moreover have "\<forall>(_, at) \<in> set full_table. at = 0" by (auto simp: full_table_def)
  moreover have "fst (Check id 0 0 (snd (Check id 0 16384 ?v))) = None"
  proof (rule Check_replay_after_eviction)
    show "id (seen ?v) = (0, 0) # tl full_table" using c by simp
  qed (use d calculation in \<open>simp_all add: map_order_id validator_wf_def NewMsgIDValidator_def
        id_time_def second_ns_def case_prod_beta\<close>)
  ultimately show ?thesis by blast
qed

text \<open>Identifiers hold 31 bits of seconds: from 300 seconds past the end of January 19th 2038
  on, the validator rejects every identifier a client can send.\<close>

theorem Check_rejects_everything_after_2038:
  assumes "(2 ^ 31 + 300) * second_ns \<le> now"
  shows "Check iter now i NewMsgIDValidator
           = (Some (if bit i 0 then ErrMsgIDParity else ErrMsgIDTooOld), NewMsgIDValidator)"
proof -
  have "sint i < 2 ^ 63" using sint_less [of i] by simp
  then have "sint i div 2 ^ 32 \<le> 2 ^ 31 - 1" by simp
  then have "id_time i \<le> (2 ^ 31 - 1) * second_ns"
    unfolding id_time_def second_ns_def by (intro mult_right_mono) simp_all
  with assms have "300 * second_ns < now - id_time i" by (simp add: second_ns_def algebra_simps)
  then show ?thesis by (auto simp: Check_def NewMsgIDValidator_def bit_iff_odd and_one_eq odd_iff_mod_2_eq_one)
qed

theorem Check_rejects_everything_after_2038_witness:
  "fst (Check id ((2 ^ 31 + 300) * second_ns) (with_kind (push_bit 32 (2 ^ 31 - 1)) 0) NewMsgIDValidator)
     = Some ErrMsgIDTooOld"
  using Check_rejects_everything_after_2038 [of "(2 ^ 31 + 300) * second_ns" id "with_kind (push_bit 32 (2 ^ 31 - 1)) 0"]
  by (simp add: with_kind_def push_bit_eq_mult)

text \<open>While fewer than \<open>2^30\<close> content messages have been sent, the sequence number \<^verbatim>\<open>Next\<close>
  returns tells the receiver, through \<^verbatim>\<open>IsContentRelated\<close>, whether the message is content, and a
  content message takes the number twice the old counter plus one.\<close>

theorem SeqNo_Next_parity:
  assumes "unat n < 2 ^ 30"
  shows "case SeqNo_Next content n of (q, n') \<Rightarrow>
           (IsContentRelated (m\<lparr>SeqNo := q\<rparr>) \<longleftrightarrow> content)
           \<and> unat q = 2 * unat n + (if content then 1 else 0)
           \<and> unat n' = unat n + (if content then 1 else 0)"
proof -
  have b: "unat (of_nat k :: u32) = k" "sint (of_nat k :: u32) = int k" if "k < 2 ^ 31" for k
    using that by (simp_all add: unat_of_nat_small signed_of_nat signed_take_bit_int_eq_self)
  define k where "k = unat n"
  then have k: "n = of_nat k" "k < 2 ^ 30" using assms by simp_all
  have "SeqNo_Next content n = (of_nat (2 * k + (if content then 1 else 0)), of_nat (k + (if content then 1 else 0)))"
    by (simp add: SeqNo_Next_def k Let_def algebra_simps)
  then show ?thesis using k b [of "2 * k"] b [of "2 * k + 1"] b [of k] b [of "k + 1"]
    by (simp add: IsContentRelated_def go_rem_def zmod_int sgn_if add.commute)
qed

theorem SeqNo_Next_parity_witness:
  "SeqNo_Next True 20 = (41, 21)
   \<and> IsContentRelated \<lparr>Salt = 0, SessionID = 0, MsgID = 0, SeqNo = 41, Body = []\<rparr>"
  using SeqNo_Next_parity [of 20 "\<lparr>Salt = 0, SessionID = 0, MsgID = 0, SeqNo = 0, Body = []\<rparr>" True]
  by (simp add: SeqNo_Next_def)

end
