(* ===== verification/Gateway.thy ===== *)
theory Gateway
  imports Auth_Service Presence Handshake Payload Msg_Ids
begin

text \<open>
  The realtime gateway, \<^verbatim>\<open>services/realtime-gateway/internal\<close>: the sessions of client connections (\<^verbatim>\<open>session.go\<close>), the routing of
  decrypted messages (\<^verbatim>\<open>dispatch.go\<close>), the store of keys and bindings in Redis (\<^verbatim>\<open>sessionstore.go\<close>), the registry of update channels
  (\<^verbatim>\<open>gateway.go\<close>) and the calls to the services behind (\<^verbatim>\<open>upstream.go\<close>).

  A session is a record; the rest is the world: Redis, the registry of the pod, the events published, and the log of calls made
  and of identities the auth service confirmed.  An environment says what one step meets: the time, the calls that fail, the
  answers of the services and what is drawn at random.  \<^verbatim>\<open>encoding/json\<close> is a parameter.
\<close>

section \<open>Requests of the client\<close>

record AuthBind =
  ab_AccessToken :: string
  ab_Platform :: string
  ab_AppVersion :: string
  ab_DeviceModel :: string
  ab_LangCode :: string
  ab_PushToken :: string

record AuthBindResult =
  br_UserID :: int
  br_DeviceID :: int
  br_ServerSalt :: u64
  br_SessionID :: u64
  br_ServerTime :: int
  br_QTS :: int

record SendMessage_rpc =
  rs_ChatID :: int
  rs_Type :: string
  rs_Body :: string
  rs_RandomID :: int
  rs_ReplyToSeq :: int
  rs_MediaObject :: string
  rs_MediaMime :: string
  rs_MediaSize :: int
  rs_Encrypted :: bool

record GetHistory_rpc =
  rh_ChatID :: int
  rh_BeforeSeq :: int
  rh_Limit :: int

record GetDifference_rpc =
  rd_Cursors :: "(int \<times> int) list"
  rd_Limit :: int

record ReadHistory_rpc =
  rx_ChatID :: int
  rx_MaxSeq :: int

record SetTyping_rpc =
  ry_ChatID :: int
  ry_Action :: string

record GetDialogs_rpc =
  rg_IncludeArchived :: bool
  rg_Limit :: int
  rg_Offset :: int

section \<open>Calls to the services\<close>

text \<open>What is asked of the chat service; optional parameters are there or not.\<close>

datatype upstream_call =
  PostMessages int string string int int bool "(string \<times> string \<times> int) option"
| GetMessages int int "int option"
| PostDifference "(int \<times> int) list" int
| PostRead int int
| ListDialogs int int bool
| PostTyping int string

definition Upstream_SendMessage :: "SendMessage_rpc \<Rightarrow> upstream_call" where
  "Upstream_SendMessage req =
     PostMessages (rs_ChatID req) (rs_Type req) (rs_Body req) (rs_RandomID req) (rs_ReplyToSeq req) (rs_Encrypted req)
       (if rs_MediaObject req \<noteq> '''' then Some (rs_MediaObject req, rs_MediaMime req, rs_MediaSize req) else None)"

definition Upstream_GetHistory :: "GetHistory_rpc \<Rightarrow> upstream_call" where
  "Upstream_GetHistory req = GetMessages (rh_ChatID req) (rh_Limit req) (if 0 < rh_BeforeSeq req then Some (rh_BeforeSeq req) else None)"

definition Upstream_GetDifference :: "GetDifference_rpc \<Rightarrow> upstream_call" where
  "Upstream_GetDifference req = PostDifference (rd_Cursors req) (rd_Limit req)"

definition Upstream_ReadHistory :: "ReadHistory_rpc \<Rightarrow> upstream_call" where
  "Upstream_ReadHistory req = PostRead (rx_ChatID req) (rx_MaxSeq req)"

definition Upstream_GetDialogs :: "GetDialogs_rpc \<Rightarrow> upstream_call" where
  "Upstream_GetDialogs req = ListDialogs (rg_Limit req) (rg_Offset req) (rg_IncludeArchived req)"

definition Upstream_SetTyping :: "SetTyping_rpc \<Rightarrow> upstream_call" where
  "Upstream_SetTyping req = PostTyping (ry_ChatID req) (ry_Action req)"

record UpstreamError =
  ux_Status :: int
  ux_Code :: string
  ux_Message :: string
  ux_RetryAfter :: int

text \<open>A response of the service with an error, or no usable response.\<close>

datatype call_error = Answered UpstreamError | Unreachable

text \<open>The error of a response: its envelope, the text of the status, the header.\<close>

definition decodeUpstreamError :: "int \<Rightarrow> string \<Rightarrow> string \<Rightarrow> int \<Rightarrow> string \<Rightarrow> int option \<Rightarrow> UpstreamError" where
  "decodeUpstreamError status code message retryAfter statusText header =
     \<lparr>ux_Status = status, ux_Code = (if code = '''' then statusText else code), ux_Message = message,
      ux_RetryAfter = (if retryAfter = 0 then (case header of None \<Rightarrow> 0 | Some v \<Rightarrow> v) else retryAfter)\<rparr>"

record raw_dialog =
  rw_ChatID :: int
  rw_Type :: string
  rw_Title :: string
  rw_MaxSeq :: int
  rw_LastReadSeq :: int
  rw_UnreadCount :: int
  rw_Pinned :: bool
  rw_Archived :: bool
  rw_Peer :: "int option"
  rw_MutedUntil :: "int option"

record DialogEntry =
  de_ChatID :: int
  de_Type :: string
  de_Title :: string
  de_PeerID :: int
  de_MaxSeq :: int
  de_LastReadSeq :: int
  de_UnreadCount :: int
  de_Muted :: bool
  de_Pinned :: bool
  de_Archived :: bool

definition dialog_entry :: "int \<Rightarrow> raw_dialog \<Rightarrow> DialogEntry" where
  "dialog_entry now d =
     \<lparr>de_ChatID = rw_ChatID d, de_Type = rw_Type d, de_Title = rw_Title d,
      de_PeerID = (case rw_Peer d of None \<Rightarrow> 0 | Some p \<Rightarrow> p), de_MaxSeq = rw_MaxSeq d, de_LastReadSeq = rw_LastReadSeq d,
      de_UnreadCount = rw_UnreadCount d, de_Muted = (case rw_MutedUntil d of None \<Rightarrow> False | Some t \<Rightarrow> now < t),
      de_Pinned = rw_Pinned d, de_Archived = rw_Archived d\<rparr>"

section \<open>State\<close>

record Binding =
  bd_UserID :: int
  bd_DeviceID :: int

record NewSessionCreated =
  nsc_FirstMsgID :: u64
  nsc_UniqueID :: u64
  nsc_ServerSalt :: u64

text \<open>What the gateway encodes.\<close>

datatype gw_value =
  VResPQ ResPQ | VServerDHParams ServerDHParams | VDHGenOK DHGenOK | VHandshakeError string
| VPong Pong | VMsgsAck "u64 list" | VBadMsg BadMsgNotification | VBadSalt BadServerSalt | VNewSession NewSessionCreated
| VOK | VResult u64 bytes | VError RPCError | VUpdate Update

record Session =
  ss_handshake :: ServerHandshake
  ss_authKey :: "AuthKey option"
  ss_sessionID :: u64
  ss_salt :: u64
  ss_msgIDs :: MsgIDGenerator
  ss_seqNo :: u32
  ss_validator :: MsgIDValidator
  ss_userID :: int
  ss_deviceID :: int
  ss_out :: "Update list"
  ss_pendingAcks :: "u64 list"
  ss_channels :: "string list"
  ss_closed :: bool
  ss_writing :: bool
  ss_idle :: int
  ss_ip :: string
  ss_kind :: string
  ss_wire :: "bytes list"

record gw_world =
  gw_keys :: "(string \<times> (bytes \<times> int)) list"
  gw_bindings :: "(string \<times> (Binding \<times> int)) list"
  gw_presence :: presence
  gw_events :: "PresenceEvent list"
  gw_buckets :: buckets
  gw_registry :: "(string \<times> nat list) list"
  gw_subs :: "(string \<times> int) list"
  gw_calls :: "(int \<times> int \<times> upstream_call) list"
  gw_resolved :: "(string \<times> string \<times> int \<times> int) list"

datatype gw_call =
  GWrite | GLimit | GSave | GLoad | GLoadBinding | GSaveBinding | GDelete | GExpire | GSubscribe | GOnline | GOffline | GBeat | GPublish

record gw_env =
  ge_now :: int
  ge_down :: "gw_call \<Rightarrow> bool"
  ge_salt :: "u64 option"
  ge_entropy :: bytes
  ge_primes :: "nat option list"
  ge_dh :: "nat option"
  ge_dh_pad :: bytes
  ge_pad :: "u64 \<Rightarrow> bytes"
  ge_iter :: "(u64 \<times> int) list \<Rightarrow> (u64 \<times> int) list"
  ge_resolve :: "resolveTokenRequest \<Rightarrow> call_error + resolveTokenResponse"
  ge_answer :: "upstream_call \<Rightarrow> call_error + bytes"
  ge_dialogs :: "upstream_call \<Rightarrow> call_error + raw_dialog list"

record gw_lib =
  gl_hs :: hs_lib
  gl_marshal :: "gw_value \<Rightarrow> bytes option"
  gl_req_pq :: "bytes \<Rightarrow> bytes option"
  gl_req_dh :: "bytes \<Rightarrow> ReqDHParams option"
  gl_set_dh :: "bytes \<Rightarrow> SetClientDHParams option"
  gl_ping :: "bytes \<Rightarrow> Ping"
  gl_container :: "bytes \<Rightarrow> ContainedMessage list option"
  gl_bind :: "bytes \<Rightarrow> AuthBind option"
  gl_send :: "bytes \<Rightarrow> SendMessage_rpc option"
  gl_history :: "bytes \<Rightarrow> GetHistory_rpc option"
  gl_difference :: "bytes \<Rightarrow> GetDifference_rpc option"
  gl_read :: "bytes \<Rightarrow> ReadHistory_rpc option"
  gl_typing :: "bytes \<Rightarrow> SetTyping_rpc option"
  gl_dialogs :: "bytes \<Rightarrow> GetDialogs_rpc option"
  gl_bind_result :: "AuthBindResult \<Rightarrow> bytes option"
  gl_dialog_list :: "DialogEntry list \<Rightarrow> bytes option"
  gl_ok :: "bytes option"

record gw_cfg =
  gc_fingerprint :: u64
  gc_HandshakeTimeout :: int
  gc_SessionTTL :: int
  gc_PingInterval :: int
  gc_IdleTimeout :: int
  gc_UpdateQueueSize :: nat
  gc_PodName :: string
  gc_Region :: string

datatype gw_error =
  UnreadableFrame mt_error | PlainOnEncrypted | UnknownAuthKey | DecryptFailed mt_error | MalformedPlain mt_error | BadPayload mt_error
| HandshakeLimited | HandshakeFailed mt_error | HandshakeUnfinished | StoreFailed | SaltFailed mt_error | NotBeforeAuth u32
| NotEncrypted | EncodeFailed mt_error | WriteFailed

definition ms_of :: "gw_env \<Rightarrow> int" where "ms_of e = ge_now e div 1000000"

definition unix_of :: "gw_env \<Rightarrow> int" where "unix_of e = ge_now e div 1000000000"

text \<open>\<open>i\<close> names the session in the registry of the pod.\<close>

definition NewSession :: "gw_cfg \<Rightarrow> int \<Rightarrow> string \<Rightarrow> string \<Rightarrow> Session" where
  "NewSession cfg now ip kind =
     \<lparr>ss_handshake = NewServerHandshake (gc_fingerprint cfg) now (gc_HandshakeTimeout cfg), ss_authKey = None, ss_sessionID = 0, ss_salt = 0,
      ss_msgIDs = \<lparr>gen_last = 0, gen_offset = 0\<rparr>, ss_seqNo = 0, ss_validator = NewMsgIDValidator, ss_userID = 0, ss_deviceID = 0,
      ss_out = [], ss_pendingAcks = [], ss_channels = [], ss_closed = False, ss_writing = True, ss_idle = gc_IdleTimeout cfg,
      ss_ip = ip, ss_kind = kind, ss_wire = []\<rparr>"

section \<open>The session store\<close>

definition keyAuth :: "u64 \<Rightarrow> string" where
  "keyAuth i = ''authkey:{'' @ AuthKeyIDHex i @ ''}''"

definition keyBinding :: "u64 \<Rightarrow> string" where
  "keyBinding i = ''authbind:{'' @ AuthKeyIDHex i @ ''}''"

definition session_ttl :: "gw_cfg \<Rightarrow> int" where
  "session_ttl cfg = (if gc_SessionTTL cfg = 0 then 2592000000 else gc_SessionTTL cfg)"

definition live_entry :: "int \<Rightarrow> (string \<times> ('a \<times> int)) list \<Rightarrow> string \<Rightarrow> 'a option" where
  "live_entry now al k = (case map_of al k of None \<Rightarrow> None | Some (v, expires) \<Rightarrow> if now < expires then Some v else None)"

definition Store_Save :: "gw_cfg \<Rightarrow> gw_env \<Rightarrow> AuthKey \<Rightarrow> gw_world \<Rightarrow> bool \<times> gw_world" where
  "Store_Save cfg e key w =
     (if ge_down e GSave then (False, w)
      else (True, w\<lparr>gw_keys := AList.update (keyAuth (ak_id key)) (ak_raw key, ms_of e + session_ttl cfg) (gw_keys w)\<rparr>))"

definition Store_Load :: "gw_cfg \<Rightarrow> gw_env \<Rightarrow> u64 \<Rightarrow> gw_world \<Rightarrow> AuthKey option \<times> gw_world" where
  "Store_Load cfg e i w =
     (if ge_down e GLoad then (None, w)
      else case live_entry (ms_of e) (gw_keys w) (keyAuth i) of
        None \<Rightarrow> (None, w)
      | Some raw \<Rightarrow>
          (case NewAuthKey raw of
             Inl _ \<Rightarrow> (None, w)
           | Inr key \<Rightarrow>
               if ak_id key \<noteq> i then (None, w)
               else (Some key,
                     if ge_down e GExpire then w
                     else w\<lparr>gw_keys := AList.update (keyAuth i) (raw, ms_of e + session_ttl cfg) (gw_keys w)\<rparr>)))"

definition SaveBinding :: "gw_cfg \<Rightarrow> gw_env \<Rightarrow> u64 \<Rightarrow> Binding \<Rightarrow> gw_world \<Rightarrow> gw_world" where
  "SaveBinding cfg e i b w =
     (if ge_down e GSaveBinding then w
      else w\<lparr>gw_bindings := AList.update (keyBinding i) (b, ms_of e + session_ttl cfg) (gw_bindings w)\<rparr>)"

definition LoadBinding :: "gw_cfg \<Rightarrow> gw_env \<Rightarrow> u64 \<Rightarrow> gw_world \<Rightarrow> Binding option \<times> gw_world" where
  "LoadBinding cfg e i w =
     (if ge_down e GLoadBinding then (None, w)
      else case live_entry (ms_of e) (gw_bindings w) (keyBinding i) of
        None \<Rightarrow> (None, w)
      | Some b \<Rightarrow>
          (Some b, if ge_down e GExpire then w
                   else w\<lparr>gw_bindings := AList.update (keyBinding i) (b, ms_of e + session_ttl cfg) (gw_bindings w)\<rparr>))"

definition Store_Delete :: "gw_env \<Rightarrow> u64 \<Rightarrow> gw_world \<Rightarrow> gw_world" where
  "Store_Delete e i w =
     (if ge_down e GDelete then w
      else w\<lparr>gw_keys := AList.delete (keyAuth i) (gw_keys w), gw_bindings := AList.delete (keyBinding i) (gw_bindings w)\<rparr>)"

section \<open>Writing\<close>

definition write_frame :: "gw_env \<Rightarrow> bytes \<Rightarrow> Session \<Rightarrow> gw_error option \<times> Session" where
  "write_frame e frame s = (if ge_down e GWrite then (Some WriteFailed, s) else (None, s\<lparr>ss_wire := ss_wire s @ [frame]\<rparr>))"

definition sendPlain :: "gw_lib \<Rightarrow> gw_env \<Rightarrow> ConstructorName \<Rightarrow> gw_value \<Rightarrow> Session \<Rightarrow> gw_error option \<times> Session" where
  "sendPlain lib e c v s =
     (case Encode (gl_marshal lib) (constructor_id c) v of
        Inl err \<Rightarrow> (Some (EncodeFailed err), s)
      | Inr payload \<Rightarrow>
          (case MsgIDGenerator_Next (of_int (unix_of e)) KindFromServerResponse (ss_msgIDs s) of
             (i, g) \<Rightarrow> write_frame e (EncodePlain i payload) (s\<lparr>ss_msgIDs := g\<rparr>)))"

definition sendEncrypted :: "gw_lib \<Rightarrow> gw_env \<Rightarrow> ConstructorName \<Rightarrow> gw_value \<Rightarrow> bool \<Rightarrow> Session \<Rightarrow> gw_error option \<times> Session" where
  "sendEncrypted lib e c v contentRelated s =
     (case ss_authKey s of
        None \<Rightarrow> (Some NotEncrypted, s)
      | Some key \<Rightarrow>
          (case Encode (gl_marshal lib) (constructor_id c) v of
             Inl err \<Rightarrow> (Some (EncodeFailed err), s)
           | Inr payload \<Rightarrow>
               (case MsgIDGenerator_Next (of_int (unix_of e)) (if contentRelated then KindFromServerResponse else KindFromServerPush) (ss_msgIDs s) of
                  (i, g) \<Rightarrow>
                    (case SeqNo_Next contentRelated (ss_seqNo s) of
                       (seqno, n) \<Rightarrow>
                         let msg = \<lparr>Salt = ss_salt s, SessionID = ss_sessionID s, MsgID = i, SeqNo = seqno, Body = payload\<rparr>;
                             s' = s\<lparr>ss_msgIDs := g, ss_seqNo := n\<rparr>
                         in case Encrypt key msg ServerToClient (ge_pad e i) of
                              Inl err \<Rightarrow> (Some (EncodeFailed err), s')
                            | Inr frame \<Rightarrow> write_frame e frame s'))))"

definition sendService :: "gw_lib \<Rightarrow> gw_env \<Rightarrow> ConstructorName \<Rightarrow> gw_value \<Rightarrow> Session \<Rightarrow> Session" where
  "sendService lib e c v s = snd (sendEncrypted lib e c v False s)"

definition rpcErrorMsg :: "gw_lib \<Rightarrow> gw_env \<Rightarrow> u64 \<Rightarrow> u32 \<Rightarrow> string \<Rightarrow> Session \<Rightarrow> Session" where
  "rpcErrorMsg lib e reqMsgID code message s =
     snd (sendEncrypted lib e CRPCError (VError \<lparr>rpc_ReqMsgID = reqMsgID, rpc_Code = code, rpc_Message = message\<rparr>) True s)"

definition rpcResult :: "gw_lib \<Rightarrow> gw_env \<Rightarrow> u64 \<Rightarrow> bytes option \<Rightarrow> Session \<Rightarrow> Session" where
  "rpcResult lib e reqMsgID result s =
     (case result of
        None \<Rightarrow> rpcErrorMsg lib e reqMsgID 500 ''ENCODE_FAILED'' s
      | Some body \<Rightarrow> snd (sendEncrypted lib e CRPCResult (VResult reqMsgID body) True s))"

definition Session_reply :: "gw_lib \<Rightarrow> gw_env \<Rightarrow> u64 \<Rightarrow> call_error + bytes option \<Rightarrow> Session \<Rightarrow> Session" where
  "Session_reply lib e reqMsgID r s =
     (case r of
        Inr result \<Rightarrow> rpcResult lib e reqMsgID result s
      | Inl (Answered ue) \<Rightarrow>
          if ux_Status ue = 429 \<and> 0 < ux_RetryAfter ue then
            rpcErrorMsg lib e reqMsgID (rpc_Code (Payload.FloodWait (ux_RetryAfter ue))) (rpc_Message (Payload.FloodWait (ux_RetryAfter ue))) s
          else rpcErrorMsg lib e reqMsgID (of_int (ux_Status ue)) (ux_Code ue) s
      | Inl Unreachable \<Rightarrow> rpcErrorMsg lib e reqMsgID 503 ''INTERNAL'' s)"

definition queueAck :: "u64 \<Rightarrow> Session \<Rightarrow> Session" where
  "queueAck i s = s\<lparr>ss_pendingAcks := ss_pendingAcks s @ [i]\<rparr>"

definition flushAcks :: "gw_lib \<Rightarrow> gw_env \<Rightarrow> Session \<Rightarrow> Session" where
  "flushAcks lib e s =
     (if ss_pendingAcks s = [] then s
      else sendService lib e CMsgsAck (VMsgsAck (ss_pendingAcks s)) (s\<lparr>ss_pendingAcks := []\<rparr>))"

definition Enqueue :: "gw_cfg \<Rightarrow> Update \<Rightarrow> Session \<Rightarrow> Session" where
  "Enqueue cfg u s =
     (if ss_closed s then s
      else if length (ss_out s) < gc_UpdateQueueSize cfg then s\<lparr>ss_out := ss_out s @ [u]\<rparr> else s)"

definition sendUpdate :: "gw_lib \<Rightarrow> gw_env \<Rightarrow> Update \<Rightarrow> Session \<Rightarrow> gw_error option \<times> Session" where
  "sendUpdate lib e u s = (if ss_authKey s = None then (None, s) else sendEncrypted lib e CUpdate (VUpdate u) True s)"

text \<open>One turn of the writer that takes an update; it stops at the first one it cannot send.\<close>

definition writeLoop_update :: "gw_lib \<Rightarrow> gw_env \<Rightarrow> Session \<Rightarrow> Session" where
  "writeLoop_update lib e s =
     (if \<not> ss_writing s then s
      else case ss_out s of
        [] \<Rightarrow> s
      | u # rest \<Rightarrow>
          (case sendUpdate lib e u (s\<lparr>ss_out := rest\<rparr>) of
             (None, s') \<Rightarrow> s'
           | (Some _, s') \<Rightarrow> s'\<lparr>ss_writing := False\<rparr>))"

section \<open>Channels and identity\<close>

definition ChannelUser :: "int \<Rightarrow> string" where
  "ChannelUser userID = ''u:'' @ itoa userID"

definition sub_count :: "gw_world \<Rightarrow> string \<Rightarrow> int" where
  "sub_count w c = (case map_of (gw_subs w) c of None \<Rightarrow> 0 | Some n \<Rightarrow> n)"

definition Sub_Add :: "gw_env \<Rightarrow> string \<Rightarrow> gw_world \<Rightarrow> bool \<times> gw_world" where
  "Sub_Add e channel w =
     (let n = sub_count w channel; w' = w\<lparr>gw_subs := AList.update channel (n + 1) (gw_subs w)\<rparr>
      in if 0 < n then (True, w')
         else if ge_down e GSubscribe then (False, w'\<lparr>gw_subs := AList.update channel n (gw_subs w')\<rparr>)
         else (True, w'))"

definition Sub_Remove :: "string \<Rightarrow> gw_world \<Rightarrow> gw_world" where
  "Sub_Remove channel w =
     (let n = sub_count w channel
      in w\<lparr>gw_subs := (if n \<le> 1 then AList.delete channel (gw_subs w) else AList.update channel (n - 1) (gw_subs w))\<rparr>)"

definition registered :: "gw_world \<Rightarrow> string \<Rightarrow> nat list" where
  "registered w c = (case map_of (gw_registry w) c of None \<Rightarrow> [] | Some is \<Rightarrow> is)"

definition unsubscribe :: "nat \<Rightarrow> string \<Rightarrow> gw_world \<Rightarrow> gw_world" where
  "unsubscribe i channel w =
     (let rest = removeAll i (registered w channel)
      in Sub_Remove channel
           (w\<lparr>gw_registry := (if rest = [] then AList.delete channel (gw_registry w) else AList.update channel rest (gw_registry w))\<rparr>))"

definition subscribe :: "gw_env \<Rightarrow> nat \<Rightarrow> string \<Rightarrow> gw_world \<Rightarrow> bool \<times> gw_world" where
  "subscribe e i channel w =
     (case Sub_Add e channel (w\<lparr>gw_registry := AList.update channel (List.insert i (registered w channel)) (gw_registry w)\<rparr>) of
        (True, w') \<Rightarrow> (True, w')
      | (False, w') \<Rightarrow> (False, unsubscribe i channel w'))"

definition publishPresence :: "gw_env \<Rightarrow> int \<Rightarrow> int \<Rightarrow> PresenceState \<Rightarrow> gw_world \<Rightarrow> gw_world" where
  "publishPresence e userID deviceID state w =
     (if ge_down e GPublish then w
      else w\<lparr>gw_events := gw_events w @ [\<lparr>pe_UserID = userID, pe_DeviceID = deviceID, pe_State = state, pe_At = ms_of e\<rparr>]\<rparr>)"

definition presence_ttl :: "gw_cfg \<Rightarrow> int" where
  "presence_ttl cfg = PresenceOf (gc_PingInterval cfg * 3)"

definition attachIdentity :: "gw_cfg \<Rightarrow> gw_env \<Rightarrow> nat \<Rightarrow> int \<Rightarrow> int \<Rightarrow> Session \<times> gw_world \<Rightarrow> bool \<times> Session \<times> gw_world" where
  "attachIdentity cfg e i userID deviceID sw =
     (case sw of (s, w) \<Rightarrow>
        let channel = ChannelUser userID;
            (ok, s', w') =
              (if channel \<in> set (ss_channels s) then (True, s, w)
               else case subscribe e i channel w of
                 (True, w1) \<Rightarrow> (True, s\<lparr>ss_channels := channel # ss_channels s\<rparr>, w1)
               | (False, w1) \<Rightarrow> (False, s, w1))
        in if \<not> ok then (False, s', w')
           else
             let r = \<lparr>ro_DeviceID = deviceID, ro_Pod = gc_PodName cfg, ro_Region = gc_Region cfg, ro_Since = 0, ro_Platform = ss_kind s\<rparr>;
                 w2 = w'\<lparr>gw_presence := snd (Online (ge_down e GOnline) (presence_ttl cfg) (ms_of e) userID r (gw_presence w'))\<rparr>
             in (True, s', publishPresence e userID deviceID PresenceOnline w2))"

section \<open>The handshake\<close>

definition handle_ReqPQ :: "gw_lib \<Rightarrow> gw_env \<Rightarrow> bytes \<Rightarrow> Session \<Rightarrow> gw_error option \<times> Session" where
  "handle_ReqPQ lib e payload s =
     (case Decode (gl_req_pq lib) payload of
        Inl err \<Rightarrow> (Some (BadPayload err), s)
      | Inr nonce \<Rightarrow>
          (case Server_ReqPQ (ge_now e) (ge_entropy e) (ge_primes e) nonce (ss_handshake s) of
             None \<Rightarrow> (Some HandshakeUnfinished, s)
           | Some (Inl err, h) \<Rightarrow> (Some (HandshakeFailed err), s\<lparr>ss_handshake := h\<rparr>)
           | Some (Inr res, h) \<Rightarrow> sendPlain lib e CResPQ (VResPQ res) (s\<lparr>ss_handshake := h\<rparr>)))"

definition handle_ReqDHParams :: "gw_lib \<Rightarrow> gw_env \<Rightarrow> bytes \<Rightarrow> Session \<Rightarrow> gw_error option \<times> Session" where
  "handle_ReqDHParams lib e payload s =
     (case Decode (gl_req_dh lib) payload of
        Inl err \<Rightarrow> (Some (BadPayload err), s)
      | Inr req \<Rightarrow>
          (case Server_ReqDHParams (gl_hs lib) (ge_now e) (ge_dh e) (ge_dh_pad e) req (ss_handshake s) of
             (Inl err, h) \<Rightarrow>
               (Some (HandshakeFailed err), snd (sendPlain lib e CHandshakeError (VHandshakeError ''DH_PARAMS_INVALID'') (s\<lparr>ss_handshake := h\<rparr>)))
           | (Inr res, h) \<Rightarrow> sendPlain lib e CServerDHParams (VServerDHParams res) (s\<lparr>ss_handshake := h\<rparr>)))"

definition handle_SetClientDHParams ::
  "gw_lib \<Rightarrow> gw_cfg \<Rightarrow> gw_env \<Rightarrow> bytes \<Rightarrow> Session \<times> gw_world \<Rightarrow> gw_error option \<times> Session \<times> gw_world" where
  "handle_SetClientDHParams lib cfg e payload sw =
     (case sw of (s, w) \<Rightarrow>
        (case Decode (gl_set_dh lib) payload of
           Inl err \<Rightarrow> (Some (BadPayload err), s, w)
         | Inr req \<Rightarrow>
             (case Server_SetClientDHParams (gl_hs lib) (ge_now e) req (ss_handshake s) of
                (Inl err, h) \<Rightarrow>
                  (Some (HandshakeFailed err), snd (sendPlain lib e CHandshakeError (VHandshakeError ''DH_GEN_FAILED'') (s\<lparr>ss_handshake := h\<rparr>)), w)
              | (Inr (key, ok), h) \<Rightarrow>
                  let s1 = s\<lparr>ss_handshake := h\<rparr>
                  in (case Store_Save cfg e key w of
                       (False, w1) \<Rightarrow>
                         (Some StoreFailed, snd (sendPlain lib e CHandshakeError (VHandshakeError ''SESSION_STORE_FAILED'') s1), w1)
                     | (True, w1) \<Rightarrow>
                         let s2 = s1\<lparr>ss_authKey := Some key\<rparr>
                         in (case NewSalt (ge_salt e) of
                              Inl err \<Rightarrow> (Some (SaltFailed err), s2, w1)
                            | Inr salt \<Rightarrow> (case sendPlain lib e CDHGenOK (VDHGenOK ok) (s2\<lparr>ss_salt := salt\<rparr>) of (r, s3) \<Rightarrow> (r, s3, w1)))))))"

definition constructor_of :: "ConstructorID \<Rightarrow> ConstructorName option" where
  "constructor_of c = find (\<lambda>n. constructor_id n = c) all_constructors"

definition handlePlain :: "gw_lib \<Rightarrow> gw_cfg \<Rightarrow> gw_env \<Rightarrow> bytes \<Rightarrow> Session \<times> gw_world \<Rightarrow> gw_error option \<times> Session \<times> gw_world" where
  "handlePlain lib cfg e frame sw =
     (case sw of (s, w) \<Rightarrow>
        (case DecodePlain frame of
           Inl err \<Rightarrow> (Some (MalformedPlain err), s, w)
         | Inr (_, payload) \<Rightarrow>
             (case PeekConstructor payload of
                Inl err \<Rightarrow> (Some (BadPayload err), s, w)
              | Inr c \<Rightarrow>
                  (case Allow True (ge_down e GLimit) (ms_of e) (KeyIP ''handshake'' (ss_ip s)) HandshakePerIP (gw_buckets w) of
                     (d, err, b) \<Rightarrow>
                       let w1 = w\<lparr>gw_buckets := b\<rparr>
                       in if err = None \<and> \<not> Allowed d then (Some HandshakeLimited, s, w1)
                          else case constructor_of c of
                            Some CReqPQ \<Rightarrow> (case handle_ReqPQ lib e payload s of (r, s') \<Rightarrow> (r, s', w1))
                          | Some CReqDHParams \<Rightarrow> (case handle_ReqDHParams lib e payload s of (r, s') \<Rightarrow> (r, s', w1))
                          | Some CSetClientDHParams \<Rightarrow> handle_SetClientDHParams lib cfg e payload (s, w1)
                          | _ \<Rightarrow> (Some (NotBeforeAuth c), s, w1)))))"

section \<open>Dispatch\<close>

definition handlePing :: "gw_lib \<Rightarrow> gw_env \<Rightarrow> Message \<Rightarrow> Session \<Rightarrow> Session" where
  "handlePing lib e msg s =
     (let ping = gl_ping lib (drop 4 (Body msg));
          s' = (if 0 < sint (DisconnectAfter ping) then s\<lparr>ss_idle := sint (DisconnectAfter ping) * 1000\<rparr> else s)
      in sendService lib e CPong (VPong \<lparr>pong_MsgID = MsgID msg, pong_PingID = ping_PingID ping, ServerTime = of_int (unix_of e)\<rparr>) s')"

definition handleDestroySession :: "gw_lib \<Rightarrow> gw_env \<Rightarrow> Session \<times> gw_world \<Rightarrow> Session \<times> gw_world" where
  "handleDestroySession lib e sw =
     (case sw of (s, w) \<Rightarrow>
        let (s', w') = (case ss_authKey s of None \<Rightarrow> (s, w) | Some key \<Rightarrow> (s\<lparr>ss_authKey := Some (Zero key)\<rparr>, Store_Delete e (ak_id key) w))
        in (sendService lib e COK VOK s', w'))"

definition gateway_default :: "string \<Rightarrow> string \<Rightarrow> string" where
  "gateway_default v def = (if TrimSpace v = '''' then def else v)"

definition bind_request :: "Session \<Rightarrow> AuthKey \<Rightarrow> AuthBind \<Rightarrow> resolveTokenRequest" where
  "bind_request s key req =
     \<lparr>rt_AccessToken = ab_AccessToken req, rt_AuthKeyID = IDHex key, rt_Platform = gateway_default (ab_Platform req) (ss_kind s),
      rt_AppVersion = ab_AppVersion req, rt_DeviceModel = ab_DeviceModel req, rt_IP = ss_ip s\<rparr>"

text \<open>What follows a token that was resolved.  The identity is logged with the token and the key it was resolved for.\<close>

definition bind_identity ::
  "gw_lib \<Rightarrow> gw_cfg \<Rightarrow> gw_env \<Rightarrow> nat \<Rightarrow> Message \<Rightarrow> AuthKey \<Rightarrow> AuthBind \<Rightarrow> resolveTokenResponse \<Rightarrow> Session \<times> gw_world \<Rightarrow> Session \<times> gw_world" where
  "bind_identity lib cfg e i msg key req res sw =
     (case sw of (s, w) \<Rightarrow>
        let u = rr_UserID res; d = rr_DeviceID res;
            s1 = s\<lparr>ss_userID := u, ss_deviceID := d\<rparr>;
            w1 = SaveBinding cfg e (ak_id key) \<lparr>bd_UserID = u, bd_DeviceID = d\<rparr>
                   (w\<lparr>gw_resolved := (ab_AccessToken req, IDHex key, u, d) # gw_resolved w\<rparr>)
        in (case attachIdentity cfg e i u d (s1, w1) of
             (False, s2, w2) \<Rightarrow> (rpcErrorMsg lib e (MsgID msg) 503 ''SUBSCRIBE_FAILED'' s2, w2)
           | (True, s2, w2) \<Rightarrow>
               let s3 = (if ss_salt s2 = 0 then (case NewSalt (ge_salt e) of Inl _ \<Rightarrow> s2 | Inr salt \<Rightarrow> s2\<lparr>ss_salt := salt\<rparr>) else s2)
               in (rpcResult lib e (MsgID msg)
                     (gl_bind_result lib \<lparr>br_UserID = u, br_DeviceID = d, br_ServerSalt = ss_salt s3, br_SessionID = ss_sessionID s3,
                        br_ServerTime = unix_of e, br_QTS = 0\<rparr>) s3, w2)))"

definition handleAuthBind :: "gw_lib \<Rightarrow> gw_cfg \<Rightarrow> gw_env \<Rightarrow> nat \<Rightarrow> Message \<Rightarrow> Session \<times> gw_world \<Rightarrow> Session \<times> gw_world" where
  "handleAuthBind lib cfg e i msg sw =
     (case sw of (s, w) \<Rightarrow>
        (case Decode (gl_bind lib) (Body msg) of
           Inl _ \<Rightarrow> (rpcErrorMsg lib e (MsgID msg) 400 ''BAD_REQUEST'' s, w)
         | Inr req \<Rightarrow>
             (case ss_authKey s of
                None \<Rightarrow> (rpcErrorMsg lib e (MsgID msg) 401 ''AUTH_KEY_MISSING'' s, w)
              | Some key \<Rightarrow>
                  (case ge_resolve e (bind_request s key req) of
                     Inl (Answered ue) \<Rightarrow>
                       if ux_Status ue = 401 then (rpcErrorMsg lib e (MsgID msg) 401 ''AUTH_TOKEN_INVALID'' s, w)
                       else (rpcErrorMsg lib e (MsgID msg) 503 ''AUTH_UNAVAILABLE'' s, w)
                   | Inl Unreachable \<Rightarrow> (rpcErrorMsg lib e (MsgID msg) 503 ''AUTH_UNAVAILABLE'' s, w)
                   | Inr res \<Rightarrow> bind_identity lib cfg e i msg key req res (s, w)))))"

definition called :: "int \<Rightarrow> int \<Rightarrow> upstream_call \<Rightarrow> gw_world \<Rightarrow> gw_world" where
  "called u d c w = w\<lparr>gw_calls := gw_calls w @ [(u, d, c)]\<rparr>"

text \<open>A call that is forwarded when its payload decodes.\<close>

definition forward ::
  "gw_lib \<Rightarrow> gw_env \<Rightarrow> (bytes \<Rightarrow> 'r option) \<Rightarrow> ('r \<Rightarrow> upstream_call) \<Rightarrow> (upstream_call \<Rightarrow> call_error + bytes option) \<Rightarrow> Message \<Rightarrow> Session \<times> gw_world \<Rightarrow> Session \<times> gw_world" where
  "forward lib e unmarshal f answer msg sw =
     (case sw of (s, w) \<Rightarrow>
        (case Decode unmarshal (Body msg) of
           Inl _ \<Rightarrow> (rpcErrorMsg lib e (MsgID msg) 400 ''BAD_REQUEST'' s, w)
         | Inr req \<Rightarrow> (Session_reply lib e (MsgID msg) (answer (f req)) s, called (ss_userID s) (ss_deviceID s) (f req) w)))"

definition handleAPI :: "gw_lib \<Rightarrow> gw_env \<Rightarrow> Message \<Rightarrow> ConstructorName option \<Rightarrow> Session \<times> gw_world \<Rightarrow> Session \<times> gw_world" where
  "handleAPI lib e msg c sw =
     (let plain = (\<lambda>call. map_sum id Some (ge_answer e call))
      in case c of
           Some CSendMessage \<Rightarrow> forward lib e (gl_send lib) Upstream_SendMessage plain msg sw
         | Some CGetHistory \<Rightarrow> forward lib e (gl_history lib) Upstream_GetHistory plain msg sw
         | Some CGetDifference \<Rightarrow> forward lib e (gl_difference lib) Upstream_GetDifference plain msg sw
         | Some CReadHistory \<Rightarrow> forward lib e (gl_read lib) Upstream_ReadHistory plain msg sw
         | Some CGetDialogs \<Rightarrow>
             forward lib e (gl_dialogs lib) Upstream_GetDialogs
               (\<lambda>call. map_sum id (\<lambda>ds. gl_dialog_list lib (map (dialog_entry (ge_now e)) ds)) (ge_dialogs e call)) msg sw
         | Some CSetTyping \<Rightarrow> forward lib e (gl_typing lib) Upstream_SetTyping (\<lambda>_. Inr (gl_ok lib)) msg sw
         | _ \<Rightarrow> (case sw of (s, w) \<Rightarrow> (rpcErrorMsg lib e (MsgID msg) 400 ''METHOD_NOT_FOUND'' s, w)))"

text \<open>\<^verbatim>\<open>dispatch\<close> for every message but a container.\<close>

definition dispatch_one :: "gw_lib \<Rightarrow> gw_cfg \<Rightarrow> gw_env \<Rightarrow> nat \<Rightarrow> Message \<Rightarrow> Session \<times> gw_world \<Rightarrow> Session \<times> gw_world" where
  "dispatch_one lib cfg e i msg sw =
     (case PeekConstructor (Body msg) of
        Inl _ \<Rightarrow> sw
      | Inr c \<Rightarrow>
          (case constructor_of c of
             Some CPing \<Rightarrow> (case sw of (s, w) \<Rightarrow> (handlePing lib e msg s, w))
           | Some CMsgsAck \<Rightarrow> sw
           | Some CDestroySession \<Rightarrow> handleDestroySession lib e sw
           | Some CMsgContainer \<Rightarrow> sw
           | Some CAuthBind \<Rightarrow> handleAuthBind lib cfg e i msg sw
           | n \<Rightarrow> if ss_userID (fst sw) = 0 then (rpcErrorMsg lib e (MsgID msg) 401 ''AUTH_KEY_UNBOUND'' (fst sw), snd sw)
                  else handleAPI lib e msg n sw))"

definition maxContained :: nat where "maxContained = 64"

definition contained_step :: "gw_lib \<Rightarrow> gw_cfg \<Rightarrow> gw_env \<Rightarrow> nat \<Rightarrow> Message \<Rightarrow> ContainedMessage \<Rightarrow> Session \<times> gw_world \<Rightarrow> Session \<times> gw_world" where
  "contained_step lib cfg e i msg inner sw =
     (case PeekConstructor (cm_Payload inner) of
        Inl _ \<Rightarrow> sw
      | Inr c \<Rightarrow>
          if constructor_of c = Some CMsgContainer then sw
          else
            let sub = \<lparr>Salt = Salt msg, SessionID = SessionID msg, MsgID = cm_MsgID inner, SeqNo = cm_SeqNo inner, Body = cm_Payload inner\<rparr>;
                sw' = (if IsContentRelated sub then (queueAck (MsgID sub) (fst sw), snd sw) else sw)
            in dispatch_one lib cfg e i sub sw')"

definition handleContainer :: "gw_lib \<Rightarrow> gw_cfg \<Rightarrow> gw_env \<Rightarrow> nat \<Rightarrow> Message \<Rightarrow> Session \<times> gw_world \<Rightarrow> Session \<times> gw_world" where
  "handleContainer lib cfg e i msg sw =
     (case Decode (gl_container lib) (Body msg) of
        Inl _ \<Rightarrow> sw
      | Inr messages \<Rightarrow>
          if maxContained < length messages then (rpcErrorMsg lib e (MsgID msg) 400 ''CONTAINER_TOO_LARGE'' (fst sw), snd sw)
          else fold (contained_step lib cfg e i msg) messages sw)"

definition dispatch_message :: "gw_lib \<Rightarrow> gw_cfg \<Rightarrow> gw_env \<Rightarrow> nat \<Rightarrow> Message \<Rightarrow> Session \<times> gw_world \<Rightarrow> Session \<times> gw_world" where
  "dispatch_message lib cfg e i msg sw =
     (case PeekConstructor (Body msg) of
        Inl _ \<Rightarrow> sw
      | Inr c \<Rightarrow> if constructor_of c = Some CMsgContainer then handleContainer lib cfg e i msg sw else dispatch_one lib cfg e i msg sw)"

section \<open>Frames\<close>

definition bad_code :: "id_error \<Rightarrow> u32" where
  "bad_code err =
     (case err of ErrMsgIDTooNew \<Rightarrow> BadMsgIDTooHigh | ErrMsgIDReplay \<Rightarrow> BadMsgIDDuplicate | ErrMsgIDParity \<Rightarrow> BadMsgIDEvenOdd
      | ErrMsgIDTooOld \<Rightarrow> BadMsgIDTooLow)"

definition checkEnvelope :: "gw_lib \<Rightarrow> gw_env \<Rightarrow> Message \<Rightarrow> Session \<Rightarrow> bool \<times> Session" where
  "checkEnvelope lib e msg s =
     (case Check (ge_iter e) (ge_now e) (MsgID msg) (ss_validator s) of
        (Some err, v) \<Rightarrow>
          (False, sendService lib e CBadMsgNotify (VBadMsg \<lparr>bmn_BadMsgID = MsgID msg, bmn_BadSeqNo = SeqNo msg, bmn_ErrorCode = bad_code err\<rparr>)
                    (s\<lparr>ss_validator := v\<rparr>))
      | (None, v) \<Rightarrow>
          let s' = s\<lparr>ss_validator := v\<rparr>
          in if ss_salt s \<noteq> 0 \<and> Salt msg \<noteq> ss_salt s then
               (False, sendService lib e CBadServerSalt
                  (VBadSalt \<lparr>bss_BadMsgID = MsgID msg, bss_BadSeqNo = SeqNo msg, bss_ErrorCode = BadSaltInvalid, bss_NewSalt = ss_salt s\<rparr>) s')
             else (True, s'))"

text \<open>The session identifier: adopted at first, reset when the client restarted.\<close>

definition adopt_session :: "gw_lib \<Rightarrow> gw_env \<Rightarrow> Message \<Rightarrow> Session \<Rightarrow> Session" where
  "adopt_session lib e msg s =
     (if ss_sessionID s = 0 then
        s\<lparr>ss_sessionID := SessionID msg, ss_msgIDs := AdoptPeerTime (of_int (unix_of e)) (MsgID msg) (ss_msgIDs s)\<rparr>
      else if SessionID msg \<noteq> ss_sessionID s then
        sendService lib e CNewSessionReset
          (VNewSession \<lparr>nsc_FirstMsgID = MsgID msg, nsc_UniqueID = SessionID msg, nsc_ServerSalt = ss_salt s\<rparr>)
          (s\<lparr>ss_sessionID := SessionID msg, ss_seqNo := 0\<rparr>)
      else s)"

text \<open>A connection that presents a key it did not negotiate: the key and the identity bound to it come from the store.\<close>

definition resume :: "gw_cfg \<Rightarrow> gw_env \<Rightarrow> nat \<Rightarrow> u64 \<Rightarrow> Session \<times> gw_world \<Rightarrow> gw_error option \<times> Session \<times> gw_world" where
  "resume cfg e i authKeyID sw =
     (case sw of (s, w) \<Rightarrow>
        (case Store_Load cfg e authKeyID w of
           (None, w1) \<Rightarrow> (Some UnknownAuthKey, s, w1)
         | (Some key, w1) \<Rightarrow>
             let s1 = s\<lparr>ss_authKey := Some key\<rparr>
             in case LoadBinding cfg e authKeyID w1 of
                  (None, w2) \<Rightarrow> (None, s1, w2)
                | (Some b, w2) \<Rightarrow>
                    (None, snd (attachIdentity cfg e i (bd_UserID b) (bd_DeviceID b)
                                  (s1\<lparr>ss_userID := bd_UserID b, ss_deviceID := bd_DeviceID b\<rparr>, w2)))))"

text \<open>The rest, once there is a key.\<close>

definition handle_encrypted :: "gw_lib \<Rightarrow> gw_cfg \<Rightarrow> gw_env \<Rightarrow> nat \<Rightarrow> AuthKey \<Rightarrow> bytes \<Rightarrow> Session \<times> gw_world \<Rightarrow> gw_error option \<times> Session \<times> gw_world" where
  "handle_encrypted lib cfg e i key frame sw =
     (case sw of (s, w) \<Rightarrow>
        (case Decrypt key frame ClientToServer of
           Inl err \<Rightarrow> (Some (DecryptFailed err), s, w)
         | Inr msg \<Rightarrow>
             (case checkEnvelope lib e msg s of
                (False, s1) \<Rightarrow> (None, s1, w)
              | (True, s1) \<Rightarrow>
                  let s2 = adopt_session lib e msg s1; s3 = (if IsContentRelated msg then queueAck (MsgID msg) s2 else s2)
                  in (None, dispatch_message lib cfg e i msg (s3, w)))))"

definition handleFrame :: "gw_lib \<Rightarrow> gw_cfg \<Rightarrow> gw_env \<Rightarrow> nat \<Rightarrow> bytes \<Rightarrow> Session \<times> gw_world \<Rightarrow> gw_error option \<times> Session \<times> gw_world" where
  "handleFrame lib cfg e i frame sw =
     (case PeekAuthKeyID frame of
        Inl err \<Rightarrow> (Some (UnreadableFrame err), sw)
      | Inr authKeyID \<Rightarrow>
          if authKeyID = 0 then
            if ss_authKey (fst sw) \<noteq> None then (Some PlainOnEncrypted, sw) else handlePlain lib cfg e frame sw
          else
            (case ss_authKey (fst sw) of
               Some key \<Rightarrow> handle_encrypted lib cfg e i key frame sw
             | None \<Rightarrow>
                 (case resume cfg e i authKeyID sw of
                    (Some err, sw1) \<Rightarrow> (Some err, sw1)
                  | (None, sw1) \<Rightarrow>
                      (case ss_authKey (fst sw1) of
                         None \<Rightarrow> (None, sw1)
                       | Some key \<Rightarrow> handle_encrypted lib cfg e i key frame sw1))))"

section \<open>Timers and the end of a connection\<close>

definition presence_beat :: "gw_cfg \<Rightarrow> gw_env \<Rightarrow> Session \<times> gw_world \<Rightarrow> Session \<times> gw_world" where
  "presence_beat cfg e sw =
     (case sw of (s, w) \<Rightarrow>
        if ss_userID s = 0 then (s, w)
        else (s, w\<lparr>gw_presence := snd (Heartbeat (ge_down e GBeat) (presence_ttl cfg) (ms_of e) (ss_userID s) (ss_deviceID s) (gw_presence w))\<rparr>))"

definition rotate_salt :: "gw_lib \<Rightarrow> gw_env \<Rightarrow> Session \<Rightarrow> Session" where
  "rotate_salt lib e s =
     (case NewSalt (ge_salt e) of
        Inl _ \<Rightarrow> s
      | Inr salt \<Rightarrow>
          sendService lib e CBadServerSalt (VBadSalt \<lparr>bss_BadMsgID = 0, bss_BadSeqNo = 0, bss_ErrorCode = 0, bss_NewSalt = salt\<rparr>) (s\<lparr>ss_salt := salt\<rparr>))"

definition Session_Close :: "gw_env \<Rightarrow> nat \<Rightarrow> Session \<times> gw_world \<Rightarrow> Session \<times> gw_world" where
  "Session_Close e i sw =
     (case sw of (s, w) \<Rightarrow>
        if ss_closed s then (s, w)
        else
          let w1 = fold (unsubscribe i) (ss_channels s) w;
              w2 = (if ss_userID s = 0 then w1
                    else publishPresence e (ss_userID s) (ss_deviceID s) PresenceOffline
                           (w1\<lparr>gw_presence := snd (Offline (ge_down e GOffline) (ms_of e) (ss_userID s) (ss_deviceID s) (gw_presence w1))\<rparr>))
          in (s\<lparr>ss_closed := True, ss_channels := []\<rparr>, w2))"

section \<open>A pod\<close>

text \<open>The sessions of a pod and what happens to them.  The log has the calls with the key their frame names.\<close>

record pod =
  po_sessions :: "(nat \<times> Session) list"
  po_world :: gw_world
  po_draining :: bool
  po_log :: "(u64 \<times> int \<times> int \<times> upstream_call) list"

datatype gw_event =
  Connect gw_env nat string string
| Frame gw_env nat bytes
| Written gw_env nat
| AckTick gw_env nat
| Beat gw_env nat
| Rotate gw_env nat
| Deliver string Update
| DrainAll gw_env
| Disconnect gw_env nat

definition frame_key :: "bytes \<Rightarrow> u64" where
  "frame_key frame = (case PeekAuthKeyID frame of Inl _ \<Rightarrow> 0 | Inr i \<Rightarrow> i)"

text \<open>A step of one session; a closed one takes none.\<close>

definition on_session :: "nat \<Rightarrow> (Session \<times> gw_world \<Rightarrow> Session \<times> gw_world) \<Rightarrow> pod \<Rightarrow> pod" where
  "on_session i f p =
     (case map_of (po_sessions p) i of
        None \<Rightarrow> p
      | Some s \<Rightarrow>
          if ss_closed s then p
          else (case f (s, po_world p) of (s', w) \<Rightarrow> p\<lparr>po_sessions := AList.update i s' (po_sessions p), po_world := w\<rparr>))"

definition Handle :: "gw_cfg \<Rightarrow> gw_env \<Rightarrow> nat \<Rightarrow> string \<Rightarrow> string \<Rightarrow> pod \<Rightarrow> pod" where
  "Handle cfg e i ip kind p =
     (if map_of (po_sessions p) i \<noteq> None \<or> po_draining p then p
      else
        (case Allow True (ge_down e GLimit) (ms_of e) (KeyIP ''conn'' ip) ConnectionPerIP (gw_buckets (po_world p)) of
           (d, err, b) \<Rightarrow>
             let p' = p\<lparr>po_world := (po_world p)\<lparr>gw_buckets := b\<rparr>\<rparr>
             in if err = None \<and> \<not> Allowed d then p'
                else p'\<lparr>po_sessions := (i, NewSession cfg (ge_now e) ip kind) # po_sessions p\<rparr>))"

definition run_frame :: "gw_lib \<Rightarrow> gw_cfg \<Rightarrow> gw_env \<Rightarrow> nat \<Rightarrow> bytes \<Rightarrow> Session \<times> gw_world \<Rightarrow> Session \<times> gw_world" where
  "run_frame lib cfg e i frame sw =
     (case handleFrame lib cfg e i frame sw of (None, sw') \<Rightarrow> sw' | (Some _, sw') \<Rightarrow> Session_Close e i sw')"

definition dispatchUpdates :: "gw_cfg \<Rightarrow> string \<Rightarrow> Update \<Rightarrow> pod \<Rightarrow> pod" where
  "dispatchUpdates cfg channel u p =
     p\<lparr>po_sessions := map (\<lambda>(i, s). (i, if i \<in> set (registered (po_world p) channel) then Enqueue cfg u s else s)) (po_sessions p)\<rparr>"

definition reconnect_hint :: "int \<Rightarrow> Update" where
  "reconnect_hint now = (update_of UpdateReconnectHint 0 0 0 NoBody)\<lparr>up_At := now\<rparr>"

definition Drain :: "gw_cfg \<Rightarrow> gw_env \<Rightarrow> pod \<Rightarrow> pod" where
  "Drain cfg e p =
     p\<lparr>po_draining := True,
       po_sessions := map (\<lambda>(i, s). (i, if \<exists>(c, is) \<in> set (gw_registry (po_world p)). i \<in> set is then Enqueue cfg (reconnect_hint (ms_of e)) s else s)) (po_sessions p)\<rparr>"

definition pod_step :: "gw_lib \<Rightarrow> gw_cfg \<Rightarrow> gw_event \<Rightarrow> pod \<Rightarrow> pod" where
  "pod_step lib cfg ev p =
     (case ev of
        Connect e i ip kind \<Rightarrow> Handle cfg e i ip kind p
      | Frame e i frame \<Rightarrow>
          let p' = on_session i (run_frame lib cfg e i frame) p
          in p'\<lparr>po_log := po_log p @ map (\<lambda>c. (frame_key frame, c)) (drop (length (gw_calls (po_world p))) (gw_calls (po_world p')))\<rparr>
      | Written e i \<Rightarrow> on_session i (\<lambda>(s, w). (writeLoop_update lib e s, w)) p
      | AckTick e i \<Rightarrow> on_session i (\<lambda>(s, w). (if ss_writing s then flushAcks lib e s else s, w)) p
      | Beat e i \<Rightarrow> on_session i (presence_beat cfg e) p
      | Rotate e i \<Rightarrow> on_session i (\<lambda>(s, w). (rotate_salt lib e s, w)) p
      | Deliver channel u \<Rightarrow> dispatchUpdates cfg channel u p
      | DrainAll e \<Rightarrow> Drain cfg e p
      | Disconnect e i \<Rightarrow> on_session i (Session_Close e i) p)"

definition new_pod :: pod where
  "new_pod = \<lparr>po_sessions = [],
     po_world = \<lparr>gw_keys = [], gw_bindings = [], gw_presence = \<lparr>pr_seen = [], pr_route = []\<rparr>, gw_events = [], gw_buckets = [], gw_registry = [],
       gw_subs = [], gw_calls = [], gw_resolved = []\<rparr>, po_draining = False, po_log = []\<rparr>"

definition pod_run :: "gw_lib \<Rightarrow> gw_cfg \<Rightarrow> gw_event list \<Rightarrow> pod" where
  "pod_run lib cfg evs = fold (pod_step lib cfg) evs new_pod"

end
