(* ===== verification/Gateway_Sessions.thy ===== *)
theory Gateway_Sessions
  imports Gateway
begin

text \<open>
  The invariant of one session: what it holds of identity and of channels was confirmed by the auth service for its key.  Every
  step of a session keeps it, frame by frame and message by message, and leaves the other sessions alone.
\<close>

section \<open>What sending leaves alone\<close>

definition core :: "Session \<Rightarrow> AuthKey option \<times> int \<times> int \<times> string list \<times> bool" where
  "core s = (ss_authKey s, ss_userID s, ss_deviceID s, ss_channels s, ss_closed s)"

lemma core_updates [simp]:
  "core (s\<lparr>ss_wire := x1\<rparr>) = core s" "core (s\<lparr>ss_msgIDs := x2\<rparr>) = core s" "core (s\<lparr>ss_seqNo := x3\<rparr>) = core s" "core (s\<lparr>ss_salt := x4\<rparr>) = core s"
  "core (s\<lparr>ss_validator := x5\<rparr>) = core s" "core (s\<lparr>ss_out := x6\<rparr>) = core s" "core (s\<lparr>ss_pendingAcks := x7\<rparr>) = core s"
  "core (s\<lparr>ss_sessionID := x8\<rparr>) = core s" "core (s\<lparr>ss_idle := x9\<rparr>) = core s" "core (s\<lparr>ss_writing := x10\<rparr>) = core s" "core (s\<lparr>ss_handshake := x11\<rparr>) = core s"
  by (simp_all add: core_def)

lemma core_write [simp]: "core (snd (write_frame e f s)) = core s"
  by (simp add: write_frame_def)

lemma core_plain [simp]: "core (snd (sendPlain lib e c v s)) = core s"
  by (auto simp: sendPlain_def split: sum.split prod.split)

lemma core_encrypted [simp]: "core (snd (sendEncrypted lib e c v b s)) = core s"
  by (auto simp: sendEncrypted_def Let_def split: sum.split prod.split option.split)

lemma core_service [simp]:
  "core (sendService lib e c v s) = core s" "core (rpcErrorMsg lib e i n m s) = core s" "core (queueAck i s) = core s"
  by (simp_all add: sendService_def rpcErrorMsg_def queueAck_def)

lemma core_reply [simp]: "core (rpcResult lib e i r s) = core s" "core (Session_reply lib e i a s) = core s"
  by (auto simp: rpcResult_def Session_reply_def split: option.split sum.split call_error.split)

lemma core_envelope [simp]: "core (snd (checkEnvelope lib e m s)) = core s" "core (adopt_session lib e m s) = core s"
  by (auto simp: checkEnvelope_def adopt_session_def Let_def split: prod.split option.split)

lemma core_update [simp]: "core (snd (sendUpdate lib e u s)) = core s"
  by (simp add: sendUpdate_def)

lemma core_writer [simp]: "core (writeLoop_update lib e s) = core s"
proof (cases "ss_out s")
  case (Cons u rest)
  obtain r s' where p: "sendUpdate lib e u (s\<lparr>ss_out := rest\<rparr>) = (r, s')" by (cases "sendUpdate lib e u (s\<lparr>ss_out := rest\<rparr>)")
  have "core s' = core s" using core_update [of lib e u "s\<lparr>ss_out := rest\<rparr>"] p by simp
  then show ?thesis using Cons p by (cases r) (simp_all add: writeLoop_update_def)
qed (simp add: writeLoop_update_def)

lemma core_timers [simp]:
  "core (flushAcks lib e s) = core s" "core (rotate_salt lib e s) = core s" "core (Enqueue cfg u s) = core s" "core (handlePing lib e m s) = core s"
  by (simp_all add: flushAcks_def rotate_salt_def Enqueue_def handlePing_def Let_def split: sum.split)

lemma core_req_pq [simp]: "core (snd (handle_ReqPQ lib e p s)) = core s"
  unfolding handle_ReqPQ_def by (simp split: sum.split prod.split option.split)

lemma core_req_dh [simp]: "core (snd (handle_ReqDHParams lib e p s)) = core s"
  unfolding handle_ReqDHParams_def by (simp split: sum.split prod.split)

section \<open>The registry\<close>

lemma registered_update [simp]: "registered (w\<lparr>gw_registry := AList.update c xs (gw_registry w)\<rparr>) c' = (if c' = c then xs else registered w c')"
  by (simp add: registered_def update_conv)

lemma registered_same: "gw_registry w' = gw_registry w \<Longrightarrow> registered w' = registered w"
  by (simp add: registered_def fun_eq_iff)

lemma Sub_frames [simp]:
  "gw_registry (Sub_Remove c w) = gw_registry w" "gw_bindings (Sub_Remove c w) = gw_bindings w" "gw_calls (Sub_Remove c w) = gw_calls w"
  "gw_resolved (Sub_Remove c w) = gw_resolved w"
  "gw_registry (snd (Sub_Add e c w)) = gw_registry w" "gw_bindings (snd (Sub_Add e c w)) = gw_bindings w" "gw_calls (snd (Sub_Add e c w)) = gw_calls w"
  "gw_resolved (snd (Sub_Add e c w)) = gw_resolved w"
  by (simp_all add: Sub_Remove_def Sub_Add_def Let_def)

lemma unsubscribe_frames [simp]:
  "gw_bindings (unsubscribe i c w) = gw_bindings w" "gw_calls (unsubscribe i c w) = gw_calls w" "gw_resolved (unsubscribe i c w) = gw_resolved w"
  by (simp_all add: unsubscribe_def Let_def)

lemma registered_unsubscribe [simp]:
  "set (registered (unsubscribe i c w) c') = (if c' = c then set (registered w c) - {i} else set (registered w c'))"
proof -
  have "registered (unsubscribe i c w) c' = (if c' = c then removeAll i (registered w c) else registered w c')"
    by (simp add: unsubscribe_def Let_def registered_def Sub_Remove_def update_conv delete_conv split: option.split)
  then show ?thesis by simp
qed

lemma subscribe_cases:
  obtains (added) w1 where "subscribe e i c w = (True, w1)" "gw_registry w1 = AList.update c (List.insert i (registered w c)) (gw_registry w)"
      "gw_bindings w1 = gw_bindings w" "gw_calls w1 = gw_calls w" "gw_resolved w1 = gw_resolved w"
  | (refused) w1 where "subscribe e i c w = (False, unsubscribe i c w1)" "gw_registry w1 = AList.update c (List.insert i (registered w c)) (gw_registry w)"
      "gw_bindings w1 = gw_bindings w" "gw_calls w1 = gw_calls w" "gw_resolved w1 = gw_resolved w"
proof -
  let ?w = "w\<lparr>gw_registry := AList.update c (List.insert i (registered w c)) (gw_registry w)\<rparr>"
  obtain ok w1 where a: "Sub_Add e c ?w = (ok, w1)" by (cases "Sub_Add e c ?w")
  have f: "gw_registry w1 = gw_registry ?w" "gw_bindings w1 = gw_bindings ?w" "gw_calls w1 = gw_calls ?w" "gw_resolved w1 = gw_resolved ?w"
    using Sub_frames(5-8) [of e c ?w] a by simp_all
  show thesis
  proof (cases ok)
    case True
    show thesis by (rule added [of w1]) (use True a f in \<open>simp_all add: subscribe_def\<close>)
  next
    case False
    show thesis by (rule refused [of w1]) (use False a f in \<open>simp_all add: subscribe_def\<close>)
  qed
qed

section \<open>Identities\<close>

text \<open>The auth service confirmed user and device for a key; an entry of the log comes from an answer in the environment.\<close>

definition proven :: "gw_world \<Rightarrow> u64 \<Rightarrow> int \<Rightarrow> int \<Rightarrow> bool" where
  "proven w k u d \<longleftrightarrow> (\<exists>tok. (tok, AuthKeyIDHex k, u, d) \<in> set (gw_resolved w))"

definition from_env :: "gw_env \<Rightarrow> string \<times> string \<times> int \<times> int \<Rightarrow> bool" where
  "from_env e x \<longleftrightarrow>
     (\<exists>rq r. ge_resolve e rq = Inr r \<and> x = (rt_AccessToken rq, rt_AuthKeyID rq, rr_UserID r, rr_DeviceID r))"

definition bindings_ok :: "gw_world \<Rightarrow> bool" where
  "bindings_ok w \<longleftrightarrow>
     (\<forall>k b x. map_of (gw_bindings w) (keyBinding k) = Some (b, x) \<longrightarrow> proven w k (bd_UserID b) (bd_DeviceID b))"

lemma keyBinding_inject [simp]: "keyBinding a = keyBinding b \<longleftrightarrow> a = b"
  by (simp add: keyBinding_def AuthKeyIDHex_inject)

lemma IDHex_id: "IDHex key = AuthKeyIDHex (ak_id key)"
  by (simp add: IDHex_def AuthKeyIDHex_def)

lemma proven_mono: "proven w k u d \<Longrightarrow> set (gw_resolved w) \<subseteq> set (gw_resolved w') \<Longrightarrow> proven w' k u d"
  by (auto simp: proven_def)

text \<open>What a step of session \<open>i\<close> on behalf of key \<open>k\<close> may do to the world.\<close>

definition world_later :: "gw_env \<Rightarrow> u64 \<Rightarrow> nat \<Rightarrow> gw_world \<Rightarrow> gw_world \<Rightarrow> bool" where
  "world_later e k i w0 w \<longleftrightarrow>
     bindings_ok w \<and> (\<exists>new. gw_resolved w = new @ gw_resolved w0 \<and> (\<forall>x \<in> set new. from_env e x))
     \<and> (\<forall>c j. j \<noteq> i \<longrightarrow> (j \<in> set (registered w c) \<longleftrightarrow> j \<in> set (registered w0 c)))
     \<and> (\<exists>cs. gw_calls w = gw_calls w0 @ cs \<and> (\<forall>(u, d, c) \<in> set cs. u \<noteq> 0 \<and> (proven w k u d \<or> proven w 0 u d)))"

lemma world_later_refl: "bindings_ok w \<Longrightarrow> world_later e k i w w"
  by (simp add: world_later_def)

lemma world_later_grows: "world_later e k i w0 w \<Longrightarrow> set (gw_resolved w0) \<subseteq> set (gw_resolved w)"
  by (auto simp: world_later_def)

lemma world_laterE:
  assumes "world_later e k i w0 w"
  obtains new cs where "bindings_ok w" "gw_resolved w = new @ gw_resolved w0" "\<forall>x \<in> set new. from_env e x"
    "\<forall>c j. j \<noteq> i \<longrightarrow> (j \<in> set (registered w c) \<longleftrightarrow> j \<in> set (registered w0 c))" "gw_calls w = gw_calls w0 @ cs"
    "\<forall>(u, d, c) \<in> set cs. u \<noteq> 0 \<and> (proven w k u d \<or> proven w 0 u d)"
  using assms unfolding world_later_def by (elim conjE exE) (rule that)

lemma world_later_trans:
  assumes "world_later e k i w0 w1" and "world_later e k i w1 w2"
  shows "world_later e k i w0 w2"
proof -
  have g: "set (gw_resolved w1) \<subseteq> set (gw_resolved w2)" by (rule world_later_grows [OF assms(2)])
  obtain n1 c1 where 1: "bindings_ok w1" "gw_resolved w1 = n1 @ gw_resolved w0" "\<forall>x \<in> set n1. from_env e x"
    "\<forall>c j. j \<noteq> i \<longrightarrow> (j \<in> set (registered w1 c) \<longleftrightarrow> j \<in> set (registered w0 c))" "gw_calls w1 = gw_calls w0 @ c1"
    "\<forall>(u, d, c) \<in> set c1. u \<noteq> 0 \<and> (proven w1 k u d \<or> proven w1 0 u d)"
    using assms(1) by (rule world_laterE)
  obtain n2 c2 where 2: "bindings_ok w2" "gw_resolved w2 = n2 @ gw_resolved w1" "\<forall>x \<in> set n2. from_env e x"
    "\<forall>c j. j \<noteq> i \<longrightarrow> (j \<in> set (registered w2 c) \<longleftrightarrow> j \<in> set (registered w1 c))" "gw_calls w2 = gw_calls w1 @ c2"
    "\<forall>(u, d, c) \<in> set c2. u \<noteq> 0 \<and> (proven w2 k u d \<or> proven w2 0 u d)"
    using assms(2) by (rule world_laterE)
  have "\<forall>(u, d, c) \<in> set (c1 @ c2). u \<noteq> 0 \<and> (proven w2 k u d \<or> proven w2 0 u d)"
  proof (clarsimp)
    fix u d x
    assume "(u, d, x) \<in> set c1 \<or> (u, d, x) \<in> set c2"
    then show "u \<noteq> 0 \<and> (proven w2 k u d \<or> proven w2 0 u d)"
    proof
      assume "(u, d, x) \<in> set c1"
      then have "u \<noteq> 0 \<and> (proven w1 k u d \<or> proven w1 0 u d)" using 1(6) by blast
      then show ?thesis using proven_mono [OF _ g] by blast
    qed (use 2(6) in blast)
  qed
  moreover have "gw_calls w2 = gw_calls w0 @ c1 @ c2" using 1(5) 2(5) by simp
  moreover have "gw_resolved w2 = (n2 @ n1) @ gw_resolved w0" "\<forall>x \<in> set (n2 @ n1). from_env e x" using 1(2,3) 2(2,3) by auto
  moreover have "\<forall>c j. j \<noteq> i \<longrightarrow> (j \<in> set (registered w2 c) \<longleftrightarrow> j \<in> set (registered w0 c))" using 1(4) 2(4) by simp
  ultimately show ?thesis unfolding world_later_def using 2(1) by (intro conjI exI) assumption+
qed

text \<open>A world that differs in none of the fields that matter.\<close>

definition wcore :: "gw_world \<Rightarrow> (string \<times> (Binding \<times> int)) list \<times> (string \<times> nat list) list \<times> (int \<times> int \<times> upstream_call) list \<times> (string \<times> string \<times> int \<times> int) list" where
  "wcore w = (gw_bindings w, gw_registry w, gw_calls w, gw_resolved w)"

lemma wcore_registered: "wcore w' = wcore w \<Longrightarrow> registered w' = registered w"
  by (rule registered_same) (simp add: wcore_def)

lemma wcore_proven: "wcore w' = wcore w \<Longrightarrow> proven w' = proven w"
  by (intro ext) (simp add: wcore_def proven_def)

lemma wcore_bindings: "wcore w' = wcore w \<Longrightarrow> bindings_ok w' = bindings_ok w"
proof -
  assume a: "wcore w' = wcore w"
  then have "gw_bindings w' = gw_bindings w" by (simp add: wcore_def)
  then show ?thesis unfolding bindings_ok_def wcore_proven [OF a] by simp
qed

lemma world_later_core: "wcore w' = wcore w \<Longrightarrow> world_later e k i w0 w' = world_later e k i w0 w"
proof -
  assume a: "wcore w' = wcore w"
  have "gw_resolved w' = gw_resolved w" "gw_calls w' = gw_calls w" using a by (simp_all add: wcore_def)
  then show ?thesis unfolding world_later_def wcore_registered [OF a] wcore_proven [OF a] wcore_bindings [OF a] by simp
qed

lemma wcore_updates [simp]:
  "wcore (w\<lparr>gw_keys := x1\<rparr>) = wcore w" "wcore (w\<lparr>gw_presence := x2\<rparr>) = wcore w" "wcore (w\<lparr>gw_events := x3\<rparr>) = wcore w"
  "wcore (w\<lparr>gw_buckets := x4\<rparr>) = wcore w" "wcore (w\<lparr>gw_subs := x5\<rparr>) = wcore w" "wcore (publishPresence e u d st w) = wcore w"
  "wcore (snd (Store_Save cfg e key w)) = wcore w" "wcore (snd (presence_beat cfg e (s, w))) = wcore w"
  by (simp_all add: wcore_def publishPresence_def Store_Save_def presence_beat_def)

lemma wcore_load [simp]: "wcore (snd (Store_Load cfg e k w)) = wcore w"
  by (simp add: Store_Load_def split: option.split sum.split)

section \<open>Attaching an identity\<close>

lemma attach_facts:
  assumes "attachIdentity cfg e i u d (s, w) = (r, s', w')"
  shows "gw_bindings w' = gw_bindings w \<and> gw_calls w' = gw_calls w \<and> gw_resolved w' = gw_resolved w
    \<and> ss_authKey s' = ss_authKey s \<and> ss_userID s' = ss_userID s \<and> ss_deviceID s' = ss_deviceID s \<and> ss_closed s' = ss_closed s
    \<and> set (ss_channels s) \<subseteq> set (ss_channels s')
    \<and> (\<forall>c j. j \<noteq> i \<longrightarrow> (j \<in> set (registered w' c) \<longleftrightarrow> j \<in> set (registered w c)))
    \<and> (\<forall>c. i \<in> set (registered w' c) \<longrightarrow> i \<in> set (registered w c) \<or> (c = ChannelUser u \<and> c \<in> set (ss_channels s')))"
proof (cases "ChannelUser u \<in> set (ss_channels s)")
  case True
  have "s' = s" "wcore w' = wcore w" using assms True by (auto simp: attachIdentity_def Let_def)
  then show ?thesis using wcore_registered [of w' w] by (simp add: wcore_def)
next
  case False
  show ?thesis
  proof (cases e i "ChannelUser u" w rule: subscribe_cases)
    case (added w1)
    then have s: "s' = s\<lparr>ss_channels := ChannelUser u # ss_channels s\<rparr>" "wcore w' = wcore w1"
      using assms False by (auto simp: attachIdentity_def Let_def)
    have "registered w1 c = (if c = ChannelUser u then List.insert i (registered w c) else registered w c)" for c
      using added(2) by (simp add: registered_def update_conv)
    then have "registered w' c = (if c = ChannelUser u then List.insert i (registered w c) else registered w c)" for c
      using wcore_registered [OF s(2)] by simp
    then show ?thesis using s added by (auto simp: wcore_def)
  next
    case (refused w1)
    then have s: "s' = s" "w' = unsubscribe i (ChannelUser u) w1"
      using assms False by (auto simp: attachIdentity_def Let_def)
    have "registered w1 c = (if c = ChannelUser u then List.insert i (registered w c) else registered w c)" for c
      using refused(2) by (simp add: registered_def update_conv)
    then have "set (registered w' c) = (if c = ChannelUser u then set (registered w c) - {i} else set (registered w c))" for c
      using s(2) by simp
    then show ?thesis using s refused by auto
  qed
qed

section \<open>One frame\<close>

text \<open>
  The session while a frame of key \<open>k\<close> is handled.  Its own key is that one, or it was destroyed by a message of the same
  frame.  What it is bound to was confirmed for \<open>k\<close>, or, when it was bound again after that, for the null key.
\<close>

definition in_frame :: "gw_env \<Rightarrow> u64 \<Rightarrow> nat \<Rightarrow> gw_world \<Rightarrow> Session \<times> gw_world \<Rightarrow> bool" where
  "in_frame e k i w0 sw \<longleftrightarrow>
     (\<exists>key. ss_authKey (fst sw) = Some key \<and> (ak_id key = k \<or> ak_id key = 0)
        \<and> (ss_userID (fst sw) \<noteq> 0 \<longrightarrow> proven (snd sw) k (ss_userID (fst sw)) (ss_deviceID (fst sw))
             \<or> ak_id key = 0 \<and> proven (snd sw) 0 (ss_userID (fst sw)) (ss_deviceID (fst sw)))
        \<and> (\<forall>c. i \<in> set (registered (snd sw) c) \<longrightarrow>
             c \<in> set (ss_channels (fst sw)) \<and> (\<exists>u d. c = ChannelUser u \<and> (ak_id key = 0 \<or> proven (snd sw) k u d))))
     \<and> \<not> ss_closed (fst sw) \<and> world_later e k i w0 (snd sw)"

lemma in_frame_core: "in_frame e k i w0 (s, w) \<Longrightarrow> core s' = core s \<Longrightarrow> in_frame e k i w0 (s', w)"
  by (simp add: in_frame_def core_def)

lemma in_frame_wcore:
  assumes "in_frame e k i w0 (s, w)" and "wcore w' = wcore w"
  shows "in_frame e k i w0 (s, w')"
  using assms(1) unfolding in_frame_def fst_conv snd_conv wcore_registered [OF assms(2)] wcore_proven [OF assms(2)] world_later_core [OF assms(2)] .

text \<open>Deleting bindings keeps them right.\<close>

lemma bindings_ok_delete: "bindings_ok w \<Longrightarrow> bindings_ok (Store_Delete e k w)"
  by (auto simp: bindings_ok_def Store_Delete_def proven_def delete_conv split: if_splits)

lemma in_frame_destroy:
  assumes "in_frame e k i w0 sw"
  shows "in_frame e k i w0 (handleDestroySession lib e sw)"
proof -
  obtain s w where sw: "sw = (s, w)" by (cases sw)
  obtain key where key: "ss_authKey s = Some key" using assms sw by (auto simp: in_frame_def)
  let ?w = "Store_Delete e (ak_id key) w" and ?s = "s\<lparr>ss_authKey := Some (Zero key)\<rparr>"
  have f: "registered ?w = registered w" "proven ?w = proven w" "gw_calls ?w = gw_calls w" "gw_resolved ?w = gw_resolved w"
    by (simp_all add: Store_Delete_def registered_def proven_def fun_eq_iff)
  have "world_later e k i w0 ?w"
    using assms sw bindings_ok_delete unfolding in_frame_def world_later_def f by simp
  then have "in_frame e k i w0 (?s, ?w)"
    using assms sw unfolding in_frame_def by (auto simp: f Zero_def)
  then show ?thesis using in_frame_core sw key by (simp add: handleDestroySession_def)
qed

lemma bindings_ok_save:
  assumes "bindings_ok w" and "(tok, AuthKeyIDHex k, u, d) \<in> set (gw_resolved w)"
  shows "bindings_ok (SaveBinding cfg e k \<lparr>bd_UserID = u, bd_DeviceID = d\<rparr> w)"
  using assms by (auto simp: bindings_ok_def SaveBinding_def proven_def update_conv)

lemma in_frame_attach:
  assumes "in_frame e k i w0 (s, w)" and "attachIdentity cfg e i u d (s, w) = (r, s', w')"
    and "\<And>key. ss_authKey s = Some key \<Longrightarrow> ak_id key = 0 \<or> proven w k u d"
  shows "in_frame e k i w0 (s', w')"
proof -
  note f = attach_facts [OF assms(2)]
  have p: "proven w' = proven w" using f by (simp add: proven_def fun_eq_iff)
  have b: "bindings_ok w' = bindings_ok w" using f by (simp add: bindings_ok_def p)
  have "world_later e k i w0 w'"
    using assms(1) f unfolding in_frame_def world_later_def p b by simp
  moreover obtain key where key: "ss_authKey s = Some key" "ak_id key = k \<or> ak_id key = 0"
    "ss_userID s \<noteq> 0 \<longrightarrow> proven w k (ss_userID s) (ss_deviceID s) \<or> ak_id key = 0 \<and> proven w 0 (ss_userID s) (ss_deviceID s)"
    "\<forall>c. i \<in> set (registered w c) \<longrightarrow> c \<in> set (ss_channels s) \<and> (\<exists>u d. c = ChannelUser u \<and> (ak_id key = 0 \<or> proven w k u d))"
    using assms(1) unfolding in_frame_def by auto
  moreover have "\<forall>c. i \<in> set (registered w' c) \<longrightarrow> c \<in> set (ss_channels s') \<and> (\<exists>u d. c = ChannelUser u \<and> (ak_id key = 0 \<or> proven w k u d))"
    using key(4) f assms(3) [OF key(1)] by blast
  moreover have "\<not> ss_closed s'" using assms(1) f by (simp add: in_frame_def)
  ultimately show ?thesis unfolding in_frame_def using f by (auto simp: p)
qed

lemma in_frame_bind:
  assumes "in_frame e k i w0 (s, w)" and "ss_authKey s = Some key" and "ge_resolve e (bind_request s key req) = Inr res"
  shows "in_frame e k i w0 (bind_identity lib cfg e i msg key req res (s, w))"
proof -
  let ?u = "rr_UserID res" and ?d = "rr_DeviceID res"
  let ?x = "(ab_AccessToken req, IDHex key, ?u, ?d)"
  let ?w = "w\<lparr>gw_resolved := ?x # gw_resolved w\<rparr>"
  let ?w1 = "SaveBinding cfg e (ak_id key) \<lparr>bd_UserID = ?u, bd_DeviceID = ?d\<rparr> ?w"
  let ?s1 = "s\<lparr>ss_userID := ?u, ss_deviceID := ?d\<rparr>"
  have r: "gw_resolved ?w1 = ?x # gw_resolved w" "gw_calls ?w1 = gw_calls w" "registered ?w1 = registered w"
    by (simp_all add: SaveBinding_def registered_def fun_eq_iff)
  have x: "from_env e ?x" unfolding from_env_def using assms(3) by (intro exI conjI) (auto simp: bind_request_def)
  have p: "proven w a b c \<Longrightarrow> proven ?w1 a b c" for a b c using r(1) by (auto simp: proven_def)
  have pk: "proven ?w1 (ak_id key) ?u ?d" using r(1) by (auto simp: proven_def IDHex_id)
  have id: "ak_id key = k \<or> ak_id key = 0" using assms(1,2) by (auto simp: in_frame_def)
  have b: "bindings_ok w" using assms(1) by (simp add: in_frame_def world_later_def)
  then have "bindings_ok ?w" by (auto simp: bindings_ok_def proven_def)
  then have b1: "bindings_ok ?w1" by (rule bindings_ok_save [where tok = "ab_AccessToken req"]) (simp add: IDHex_id)
  have "world_later e k i w ?w1"
    unfolding world_later_def using b1 r x by simp
  then have later: "world_later e k i w0 ?w1" using assms(1) world_later_trans by (auto simp: in_frame_def)
  have "\<forall>c. i \<in> set (registered w c) \<longrightarrow> c \<in> set (ss_channels s) \<and> (\<exists>u d. c = ChannelUser u \<and> (ak_id key = 0 \<or> proven w k u d))"
    using assms(1,2) by (simp add: in_frame_def)
  then have ch: "\<forall>c. i \<in> set (registered ?w1 c) \<longrightarrow> c \<in> set (ss_channels ?s1) \<and> (\<exists>u d. c = ChannelUser u \<and> (ak_id key = 0 \<or> proven ?w1 k u d))"
    unfolding r(3) using p by (metis Session.select_convs(12) Session.surjective Session.update_convs(8) Session.update_convs(9))
  have "in_frame e k i w0 (?s1, ?w1)"
    unfolding in_frame_def fst_conv snd_conv
  proof (intro conjI exI)
    show "ss_authKey ?s1 = Some key" using assms(2) by simp
    show "ak_id key = k \<or> ak_id key = 0" by (rule id)
    show "ss_userID ?s1 \<noteq> 0 \<longrightarrow> proven ?w1 k (ss_userID ?s1) (ss_deviceID ?s1) \<or> ak_id key = 0 \<and> proven ?w1 0 (ss_userID ?s1) (ss_deviceID ?s1)"
      using id pk by auto
    show "\<not> ss_closed ?s1" using assms(1) by (simp add: in_frame_def)
  qed (rule ch, rule later)
  then have a: "in_frame e k i w0 (s2, w2)" if "attachIdentity cfg e i ?u ?d (?s1, ?w1) = (ok, s2, w2)" for ok s2 w2
    using that by (rule in_frame_attach) (use id pk assms(2) in auto)
  obtain ok s2 w2 where at: "attachIdentity cfg e i ?u ?d (?s1, ?w1) = (ok, s2, w2)" by (cases "attachIdentity cfg e i ?u ?d (?s1, ?w1)")
  have c: "core (if ss_salt s2 = 0 then (case NewSalt (ge_salt e) of Inl _ \<Rightarrow> s2 | Inr salt \<Rightarrow> s2\<lparr>ss_salt := salt\<rparr>) else s2) = core s2"
    by (simp split: sum.split)
  show ?thesis
    using a [OF at] at c by (cases ok) (auto simp: bind_identity_def Let_def intro!: in_frame_core [where s = s2])
qed

lemma in_frame_auth_bind:
  assumes "in_frame e k i w0 sw"
  shows "in_frame e k i w0 (handleAuthBind lib cfg e i msg sw)"
proof -
  obtain s w where sw: "sw = (s, w)" by (cases sw)
  have c: "in_frame e k i w0 (rpcErrorMsg lib e a b m s, w)" for a b m using in_frame_core assms sw by simp
  show ?thesis
    unfolding handleAuthBind_def sw
    using c assms sw in_frame_bind by (auto split: sum.split option.split call_error.split)
qed

lemma in_frame_called:
  assumes "in_frame e k i w0 (s, w)" and "ss_userID s \<noteq> 0"
  shows "in_frame e k i w0 (s, called (ss_userID s) (ss_deviceID s) c w)"
proof -
  let ?w = "called (ss_userID s) (ss_deviceID s) c w"
  have f: "registered ?w = registered w" "proven ?w = proven w" "gw_resolved ?w = gw_resolved w" "gw_bindings ?w = gw_bindings w"
    by (simp_all add: called_def registered_def proven_def fun_eq_iff)
  have p: "proven w k (ss_userID s) (ss_deviceID s) \<or> proven w 0 (ss_userID s) (ss_deviceID s)"
    using assms by (auto simp: in_frame_def)
  have b: "bindings_ok w" using assms(1) by (simp add: in_frame_def world_later_def)
  then have "bindings_ok ?w" unfolding bindings_ok_def f .
  moreover have "gw_calls ?w = gw_calls w @ [(ss_userID s, ss_deviceID s, c)]" by (simp add: called_def)
  ultimately have "world_later e k i w ?w"
    unfolding world_later_def f using p assms(2) by simp
  then have "world_later e k i w0 ?w" using assms(1) world_later_trans by (auto simp: in_frame_def)
  then show ?thesis using assms(1) unfolding in_frame_def by (simp add: f)
qed

lemma in_frame_forward:
  assumes "in_frame e k i w0 sw" and "ss_userID (fst sw) \<noteq> 0"
  shows "in_frame e k i w0 (forward lib e un f an msg sw)"
proof -
  obtain s w where sw: "sw = (s, w)" by (cases sw)
  have "in_frame e k i w0 (s', called (ss_userID s) (ss_deviceID s) c w)" if "core s' = core s" for s' c
    using in_frame_core [OF in_frame_called that] assms sw by simp
  then show ?thesis using in_frame_core [of e k i w0 s w] assms sw by (auto simp: forward_def split: sum.split)
qed

lemma in_frame_api:
  assumes "in_frame e k i w0 sw" and "ss_userID (fst sw) \<noteq> 0"
  shows "in_frame e k i w0 (handleAPI lib e msg c sw)"
proof -
  have r: "in_frame e k i w0 (case sw of (s, w) \<Rightarrow> (rpcErrorMsg lib e a n m s, w))" for a n m
    using in_frame_core assms(1) by (cases sw) simp
  show ?thesis
    unfolding handleAPI_def Let_def
    by (simp add: in_frame_forward [OF assms] r split: option.split ConstructorName.split)
qed

lemma in_frame_one:
  assumes "in_frame e k i w0 sw"
  shows "in_frame e k i w0 (dispatch_one lib cfg e i msg sw)"
proof -
  obtain s w where sw: "sw = (s, w)" by (cases sw)
  have c: "in_frame e k i w0 (s', w)" if "core s' = core s" for s' using in_frame_core assms that sw by blast
  have d: "in_frame e k i w0 (handleAPI lib e msg q (s, w))" if "ss_userID s \<noteq> 0" for q using in_frame_api [OF assms] that sw by simp
  show ?thesis
    unfolding dispatch_one_def
    using assms in_frame_destroy [OF assms] in_frame_auth_bind [OF assms]
    by (simp add: sw c d split: sum.split option.split ConstructorName.split)
qed

lemma in_frame_contained:
  assumes "in_frame e k i w0 sw"
  shows "in_frame e k i w0 (contained_step lib cfg e i msg inner sw)"
proof -
  have "in_frame e k i w0 (queueAck m (fst sw), snd sw)" for m using in_frame_core [of e k i w0 "fst sw" "snd sw"] assms by simp
  then show ?thesis using assms in_frame_one by (simp add: contained_step_def Let_def split: sum.split)
qed

lemma in_frame_container:
  assumes "in_frame e k i w0 sw"
  shows "in_frame e k i w0 (handleContainer lib cfg e i msg sw)"
proof -
  have "in_frame e k i w0 (fold (contained_step lib cfg e i msg) ms sw)" for ms
    using assms by (induction ms arbitrary: sw) (simp_all add: in_frame_contained)
  moreover have "in_frame e k i w0 (rpcErrorMsg lib e a n m (fst sw), snd sw)" for a n m
    using in_frame_core [of e k i w0 "fst sw" "snd sw"] assms by simp
  ultimately show ?thesis using assms by (simp add: handleContainer_def split: sum.split)
qed

lemma in_frame_dispatch:
  assumes "in_frame e k i w0 sw"
  shows "in_frame e k i w0 (dispatch_message lib cfg e i msg sw)"
  using assms in_frame_one in_frame_container by (simp add: dispatch_message_def split: sum.split)

lemma Decrypt_names_key: "Decrypt key frame d = Inr m \<Longrightarrow> PeekAuthKeyID frame = Inr (ak_id key)"
  by (auto simp: Decrypt_def PeekAuthKeyID_def Let_def authKeyIDSize_def split: if_splits)

lemma in_frame_encrypted:
  assumes "in_frame e k i w0 sw"
  shows "in_frame e k i w0 (snd (handle_encrypted lib cfg e i key frame sw))"
proof -
  obtain s w where sw: "sw = (s, w)" by (cases sw)
  have c: "in_frame e k i w0 (s', w)" if "core s' = core s" for s' using in_frame_core assms that sw by blast
  show ?thesis
  proof (cases "Decrypt key frame ClientToServer")
    case (Inr m)
    obtain b s1 where ce: "checkEnvelope lib e m s = (b, s1)" by (cases "checkEnvelope lib e m s")
    have k: "core s1 = core s" using core_envelope(1) [of lib e m s] ce by simp
    have "in_frame e k i w0 (dispatch_message lib cfg e i m (s3, w))" if "core s3 = core s1" for s3
      by (rule in_frame_dispatch) (use c k that in simp)
    then show ?thesis using Inr ce c k by (cases b) (simp_all add: handle_encrypted_def sw Let_def)
  qed (use assms sw in \<open>simp add: handle_encrypted_def\<close>)
qed

section \<open>Between frames\<close>

text \<open>
  An open session that has no key has no identity and gets no updates.  With a key, its identity was confirmed for that key and
  so was the user of every channel it is registered for, unless its client destroyed the key.
\<close>

definition session_ok :: "nat \<Rightarrow> Session \<Rightarrow> gw_world \<Rightarrow> bool" where
  "session_ok i s w \<longleftrightarrow>
     (case ss_authKey s of
        None \<Rightarrow> ss_userID s = 0 \<and> (\<forall>c. i \<notin> set (registered w c))
      | Some key \<Rightarrow>
          (ss_userID s \<noteq> 0 \<longrightarrow> ak_id key = 0 \<or> proven w (ak_id key) (ss_userID s) (ss_deviceID s))
          \<and> (\<forall>c. i \<in> set (registered w c) \<longrightarrow>
               c \<in> set (ss_channels s) \<and> (\<exists>u d. c = ChannelUser u \<and> (ak_id key = 0 \<or> proven w (ak_id key) u d))))"

lemma session_ok_core: "core s' = core s \<Longrightarrow> session_ok i s' w = session_ok i s w"
  by (auto simp: session_ok_def core_def split: option.split)

lemma session_ok_wcore: "wcore w' = wcore w \<Longrightarrow> session_ok i s w' = session_ok i s w"
  unfolding session_ok_def by (simp add: wcore_registered [of w' w] wcore_proven [of w' w] split: option.split)

lemma session_ok_later:
  assumes "session_ok j s w0" and "world_later e k i w0 w" and "j \<noteq> i"
  shows "session_ok j s w"
proof -
  have r: "j \<in> set (registered w c) \<longleftrightarrow> j \<in> set (registered w0 c)" for c using assms(2,3) by (simp add: world_later_def)
  have p: "proven w0 a b c \<Longrightarrow> proven w a b c" for a b c using proven_mono world_later_grows [OF assms(2)] by blast
  show ?thesis
  proof (cases "ss_authKey s")
    case None
    then show ?thesis using assms(1) r by (simp add: session_ok_def)
  next
    case (Some key)
    then show ?thesis using assms(1) r p unfolding session_ok_def by simp blast
  qed
qed

lemma in_frame_session:
  assumes "in_frame e k i w0 (s, w)"
  shows "session_ok i s w"
proof -
  obtain key where "ss_authKey s = Some key" using assms by (auto simp: in_frame_def)
  then show ?thesis using assms by (auto simp: in_frame_def session_ok_def)
qed

lemma session_in_frame:
  assumes "session_ok i s w" and "ss_authKey s = Some key" and "ak_id key = k" and "k \<noteq> 0" and "bindings_ok w" and "\<not> ss_closed s"
  shows "in_frame e k i w (s, w)"
  using assms world_later_refl by (simp add: in_frame_def session_ok_def)

text \<open>What a step of one session keeps.\<close>

definition step_ok :: "gw_env \<Rightarrow> u64 \<Rightarrow> nat \<Rightarrow> gw_world \<Rightarrow> Session \<times> gw_world \<Rightarrow> bool" where
  "step_ok e k i w0 sw \<longleftrightarrow>
     world_later e k i w0 (snd sw)
     \<and> (if ss_closed (fst sw) then \<forall>c. i \<notin> set (registered (snd sw) c) else session_ok i (fst sw) (snd sw))"

lemma step_ok_same:
  assumes "session_ok i s w" and "\<not> ss_closed s" and "bindings_ok w" and "core s' = core s" and "wcore w' = wcore w"
  shows "step_ok e k i w (s', w')"
proof -
  have "world_later e k i w w'" using world_later_core [OF assms(5)] world_later_refl [OF assms(3)] by simp
  moreover have "session_ok i s' w'" using session_ok_core [OF assms(4)] session_ok_wcore [OF assms(5)] assms(1) by simp
  moreover have "\<not> ss_closed s'" using assms(2,4) by (simp add: core_def)
  ultimately show ?thesis by (simp add: step_ok_def)
qed

section \<open>Closing\<close>

lemma closed_frames [simp]:
  "gw_bindings (fold (unsubscribe i) cs w) = gw_bindings w" "gw_calls (fold (unsubscribe i) cs w) = gw_calls w"
  "gw_resolved (fold (unsubscribe i) cs w) = gw_resolved w"
  by (induction cs arbitrary: w) simp_all

lemma registered_closed:
  "set (registered (fold (unsubscribe i) cs w) c) = (if c \<in> set cs then set (registered w c) - {i} else set (registered w c))"
  by (induction cs arbitrary: w) auto

lemma Session_Close_ok:
  assumes "session_ok i s w" and "\<not> ss_closed s" and "bindings_ok w"
  shows "step_ok e k i w (Session_Close e i (s, w))"
proof -
  obtain s' w' where c: "Session_Close e i (s, w) = (s', w')" by (cases "Session_Close e i (s, w)")
  let ?w = "fold (unsubscribe i) (ss_channels s) w"
  have s: "ss_closed s'" and w: "wcore w' = wcore ?w"
    using c assms(2) by (auto simp: Session_Close_def Let_def split: if_splits)
  have b: "bindings_ok ?w" using assms(3) by (simp add: bindings_ok_def proven_def)
  have "i \<in> set (registered w x) \<Longrightarrow> x \<in> set (ss_channels s)" for x
    using assms(1) by (auto simp: session_ok_def split: option.splits)
  then have n: "i \<notin> set (registered ?w x)" for x unfolding registered_closed by auto
  have "world_later e k i w ?w" unfolding world_later_def using b by (auto simp: registered_closed)
  then show ?thesis
    unfolding step_ok_def c fst_conv snd_conv world_later_core [OF w] wcore_registered [OF w] using s n by simp
qed

lemma Session_Close_calls: "gw_calls (snd (Session_Close e i (s, w))) = gw_calls w"
  by (simp add: Session_Close_def Let_def publishPresence_def)

section \<open>Frames\<close>

lemma Store_Load_id: "Store_Load cfg e k w = (Some key, w') \<Longrightarrow> ak_id key = k"
  by (auto simp: Store_Load_def split: if_splits option.splits sum.splits)

lemma LoadBinding_facts:
  assumes "LoadBinding cfg e k w = (r, w')" and "bindings_ok w"
  shows "bindings_ok w' \<and> gw_registry w' = gw_registry w \<and> gw_calls w' = gw_calls w \<and> gw_resolved w' = gw_resolved w
    \<and> (\<forall>b. r = Some b \<longrightarrow> proven w k (bd_UserID b) (bd_DeviceID b))"
proof (cases "ge_down e GLoadBinding \<or> live_entry (ms_of e) (gw_bindings w) (keyBinding k) = None")
  case True
  then have "r = None" "w' = w" using assms(1) by (auto simp: LoadBinding_def split: if_splits)
  then show ?thesis using assms(2) by simp
next
  case False
  then obtain b where l: "live_entry (ms_of e) (gw_bindings w) (keyBinding k) = Some b" by auto
  then obtain x where x: "map_of (gw_bindings w) (keyBinding k) = Some (b, x)"
    by (auto simp: live_entry_def split: option.splits if_splits)
  have p: "proven w k (bd_UserID b) (bd_DeviceID b)" using x assms(2) by (auto simp: bindings_ok_def)
  have r: "r = Some b" "w' = w \<or> w' = w\<lparr>gw_bindings := AList.update (keyBinding k) (b, ms_of e + session_ttl cfg) (gw_bindings w)\<rparr>"
    using assms(1) l False by (auto simp: LoadBinding_def split: if_splits)
  have "bindings_ok (w\<lparr>gw_bindings := AList.update (keyBinding k) (b, y) (gw_bindings w)\<rparr>)" for y
    using assms(2) p by (auto simp: bindings_ok_def proven_def update_conv)
  then show ?thesis using r p assms(2) by auto
qed

lemma world_later_plain:
  assumes "bindings_ok w'" and "registered w' = registered w" and "gw_calls w' = gw_calls w" and "gw_resolved w' = gw_resolved w"
  shows "world_later e k i w w'"
  using assms by (simp add: world_later_def)

lemma resume_ok:
  assumes "session_ok i s w" and "ss_authKey s = None" and "bindings_ok w" and "\<not> ss_closed s"
    and "resume cfg e i k (s, w) = (err, s', w')"
  shows "if err = None then in_frame e k i w (s', w') else s' = s \<and> wcore w' = wcore w"
proof -
  obtain r w1 where l: "Store_Load cfg e k w = (r, w1)" by (cases "Store_Load cfg e k w")
  have w1: "wcore w1 = wcore w" using wcore_load [of cfg e k w] l by simp
  show ?thesis
  proof (cases r)
    case None
    then show ?thesis using l w1 assms(5) by (auto simp: resume_def)
  next
    case (Some key)
    have id: "ak_id key = k" using Store_Load_id l Some by simp
    have b1: "bindings_ok w1" using wcore_bindings [OF w1] assms(3) by simp
    have r1: "i \<notin> set (registered w1 c)" for c using wcore_registered [OF w1] assms(1,2) by (simp add: session_ok_def)
    have u: "ss_userID s = 0" using assms(1,2) by (simp add: session_ok_def)
    obtain b w2 where lb: "LoadBinding cfg e k w1 = (b, w2)" by (cases "LoadBinding cfg e k w1")
    note f = LoadBinding_facts [OF lb b1]
    have reg: "registered w2 = registered w1" by (rule registered_same) (use f in simp)
    have p: "proven w2 = proven w1" using f by (simp add: proven_def fun_eq_iff)
    have "world_later e k i w w1" using world_later_core [OF w1] world_later_refl [OF assms(3)] by simp
    moreover have "world_later e k i w1 w2" by (rule world_later_plain) (use f reg in simp_all)
    ultimately have later: "world_later e k i w w2" by (rule world_later_trans)
    have fr: "in_frame e k i w (s\<lparr>ss_authKey := Some key, ss_userID := x, ss_deviceID := y\<rparr>, w2)" if "x \<noteq> 0 \<longrightarrow> proven w2 k x y" for x y
      unfolding in_frame_def using id later that assms(4) by (simp add: reg r1)
    show ?thesis
    proof (cases b)
      case None
      then show ?thesis using fr [of 0 "ss_deviceID s"] l Some lb assms(4,5) u by (auto simp: resume_def in_frame_def Let_def)
    next
      case (Some bd)
      let ?s = "s\<lparr>ss_authKey := r, ss_userID := bd_UserID bd, ss_deviceID := bd_DeviceID bd\<rparr>"
      obtain a s2 w3 where at: "attachIdentity cfg e i (bd_UserID bd) (bd_DeviceID bd) (?s, w2) = (a, s2, w3)"
        by (cases "attachIdentity cfg e i (bd_UserID bd) (bd_DeviceID bd) (?s, w2)")
      have pb: "proven w2 k (bd_UserID bd) (bd_DeviceID bd)" using f Some p by simp
      then have "in_frame e k i w (?s, w2)" using fr \<open>r = Some key\<close> by simp
      then have "in_frame e k i w (s2, w3)" using at by (rule in_frame_attach) (use pb in simp)
      moreover have "err = None \<and> s' = s2 \<and> w' = w3" using l lb Some \<open>r = Some key\<close> at assms(5) by (simp add: resume_def Let_def)
      ultimately show ?thesis by simp
    qed
  qed
qed

text \<open>Plain frames leave what matters alone, and the identity unset.\<close>

lemma step_ok_unbound:
  assumes "session_ok i s w" and "ss_authKey s = None" and "\<not> ss_closed s" and "bindings_ok w" and "wcore w' = wcore w"
    and "ss_userID s' = ss_userID s" and "ss_closed s' = ss_closed s"
  shows "step_ok e k i w (s', w')"
proof -
  have "world_later e k i w w'" using world_later_core [OF assms(5)] world_later_refl [OF assms(4)] by simp
  moreover have "session_ok i s' w'"
    using assms(1,2,6) wcore_registered [OF assms(5)] by (simp add: session_ok_def split: option.split)
  ultimately show ?thesis using assms(3,7) by (simp add: step_ok_def)
qed

lemma core_keeps: "core s' = core s \<Longrightarrow> ss_userID s' = ss_userID s \<and> ss_closed s' = ss_closed s"
  by (simp add: core_def)

lemma set_dh_keeps:
  assumes "handle_SetClientDHParams lib cfg e payload (s, w) = (r, s', w')"
  shows "ss_userID s' = ss_userID s \<and> ss_closed s' = ss_closed s \<and> wcore w' = wcore w"
proof -
  have k: "ss_userID (snd (sendPlain lib e c v x)) = ss_userID x \<and> ss_closed (snd (sendPlain lib e c v x)) = ss_closed x" for c v x
    by (rule core_keeps) simp
  have p: "ss_userID y = ss_userID x \<and> ss_closed y = ss_closed x" if "sendPlain lib e c v x = (q, y)" for c v x q y
    using k [of c v x] that by simp
  have sv: "wcore w1 = wcore w" if "Store_Save cfg e key w = (q, w1)" for key q w1 using wcore_updates(7) [of cfg e key w] that by simp
  show ?thesis
    using assms k sv unfolding handle_SetClientDHParams_def Let_def
    by (auto split: sum.splits prod.splits bool.splits dest!: p)
qed

lemma handlePlain_keeps:
  assumes "handlePlain lib cfg e frame (s, w) = (r, s', w')"
  shows "ss_userID s' = ss_userID s \<and> ss_closed s' = ss_closed s \<and> wcore w' = wcore w"
proof -
  have a: "ss_userID y = ss_userID s \<and> ss_closed y = ss_closed s" if "handle_ReqPQ lib e p s = (q, y)" for p q y
    using core_keeps [OF core_req_pq [of lib e p s]] that by simp
  have b: "ss_userID y = ss_userID s \<and> ss_closed y = ss_closed s" if "handle_ReqDHParams lib e p s = (q, y)" for p q y
    using core_keeps [OF core_req_dh [of lib e p s]] that by simp
  have c: "ss_userID s' = ss_userID s \<and> ss_closed s' = ss_closed s \<and> wcore w' = wcore w"
    if "handle_SetClientDHParams lib cfg e p (s, w\<lparr>gw_buckets := x\<rparr>) = (r, s', w')" for p x using set_dh_keeps [OF that] by simp
  show ?thesis
  proof (cases "DecodePlain frame")
    case (Inr ip)
    obtain i p where ip: "ip = (i, p)" by (cases ip)
    show ?thesis
    proof (cases "PeekConstructor p")
      case (Inr cn)
      obtain d er bk where al: "Allow True (ge_down e GLimit) (ms_of e) (KeyIP ''handshake'' (ss_ip s)) HandshakePerIP (gw_buckets w) = (d, er, bk)"
        by (cases "Allow True (ge_down e GLimit) (ms_of e) (KeyIP ''handshake'' (ss_ip s)) HandshakePerIP (gw_buckets w)")
      have h: "(if er = None \<and> \<not> Allowed d then (Some HandshakeLimited, s, w\<lparr>gw_buckets := bk\<rparr>)
         else case constructor_of cn of
                Some CReqPQ \<Rightarrow> (case handle_ReqPQ lib e p s of (r, s') \<Rightarrow> (r, s', w\<lparr>gw_buckets := bk\<rparr>))
              | Some CReqDHParams \<Rightarrow> (case handle_ReqDHParams lib e p s of (r, s') \<Rightarrow> (r, s', w\<lparr>gw_buckets := bk\<rparr>))
              | Some CSetClientDHParams \<Rightarrow> handle_SetClientDHParams lib cfg e p (s, w\<lparr>gw_buckets := bk\<rparr>)
              | _ \<Rightarrow> (Some (NotBeforeAuth cn), s, w\<lparr>gw_buckets := bk\<rparr>)) = (r, s', w')"
        using assms \<open>DecodePlain frame = Inr ip\<close> Inr ip al unfolding handlePlain_def Let_def by simp
      consider "constructor_of cn = Some CReqPQ" | "constructor_of cn = Some CReqDHParams" | "constructor_of cn = Some CSetClientDHParams"
        | "constructor_of cn \<notin> {Some CReqPQ, Some CReqDHParams, Some CSetClientDHParams}" by auto
      then show ?thesis
      proof cases
        case 4
        then have "s' = s \<and> w' = w\<lparr>gw_buckets := bk\<rparr>" using h by (auto split: option.splits ConstructorName.splits if_splits)
        then show ?thesis by simp
      qed (use h a b c in \<open>auto split: if_splits prod.splits\<close>)
    qed (use assms Inr ip in \<open>auto simp: handlePlain_def\<close>)
  qed (use assms in \<open>auto simp: handlePlain_def\<close>)
qed

lemma in_frame_step: "in_frame e k i w0 sw \<Longrightarrow> step_ok e k i w0 sw"
  using in_frame_session [of e k i w0 "fst sw" "snd sw"] by (simp add: step_ok_def in_frame_def)

lemma handle_encrypted_ok:
  assumes "session_ok i s w" and "bindings_ok w" and "\<not> ss_closed s" and "ss_authKey s = Some key" and "PeekAuthKeyID frame = Inr k" and "k \<noteq> 0"
  shows "step_ok e k i w (snd (handle_encrypted lib cfg e i key frame (s, w)))"
proof (cases "Decrypt key frame ClientToServer")
  case (Inl err)
  then show ?thesis using step_ok_same assms by (simp add: handle_encrypted_def)
next
  case (Inr m)
  then have "ak_id key = k" using Decrypt_names_key assms(5) by fastforce
  then have "in_frame e k i w (s, w)" using assms session_in_frame by blast
  then show ?thesis by (rule in_frame_step [OF in_frame_encrypted])
qed

lemma handleFrame_ok:
  assumes "session_ok i s w" and "bindings_ok w" and "\<not> ss_closed s"
  shows "step_ok e (frame_key frame) i w (snd (handleFrame lib cfg e i frame (s, w)))"
proof (cases "PeekAuthKeyID frame")
  case (Inl err)
  then show ?thesis using step_ok_same assms by (simp add: handleFrame_def)
next
  case (Inr k)
  have k: "frame_key frame = k" using Inr by (simp add: frame_key_def)
  consider "k = 0" "ss_authKey s \<noteq> None" | "k = 0" "ss_authKey s = None" | key where "k \<noteq> 0" "ss_authKey s = Some key" | "k \<noteq> 0" "ss_authKey s = None"
    by blast
  then show ?thesis
  proof cases
    case 1
    then show ?thesis using Inr step_ok_same assms by (simp add: handleFrame_def)
  next
    case 2
    obtain r s' w' where p: "handlePlain lib cfg e frame (s, w) = (r, s', w')" by (cases "handlePlain lib cfg e frame (s, w)")
    have "step_ok e 0 i w (s', w')" by (rule step_ok_unbound) (use handlePlain_keeps [OF p] assms 2 in simp_all)
    then show ?thesis using Inr 2 p k by (simp add: handleFrame_def)
  next
    case (3 key)
    then show ?thesis using handle_encrypted_ok [OF assms] Inr k by (simp add: handleFrame_def)
  next
    case 4
    obtain r s1 w1 where p: "resume cfg e i k (s, w) = (r, s1, w1)" by (cases "resume cfg e i k (s, w)")
    note res = resume_ok [OF assms(1) 4(2) assms(2,3) p]
    show ?thesis
    proof (cases r)
      case None
      then have f: "in_frame e k i w (s1, w1)" using res by simp
      then obtain key where "ss_authKey s1 = Some key" by (auto simp: in_frame_def)
      then show ?thesis using in_frame_step [OF in_frame_encrypted [OF f]] None 4 Inr p k by (simp add: handleFrame_def)
    next
      case (Some err)
      then have "step_ok e k i w (s1, w1)" using res step_ok_same assms by simp
      then show ?thesis using Some 4 Inr p k by (simp add: handleFrame_def)
    qed
  qed
qed

lemma run_frame_ok:
  assumes "session_ok i s w" and "bindings_ok w" and "\<not> ss_closed s"
  shows "step_ok e (frame_key frame) i w (run_frame lib cfg e i frame (s, w))"
proof -
  obtain r s1 w1 where p: "handleFrame lib cfg e i frame (s, w) = (r, s1, w1)" by (cases "handleFrame lib cfg e i frame (s, w)")
  have 1: "step_ok e (frame_key frame) i w (s1, w1)" using handleFrame_ok [OF assms, of e frame lib cfg] p by simp
  have "step_ok e (frame_key frame) i w (Session_Close e i (s1, w1))"
  proof (cases "ss_closed s1")
    case True
    then show ?thesis using 1 by (simp add: Session_Close_def)
  next
    case False
    then have "step_ok e (frame_key frame) i w1 (Session_Close e i (s1, w1))"
      using 1 Session_Close_ok by (simp add: step_ok_def world_later_def)
    then show ?thesis using 1 world_later_trans unfolding step_ok_def by auto
  qed
  then show ?thesis using 1 p by (cases r) (simp_all add: run_frame_def)
qed

end
