(* ===== verification/Gateway_Pod.thy ===== *)
theory Gateway_Pod
  imports Gateway_Sessions
begin

text \<open>
  What the gateway guarantees: on whose behalf it calls the services, and to whom it sends updates, after any sequence of
  connections, frames, failures, deliveries and reconnections, by itself and with the auth service behind it; and three things
  its sessions do that its comments rule out.
\<close>

section \<open>The pod\<close>

definition sessions_ok :: "pod \<Rightarrow> bool" where
  "sessions_ok p \<longleftrightarrow>
     bindings_ok (po_world p)
     \<and> (\<forall>i c. i \<in> set (registered (po_world p) c) \<longrightarrow> (\<exists>s. map_of (po_sessions p) i = Some s \<and> \<not> ss_closed s))
     \<and> (\<forall>i s. map_of (po_sessions p) i = Some s \<longrightarrow> \<not> ss_closed s \<longrightarrow> session_ok i s (po_world p))"

lemma on_session_ok:
  assumes "sessions_ok p"
    and "\<And>s. session_ok i s (po_world p) \<Longrightarrow> \<not> ss_closed s \<Longrightarrow> step_ok e k i (po_world p) (f (s, po_world p))"
  shows "world_later e k i (po_world p) (po_world (on_session i f p)) \<and> sessions_ok (on_session i f p)"
proof -
  let ?w = "po_world p"
  have b: "bindings_ok ?w" using assms(1) by (simp add: sessions_ok_def)
  consider "on_session i f p = p" | s where "map_of (po_sessions p) i = Some s" "\<not> ss_closed s"
    by (cases "\<exists>s. map_of (po_sessions p) i = Some s \<and> \<not> ss_closed s") (auto simp: on_session_def split: option.split)
  then show ?thesis
  proof cases
    case 1
    then show ?thesis using assms(1) world_later_refl [OF b] by simp
  next
    case (2 s)
    obtain s' w' where f: "f (s, ?w) = (s', w')" by (cases "f (s, ?w)")
    let ?p = "p\<lparr>po_sessions := AList.update i s' (po_sessions p), po_world := w'\<rparr>"
    have p: "on_session i f p = ?p" using 2 f by (simp add: on_session_def)
    have ok: "session_ok i s ?w" using assms(1) 2 by (simp add: sessions_ok_def)
    have st: "world_later e k i ?w w'" "if ss_closed s' then \<forall>c. i \<notin> set (registered w' c) else session_ok i s' w'"
      using assms(2) [OF ok 2(2)] unfolding step_ok_def f fst_conv snd_conv by blast+
    have "session_ok j t w'" if "map_of (po_sessions ?p) j = Some t" "\<not> ss_closed t" for j t
    proof (cases "j = i")
      case True
      then show ?thesis using that st(2) by (simp add: update_conv)
    next
      case False
      then have "session_ok j t ?w" using that assms(1) by (simp add: sessions_ok_def update_conv)
      then show ?thesis using session_ok_later st(1) False by blast
    qed
    moreover have "\<exists>t. map_of (po_sessions ?p) j = Some t \<and> \<not> ss_closed t" if "j \<in> set (registered w' c)" for j c
    proof (cases "j = i")
      case True
      then show ?thesis using st(2) that by (auto simp: update_conv split: if_splits)
    next
      case False
      then have "j \<in> set (registered ?w c)" using st(1) that by (simp add: world_later_def)
      then show ?thesis using assms(1) False by (auto simp: sessions_ok_def update_conv)
    qed
    moreover have "bindings_ok w'" using st(1) by (simp add: world_later_def)
    ultimately show ?thesis unfolding p sessions_ok_def using st(1) by simp
  qed
qed

lemma on_session_calls:
  "(\<And>s w. gw_calls (snd (f (s, w))) = gw_calls w) \<Longrightarrow> gw_calls (po_world (on_session i f p)) = gw_calls (po_world p)"
  by (auto simp: on_session_def split: option.split prod.split) (metis snd_conv)

lemma on_session_log [simp]: "po_log (on_session i f p) = po_log p"
  by (simp add: on_session_def split: option.split prod.split)

text \<open>Queueing updates changes no session in what matters.\<close>

lemma map_sessions: "map_of (map (\<lambda>(i, s). (i, g i s)) xs) j = map_option (g j) (map_of xs j)"
  by (induction xs) auto

lemma sessions_ok_map:
  assumes "sessions_ok p" and "\<And>i s. core (g i s) = core s" and "po_world p' = po_world p"
    and "po_sessions p' = map (\<lambda>(i, s). (i, g i s)) (po_sessions p)"
  shows "sessions_ok p'"
proof -
  have c: "ss_closed (g i s) = ss_closed s" for i s using assms(2) [of i s] by (simp add: core_def)
  have o: "session_ok i (g i s) w = session_ok i s w" for i s w by (rule session_ok_core) (rule assms(2))
  show ?thesis using assms(1) unfolding sessions_ok_def assms(3,4) map_sessions by (auto simp: c o)
qed

lemma Handle_ok:
  assumes "sessions_ok p"
  shows "sessions_ok (Handle cfg e i ip kind p) \<and> wcore (po_world (Handle cfg e i ip kind p)) = wcore (po_world p)
    \<and> po_log (Handle cfg e i ip kind p) = po_log p"
proof (cases "map_of (po_sessions p) i \<noteq> None \<or> po_draining p")
  case True
  then show ?thesis using assms by (simp add: Handle_def)
next
  case False
  obtain d er b where al: "Allow True (ge_down e GLimit) (ms_of e) (KeyIP ''conn'' ip) ConnectionPerIP (gw_buckets (po_world p)) = (d, er, b)"
    by (cases "Allow True (ge_down e GLimit) (ms_of e) (KeyIP ''conn'' ip) ConnectionPerIP (gw_buckets (po_world p))")
  let ?w = "(po_world p)\<lparr>gw_buckets := b\<rparr>"
  let ?p = "p\<lparr>po_world := ?w\<rparr>" and ?q = "p\<lparr>po_world := ?w, po_sessions := (i, NewSession cfg (ge_now e) ip kind) # po_sessions p\<rparr>"
  have w: "wcore ?w = wcore (po_world p)" by simp
  have 1: "sessions_ok ?p"
    using assms unfolding sessions_ok_def by (simp add: wcore_registered [OF w] wcore_bindings [OF w] session_ok_wcore [OF w])
  have "i \<notin> set (registered ?w c)" for c using assms False wcore_registered [OF w] by (auto simp: sessions_ok_def)
  then have "session_ok i (NewSession cfg (ge_now e) ip kind) ?w" by (simp add: session_ok_def NewSession_def)
  then have 2: "sessions_ok ?q"
    using 1 False unfolding sessions_ok_def by (auto simp: NewSession_def)
  have "Handle cfg e i ip kind p = ?p \<or> Handle cfg e i ip kind p = ?q" using False al by (auto simp: Handle_def Let_def)
  then show ?thesis using 1 2 w by auto
qed

section \<open>The log\<close>

fun event_envs :: "gw_event \<Rightarrow> gw_env list" where
  "event_envs (Connect e i ip kind) = [e]"
| "event_envs (Frame e i frame) = [e]"
| "event_envs (Written e i) = [e]"
| "event_envs (AckTick e i) = [e]"
| "event_envs (Beat e i) = [e]"
| "event_envs (Rotate e i) = [e]"
| "event_envs (Deliver channel u) = []"
| "event_envs (DrainAll e) = [e]"
| "event_envs (Disconnect e i) = [e]"

definition calls_ok :: "gw_env list \<Rightarrow> pod \<Rightarrow> bool" where
  "calls_ok es p \<longleftrightarrow>
     (\<forall>x \<in> set (gw_resolved (po_world p)). \<exists>e \<in> set es. from_env e x)
     \<and> gw_calls (po_world p) = map snd (po_log p)
     \<and> (\<forall>(k, u, d, c) \<in> set (po_log p). u \<noteq> 0 \<and> (proven (po_world p) k u d \<or> proven (po_world p) 0 u d))"

lemma calls_ok_wcore: "calls_ok es p \<Longrightarrow> wcore (po_world p') = wcore (po_world p) \<Longrightarrow> po_log p' = po_log p \<Longrightarrow> calls_ok es p'"
  using wcore_proven [of "po_world p'" "po_world p"] by (simp add: calls_ok_def wcore_def)

lemma calls_ok_more: "calls_ok es p \<Longrightarrow> calls_ok (es @ fs) p"
  by (fastforce simp: calls_ok_def)

lemma calls_ok_later:
  assumes "calls_ok es p" and "world_later e k i (po_world p) (po_world p')" and "e \<in> set fs"
    and "po_log p' = po_log p @ map (\<lambda>c. (k, c)) (drop (length (gw_calls (po_world p))) (gw_calls (po_world p')))"
  shows "calls_ok (es @ fs) p'"
proof -
  obtain new cs where n: "gw_resolved (po_world p') = new @ gw_resolved (po_world p)" "\<forall>x \<in> set new. from_env e x"
    "gw_calls (po_world p') = gw_calls (po_world p) @ cs" "\<forall>(u, d, c) \<in> set cs. u \<noteq> 0 \<and> (proven (po_world p') k u d \<or> proven (po_world p') 0 u d)"
    using assms(2) by (rule world_laterE)
  have l: "po_log p' = po_log p @ map (\<lambda>c. (k, c)) cs" using assms(4) n(3) by simp
  have g: "proven (po_world p) a b c \<Longrightarrow> proven (po_world p') a b c" for a b c
    using proven_mono world_later_grows [OF assms(2)] by blast
  have "\<forall>x \<in> set (gw_resolved (po_world p')). \<exists>f \<in> set (es @ fs). from_env f x"
    using assms(1,3) n(1,2) unfolding calls_ok_def by auto
  moreover have "gw_calls (po_world p') = map snd (po_log p')" using assms(1) n(3) l by (simp add: calls_ok_def comp_def)
  moreover have "\<forall>(a, u, d, c) \<in> set (po_log p'). u \<noteq> 0 \<and> (proven (po_world p') a u d \<or> proven (po_world p') 0 u d)"
    using assms(1) n(4) unfolding l calls_ok_def by (auto dest: g)
  ultimately show ?thesis by (simp add: calls_ok_def)
qed

text \<open>The invariant of a pod.\<close>

definition pod_ok :: "gw_env list \<Rightarrow> pod \<Rightarrow> bool" where
  "pod_ok es p \<longleftrightarrow> sessions_ok p \<and> calls_ok es p"

lemma pod_ok_session:
  assumes "pod_ok es p"
    and "\<And>s. session_ok i s (po_world p) \<Longrightarrow> \<not> ss_closed s \<Longrightarrow> bindings_ok (po_world p) \<Longrightarrow> step_ok e 0 i (po_world p) (f (s, po_world p))"
    and "\<And>s w. gw_calls (snd (f (s, w))) = gw_calls w" and "e \<in> set fs"
  shows "pod_ok (es @ fs) (on_session i f p)"
proof -
  have b: "bindings_ok (po_world p)" using assms(1) by (simp add: pod_ok_def sessions_ok_def)
  have 1: "world_later e 0 i (po_world p) (po_world (on_session i f p)) \<and> sessions_ok (on_session i f p)"
    by (rule on_session_ok) (use assms(1,2) b in \<open>auto simp: pod_ok_def\<close>)
  have "gw_calls (po_world (on_session i f p)) = gw_calls (po_world p)" by (rule on_session_calls) (rule assms(3))
  then have "calls_ok (es @ fs) (on_session i f p)"
    using calls_ok_later [of es p e 0 i "on_session i f p" fs] assms(1,4) 1 by (simp add: pod_ok_def)
  then show ?thesis using 1 by (simp add: pod_ok_def)
qed

lemma pod_ok_map:
  assumes "pod_ok es p" and "\<And>i s. core (g i s) = core s" and "po_world p' = po_world p" and "po_log p' = po_log p"
    and "po_sessions p' = map (\<lambda>(i, s). (i, g i s)) (po_sessions p)"
  shows "pod_ok (es @ fs) p'"
  using assms sessions_ok_map [of p g p'] calls_ok_wcore [of "es @ fs" p p'] calls_ok_more by (auto simp: pod_ok_def)

lemma pod_ok_frame:
  assumes "pod_ok es p"
  shows "pod_ok (es @ [e]) (pod_step lib cfg (Frame e i frame) p)"
proof -
  let ?p = "on_session i (run_frame lib cfg e i frame) p"
  let ?q = "pod_step lib cfg (Frame e i frame) p"
  have 1: "world_later e (frame_key frame) i (po_world p) (po_world ?p) \<and> sessions_ok ?p"
    by (rule on_session_ok) (use assms run_frame_ok in \<open>auto simp: pod_ok_def sessions_ok_def\<close>)
  have q: "po_world ?q = po_world ?p" "po_sessions ?q = po_sessions ?p"
    "po_log ?q = po_log p @ map (\<lambda>c. (frame_key frame, c)) (drop (length (gw_calls (po_world p))) (gw_calls (po_world ?q)))"
    by (simp_all add: pod_step_def Let_def)
  have "calls_ok (es @ [e]) ?q" by (rule calls_ok_later [where i = i, OF _ _ _ q(3)]) (use assms 1 q(1) in \<open>simp_all add: pod_ok_def\<close>)
  then show ?thesis using 1 q by (simp add: pod_ok_def sessions_ok_def)
qed

lemma pod_ok_step:
  assumes "pod_ok es p"
  shows "pod_ok (es @ event_envs ev) (pod_step lib cfg ev p)"
proof (cases ev)
  case (Connect e i ip kind)
  have "sessions_ok (Handle cfg e i ip kind p)" "calls_ok (es @ [e]) (Handle cfg e i ip kind p)"
    using Handle_ok [of p cfg e i ip kind] calls_ok_wcore [of "es @ [e]" p] calls_ok_more [of es p "[e]"] assms by (simp_all add: pod_ok_def)
  then show ?thesis using Connect by (simp add: pod_step_def pod_ok_def)
next
  case (Frame e i frame)
  then show ?thesis using pod_ok_frame [OF assms] by simp
next
  case (Written e i)
  have "pod_ok (es @ [e]) (on_session i (\<lambda>(s, w). (writeLoop_update lib e s, w)) p)"
    by (rule pod_ok_session [OF assms]) (auto intro: step_ok_same)
  then show ?thesis using Written by (simp add: pod_step_def)
next
  case (AckTick e i)
  have "pod_ok (es @ [e]) (on_session i (\<lambda>(s, w). (if ss_writing s then flushAcks lib e s else s, w)) p)"
    by (rule pod_ok_session [OF assms]) (auto intro: step_ok_same)
  then show ?thesis using AckTick by (simp add: pod_step_def)
next
  case (Beat e i)
  have "pod_ok (es @ [e]) (on_session i (presence_beat cfg e) p)"
    by (rule pod_ok_session [OF assms]) (auto simp: presence_beat_def intro: step_ok_same)
  then show ?thesis using Beat by (simp add: pod_step_def)
next
  case (Rotate e i)
  have "pod_ok (es @ [e]) (on_session i (\<lambda>(s, w). (rotate_salt lib e s, w)) p)"
    by (rule pod_ok_session [OF assms]) (auto intro: step_ok_same)
  then show ?thesis using Rotate by (simp add: pod_step_def)
next
  case (Deliver channel u)
  have "pod_ok (es @ []) (dispatchUpdates cfg channel u p)"
    by (rule pod_ok_map [OF assms, where g = "\<lambda>i s. if i \<in> set (registered (po_world p) channel) then Enqueue cfg u s else s"])
      (simp_all add: dispatchUpdates_def)
  then show ?thesis using Deliver by (simp add: pod_step_def)
next
  case (DrainAll e)
  have "pod_ok (es @ [e]) (Drain cfg e p)"
    by (rule pod_ok_map [OF assms, where
          g = "\<lambda>i s. if \<exists>(c, is) \<in> set (gw_registry (po_world p)). i \<in> set is then Enqueue cfg (reconnect_hint (ms_of e)) s else s"])
      (simp_all add: Drain_def)
  then show ?thesis using DrainAll by (simp add: pod_step_def)
next
  case (Disconnect e i)
  have "pod_ok (es @ [e]) (on_session i (Session_Close e i) p)"
    by (rule pod_ok_session [OF assms]) (simp_all add: Session_Close_ok Session_Close_calls)
  then show ?thesis using Disconnect by (simp add: pod_step_def)
qed

lemma pod_ok_new: "pod_ok [] new_pod"
  by (simp add: pod_ok_def sessions_ok_def calls_ok_def new_pod_def bindings_ok_def registered_def)

definition run_envs :: "gw_event list \<Rightarrow> gw_env list" where
  "run_envs evs = concat (map event_envs evs)"

lemma pod_ok_run: "pod_ok (run_envs evs) (pod_run lib cfg evs)"
proof -
  have "pod_ok es p \<Longrightarrow> pod_ok (es @ run_envs evs) (fold (pod_step lib cfg) evs p)" for es p
  proof (induction evs arbitrary: es p)
    case (Cons ev evs)
    from Cons.IH [OF pod_ok_step [OF Cons.prems]] show ?case by (simp add: run_envs_def)
  qed (simp add: run_envs_def)
  from this [OF pod_ok_new] show ?thesis by (simp add: pod_run_def)
qed

section \<open>What follows\<close>

text \<open>In one of the environments the auth service would answer a request that names the key with this user and device.\<close>

definition confirmed :: "gw_env list \<Rightarrow> u64 \<Rightarrow> int \<Rightarrow> int \<Rightarrow> bool" where
  "confirmed es k u d \<longleftrightarrow>
     list_ex (\<lambda>e. \<exists>rq r. ge_resolve e rq = Inr r \<and> rt_AuthKeyID rq = AuthKeyIDHex k \<and> rr_UserID r = u \<and> rr_DeviceID r = d) es"

lemma proven_confirmed:
  assumes "calls_ok es p" and "proven (po_world p) k u d"
  shows "confirmed es k u d"
proof -
  obtain tok e where "e \<in> set es" "from_env e (tok, AuthKeyIDHex k, u, d)" using assms by (auto simp: calls_ok_def proven_def)
  then show ?thesis unfolding confirmed_def list_ex_iff from_env_def by (metis prod.inject)
qed


text \<open>An open session whose key the user of the channel was confirmed for.\<close>

definition session_for :: "gw_env list \<Rightarrow> string \<Rightarrow> Session \<Rightarrow> bool" where
  "session_for es c s \<longleftrightarrow>
     \<not> ss_closed s
     \<and> (case ss_authKey s of None \<Rightarrow> False | Some key \<Rightarrow> \<exists>u d. c = ChannelUser u \<and> (ak_id key = 0 \<or> confirmed es (ak_id key) u d))"

lemma registered_session_for:
  assumes "pod_ok es p" and "i \<in> set (registered (po_world p) c)"
  shows "\<exists>s. map_of (po_sessions p) i = Some s \<and> session_for es c s"
proof -
  have ok: "sessions_ok p" "calls_ok es p" using assms(1) by (simp_all add: pod_ok_def)
  obtain s where s: "map_of (po_sessions p) i = Some s" "\<not> ss_closed s" using ok(1) assms(2) by (auto simp: sessions_ok_def)
  then have so: "session_ok i s (po_world p)" using ok(1) by (simp add: sessions_ok_def)
  then obtain key where k: "ss_authKey s = Some key" using assms(2) by (auto simp: session_ok_def split: option.splits)
  have "\<exists>u d. c = ChannelUser u \<and> (ak_id key = 0 \<or> proven (po_world p) (ak_id key) u d)" using so k assms(2) by (simp add: session_ok_def)
  then obtain u d where "c = ChannelUser u" "ak_id key = 0 \<or> proven (po_world p) (ak_id key) u d" by blast
  then have "session_for es c s" using s(2) k proven_confirmed [OF ok(2)] by (simp add: session_for_def) blast
  then show ?thesis using s(1) by blast
qed

text \<open>C16. An update that arrives on a channel changes only open sessions that hold a key, and only if the channel is that of a user the
  auth service confirmed for this key, or the key was destroyed by its client.\<close>

theorem updates_reach_bound_sessions:
  "case map_of (po_sessions (pod_run lib cfg evs)) i of
     None \<Rightarrow> map_of (po_sessions (pod_run lib cfg (evs @ [Deliver c u]))) i = None
   | Some s \<Rightarrow> map_of (po_sessions (pod_run lib cfg (evs @ [Deliver c u]))) i = Some s \<or> session_for (run_envs evs) c s"
proof -
  let ?p = "pod_run lib cfg evs"
  have p: "pod_run lib cfg (evs @ [Deliver c u]) = dispatchUpdates cfg c u ?p" by (simp add: pod_run_def pod_step_def)
  have "map_of (po_sessions (dispatchUpdates cfg c u ?p)) i
      = map_option (\<lambda>s. if i \<in> set (registered (po_world ?p) c) then Enqueue cfg u s else s) (map_of (po_sessions ?p) i)"
    by (simp add: dispatchUpdates_def map_sessions)
  then show ?thesis unfolding p using registered_session_for [OF pod_ok_run, of i lib cfg evs c] by (auto split: option.split)
qed

section \<open>Reconnecting and destroying\<close>

text \<open>A key and its binding, once stored, give a new connection its identity for as long as the entry lives.  The auth service is
  not asked, and only the client itself deletes the entry: revoking the device does not.\<close>

theorem reconnect_resumes:
  assumes "authkey_wf key" and "\<not> ge_down e GSave" and "\<not> ge_down e GSaveBinding" and "\<not> ge_down e' GLoad" and "\<not> ge_down e' GLoadBinding"
    and "ms_of e' < ms_of e + session_ttl cfg"
  shows "case resume cfg e' i (ak_id key) (s, SaveBinding cfg e (ak_id key) b (snd (Store_Save cfg e key w))) of
     (err, s', w') \<Rightarrow> err = None \<and> ss_authKey s' = Some key \<and> ss_userID s' = bd_UserID b \<and> ss_deviceID s' = bd_DeviceID b"
proof -
  let ?w = "SaveBinding cfg e (ak_id key) b (snd (Store_Save cfg e key w))"
  have k: "NewAuthKey (ak_raw key) = Inr key" using assms(1) by (simp add: NewAuthKey_Inr_iff authkey_wf_def)
  have "live_entry (ms_of e') (gw_keys ?w) (keyAuth (ak_id key)) = Some (ak_raw key)"
    using assms by (simp add: live_entry_def SaveBinding_def Store_Save_def update_conv)
  then obtain w1 where l: "Store_Load cfg e' (ak_id key) ?w = (Some key, w1)" using assms(4) k by (simp add: Store_Load_def)
  have "gw_bindings w1 = gw_bindings ?w" using wcore_load [of cfg e' "ak_id key" ?w] l by (simp add: wcore_def)
  then have "live_entry (ms_of e') (gw_bindings w1) (keyBinding (ak_id key)) = Some b"
    using assms by (simp add: live_entry_def SaveBinding_def update_conv)
  then obtain w2 where b: "LoadBinding cfg e' (ak_id key) w1 = (Some b, w2)" using assms(5) by (simp add: LoadBinding_def)
  let ?s = "s\<lparr>ss_authKey := Some key, ss_userID := bd_UserID b, ss_deviceID := bd_DeviceID b\<rparr>"
  obtain a s2 w3 where at: "attachIdentity cfg e' i (bd_UserID b) (bd_DeviceID b) (?s, w2) = (a, s2, w3)"
    by (cases "attachIdentity cfg e' i (bd_UserID b) (bd_DeviceID b) (?s, w2)")
  then show ?thesis using l b attach_facts [OF at] by (simp add: resume_def Let_def)
qed

text \<open>What a new connection takes: every message in the window, whatever salt it carries and whether or not an earlier
  connection of the same key has seen it.\<close>

theorem fresh_connection_forgets:
  "fst (checkEnvelope lib e msg (NewSession cfg t ip kind))
   \<longleftrightarrow> MsgID msg AND 1 = 0 \<and> ge_now e - id_time (MsgID msg) \<le> 300 * second_ns \<and> id_time (MsgID msg) - ge_now e \<le> 30 * second_ns"
  by (auto simp: checkEnvelope_def NewSession_def Check_def NewMsgIDValidator_def)

text \<open>After a session is destroyed it stays open and registered, and an update it is sent is sealed with the wiped key: anybody
  can read it with 256 zero bytes.\<close>

theorem destroyed_session_leaks_updates:
  assumes "ss_authKey s = Some key" and "length (ak_raw key) = 256" and "gl_marshal lib (VUpdate u) = Some body"
    and "length body + 4 \<le> MaxMessageSize" and "\<And>j. 28 \<le> length (ge_pad e' j)" and "\<not> ge_down e' GWrite"
  shows "case handleDestroySession lib e (s, w) of (s', w') \<Rightarrow>
     gw_registry w' = gw_registry w \<and> ss_closed s' = ss_closed s
     \<and> (\<exists>frame m. ss_wire (snd (sendUpdate lib e' u s')) = ss_wire s' @ [frame]
          \<and> Decrypt \<lparr>ak_raw = replicate 256 0, ak_id = 0\<rparr> frame ServerToClient = Inr m \<and> Body m = put_le 4 (constructor_id CUpdate) @ body)"
proof -
  let ?k = "\<lparr>ak_raw = replicate 256 0, ak_id = 0\<rparr> :: AuthKey"
  obtain s' w' where h: "handleDestroySession lib e (s, w) = (s', w')" by (cases "handleDestroySession lib e (s, w)")
  have "Zero key = ?k" using assms(2) by (simp add: Zero_def map_replicate_const)
  then have "core s' = core (s\<lparr>ss_authKey := Some ?k\<rparr>)" and w: "gw_registry w' = gw_registry w"
    using h assms(1) by (auto simp: handleDestroySession_def Store_Delete_def)
  then have s: "ss_authKey s' = Some ?k" "ss_closed s' = ss_closed s" by (simp_all add: core_def)
  obtain i g where g: "MsgIDGenerator_Next (of_int (unix_of e')) KindFromServerResponse (ss_msgIDs s') = (i, g)"
    by (cases "MsgIDGenerator_Next (of_int (unix_of e')) KindFromServerResponse (ss_msgIDs s')")
  obtain q n where q: "SeqNo_Next True (ss_seqNo s') = (q, n)" by (cases "SeqNo_Next True (ss_seqNo s')")
  let ?b = "put_le 4 (constructor_id CUpdate) @ body"
  let ?m = "\<lparr>Salt = ss_salt s', SessionID = ss_sessionID s', MsgID = i, SeqNo = q, Body = ?b\<rparr>"
  have "length (Body ?m) \<le> MaxMessageSize" using assms(4) by simp
  then obtain frame where "Encrypt ?k ?m ServerToClient (ge_pad e' i) = Inr frame" and "Decrypt ?k frame ServerToClient = Inr ?m"
    using Encrypt_recovered assms(5) by blast
  then have "ss_wire (snd (sendUpdate lib e' u s')) = ss_wire s' @ [frame] \<and> Decrypt ?k frame ServerToClient = Inr ?m \<and> Body ?m = ?b"
    using s(1) g q assms(3,6) by (simp add: sendUpdate_def sendEncrypted_def Encode_def write_frame_def Let_def)
  then show ?thesis unfolding h using w s(2) by blast
qed

section \<open>With the auth service behind\<close>

text \<open>\<^verbatim>\<open>ResolveToken\<close> of the upstream, answered by the auth service in the state and environment the call meets.\<close>

definition auth_answers :: "auth_cfg \<Rightarrow> auth_env \<times> auth_world \<Rightarrow> resolveTokenRequest \<Rightarrow> call_error + resolveTokenResponse" where
  "auth_answers acfg met rq =
     map_sum (\<lambda>err. Answered (decodeUpstreamError (Httpx.Status err) '''' '''' 0 '''' None)) id (fst (handleResolveToken acfg (fst met) (Inr rq) (snd met)))"

fun event_with :: "(gw_env \<Rightarrow> gw_env) \<Rightarrow> gw_event \<Rightarrow> gw_event" where
  "event_with f (Connect e i ip kind) = Connect (f e) i ip kind"
| "event_with f (Frame e i frame) = Frame (f e) i frame"
| "event_with f (Written e i) = Written (f e) i"
| "event_with f (AckTick e i) = AckTick (f e) i"
| "event_with f (Beat e i) = Beat (f e) i"
| "event_with f (Rotate e i) = Rotate (f e) i"
| "event_with f (Deliver channel u) = Deliver channel u"
| "event_with f (DrainAll e) = DrainAll (f e)"
| "event_with f (Disconnect e i) = Disconnect (f e) i"

definition behind_auth :: "auth_cfg \<Rightarrow> (gw_env \<Rightarrow> auth_env \<times> auth_world) \<Rightarrow> gw_event list \<Rightarrow> gw_event list" where
  "behind_auth acfg met = map (event_with (\<lambda>e. e\<lparr>ge_resolve := auth_answers acfg (met e)\<rparr>))"

lemma run_envs_behind: "run_envs (behind_auth acfg met evs) = map (\<lambda>e. e\<lparr>ge_resolve := auth_answers acfg (met e)\<rparr>) (run_envs evs)"
proof -
  have "event_envs (event_with f ev) = map f (event_envs ev)" for f ev by (cases ev) simp_all
  then show ?thesis by (simp add: run_envs_def behind_auth_def map_concat comp_def)
qed

text \<open>What a user must have shown: an access token the auth service verified, of an account that is live and not banned.\<close>

definition signed_in :: "auth_cfg \<Rightarrow> auth_env \<times> auth_world \<Rightarrow> int \<Rightarrow> bool" where
  "signed_in acfg met u \<longleftrightarrow>
     (\<exists>tok claims user. Verify_token (ag_lib acfg) (ag_verifier acfg) (ax_now (fst met)) tok AccessToken = Inr claims \<and> tk_UserID claims = u
        \<and> Account_GetByID (au_tables (snd met)) u = Inr user \<and> \<not> us_Banned user)"

lemma auth_answers_signed_in:
  assumes "auth_answers acfg met rq = Inr r"
  shows "signed_in acfg met (rr_UserID r)"
proof -
  obtain ae aw where met: "met = (ae, aw)" by (cases met)
  have h: "fst (handleResolveToken acfg ae (Inr rq) aw) = Inr r"
    using assms met by (cases "fst (handleResolveToken acfg ae (Inr rq) aw)") (simp_all add: auth_answers_def)
  obtain claims where c: "Verify_token (ag_lib acfg) (ag_verifier acfg) (ax_now ae) (rt_AccessToken rq) AccessToken = Inr claims"
    using h by (auto simp: handleResolveToken_def split: sum.splits)
  obtain user where u: "Account_GetByID (au_tables aw) (tk_UserID claims) = Inr user" "\<not> ax_down ae AUserByID"
    using h c by (cases "Account_GetByID (au_tables aw) (tk_UserID claims)")
      (auto simp: handleResolveToken_def query_def and_then_def split: if_splits)
  have id: "us_ID user = tk_UserID claims" using u(1) by (auto simp: Account_GetByID_def dest: find_user_Inr)
  have "\<not> us_Banned user \<and> rr_UserID r = us_ID user"
    using h c u by (auto simp: handleResolveToken_def query_def and_then_def split: if_splits sum.splits prod.splits)
  then show ?thesis using c u id met unfolding signed_in_def by auto
qed


end
