(* ===== verification/Spec2Isabelle.thy ===== *)
theory Spec2Isabelle
  imports Framing Obfuscation Proof_Of_Work Udp_Transport Snowflake_Ids Chat_Gaps Platform Media_Processor Blocking Gateway_Pod
begin

text \<open>
  A verification library for the Go code of the messaging platform: the MTProto-style protocol its
  clients speak, the gateway that speaks it, the auth, chat and media services with the stores behind them, and the consumers that make
  messages durable and process media.  Source paths are relative to
  \<^verbatim>\<open>src/\<close>; theories are named in italics below only where they first appear.

  \<^bold>\<open>The program.\<close>  Clients hold an authorisation key with the gateway, agreed in a handshake, and send
  encrypted messages over TCP, WebSocket or UDP, framed and optionally obfuscated
  (\<^verbatim>\<open>pkg/mtproto\<close>).  The auth service (\<^verbatim>\<open>services/auth-service\<close>) has the accounts, signs in by a code sent to the phone and
  issues the tokens the others verify.  The gateway asks the chat service (\<^verbatim>\<open>services/chat-service\<close>), which authorises against
  Postgres and Redis, allocates a sequence per chat, publishes to Kafka and fans out over Redis; a
  consumer persists the messages in Cassandra, from which history and catch-up are read.

  \<^bold>\<open>Shared theories.\<close>  Go_Prelude holds bytes, byte order, Go's division and decimal numbers; Go_Text the
  string functions over UTF-8; Go_Crypto executable SHA-1, SHA-256, AES and CRC-32; Tables lemmas on
  association lists, which model tables and maps; Httpx the error codes and parameters of \<^verbatim>\<open>pkg/httpx\<close>.

  \<^bold>\<open>The protocol.\<close>
  \<^item> Ige, Auth_Key, Envelope, Msg_Ids: \<^verbatim>\<open>ige.go\<close>, \<^verbatim>\<open>keys.go\<close>, \<^verbatim>\<open>message.go\<close>.  Decryption inverts encryption and
    accepts exactly what was sealed; identifiers increase under any interleaving of callers; the
    replay window is bounded and refuses replays until it evicts.
  \<^item> Payload, Framing, Obfuscation: \<^verbatim>\<open>tl.go\<close>, \<^verbatim>\<open>codec/codec.go\<close>, \<^verbatim>\<open>codec/obfuscated.go\<close>.  Streams of frames round-trip
    through every framing and through the obfuscation; a locale states the contract of a framing and
    is interpreted for each.
  \<^item> Proof_Of_Work, Handshake: \<^verbatim>\<open>pq.go\<close>, \<^verbatim>\<open>handshake.go\<close>, \<^verbatim>\<open>handshake_types.go\<close>, \<^verbatim>\<open>handshake_client.go\<close>.  An honest run
    agrees on the key; the server answers in order, once, and derives keys only from safe values.
  \<^item> Udp_Transport: \<^verbatim>\<open>transport/udp.go\<close>.  Reassembly in any order, bounded memory, no address change without
    a challenge.
  \<^item> Snowflake_Ids: \<^verbatim>\<open>pkg/ids/ids.go\<close>.  Identifiers increase whatever the clock does; codes are uniform.

  \<^bold>\<open>The stores.\<close>  Events (\<^verbatim>\<open>pkg/events\<close>) is the message record.  Message_Store (\<^verbatim>\<open>pkg/cassandrax\<close>) is the record
  \<open>cass\<close> of the tables its statements touch, partitioned in buckets of 10000 messages; the locale
  \<open>clustered_table\<close> states what a clustered partition promises and carries the proofs of the two walks.
  Redis_Store (\<^verbatim>\<open>pkg/redisx\<close>) has the sequence allocator both as a function and as the steps of concurrent
  callers, the member cache and the bans.  Presence (\<^verbatim>\<open>pkg/redisx/presence.go\<close>) is who is connected where, with an expiry: an entry
  nobody refreshes is gone after its time to live.  Chat_Tables (\<^verbatim>\<open>pkg/pgstore\<close>) gives every SQL statement's effect on
  the record \<open>pg\<close>, with the invariant \<open>pg_ok\<close> and its preservation.  Rate_Limit (\<^verbatim>\<open>pkg/ratelimit\<close>) is the token
  bucket in exact rationals.  Audit_Chain (\<^verbatim>\<open>pkg/auditlog\<close>) is the hash chain and its verifiers.

  \<^bold>\<open>The chat service.\<close>  Chat_Authz is \<^verbatim>\<open>authz.go\<close> with the ranking it refines.  Chat_World is the state the handlers
  share (\<open>chat_world\<close>, the stores and topics), what a request meets outside (\<open>chat_env\<close>: the time, the backend
  calls that fail, the peers' answers, the identifiers drawn) and the helpers of \<^verbatim>\<open>service.go\<close>, \<^verbatim>\<open>blocks.go\<close>,
  \<^verbatim>\<open>region.go\<close>, \<^verbatim>\<open>audit.go\<close>.  Chat_Members and Chat_Messages are the handlers of \<^verbatim>\<open>chats.go\<close> and \<^verbatim>\<open>service.go\<close>, every error
  path included.  Chat_Service routes requests to them; the locale \<open>request_server\<close> turns an invariant of one
  request into one of any sequence of requests and is interpreted on \<open>serve\<close> with \<open>world_ok\<close>.  The theorems
  hold for any sequence of requests in which any calls fail.  Chat_Gaps evaluates runs in which the code does
  what its comments rule out.

  \<^bold>\<open>Accounts and sessions.\<close>  Accounts (\<^verbatim>\<open>pkg/pgstore/users.go\<close>, \<^verbatim>\<open>contacts.go\<close>) gives the statements on users, devices, codes,
  contacts and blocks, with the invariant \<open>accounts_ok\<close>; the two computations of a phone hash, in Go and in the query, agree.
  Authn (\<^verbatim>\<open>pkg/authn\<close>) issues and verifies tokens over a JWT library with the properties \<open>jwt_ok\<close>, which \<open>book_lib\<close> has: the
  two tokens of a session serve one purpose each.  Auth_Service (\<^verbatim>\<open>services/auth-service/internal\<close>) has the handlers and the
  routes; the locale \<open>table_property\<close> carries a property of the tables from the statements to the requests, and is interpreted
  for the invariant, the history of a challenge, of a revoked device and of a block.  Auth_Sessions proves, for any requests and
  failures, with sign-ins split where others may run in between, that a code buys one session, that a session takes the
  code, that guesses are bounded and that a revoked device stays out, and shows two runs in which knowing the auth key
  of a device gives more.  Blocking composes the auth and the chat service on their shared cache: a block holds from the next message
  on; and shows the interleaving of a lookup and a block in which it does not.

  \<^bold>\<open>The gateway.\<close>  Gateway (\<^verbatim>\<open>services/realtime-gateway/internal\<close>, the subscriptions of \<^verbatim>\<open>pkg/redisx/pubsub.go\<close>) has a session
  as a record and the rest of the pod as a world: handshake, resumption from the shared store, the checks of an envelope, the dispatch of
  messages and containers to the services, the writer, the timers and the registry of channels.  Its steps are events on a
  pod (\<open>pod_step\<close>): connections, frames, ticks, deliveries, draining.  Gateway_Sessions proves the invariant of a session through
  every one of them.  Gateway_Pod concludes that a call is made only for a user the auth service confirmed for the key of the
  frame, that, with the modelled auth service behind, this user showed a valid token, and that updates reach only such sessions; and
  shows what a revoked device, a replayed frame and a destroyed session still get.

  \<^bold>\<open>Consumers.\<close>  Kafka_Consumer (\<^verbatim>\<open>pkg/kafkax/consumer.go\<close>) is the loop that fetches, retries, dead-letters and commits,
  as turns over a log with a committed offset; the locale \<open>settled_handler\<close> states what a handler must promise for
  committed records to be accounted for.  Persister (\<^verbatim>\<open>services/consumers/persister\<close>) is the handler of accepted messages
  and interprets it.  Media_Processor (\<^verbatim>\<open>pkg/mediaproc\<close>, \<^verbatim>\<open>services/consumers/mediaproc\<close>) scans uploads and derives
  thumbnails and renditions: nothing is derived from an unscanned file, and every derivative is governed by the
  permissions of its original.

  \<^bold>\<open>Media.\<close>  Media_Paths (\<^verbatim>\<open>pkg/gcsx\<close>) has object paths and the key their permissions are recorded under;
  Media_Service (\<^verbatim>\<open>services/media-service\<close>, the table of \<^verbatim>\<open>pkg/cassandrax\<close>) the uploads and downloads: who gets a URL, and for
  what.

  \<^bold>\<open>The whole.\<close>  Platform runs the chat service, the media service and the persister on the same stores, in any
  interleaving of requests, fetches, failures and restarts: accepted messages whose records were committed are
  durable, and a lost sequence counter is reseeded past them.

  \<^bold>\<open>Bounds and fuel.\<close>  The loops of the source that may not end take what they consume as a list, and running out is
  the value \<open>None\<close>: clock readings for the snowflake generator, random bytes for codes and for the
  obfuscation header.  Pollard's rho carries the source's own step limit.  The history walk visits eight buckets, as
  the source does; the range walk is a terminating function.  Integers of the protocol are words of their
  width; database keys and sequences are \<open>int\<close>, since no operation on them overflows below \<open>2^62\<close>.

  \<^bold>\<open>Not modelled.\<close>  JSON and the drivers are arguments (\<open>cfg_marshal\<close>, \<open>cfg_decode\<close>) or are skipped: a request body is the
  decoded record or the error the decoder gave, a stored row is a record.  Goroutines a handler starts run at
  the end of its request; requests are atomic except in Redis_Store, where allocation is interleaved, and in
  Auth_Sessions, where sign-ins are.  bcrypt and the JWT library are parameters, the signatures ideal.
  Cloud Storage, clamd, ffmpeg and the image codecs answer as the environment of a request says; a partition of Kafka
  is a list of records.
  The goroutines of a session of the gateway take turns, and its HTTP calls answer as the environment says.  The call, search, push, presence and admin services with their consumers,
  the stream transports and the infrastructure packages are not modelled; reports and the data
  export of the chat service neither.
\<close>

end
